(* ===== verification/Prelude.thy ===== *)
theory Prelude
  imports Main "HOL-Library.Word"
begin

text \<open>
  Shared vocabulary of the development: bytes and machine integers, Rust's \<open>Result\<close> as a sum
  with its sequencing combinator, byte strings and their ASCII literals, big-endian integer
  encodings, decimal text, UTF-8 validity and the generic list lemmas the component theories use.
  The automation is collected in three \<^theory_text>\<open>named_theorems\<close>: \<open>result_simps\<close> opens the
  sequencing of fallible steps, \<open>byte_simps\<close> evaluates byte strings and their lengths, and
  \<open>limit_defs\<close> unfolds the numeric limits of the source.
\<close>

named_theorems result_simps "rewriting of fallible steps"
named_theorems byte_simps "byte strings, lengths, big-endian integers"
named_theorems limit_defs "the numeric limits of the source"

section \<open>Machine integers and byte strings\<close>

type_synonym u8 = "8 word"
type_synonym u16 = "16 word"
type_synonym u32 = "32 word"
type_synonym u64 = "64 word"
type_synonym bytes = "8 word list"

text \<open>A Rust \<open>str\<close> is the byte string of its UTF-8 encoding; \<open>ascii\<close> reads a literal.\<close>

definition ascii :: "string \<Rightarrow> bytes" where
  "ascii s = map of_char s"

lemma ascii_Nil [byte_simps]: "ascii [] = []"
  by (simp add: ascii_def)

lemma ascii_Cons [byte_simps]: "ascii (c # s) = of_char c # ascii s"
  by (simp add: ascii_def)

lemma length_ascii [simp]: "length (ascii s) = length s"
  by (simp add: ascii_def)

definition is_ascii_digit :: "u8 \<Rightarrow> bool" where
  "is_ascii_digit b \<longleftrightarrow> 48 \<le> b \<and> b \<le> 57"

definition is_ascii_lowercase :: "u8 \<Rightarrow> bool" where
  "is_ascii_lowercase b \<longleftrightarrow> 97 \<le> b \<and> b \<le> 122"

definition is_ascii_uppercase :: "u8 \<Rightarrow> bool" where
  "is_ascii_uppercase b \<longleftrightarrow> 65 \<le> b \<and> b \<le> 90"

definition is_ascii_alphanumeric :: "u8 \<Rightarrow> bool" where
  "is_ascii_alphanumeric b \<longleftrightarrow> is_ascii_digit b \<or> is_ascii_lowercase b \<or> is_ascii_uppercase b"

definition is_ascii :: "bytes \<Rightarrow> bool" where
  "is_ascii s \<longleftrightarrow> list_all (\<lambda>b. b < 128) s"

lemma is_ascii_alphanumeric_ascii: "is_ascii_alphanumeric b \<Longrightarrow> b < 128"
  unfolding is_ascii_alphanumeric_def is_ascii_digit_def is_ascii_lowercase_def is_ascii_uppercase_def
  by (auto intro: order_le_less_trans)

section \<open>Fallible steps\<close>

text \<open>
  A \<open>Result<T, E>\<close> is the sum \<open>'e + 'a\<close> with \<open>Inl\<close> for \<open>Err\<close>. \<open>bind_result\<close> is the \<open>?\<close>
  operator, \<open>ensure\<close> an early return guarded by a condition, \<open>map_err\<close> and \<open>ok_or\<close> are the
  methods of the standard library with the same names.
\<close>

definition bind_result :: "'e + 'a \<Rightarrow> ('a \<Rightarrow> 'e + 'b) \<Rightarrow> 'e + 'b" where
  "bind_result r f = (case r of Inl e \<Rightarrow> Inl e | Inr a \<Rightarrow> f a)"

definition ensure :: "bool \<Rightarrow> 'e \<Rightarrow> 'e + unit" where
  "ensure c e = (if c then Inr () else Inl e)"

definition map_err :: "('e \<Rightarrow> 'f) \<Rightarrow> 'e + 'a \<Rightarrow> 'f + 'a" where
  "map_err g r = (case r of Inl e \<Rightarrow> Inl (g e) | Inr a \<Rightarrow> Inr a)"

definition ok_or :: "'a option \<Rightarrow> 'e \<Rightarrow> 'e + 'a" where
  "ok_or x e = (case x of None \<Rightarrow> Inl e | Some a \<Rightarrow> Inr a)"

definition result_ok :: "'e + 'a \<Rightarrow> 'a option" where
  "result_ok r = (case r of Inl _ \<Rightarrow> None | Inr a \<Rightarrow> Some a)"

definition is_ok :: "'e + 'a \<Rightarrow> bool" where
  "is_ok r = (case r of Inl _ \<Rightarrow> False | Inr _ \<Rightarrow> True)"

lemma bind_result_Inl [simp, result_simps]: "bind_result (Inl e) f = Inl e"
  by (simp add: bind_result_def)

lemma bind_result_Inr [simp, result_simps]: "bind_result (Inr a) f = f a"
  by (simp add: bind_result_def)

lemma bind_result_eq_Inr [result_simps]:
  "bind_result r f = Inr b \<longleftrightarrow> (\<exists>a. r = Inr a \<and> f a = Inr b)"
  by (cases r) (simp_all add: bind_result_def)

lemma bind_result_eq_Inl [result_simps]:
  "bind_result r f = Inl e \<longleftrightarrow> r = Inl e \<or> (\<exists>a. r = Inr a \<and> f a = Inl e)"
  by (cases r) (simp_all add: bind_result_def)

lemma bind_result_Inr_E [elim!]:
  assumes "bind_result r f = Inr b"
  obtains a where "r = Inr a" and "f a = Inr b"
  using assms by (auto simp: bind_result_eq_Inr)

lemma ensure_eq_Inr [simp, result_simps]: "ensure c e = Inr u \<longleftrightarrow> c"
  by (simp add: ensure_def)

lemma ensure_eq_Inl [simp, result_simps]: "ensure c e = Inl e' \<longleftrightarrow> \<not> c \<and> e' = e"
  by (auto simp: ensure_def)

lemma ensure_True [simp]: "ensure True e = Inr ()"
  by (simp add: ensure_def)

lemma ensure_False [simp]: "ensure False e = Inl e"
  by (simp add: ensure_def)

lemma map_err_eq_Inr [simp, result_simps]: "map_err g r = Inr a \<longleftrightarrow> r = Inr a"
  by (cases r) (simp_all add: map_err_def)

lemma map_err_eq_Inl [result_simps]: "map_err g r = Inl f \<longleftrightarrow> (\<exists>e. r = Inl e \<and> f = g e)"
  by (cases r) (auto simp: map_err_def)

lemma map_err_simps [simp]: "map_err g (Inl e) = Inl (g e)" "map_err g (Inr a) = Inr a"
  by (simp_all add: map_err_def)

lemma ok_or_eq_Inr [simp, result_simps]: "ok_or x e = Inr a \<longleftrightarrow> x = Some a"
  by (cases x) (simp_all add: ok_or_def)

lemma ok_or_eq_Inl [simp, result_simps]: "ok_or x e = Inl e' \<longleftrightarrow> x = None \<and> e' = e"
  by (cases x) (auto simp: ok_or_def)

lemma ok_or_simps [simp]: "ok_or None e = Inl e" "ok_or (Some a) e = Inr a"
  by (simp_all add: ok_or_def)

lemma result_ok_eq_Some [simp]: "result_ok r = Some a \<longleftrightarrow> r = Inr a"
  by (cases r) (simp_all add: result_ok_def)

lemma result_ok_eq_None [simp]: "result_ok r = None \<longleftrightarrow> (\<exists>e. r = Inl e)"
  by (cases r) (simp_all add: result_ok_def)

lemma result_ok_simps [simp]: "result_ok (Inl e) = None" "result_ok (Inr a) = Some a"
  by (simp_all add: result_ok_def)

lemma is_ok_simps [simp]: "is_ok (Inl e) = False" "is_ok (Inr a) = True"
  by (simp_all add: is_ok_def)

lemma is_ok_iff: "is_ok r \<longleftrightarrow> (\<exists>a. r = Inr a)"
  by (cases r) simp_all

text \<open>A loop over a list that stops at its first error.\<close>

fun map_result :: "('a \<Rightarrow> 'e + 'b) \<Rightarrow> 'a list \<Rightarrow> 'e + 'b list" where
  "map_result f [] = Inr []"
| "map_result f (x # xs) = bind_result (f x) (\<lambda>y. bind_result (map_result f xs) (\<lambda>ys. Inr (y # ys)))"

lemma map_result_eq_Inr: "map_result f xs = Inr ys \<longleftrightarrow> list_all2 (\<lambda>x y. f x = Inr y) xs ys"
proof (induction xs arbitrary: ys)
  case Nil
  then show ?case by auto
next
  case (Cons x xs)
  then show ?case by (cases ys) (auto simp: bind_result_eq_Inr)
qed

lemma map_result_Inr_map:
  "(\<And>x. x \<in> set xs \<Longrightarrow> f (g x) = Inr (h x)) \<Longrightarrow> map_result f (map g xs) = Inr (map h xs)"
  by (induction xs) simp_all

section \<open>Big-endian integers\<close>

text \<open>\<open>be_bytes k n\<close> is the \<open>k\<close> low bytes of \<open>n\<close>, most significant first; \<open>be_nat\<close> reads them back.\<close>

primrec be_bytes :: "nat \<Rightarrow> nat \<Rightarrow> bytes" where
  "be_bytes 0 n = []"
| "be_bytes (Suc k) n = word_of_nat (n div 256 ^ k) # be_bytes k n"

fun be_nat :: "bytes \<Rightarrow> nat" where
  "be_nat [] = 0"
| "be_nat (b # bs) = unat b * 256 ^ length bs + be_nat bs"

lemma length_be_bytes [simp, byte_simps]: "length (be_bytes k n) = k"
  by (induction k) simp_all

lemma unat_u8_bound: "unat (b :: u8) < 256"
  using unsigned_less [of b, where 'a = nat] by simp

lemma unat_u8_of_nat: "unat (word_of_nat n :: u8) = n mod 256"
  by (simp add: unat_of_nat)

lemma be_nat_bound: "be_nat bs < 256 ^ length bs"
proof (induction bs)
  case Nil
  then show ?case by simp
next
  case (Cons b bs)
  have "unat b * 256 ^ length bs + be_nat bs < (unat b + 1) * 256 ^ length bs"
    using Cons.IH by simp
  also have "\<dots> \<le> 256 * 256 ^ length bs"
    using unat_u8_bound [of b] by (intro mult_right_mono) simp_all
  finally show ?case by simp
qed

lemma be_nat_be_bytes [simp, byte_simps]: "be_nat (be_bytes k n) = n mod 256 ^ k"
proof (induction k)
  case 0
  then show ?case by simp
next
  case (Suc k)
  have "n mod (256 ^ k * 256) = 256 ^ k * (n div 256 ^ k mod 256) + n mod 256 ^ k"
    by (rule mod_mult2_eq)
  then show ?case using Suc by (simp add: unat_u8_of_nat algebra_simps)
qed

lemma be_bytes_cong: "n mod 256 ^ k = m mod 256 ^ k \<Longrightarrow> be_bytes k n = be_bytes k m"
proof (induction k)
  case 0
  then show ?case by simp
next
  case (Suc k)
  have low: "n mod 256 ^ k = m mod 256 ^ k"
    using arg_cong [OF Suc.prems, of "\<lambda>x. x mod 256 ^ k"] by (simp add: mod_mod_cancel)
  have "n div 256 ^ k mod 256 = m div 256 ^ k mod 256"
    using Suc.prems low mod_mult2_eq [of n "256 ^ k" 256] mod_mult2_eq [of m "256 ^ k" 256]
    by (simp add: algebra_simps)
  then have "(word_of_nat (n div 256 ^ k) :: u8) = word_of_nat (m div 256 ^ k)"
    by (intro unsigned_word_eqI [where 'a = nat]) (simp add: unat_u8_of_nat)
  then show ?case using Suc.IH [OF low] by simp
qed

lemma be_bytes_be_nat [simp]: "be_bytes (length bs) (be_nat bs) = bs"
proof (induction bs)
  case Nil
  then show ?case by simp
next
  case (Cons b bs)
  have "be_bytes (length bs) (unat b * 256 ^ length bs + be_nat bs) = be_bytes (length bs) (be_nat bs)"
    by (rule be_bytes_cong) simp
  moreover have "(unat b * 256 ^ length bs + be_nat bs) div 256 ^ length bs = unat b"
    using be_nat_bound [of bs] by simp
  ultimately show ?case using Cons by simp
qed

lemma be_bytes_inject:
  "be_bytes k n = be_bytes k m \<longleftrightarrow> n mod 256 ^ k = m mod 256 ^ k"
  using be_bytes_cong be_nat_be_bytes by metis

definition to_be_bytes :: "'a::len word \<Rightarrow> bytes" where
  "to_be_bytes w = be_bytes (LENGTH('a) div 8) (unat w)"

definition from_be_bytes :: "bytes \<Rightarrow> 'a::len word" where
  "from_be_bytes bs = word_of_nat (be_nat bs)"

lemma length_to_be_bytes [simp, byte_simps]: "length (to_be_bytes (w :: 'a::len word)) = LENGTH('a) div 8"
  by (simp add: to_be_bytes_def)

lemma from_to_be_bytes:
  assumes "8 dvd LENGTH('a)"
  shows "from_be_bytes (to_be_bytes (w :: 'a::len word)) = w"
proof -
  obtain k where k: "LENGTH('a) = 8 * k" using assms by (auto elim: dvdE)
  have "(256 :: nat) ^ k = 2 ^ LENGTH('a)" by (simp add: k power_mult)
  then have "unat w mod 256 ^ k = unat w"
    using unsigned_less [of w, where 'a = nat] by simp
  then show ?thesis by (simp add: from_be_bytes_def to_be_bytes_def k)
qed

lemma to_from_be_bytes:
  assumes "8 dvd LENGTH('a)" and "length bs = LENGTH('a) div 8"
  shows "to_be_bytes (from_be_bytes bs :: 'a::len word) = bs"
proof -
  have "(256 :: nat) ^ length bs = 2 ^ LENGTH('a)"
    using assms by (auto elim!: dvdE simp: power_mult)
  then have "unat (word_of_nat (be_nat bs) :: 'a word) = be_nat bs"
    using be_nat_bound [of bs] by (simp add: unat_of_nat)
  then show ?thesis
    using be_bytes_be_nat [of bs] assms(2) by (simp add: to_be_bytes_def from_be_bytes_def)
qed

lemma unat_from_be_bytes:
  "256 ^ length bs \<le> (2 :: nat) ^ LENGTH('a) \<Longrightarrow> unat (from_be_bytes bs :: 'a::len word) = be_nat bs"
  using be_nat_bound [of bs] by (simp add: from_be_bytes_def unat_of_nat)


section \<open>Decimal text\<close>

text \<open>\<open>dec_text\<close> is the \<open>Display\<close> of an unsigned integer (and SQL's \<open>CAST(n AS TEXT)\<close>);
  \<open>parse_uint m\<close> is \<open>str::parse\<close> for an unsigned type with maximum \<open>m\<close>.\<close>

function dec_text :: "nat \<Rightarrow> bytes" where
  "dec_text n = (if n < 10 then [word_of_nat (48 + n)] else dec_text (n div 10) @ [word_of_nat (48 + n mod 10)])"
  by pat_completeness auto
termination
  by (relation "measure id") auto

declare dec_text.simps [simp del]

fun parse_digits :: "nat \<Rightarrow> nat \<Rightarrow> bytes \<Rightarrow> nat option" where
  "parse_digits m acc [] = Some acc"
| "parse_digits m acc (b # bs) =
     (if is_ascii_digit b
      then let v = acc * 10 + (unat b - 48) in if v \<le> m then parse_digits m v bs else None
      else None)"

definition parse_uint :: "nat \<Rightarrow> bytes \<Rightarrow> nat option" where
  "parse_uint m s =
     (case s of [] \<Rightarrow> None
      | b # bs \<Rightarrow> if b = 43 then (if bs = [] then None else parse_digits m 0 bs) else parse_digits m 0 s)"

lemma digit_word: "d < 10 \<Longrightarrow> unat (48 + word_of_nat d :: u8) = 48 + d"
  using unat_u8_of_nat [of "48 + d"] by simp

lemma digit_is_digit: "d < 10 \<Longrightarrow> is_ascii_digit (48 + word_of_nat d)"
  using digit_word [of d] by (simp add: is_ascii_digit_def word_le_nat_alt)

lemma dec_text_digits: "b \<in> set (dec_text n) \<Longrightarrow> is_ascii_digit b"
proof (induction n rule: dec_text.induct)
  case (1 n)
  show ?case
  proof (cases "n < 10")
    case True
    then show ?thesis using 1 digit_is_digit [of n] by (simp add: dec_text.simps [of n])
  next
    case False
    then have "b \<in> set (dec_text (n div 10)) \<or> b = 48 + word_of_nat (n mod 10)"
      using "1.prems" by (auto simp: dec_text.simps [of n])
    then show ?thesis using 1 False digit_is_digit [of "n mod 10"] by auto
  qed
qed

lemma dec_text_nonempty [simp]: "dec_text n \<noteq> []"
  by (simp add: dec_text.simps [of n])

lemma parse_digits_append:
  "parse_digits m acc (xs @ ys) =
     (case parse_digits m acc xs of None \<Rightarrow> None | Some v \<Rightarrow> parse_digits m v ys)"
  by (induction m acc xs rule: parse_digits.induct) (simp_all add: Let_def)

lemma parse_digits_dec_text: "n \<le> m \<Longrightarrow> parse_digits m 0 (dec_text n) = Some n"
proof (induction n rule: dec_text.induct)
  case (1 n)
  show ?case
  proof (cases "n < 10")
    case True
    then show ?thesis
      using "1.prems" digit_is_digit [of n] digit_word [of n] by (simp add: dec_text.simps [of n])
  next
    case False
    then have "parse_digits m 0 (dec_text (n div 10)) = Some (n div 10)"
      using 1 by simp
    then show ?thesis
      using False "1.prems" digit_is_digit [of "n mod 10"] digit_word [of "n mod 10"]
      by (simp add: dec_text.simps [of n] parse_digits_append)
  qed
qed

lemma parse_uint_dec_text: "n \<le> m \<Longrightarrow> parse_uint m (dec_text n) = Some n"
proof -
  assume le: "n \<le> m"
  obtain b bs where b: "dec_text n = b # bs" by (cases "dec_text n") simp_all
  have "is_ascii_digit b" using dec_text_digits [of b n] b by simp
  then have "b \<noteq> 43" by (auto simp: is_ascii_digit_def)
  then show ?thesis using parse_digits_dec_text [OF le] by (simp add: parse_uint_def b)
qed

lemma parse_digits_bound: "parse_digits m acc bs = Some v \<Longrightarrow> acc \<le> m \<Longrightarrow> v \<le> m"
  by (induction m acc bs rule: parse_digits.induct) (auto simp: Let_def split: if_splits)

lemma parse_uint_bound: "parse_uint m bs = Some v \<Longrightarrow> v \<le> m"
  unfolding parse_uint_def
  by (cases bs) (auto simp del: parse_digits.simps split: if_splits dest: parse_digits_bound)

lemma dec_text_inject: "dec_text n = dec_text k \<longleftrightarrow> n = k"
  by (metis option.inject parse_uint_dec_text max.cobounded1 max.cobounded2)

lemma digit_value: "is_ascii_digit b \<Longrightarrow> b = word_of_nat (48 + (unat b - 48)) \<and> unat b - 48 < 10"
proof -
  assume "is_ascii_digit b"
  then have "48 \<le> unat b" "unat b < 58" by (simp_all add: is_ascii_digit_def word_le_nat_alt)
  then show ?thesis by simp
qed

lemma dec_text_of_digits:
  "parse_digits m 0 ds = Some n \<Longrightarrow> ds \<noteq> [] \<Longrightarrow> \<not> (length ds > 1 \<and> hd ds = 48) \<Longrightarrow> dec_text n = ds"
proof (induction ds arbitrary: n rule: rev_induct)
  case (snoc x xs)
  from snoc.prems(1) obtain v where v: "parse_digits m 0 xs = Some v" and d: "is_ascii_digit x"
    and n: "n = v * 10 + (unat x - 48)"
    by (auto simp: parse_digits_append Let_def split: option.splits if_splits)
  note x = digit_value [OF d]
  show ?case
  proof (cases "xs = []")
    case True
    then have "n < 10" "word_of_nat (48 + n) = x" using v n x by (simp, metis conjunct1 x add_0 mult_0 parse_digits.simps(1) option.inject n)
    then show ?thesis using True by (simp add: dec_text.simps [of n])
  next
    case False
    then have v': "dec_text v = xs" using snoc.IH [OF v] snoc.prems(3) by (cases xs) auto
    then have "v \<noteq> 0" using snoc.prems(3) False by (cases v) (auto simp: dec_text.simps [of 0])
    then have "\<not> n < 10" "n div 10 = v" "word_of_nat (48 + n mod 10) = x" using n x by auto
    then show ?thesis using v' by (simp add: dec_text.simps [of n])
  qed
qed simp

section \<open>UTF-8\<close>

text \<open>The well-formed byte sequences accepted by \<open>std::str::from_utf8\<close>.\<close>

definition is_cont :: "u8 \<Rightarrow> bool" where
  "is_cont b \<longleftrightarrow> 128 \<le> b \<and> b \<le> 191"

fun utf8_valid :: "bytes \<Rightarrow> bool" where
  "utf8_valid [] = True"
| "utf8_valid (b # bs) =
     (if b < 128 then utf8_valid bs
      else if 194 \<le> b \<and> b \<le> 223 then
        (case bs of c # r \<Rightarrow> is_cont c \<and> utf8_valid r | _ \<Rightarrow> False)
      else if 224 \<le> b \<and> b \<le> 239 then
        (case bs of c # d # r \<Rightarrow>
           (if b = 224 then 160 \<le> c \<and> c \<le> 191 else if b = 237 then 128 \<le> c \<and> c \<le> 159 else is_cont c)
           \<and> is_cont d \<and> utf8_valid r
         | _ \<Rightarrow> False)
      else if 240 \<le> b \<and> b \<le> 244 then
        (case bs of c # d # e # r \<Rightarrow>
           (if b = 240 then 144 \<le> c \<and> c \<le> 191 else if b = 244 then 128 \<le> c \<and> c \<le> 143 else is_cont c)
           \<and> is_cont d \<and> is_cont e \<and> utf8_valid r
         | _ \<Rightarrow> False)
      else False)"

lemma ascii_utf8_valid: "is_ascii s \<Longrightarrow> utf8_valid s"
  by (induction s) (simp_all add: is_ascii_def)

section \<open>Lists\<close>

lemma take_append_exact [simp]: "length xs = n \<Longrightarrow> take n (xs @ ys) = xs"
  by simp

lemma drop_append_exact [simp]: "length xs = n \<Longrightarrow> drop n (xs @ ys) = ys"
  by simp


section \<open>Canonical codecs\<close>

text \<open>
  The contract every strict parser of the repository has with its printer: the parser accepts
  exactly the texts the printer writes for well-formed values, so a value has one text and a text
  one value. Each parser is an instance, and its users rely on the lemmas below.
\<close>

locale canonical_codec =
  fixes encode :: "'a \<Rightarrow> 'e + 'b"
    and decode :: "'b \<Rightarrow> 'f + 'a"
    and ok :: "'a \<Rightarrow> bool"
  assumes decode_iff: "decode b = Inr x \<longleftrightarrow> ok x \<and> encode x = Inr b"
begin

lemma decode_encode: "ok x \<Longrightarrow> encode x = Inr b \<Longrightarrow> decode b = Inr x"
  by (simp add: decode_iff)

lemma encode_decode: "decode b = Inr x \<Longrightarrow> encode x = Inr b"
  by (simp add: decode_iff)

lemma decode_ok: "decode b = Inr x \<Longrightarrow> ok x"
  by (simp add: decode_iff)

lemma decode_inject: "decode b = Inr x \<Longrightarrow> decode c = Inr x \<Longrightarrow> b = c"
  by (simp add: decode_iff)

lemma encode_inject: "ok x \<Longrightarrow> ok y \<Longrightarrow> encode x = Inr b \<Longrightarrow> encode y = Inr b \<Longrightarrow> x = y"
  by (metis decode_encode sum.inject(2))

lemma decode_rejects: "(\<exists>e. decode b = Inl e) \<longleftrightarrow> (\<nexists>x. ok x \<and> encode x = Inr b)"
  by (metis decode_iff sum.exhaust Inl_Inr_False)

end

end
