(* ===== verification/Limits.thy ===== *)
theory Limits
  imports Prelude
begin

text \<open>The numeric limits of \<open>session-sync-protocol/src/limits.rs\<close> and the host label grammar.\<close>

definition IDENTIFIER_TEXT_LEN :: nat where [limit_defs]: "IDENTIFIER_TEXT_LEN = 22"
definition SECRET_TEXT_LEN :: nat where [limit_defs]: "SECRET_TEXT_LEN = 43"
definition NONCE_BYTES :: nat where [limit_defs]: "NONCE_BYTES = 24"
definition MAX_HOST_LABEL_BYTES :: nat where [limit_defs]: "MAX_HOST_LABEL_BYTES = 64"
definition MAX_ENDPOINT_TICKET_BYTES :: nat where [limit_defs]: "MAX_ENDPOINT_TICKET_BYTES = 4096"
definition MAX_HOST_ACCESS_DESCRIPTOR_BYTES :: nat where
  [limit_defs]: "MAX_HOST_ACCESS_DESCRIPTOR_BYTES = 65536"
definition MAX_CIPHERTEXT_BYTES :: nat where [limit_defs]: "MAX_CIPHERTEXT_BYTES = 65792"
definition MAX_CIPHERTEXT_TEXT_LEN :: nat where
  [limit_defs]: "MAX_CIPHERTEXT_TEXT_LEN = (MAX_CIPHERTEXT_BYTES * 4 + 2) div 3"
definition MAX_API_BODY_BYTES :: nat where [limit_defs]: "MAX_API_BODY_BYTES = 98304"
definition MAX_BUNDLE_BYTES :: nat where [limit_defs]: "MAX_BUNDLE_BYTES = 768"
definition MAX_BUNDLE_ENCODED_BYTES :: nat where
  [limit_defs]: "MAX_BUNDLE_ENCODED_BYTES = (MAX_BUNDLE_BYTES * 4 + 2) div 3"
definition MAX_LIVE_RECORDS :: nat where [limit_defs]: "MAX_LIVE_RECORDS = 128"
definition I64_MAX :: nat where [limit_defs]: "I64_MAX = 9223372036854775807"
definition U64_MAX :: nat where [limit_defs]: "U64_MAX = 18446744073709551615"

definition validate_host_label :: "bytes \<Rightarrow> bool" where
  "validate_host_label value \<longleftrightarrow>
     value \<noteq> [] \<and> length value \<le> MAX_HOST_LABEL_BYTES \<and> is_ascii_alphanumeric (value ! 0)
     \<and> list_all (\<lambda>byte. is_ascii_alphanumeric byte \<or> byte = 46 \<or> byte = 95 \<or> byte = 45) value"

lemma validate_host_label_ascii: "validate_host_label s \<Longrightarrow> is_ascii s"
  by (auto simp: validate_host_label_def is_ascii_def list_all_iff dest: is_ascii_alphanumeric_ascii)

lemma validate_host_label_length: "validate_host_label s \<Longrightarrow> 0 < length s \<and> length s \<le> 64"
  by (auto simp: validate_host_label_def limit_defs)

end
