(* ===== verification/Canonical.thy ===== *)
theory Canonical
  imports Limits
begin

unbundle bit_operations_syntax

text \<open>
  \<open>session-sync-protocol/src/canonical.rs\<close>: the host access descriptor, its validation, and its
  canonical binary encoding (a definite-length CBOR map with integer keys 1 to 7) with the strict
  decoder. The decoder is a cursor (\<open>input\<close>, \<open>position\<close>) threaded through every read, as in the
  source. The main results are that \<open>head\<close> accepts exactly the shortest-form heads \<open>put_head\<close>
  writes, that decoding inverts encoding, and that every accepted input is the canonical encoding
  of a valid descriptor.

  Code outside the repository is the \<open>platform\<close> record: the endpoint ticket type of
  \<open>iroh-tickets\<close> and the range of whole seconds \<open>chrono\<close> can represent. An instant is given by
  \<open>timestamp\<close> and \<open>timestamp_subsec_nanos\<close>, which determine a \<open>DateTime<Utc>\<close>.
\<close>

record 'ticket platform =
  ticket_from_str :: "bytes \<Rightarrow> 'ticket option"
  ticket_to_string :: "'ticket \<Rightarrow> bytes"
  ticket_id :: "'ticket \<Rightarrow> bytes"
  representable :: "int \<Rightarrow> bool"

record datetime =
  secs :: int
  nanos :: nat

definition nanos_of :: "datetime \<Rightarrow> int" where
  "nanos_of t = secs t * 1000000000 + int (nanos t)"

section \<open>Descriptors and their validation\<close>

datatype HostAccessError =
  Malformed | NonCanonical | Limit | InvalidField | Endpoint | Expired | Decryption | NonceReuse

record AttachedVersion =
  major :: u16
  minor :: u16
  patch :: u16

record HostAccessDescriptor =
  host_label :: bytes
  issued_at :: datetime
  expires_at :: datetime
  endpoint_ticket :: bytes
  attach_capability :: bytes
  attached_version :: AttachedVersion
  ssh_enabled :: bool

definition MIN_DESCRIPTOR_LIFETIME :: int where
  [limit_defs]: "MIN_DESCRIPTOR_LIFETIME = 60 * 1000000000"

definition MAX_DESCRIPTOR_LIFETIME :: int where
  [limit_defs]: "MAX_DESCRIPTOR_LIFETIME = 900 * 1000000000"

definition validate :: "'ticket platform \<Rightarrow> HostAccessDescriptor \<Rightarrow> HostAccessError + unit" where
  "validate P d =
     (if \<not> validate_host_label (host_label d) \<or> secs (issued_at d) < 0 \<or> secs (expires_at d) < 0
         \<or> nanos (issued_at d) \<noteq> 0 \<or> nanos (expires_at d) \<noteq> 0
         \<or> nanos_of (expires_at d) \<le> nanos_of (issued_at d)
      then Inl InvalidField
      else let lifetime = nanos_of (expires_at d) - nanos_of (issued_at d) in
        if lifetime < 0 then Inl InvalidField
        else if \<not> (MIN_DESCRIPTOR_LIFETIME \<le> lifetime \<and> lifetime \<le> MAX_DESCRIPTOR_LIFETIME)
        then Inl InvalidField
        else if endpoint_ticket d = [] \<or> length (endpoint_ticket d) > MAX_ENDPOINT_TICKET_BYTES
          \<or> \<not> is_ascii (endpoint_ticket d)
        then Inl Limit
        else case ticket_from_str P (endpoint_ticket d) of
          None \<Rightarrow> Inl Endpoint
        | Some ticket \<Rightarrow>
            if ticket_to_string P ticket \<noteq> endpoint_ticket d then Inl Endpoint else Inr ())"

definition new_descriptor ::
  "'ticket platform \<Rightarrow> bytes \<Rightarrow> datetime \<Rightarrow> datetime \<Rightarrow> bytes \<Rightarrow> bytes \<Rightarrow> AttachedVersion \<Rightarrow> bool
     \<Rightarrow> HostAccessError + HostAccessDescriptor" where
  "new_descriptor P label issued expires ticket capability version ssh =
     (let descriptor = \<lparr>host_label = label, issued_at = issued, expires_at = expires,
            endpoint_ticket = ticket, attach_capability = capability, attached_version = version,
            ssh_enabled = ssh\<rparr>
      in bind_result (validate P descriptor) (\<lambda>_. Inr descriptor))"

text \<open>The endpoint identity of a validated descriptor; \<open>None\<close> is the \<open>expect\<close> panic.\<close>

definition endpoint_identity :: "'ticket platform \<Rightarrow> HostAccessDescriptor \<Rightarrow> bytes option" where
  "endpoint_identity P d = map_option (ticket_id P) (ticket_from_str P (endpoint_ticket d))"

section \<open>Encoding\<close>

definition put_head :: "u8 \<Rightarrow> u64 \<Rightarrow> bytes" where
  "put_head maj value =
     (if value \<le> 23 then [push_bit 5 maj OR ucast value]
      else if value \<le> 255 then [push_bit 5 maj OR 24, ucast value]
      else if value \<le> 65535 then (push_bit 5 maj OR 25) # to_be_bytes (ucast value :: u16)
      else if value \<le> 4294967295 then (push_bit 5 maj OR 26) # to_be_bytes (ucast value :: u32)
      else (push_bit 5 maj OR 27) # to_be_bytes value)"

definition put_uint :: "u64 \<Rightarrow> bytes" where
  "put_uint value = put_head 0 value"

definition put_bytes :: "bytes \<Rightarrow> bytes" where
  "put_bytes value = put_head 2 (word_of_nat (length value)) @ value"

definition put_text :: "bytes \<Rightarrow> bytes" where
  "put_text value = put_head 3 (word_of_nat (length value)) @ value"

definition unix_seconds :: "datetime \<Rightarrow> HostAccessError + u64" where
  "unix_seconds t = (if 0 \<le> secs t then Inr (word_of_int (secs t)) else Inl InvalidField)"

definition encode_host_access_descriptor ::
  "'ticket platform \<Rightarrow> HostAccessDescriptor \<Rightarrow> HostAccessError + bytes" where
  "encode_host_access_descriptor P d =
     bind_result (validate P d) (\<lambda>_.
     bind_result (unix_seconds (issued_at d)) (\<lambda>issued.
     bind_result (unix_seconds (expires_at d)) (\<lambda>expires.
       let out = put_head 5 7
           @ put_uint 1 @ put_text (host_label d)
           @ put_uint 2 @ put_uint issued
           @ put_uint 3 @ put_uint expires
           @ put_uint 4 @ put_text (endpoint_ticket d)
           @ put_uint 5 @ put_bytes (attach_capability d)
           @ put_uint 6 @ put_head 4 3
           @ put_uint (ucast (major (attached_version d)))
           @ put_uint (ucast (minor (attached_version d)))
           @ put_uint (ucast (patch (attached_version d)))
           @ put_uint 7 @ [if ssh_enabled d then 0xf5 else 0xf4]
       in if length out > MAX_HOST_ACCESS_DESCRIPTOR_BYTES then Inl Limit else Inr out)))"

section \<open>The decoder\<close>

record decoder =
  input :: bytes
  position :: nat

type_synonym 'a read = "decoder \<Rightarrow> HostAccessError + 'a \<times> decoder"

definition then_read :: "'a read \<Rightarrow> ('a \<Rightarrow> 'b read) \<Rightarrow> 'b read" where
  "then_read m f = (\<lambda>d. case m d of Inl e \<Rightarrow> Inl e | Inr (a, d') \<Rightarrow> f a d')"

definition return_read :: "HostAccessError + 'a \<Rightarrow> 'a read" where
  "return_read r = (\<lambda>d. case r of Inl e \<Rightarrow> Inl e | Inr a \<Rightarrow> Inr (a, d))"

definition new_decoder :: "bytes \<Rightarrow> decoder" where
  "new_decoder bs = \<lparr>input = bs, position = 0\<rparr>"

definition byte :: "u8 read" where
  "byte d = (if position d < length (input d)
     then Inr (input d ! position d, d\<lparr>position := position d + 1\<rparr>) else Inl Malformed)"

definition take_slice :: "nat \<Rightarrow> bytes read" where
  "take_slice n d =
     (if position d + n > U64_MAX then Inl Limit
      else if position d + n \<le> length (input d)
      then Inr (take n (drop (position d) (input d)), d\<lparr>position := position d + n\<rparr>)
      else Inl Malformed)"

definition head_value :: "u8 \<Rightarrow> u64 read" where
  "head_value additional =
     (if additional \<le> 23 then return_read (Inr (ucast additional))
      else if additional = 24 then then_read byte (\<lambda>b. return_read (Inr (ucast b)))
      else if additional = 25
      then then_read (take_slice 2) (\<lambda>bs. return_read (Inr (ucast (from_be_bytes bs :: u16))))
      else if additional = 26
      then then_read (take_slice 4) (\<lambda>bs. return_read (Inr (ucast (from_be_bytes bs :: u32))))
      else if additional = 27
      then then_read (take_slice 8) (\<lambda>bs. return_read (Inr (from_be_bytes bs)))
      else return_read (Inl Malformed))"

definition head :: "u8 \<Rightarrow> u64 read" where
  "head expected_major =
     then_read byte (\<lambda>first.
       if drop_bit 5 first \<noteq> expected_major then return_read (Inl Malformed)
       else let additional = first AND 31 in
         then_read (head_value additional) (\<lambda>value.
           if additional = 24 \<and> value < 24 \<or> additional = 25 \<and> value \<le> 255
              \<or> additional = 26 \<and> value \<le> 65535 \<or> additional = 27 \<and> value \<le> 4294967295
           then return_read (Inl NonCanonical) else return_read (Inr value)))"

definition uint_read :: "u64 read" where
  "uint_read = head 0"

definition key :: "u64 \<Rightarrow> unit read" where
  "key expected = then_read uint_read (\<lambda>v. return_read (if v = expected then Inr () else Inl NonCanonical))"

definition fixed_bytes :: "nat \<Rightarrow> bytes read" where
  "fixed_bytes n = then_read (head 2) (\<lambda>v.
     if v \<noteq> word_of_nat n then return_read (Inl Malformed) else take_slice n)"

definition text_read :: "nat \<Rightarrow> nat \<Rightarrow> bytes read" where
  "text_read minimum maximum = then_read (head 3) (\<lambda>v. let length = unat v in
     if length < minimum \<or> maximum < length then return_read (Inl Limit)
     else then_read (take_slice length) (\<lambda>s.
       return_read (if utf8_valid s then Inr s else Inl Malformed)))"

definition datetime_from_unix_seconds :: "'ticket platform \<Rightarrow> u64 \<Rightarrow> HostAccessError + datetime" where
  "datetime_from_unix_seconds P s =
     (if unat s > I64_MAX then Inl InvalidField
      else if representable P (int (unat s)) then Inr \<lparr>secs = int (unat s), nanos = 0\<rparr>
      else Inl InvalidField)"

definition u16_try_from :: "u64 \<Rightarrow> HostAccessError + u16" where
  "u16_try_from v = (if v \<le> 65535 then Inr (ucast v) else Inl InvalidField)"

definition u16_read :: "u16 read" where
  "u16_read = then_read uint_read (\<lambda>v. return_read (u16_try_from v))"

definition time_read :: "'ticket platform \<Rightarrow> datetime read" where
  "time_read P = then_read uint_read (\<lambda>v. return_read (datetime_from_unix_seconds P v))"

definition bool_read :: "bool read" where
  "bool_read = then_read byte (\<lambda>b. return_read
     (if b = 0xf4 then Inr False else if b = 0xf5 then Inr True else Inl InvalidField))"

definition read_fields :: "'ticket platform \<Rightarrow>
  (bytes \<times> datetime \<times> datetime \<times> bytes \<times> bytes \<times> AttachedVersion \<times> bool) read" where
  "read_fields P =
     then_read (head 5) (\<lambda>field_count.
     if field_count \<noteq> 7 then return_read (Inl Malformed) else
     then_read (key 1) (\<lambda>_. then_read (text_read 1 MAX_HOST_LABEL_BYTES) (\<lambda>label.
     then_read (key 2) (\<lambda>_. then_read (time_read P) (\<lambda>issued.
     then_read (key 3) (\<lambda>_. then_read (time_read P) (\<lambda>expires.
     then_read (key 4) (\<lambda>_. then_read (text_read 1 MAX_ENDPOINT_TICKET_BYTES) (\<lambda>ticket.
     then_read (key 5) (\<lambda>_. then_read (fixed_bytes 32) (\<lambda>capability.
     then_read (key 6) (\<lambda>_. then_read (head 4) (\<lambda>components.
     if components \<noteq> 3 then return_read (Inl Malformed) else
     then_read u16_read (\<lambda>ma. then_read u16_read (\<lambda>mi. then_read u16_read (\<lambda>pa.
     then_read (key 7) (\<lambda>_. then_read bool_read (\<lambda>ssh.
       return_read (Inr (label, issued, expires, ticket, capability,
         \<lparr>major = ma, minor = mi, patch = pa\<rparr>, ssh))))))))))))))))))))"

definition decode_host_access_descriptor ::
  "'ticket platform \<Rightarrow> bytes \<Rightarrow> HostAccessError + HostAccessDescriptor" where
  "decode_host_access_descriptor P bs =
     (if length bs > MAX_HOST_ACCESS_DESCRIPTOR_BYTES then Inl Limit
      else case read_fields P (new_decoder bs) of
        Inl e \<Rightarrow> Inl e
      | Inr ((label, issued, expires, ticket, capability, version, ssh), d) \<Rightarrow>
          if position d \<noteq> length bs then Inl Malformed
          else bind_result (new_descriptor P label issued expires ticket capability version ssh)
            (\<lambda>descriptor. bind_result (encode_host_access_descriptor P descriptor)
              (\<lambda>canonical. if canonical \<noteq> bs then Inl NonCanonical else Inr descriptor)))"


section \<open>Reading what was written\<close>

text \<open>\<open>rest d\<close> is the unread input. Each read is described by what it does to \<open>rest\<close>; the cursor is
  in range and the input is shorter than the address space, as for every Rust slice.\<close>

definition rest :: "decoder \<Rightarrow> bytes" where
  "rest d = drop (position d) (input d)"

definition in_range :: "decoder \<Rightarrow> bool" where
  "in_range d \<longleftrightarrow> position d \<le> length (input d) \<and> length (input d) \<le> U64_MAX"

definition skip :: "nat \<Rightarrow> decoder \<Rightarrow> decoder" where
  "skip n d = d\<lparr>position := position d + n\<rparr>"

lemma rest_skip [simp]: "rest (skip n d) = drop n (rest d)"
  by (simp add: rest_def skip_def add.commute)

lemma skip_skip [simp]: "skip n (skip m d) = skip (m + n) d"
  by (simp add: skip_def add.assoc)

lemma length_rest: "in_range d \<Longrightarrow> length (rest d) = length (input d) - position d"
  by (simp add: rest_def)

lemma in_range_skip: "in_range d \<Longrightarrow> n \<le> length (rest d) \<Longrightarrow> in_range (skip n d)"
  by (auto simp: in_range_def skip_def rest_def)

lemma in_range_skip_append [simp]:
  "in_range d \<Longrightarrow> rest d = xs @ ys \<Longrightarrow> n = length xs \<Longrightarrow> in_range (skip n d)"
  by (rule in_range_skip) simp_all

lemma byte_Cons: "rest d = b # bs \<Longrightarrow> byte d = Inr (b, skip 1 d)"
  by (auto simp: rest_def byte_def skip_def nth_via_drop dest: arg_cong [of _ _ length])

lemma take_slice_append:
  "in_range d \<Longrightarrow> rest d = xs @ ys \<Longrightarrow> n = length xs \<Longrightarrow> take_slice n d = Inr (xs, skip n d)"
proof -
  assume d: "in_range d" and r: "rest d = xs @ ys" and n: "n = length xs"
  have "position d + n \<le> length (input d)"
    using arg_cong [OF r, of length] d by (auto simp: n rest_def in_range_def)
  then show ?thesis
    using d r n by (auto simp: take_slice_def in_range_def skip_def rest_def)
qed

lemma then_read_Inr [simp]: "m d = Inr (a, d') \<Longrightarrow> then_read m f d = f a d'"
  by (simp add: then_read_def)

lemma then_read_eq_Inr:
  "then_read m f d = Inr (b, d'') \<longleftrightarrow> (\<exists>a d'. m d = Inr (a, d') \<and> f a d' = Inr (b, d''))"
  by (auto simp: then_read_def split: sum.splits prod.splits)

lemma return_read_simps [simp]:
  "return_read (Inr a) d = Inr (a, d)" "return_read (Inl e) d = Inl e"
  by (simp_all add: return_read_def)

section \<open>Heads\<close>

lemma small_bit: "w < 2 ^ k \<Longrightarrow> bit w n \<Longrightarrow> n < k" for w :: u8
proof -
  assume lt: "w < 2 ^ k" and b: "bit w n"
  have "take_bit k w = w" using lt by (simp add: take_bit_eq_mod mod_word_less)
  then show "n < k" using b by (metis bit_take_bit_iff)
qed

lemma major_additional:
  fixes m w :: u8
  assumes "m < 8" and "w < 32"
  shows "drop_bit 5 (push_bit 5 m OR w) = m" and "(push_bit 5 m OR w) AND 31 = w"
proof -
  have m: "bit m n \<Longrightarrow> n < 3" for n using small_bit [of m 3] assms(1) by simp
  have w: "bit w n \<Longrightarrow> n < 5" for n using small_bit [of w 5] assms(2) by simp
  show "drop_bit 5 (push_bit 5 m OR w) = m"
    by (rule bit_word_eqI) (auto simp: bit_simps dest: m w)
  have mask: "(31 :: u8) = mask 5" by (simp add: mask_eq_exp_minus_1)
  show "(push_bit 5 m OR w) AND 31 = w"
    unfolding mask by (rule bit_word_eqI) (auto simp: bit_simps dest: m w)
qed

lemma first_byte_split:
  "push_bit 5 (drop_bit 5 b) OR (b AND 31) = b" and "b AND 31 < 32" for b :: u8
proof -
  have mask: "(31 :: u8) = mask 5" by (simp add: mask_eq_exp_minus_1)
  show "push_bit 5 (drop_bit 5 b) OR (b AND 31) = b"
    by (rule bit_word_eqI) (auto simp: mask bit_simps)
  have "b AND 31 \<le> 31" by (rule word_and_le1)
  then show "b AND 31 < 32" by (rule order_le_less_trans) simp
qed

lemma ucast_narrow:
  "unat (w :: 'a::len word) < 2 ^ LENGTH('b) \<Longrightarrow> unat (ucast w :: 'b::len word) = unat w"
  by (simp add: unsigned_ucast_eq take_bit_nat_eq_self)

lemma ucast_widen: "LENGTH('a) \<le> LENGTH('b) \<Longrightarrow> unat (ucast (w :: 'a::len word) :: 'b::len word) = unat w"
  by (rule ucast_narrow) (meson dual_order.strict_trans1 one_le_numeral order_less_le_trans power_increasing unsigned_less)


lemmas u64_ranges = word_le_nat_alt word_less_nat_alt

lemma ucast_back:
  assumes "unat (v :: u64) < 2 ^ LENGTH('b)" and "LENGTH('b) \<le> 64"
  shows "(ucast (ucast v :: 'b::len word) :: u64) = v"
  using assms ucast_narrow [of v, where 'b = 'b] ucast_widen [where 'a = 'b and 'b = 64]
  by (intro unsigned_word_eqI [where 'a = nat]) simp

lemma be_back:
  assumes "unat (v :: u64) < 2 ^ LENGTH('b)" and "LENGTH('b) \<le> 64" and "8 dvd LENGTH('b)"
  shows "(ucast (from_be_bytes (to_be_bytes (ucast v :: 'b::len word)) :: 'b word) :: u64) = v"
  using ucast_back [OF assms(1,2)] from_to_be_bytes [OF assms(3)] by simp

lemma head_first:
  assumes "m < 8" and "w < 32" and "byte d = Inr (push_bit 5 m OR w, d1)"
  shows "head m d = then_read (head_value w) (\<lambda>value.
    if w = 24 \<and> value < 24 \<or> w = 25 \<and> value \<le> 255 \<or> w = 26 \<and> value \<le> 65535
       \<or> w = 27 \<and> value \<le> 4294967295
    then return_read (Inl NonCanonical) else return_read (Inr value)) d1"
  using major_additional [OF assms(1,2)] by (simp only: head_def then_read_Inr [where m = byte and d = d, OF assms(3)] Let_def) simp

text \<open>A head is read back from its encoding, whatever follows it.\<close>

lemma head_put_head:
  assumes "m < 8" and d: "in_range d" and r: "rest d = put_head m v @ r"
  shows "head m d = Inr (v, skip (length (put_head m v)) d)"
proof -
  obtain b bs where b: "put_head m v = b # bs"
    by (cases "put_head m v") (simp_all add: put_head_def split: if_splits)
  define d1 where "d1 = skip 1 d"
  have byte: "byte d = Inr (b, d1)" using r b by (simp add: byte_Cons d1_def)
  have d1: "in_range d1" "rest d1 = bs @ r"
    using d r b by (simp_all add: d1_def in_range_skip)
  consider "v \<le> 23" | "24 \<le> v" "v \<le> 255" | "256 \<le> v" "v \<le> 65535" | "65536 \<le> v" "v \<le> 4294967295"
    | "4294967296 \<le> v"
    unfolding u64_ranges by fastforce
  then show ?thesis
  proof cases
    case 1
    then have w: "unat (ucast v :: u8) = unat v" by (intro ucast_narrow) (simp add: u64_ranges)
    have "b = push_bit 5 m OR ucast v" "bs = []" using b 1 by (simp_all add: put_head_def)
    moreover have "(ucast v :: u8) < 32" "(ucast v :: u8) \<le> 23" using 1 w by (simp_all add: u64_ranges)
    moreover have "(ucast (ucast v :: u8) :: u64) = v" using 1 by (intro ucast_back) (simp_all add: u64_ranges)
    moreover have "(ucast v :: u8) \<noteq> 24 \<and> (ucast v :: u8) \<noteq> 25 \<and> (ucast v :: u8) \<noteq> 26 \<and> (ucast v :: u8) \<noteq> 27"
      using 1 w by (auto simp: u64_ranges dest: arg_cong [of _ _ unat])
    ultimately show ?thesis
      using head_first [OF assms(1), of "ucast v" d d1] byte b
      by (simp add: head_value_def d1_def)
  next
    case 2
    have c: "b = push_bit 5 m OR 24" "bs = [ucast v]" using b 2 by (auto simp: put_head_def u64_ranges)
    have "(ucast (ucast v :: u8) :: u64) = v" using 2 by (intro ucast_back) (simp_all add: u64_ranges)
    then show ?thesis
      using head_first [OF assms(1), of 24 d d1] byte b c 2 byte_Cons [of d1 "ucast v" r] d1
      by (auto simp: head_value_def d1_def u64_ranges)
  next
    case 3
    have c: "b = push_bit 5 m OR 25" "bs = to_be_bytes (ucast v :: u16)"
      using b 3 by (auto simp: put_head_def u64_ranges)
    have "(ucast (from_be_bytes (to_be_bytes (ucast v :: u16)) :: u16) :: u64) = v"
      using 3 by (intro be_back) (simp_all add: u64_ranges)
    then show ?thesis
      using head_first [OF assms(1), of 25 d d1] byte b c 3 take_slice_append [of d1 bs r 2] d1
      by (auto simp: head_value_def d1_def u64_ranges numeral_3_eq_3)
  next
    case 4
    have c: "b = push_bit 5 m OR 26" "bs = to_be_bytes (ucast v :: u32)"
      using b 4 by (auto simp: put_head_def u64_ranges)
    have "(ucast (from_be_bytes (to_be_bytes (ucast v :: u32)) :: u32) :: u64) = v"
      using 4 by (intro be_back) (simp_all add: u64_ranges)
    then show ?thesis
      using head_first [OF assms(1), of 26 d d1] byte b c 4 take_slice_append [of d1 bs r 4] d1
      by (auto simp: head_value_def d1_def u64_ranges)
  next
    case 5
    have c: "b = push_bit 5 m OR 27" "bs = to_be_bytes v"
      using b 5 by (auto simp: put_head_def u64_ranges)
    have "from_be_bytes (to_be_bytes v) = v" by (intro from_to_be_bytes) simp
    then show ?thesis
      using head_first [OF assms(1), of 27 d d1] byte b c 5 take_slice_append [of d1 bs r 8] d1
      by (auto simp: head_value_def d1_def u64_ranges)
  qed
qed


lemma byte_Inr: "byte d = Inr (b, d1) \<Longrightarrow> rest d = b # rest d1 \<and> d1 = skip 1 d"
  by (auto simp: byte_def rest_def skip_def Cons_nth_drop_Suc split: if_splits)

lemma take_slice_Inr:
  "take_slice n d = Inr (xs, d1) \<Longrightarrow> rest d = xs @ rest d1 \<and> length xs = n \<and> d1 = skip n d"
  by (auto simp: take_slice_def rest_def skip_def split: if_splits)
    (metis add.commute append_take_drop_id drop_drop)

lemma ucast_u8_u64 [simp]: "unat (ucast (w :: u8) :: u64) = unat w"
  by (rule ucast_widen) simp

lemma ucast_u16_u64 [simp]: "unat (ucast (w :: u16) :: u64) = unat w"
  by (rule ucast_widen) simp

lemma ucast_u32_u64 [simp]: "unat (ucast (w :: u32) :: u64) = unat w"
  by (rule ucast_widen) simp

lemma ucast_round_u8 [simp]: "(ucast (ucast (w :: u8) :: u64) :: u8) = w"
  by (rule unsigned_word_eqI [where 'a = nat]) (simp add: ucast_narrow unat_u8_bound)

lemma ucast_round_u16 [simp]: "(ucast (ucast (w :: u16) :: u64) :: u16) = w"
  using unsigned_less [of w, where 'a = nat]
  by (intro unsigned_word_eqI [where 'a = nat]) (simp add: ucast_narrow)

lemma ucast_round_u32 [simp]: "(ucast (ucast (w :: u32) :: u64) :: u32) = w"
  using unsigned_less [of w, where 'a = nat]
  by (intro unsigned_word_eqI [where 'a = nat]) (simp add: ucast_narrow)

lemma be_bytes_back:
  assumes "length bs = LENGTH('a) div 8" and "8 dvd LENGTH('a)"
  shows "to_be_bytes (from_be_bytes bs :: 'a::len word) = bs"
  using to_from_be_bytes [OF assms(2,1)] .

lemma head_value_cases:
  assumes "head_value w d1 = Inr (v, d2)"
  obtains "w \<le> 23" "v = ucast w" "d2 = d1"
  | c where "w = 24" "byte d1 = Inr (c, d2)" "v = ucast c"
  | bs where "w = 25" "take_slice 2 d1 = Inr (bs, d2)" "v = ucast (from_be_bytes bs :: u16)"
  | bs where "w = 26" "take_slice 4 d1 = Inr (bs, d2)" "v = ucast (from_be_bytes bs :: u32)"
  | bs where "w = 27" "take_slice 8 d1 = Inr (bs, d2)" "v = from_be_bytes bs"
proof (cases "w \<le> 23")
  case True
  then show ?thesis using assms that(1) by (simp add: head_value_def)
next
  case False
  consider "w = 24" | "w = 25" | "w = 26" | "w = 27"
    using assms False by (auto simp: head_value_def split: if_splits)
  then show ?thesis
    by cases (use assms that(2-5) False in \<open>simp_all add: head_value_def then_read_eq_Inr\<close>, blast+)
qed

text \<open>Every accepted head is the shortest encoding of its value.\<close>

lemma head_sound:
  assumes "head m d = Inr (v, d')"
  shows "rest d = put_head m v @ rest d' \<and> d' = skip (length (put_head m v)) d"
proof -
  obtain b d1 where b: "byte d = Inr (b, d1)" "drop_bit 5 b = m"
    using assms by (auto simp: head_def then_read_eq_Inr split: if_splits)
  define w where "w = b AND 31"
  have rd: "rest d = b # rest d1" by (rule conjunct1 [OF byte_Inr [OF b(1)]])
  have k1: "d1 = skip 1 d" by (rule conjunct2 [OF byte_Inr [OF b(1)]])
  have bw: "push_bit 5 m OR w = b" using first_byte_split(1) [of b] b(2) by (simp add: w_def)
  obtain d2 where v: "head_value w d1 = Inr (v, d2)" and d': "d2 = d'"
    and canon: "\<not> (w = 24 \<and> v < 24)" "\<not> (w = 25 \<and> v \<le> 255)" "\<not> (w = 26 \<and> v \<le> 65535)"
      "\<not> (w = 27 \<and> v \<le> 4294967295)"
    using assms b by (auto simp: head_def then_read_eq_Inr Let_def w_def split: if_splits)
  have "\<exists>bs. put_head m v = b # bs \<and> rest d1 = bs @ rest d2 \<and> d2 = skip (length bs) d1"
    using v
  proof (cases rule: head_value_cases)
    case 1
    then have "put_head m v = [b]" using bw by (simp add: put_head_def u64_ranges)
    then show ?thesis using 1 by (simp add: skip_def)
  next
    case (2 c)
    then have "put_head m v = [b, c]"
      using bw canon(1) unat_u8_bound [of c] by (simp add: put_head_def u64_ranges)
    then show ?thesis using byte_Inr [OF 2(2)] by (intro exI [of _ "[c]"]) (simp only: append.simps list.size One_nat_def add_0)
  next
    case (3 bs)
    have l: "length bs = 2" using take_slice_Inr [OF 3(2)] by (elim conjE)
    have "unat v < 65536" using 3(3) unsigned_less [of "from_be_bytes bs :: u16", where 'a = nat] by simp
    then have "put_head m v = b # bs"
      using bw canon(2) 3(1,3) l be_bytes_back [of bs, where 'a = 16] by (simp add: put_head_def u64_ranges)
    then show ?thesis using take_slice_Inr [OF 3(2)] by (intro exI [of _ bs]) (simp only: simp_thms)
  next
    case (4 bs)
    have l: "length bs = 4" using take_slice_Inr [OF 4(2)] by (elim conjE)
    have "unat v < 4294967296" using 4(3) unsigned_less [of "from_be_bytes bs :: u32", where 'a = nat] by simp
    then have "put_head m v = b # bs"
      using bw canon(3) 4(1,3) l be_bytes_back [of bs, where 'a = 32] by (simp add: put_head_def u64_ranges)
    then show ?thesis using take_slice_Inr [OF 4(2)] by (intro exI [of _ bs]) (simp only: simp_thms)
  next
    case (5 bs)
    have l: "length bs = 8" using take_slice_Inr [OF 5(2)] by (elim conjE)
    have "put_head m v = b # bs"
      using bw canon(4) 5(1,3) l be_bytes_back [of bs, where 'a = 64] by (simp add: put_head_def u64_ranges)
    then show ?thesis using take_slice_Inr [OF 5(2)] by (intro exI [of _ bs]) (simp only: simp_thms)
  qed
  then obtain bs where ph: "put_head m v = b # bs" and r2: "rest d1 = bs @ rest d2"
    and k2: "d2 = skip (length bs) d1"
    by (elim exE conjE)
  have "rest d = put_head m v @ rest d'" using rd r2 ph d' by simp
  moreover have "d' = skip (length (put_head m v)) d" using k1 k2 ph d' by simp
  ultimately show ?thesis ..
qed


section \<open>Field codecs\<close>

text \<open>\<open>reads m bs v\<close>: wherever the unread input starts with \<open>bs\<close>, the read \<open>m\<close> returns \<open>v\<close> and
  consumes exactly \<open>bs\<close>. It composes along \<open>then_read\<close>.\<close>

definition reads :: "'a read \<Rightarrow> bytes \<Rightarrow> 'a \<Rightarrow> bool" where
  "reads m bs v \<longleftrightarrow> (\<forall>d r. in_range d \<longrightarrow> rest d = bs @ r \<longrightarrow> m d = Inr (v, skip (length bs) d))"

lemma readsI: "(\<And>d r. in_range d \<Longrightarrow> rest d = bs @ r \<Longrightarrow> m d = Inr (v, skip (length bs) d)) \<Longrightarrow> reads m bs v"
  by (simp add: reads_def)

lemma readsD: "reads m bs v \<Longrightarrow> in_range d \<Longrightarrow> rest d = bs @ r \<Longrightarrow> m d = Inr (v, skip (length bs) d)"
  by (simp add: reads_def)

lemma reads_return: "reads (return_read (Inr v)) [] v"
  by (rule readsI) (simp add: skip_def)

lemma reads_then:
  assumes m: "reads m bs v" and f: "reads (f v) cs w"
  shows "reads (then_read m f) (bs @ cs) w"
proof (rule readsI)
  fix d r assume d: "in_range d" and r: "rest d = (bs @ cs) @ r"
  have "m d = Inr (v, skip (length bs) d)" using readsD [OF m d] r by simp
  moreover have "f v (skip (length bs) d) = Inr (w, skip (length cs) (skip (length bs) d))"
    using readsD [OF f in_range_skip_append [OF d, of bs "cs @ r"]] r by simp
  ultimately show "then_read m f d = Inr (w, skip (length (bs @ cs)) d)" by simp
qed

lemma reads_then_return: "reads m bs v \<Longrightarrow> g v = Inr w \<Longrightarrow> reads (then_read m (\<lambda>x. return_read (g x))) bs w"
  using reads_then [of m bs v "\<lambda>x. return_read (g x)" "[]" w] by (simp add: reads_return)

lemma reads_head: "m < 8 \<Longrightarrow> reads (head m) (put_head m v) v"
  by (rule readsI) (rule head_put_head)

lemma reads_then_head:
  "m < 8 \<Longrightarrow> c = v \<Longrightarrow> reads k cs w \<Longrightarrow>
   reads (then_read (head m) (\<lambda>x. if x \<noteq> c then return_read (Inl e) else k)) (put_head m v @ cs) w"
  by (rule reads_then [OF reads_head]) simp_all

lemma reads_take_slice: "length xs = n \<Longrightarrow> reads (take_slice n) xs xs"
  by (rule readsI) (simp add: take_slice_append)

locale field_codec =
  fixes put :: "'a \<Rightarrow> bytes"
    and read :: "'a read"
    and ok :: "'a \<Rightarrow> bool"
  assumes reads_put: "ok v \<Longrightarrow> reads read (put v) v"
begin

lemma then_field: "ok v \<Longrightarrow> reads (k v) cs w \<Longrightarrow> reads (then_read read k) (put v @ cs) w"
  by (rule reads_then [OF reads_put])

lemma put_prefix_free:
  assumes "ok v" and "ok w" and eq: "put v @ r = put w @ s" and len: "length (put v @ r) \<le> U64_MAX"
  shows "v = w \<and> r = s"
proof -
  have rng: "in_range (new_decoder (put v @ r))" using len by (simp add: in_range_def new_decoder_def)
  have rv: "rest (new_decoder (put v @ r)) = put v @ r" by (simp add: rest_def new_decoder_def)
  have "read (new_decoder (put v @ r)) = Inr (v, skip (length (put v)) (new_decoder (put v @ r)))"
    using readsD [OF reads_put rng rv] assms(1) .
  moreover have "read (new_decoder (put v @ r)) = Inr (w, skip (length (put w)) (new_decoder (put v @ r)))"
    using readsD [OF reads_put rng] rv eq assms(2) by simp
  ultimately have "v = w" by simp
  then show ?thesis using eq by simp
qed

end

definition ok_text :: "nat \<Rightarrow> nat \<Rightarrow> bytes \<Rightarrow> bool" where
  "ok_text lo hi s \<longleftrightarrow> lo \<le> length s \<and> length s \<le> hi \<and> utf8_valid s"

lemma unat_length [simp]: "n \<le> U64_MAX \<Longrightarrow> unat (word_of_nat n :: u64) = n"
  by (simp add: unat_of_nat limit_defs)

lemma reads_text: "hi \<le> U64_MAX \<Longrightarrow> ok_text lo hi s \<Longrightarrow> reads (text_read lo hi) (put_text s) s"
  unfolding text_read_def put_text_def
  by (rule reads_then [OF reads_head])
    (auto simp: ok_text_def Let_def intro: reads_then_return reads_take_slice)

interpretation uint_codec: field_codec put_uint uint_read "\<lambda>_. True"
  by unfold_locales (simp add: put_uint_def uint_read_def reads_head)

interpretation label_codec: field_codec put_text "text_read 1 MAX_HOST_LABEL_BYTES" "ok_text 1 MAX_HOST_LABEL_BYTES"
  by unfold_locales (rule reads_text, simp_all add: limit_defs)

interpretation ticket_codec: field_codec put_text "text_read 1 MAX_ENDPOINT_TICKET_BYTES"
    "ok_text 1 MAX_ENDPOINT_TICKET_BYTES"
  by unfold_locales (rule reads_text, simp_all add: limit_defs)

lemma reads_fixed: "length s = 32 \<Longrightarrow> reads (fixed_bytes 32) (put_bytes s) s"
  unfolding fixed_bytes_def put_bytes_def
  by (rule reads_then [OF reads_head]) (simp_all add: reads_take_slice)

interpretation capability_codec: field_codec put_bytes "fixed_bytes 32" "\<lambda>s. length s = 32"
  by unfold_locales (rule reads_fixed)

interpretation u16_codec: field_codec "\<lambda>v. put_uint (ucast v)" u16_read "\<lambda>_. True"
proof unfold_locales
  fix v :: u16
  have "(ucast v :: u64) \<le> 65535"
    using unsigned_less [of v, where 'a = nat] by (simp add: u64_ranges)
  then show "reads u16_read (put_uint (ucast v)) v"
    unfolding u16_read_def
    by (intro reads_then_return [OF uint_codec.reads_put]) (simp_all add: u16_try_from_def)
qed

definition ok_time :: "'ticket platform \<Rightarrow> datetime \<Rightarrow> bool" where
  "ok_time P t \<longleftrightarrow> 0 \<le> secs t \<and> secs t \<le> int I64_MAX \<and> nanos t = 0 \<and> representable P (secs t)"

interpretation time_codec: field_codec "\<lambda>t. put_uint (word_of_int (secs t))" "time_read P" "ok_time P"
  for P :: "'ticket platform"
proof unfold_locales
  fix t assume t: "ok_time P t"
  then have "unat (word_of_int (secs t) :: u64) = nat (secs t)"
    by (simp add: ok_time_def limit_defs unsigned_of_int take_bit_int_eq_self)
  then show "reads (time_read P) (put_uint (word_of_int (secs t))) t"
    unfolding time_read_def using t
    by (intro reads_then_return [OF uint_codec.reads_put])
      (auto simp: datetime_from_unix_seconds_def ok_time_def)
qed

lemma reads_key: "reads (key n) (put_uint n) ()"
  unfolding key_def by (rule reads_then_return [OF uint_codec.reads_put]) simp_all

lemma reads_bool: "reads bool_read [if b then 0xf5 else 0xf4] b"
proof (rule readsI)
  fix d r assume "in_range d" and "rest d = [if b then 0xf5 else 0xf4] @ r"
  then show "bool_read d = Inr (b, skip (length [if b then 0xf5 else 0xf4 :: u8]) d)"
    using byte_Cons [of d "if b then 0xf5 else 0xf4" r] by (simp add: bool_read_def then_read_def)
qed


section \<open>Whole descriptors\<close>

text \<open>What the Rust types of a descriptor guarantee: a 32-byte capability and instants in \<open>chrono\<close>'s
  range, whose seconds are an \<open>i64\<close>.\<close>

definition typed_descriptor :: "'ticket platform \<Rightarrow> HostAccessDescriptor \<Rightarrow> bool" where
  "typed_descriptor P d \<longleftrightarrow> length (attach_capability d) = 32
     \<and> representable P (secs (issued_at d)) \<and> secs (issued_at d) \<le> int I64_MAX
     \<and> representable P (secs (expires_at d)) \<and> secs (expires_at d) \<le> int I64_MAX"

lemma validate_fields:
  assumes "validate P d = Inr ()"
  shows "validate_host_label (host_label d)"
    and "0 \<le> secs (issued_at d)" and "nanos (issued_at d) = 0"
    and "0 \<le> secs (expires_at d)" and "nanos (expires_at d) = 0"
    and "secs (issued_at d) + 60 \<le> secs (expires_at d)"
    and "secs (expires_at d) \<le> secs (issued_at d) + 900"
    and "endpoint_ticket d \<noteq> []" and "length (endpoint_ticket d) \<le> MAX_ENDPOINT_TICKET_BYTES"
    and "is_ascii (endpoint_ticket d)"
    and "\<exists>t. ticket_from_str P (endpoint_ticket d) = Some t \<and> ticket_to_string P t = endpoint_ticket d"
  using assms
  by (auto simp: validate_def Let_def nanos_of_def limit_defs split: if_splits option.splits)

lemma encode_Inr:
  assumes "encode_host_access_descriptor P d = Inr bs"
  shows "validate P d = Inr ()" and "length bs \<le> MAX_HOST_ACCESS_DESCRIPTOR_BYTES"
    and "bs = put_head 5 7
       @ put_uint 1 @ put_text (host_label d)
       @ put_uint 2 @ put_uint (word_of_int (secs (issued_at d)))
       @ put_uint 3 @ put_uint (word_of_int (secs (expires_at d)))
       @ put_uint 4 @ put_text (endpoint_ticket d)
       @ put_uint 5 @ put_bytes (attach_capability d)
       @ put_uint 6 @ put_head 4 3
       @ put_uint (ucast (major (attached_version d)))
       @ put_uint (ucast (minor (attached_version d)))
       @ put_uint (ucast (patch (attached_version d)))
       @ put_uint 7 @ [if ssh_enabled d then 0xf5 else 0xf4]"
  using assms
  by (auto simp: encode_host_access_descriptor_def unix_seconds_def Let_def split: if_splits)

lemma read_fields_encoding:
  assumes v: "validate P d = Inr ()" and t: "typed_descriptor P d"
    and bs: "encode_host_access_descriptor P d = Inr bs"
  shows "reads (read_fields P) bs
    (host_label d, issued_at d, expires_at d, endpoint_ticket d, attach_capability d,
     attached_version d, ssh_enabled d)"
proof -
  note f = validate_fields [OF v]
  have label: "ok_text 1 MAX_HOST_LABEL_BYTES (host_label d)"
    using validate_host_label_length [OF f(1)] validate_host_label_ascii [OF f(1)]
    by (auto simp: ok_text_def limit_defs ascii_utf8_valid Suc_le_eq)
  have ticket: "ok_text 1 MAX_ENDPOINT_TICKET_BYTES (endpoint_ticket d)"
    using f(8-10) by (auto simp: ok_text_def ascii_utf8_valid Suc_le_eq)
  have times: "ok_time P (issued_at d)" "ok_time P (expires_at d)"
    using f(2-5) t by (auto simp: ok_time_def typed_descriptor_def)
  have cap: "length (attach_capability d) = 32" using t by (simp add: typed_descriptor_def)
  have eta: "attached_version d = \<lparr>major = major (attached_version d),
     minor = minor (attached_version d), patch = patch (attached_version d)\<rparr>" by simp
  show ?thesis
    unfolding encode_Inr(3) [OF bs] read_fields_def
    by (intro reads_then_head reads_then [OF reads_key] label_codec.then_field [OF label]
        time_codec.then_field [OF times(1)] time_codec.then_field [OF times(2)]
        ticket_codec.then_field [OF ticket] capability_codec.then_field [OF cap]
        u16_codec.then_field [OF TrueI] reads_then_return [OF reads_bool])
      simp_all
qed


lemma new_decoder_range: "length bs \<le> U64_MAX \<Longrightarrow> in_range (new_decoder bs)"
  by (simp add: in_range_def new_decoder_def)

lemma rest_new_decoder [simp]: "rest (new_decoder bs) = bs"
  by (simp add: rest_def new_decoder_def)

lemma position_skip [simp]: "position (skip n d) = position d + n"
  by (simp add: skip_def)

lemma position_new_decoder [simp]: "position (new_decoder bs) = 0"
  by (simp add: new_decoder_def)

lemma new_descriptor_eta:
  "validate P d = Inr () \<Longrightarrow>
   new_descriptor P (host_label d) (issued_at d) (expires_at d) (endpoint_ticket d)
     (attach_capability d) (attached_version d) (ssh_enabled d) = Inr d"
  by (cases d) (simp add: new_descriptor_def Let_def)

lemma new_descriptor_validates:
  "new_descriptor P l i e t c v s = Inr d \<Longrightarrow> validate P d = Inr ()"
  by (auto simp: new_descriptor_def Let_def)

lemma read_fields_append:
  assumes "typed_descriptor P d" and bs: "encode_host_access_descriptor P d = Inr bs"
    and len: "length (bs @ xs) \<le> MAX_HOST_ACCESS_DESCRIPTOR_BYTES"
  shows "read_fields P (new_decoder (bs @ xs)) = Inr ((host_label d, issued_at d, expires_at d,
    endpoint_ticket d, attach_capability d, attached_version d, ssh_enabled d),
    skip (length bs) (new_decoder (bs @ xs)))"
proof (rule readsD [OF read_fields_encoding [OF encode_Inr(1) [OF bs] assms(1) bs]])
  show "in_range (new_decoder (bs @ xs))" using len by (intro new_decoder_range) (simp add: limit_defs)
qed simp

lemma decode_encode_aux:
  assumes "typed_descriptor P d" and bs: "encode_host_access_descriptor P d = Inr bs"
  shows "decode_host_access_descriptor P bs = Inr d"
  using read_fields_append [OF assms, of "[]"] encode_Inr(1,2) [OF bs] bs
  by (simp add: decode_host_access_descriptor_def new_descriptor_eta)

lemma decode_Inr:
  assumes "decode_host_access_descriptor P bs = Inr d"
  shows "encode_host_access_descriptor P d = Inr bs" and "validate P d = Inr ()"
    and "\<exists>c. read_fields P (new_decoder bs) = Inr ((host_label d, issued_at d, expires_at d,
      endpoint_ticket d, attach_capability d, attached_version d, ssh_enabled d), c)"
  using assms
  by (auto simp: decode_host_access_descriptor_def new_descriptor_def Let_def bind_result_eq_Inr
      split: if_splits sum.splits prod.splits)

lemma time_read_typed:
  "time_read P d = Inr (t, d') \<Longrightarrow> representable P (secs t) \<and> secs t \<le> int I64_MAX"
  by (auto simp: time_read_def then_read_eq_Inr return_read_def datetime_from_unix_seconds_def
      simp del: of_nat_unat split: if_splits sum.splits)

lemma fixed_bytes_length: "fixed_bytes n d = Inr (s, d') \<Longrightarrow> length s = n"
  by (auto simp: fixed_bytes_def then_read_eq_Inr dest!: take_slice_Inr split: if_splits)

lemma read_fields_typed:
  assumes "read_fields P c0 = Inr ((l, i, e, t, k, v, s), c)"
  shows "length k = 32 \<and> representable P (secs i) \<and> secs i \<le> int I64_MAX
     \<and> representable P (secs e) \<and> secs e \<le> int I64_MAX"
  using assms
  by (auto simp: read_fields_def then_read_eq_Inr dest!: time_read_typed fixed_bytes_length
      split: if_splits)

lemma decode_typed: "decode_host_access_descriptor P bs = Inr d \<Longrightarrow> typed_descriptor P d"
  using decode_Inr(3) read_fields_typed unfolding typed_descriptor_def by blast

interpretation descriptor_codec: canonical_codec
  "encode_host_access_descriptor P" "decode_host_access_descriptor P" "typed_descriptor P"
  for P :: "'ticket platform"
  by unfold_locales (use decode_encode_aux decode_Inr(1) decode_typed in blast)

lemma length_put_head: "length (put_head m v) \<le> 9"
  by (simp add: put_head_def)

lemma length_put_head_small: "v \<le> 65535 \<Longrightarrow> length (put_head m v) \<le> 3"
  by (simp add: put_head_def)


lemma put_uint_bounds:
  "length (put_uint v) \<le> 9" "v \<le> 65535 \<Longrightarrow> length (put_uint v) \<le> 3" "v \<le> 23 \<Longrightarrow> length (put_uint v) = 1"
  by (simp_all add: put_uint_def put_head_def)

lemma length_put_text: "length s \<le> 65535 \<Longrightarrow> length (put_text s) \<le> 3 + length s"
  using length_put_head_small [of "word_of_nat (length s)" 3]
  by (simp add: put_text_def u64_ranges limit_defs)

lemma length_encoding:
  assumes v: "validate P d = Inr ()" and cap: "length (attach_capability d) = 32"
  shows "\<exists>bs. encode_host_access_descriptor P d = Inr bs \<and> length bs \<le> 4300"
proof -
  note f = validate_fields [OF v]
  have u: "length (put_uint (ucast (w :: u16))) \<le> 3" for w
    using unsigned_less [of w, where 'a = nat] by (intro put_uint_bounds(2)) (simp add: u64_ranges)
  have "length (put_text (host_label d)) \<le> 67"
    using length_put_text [of "host_label d"] validate_host_label_length [OF f(1)] by simp
  moreover have "length (put_text (endpoint_ticket d)) \<le> 4099"
    using length_put_text [of "endpoint_ticket d"] f(9) by (simp add: limit_defs)
  moreover have "length (put_bytes (attach_capability d)) \<le> 35"
    using length_put_head_small [of 32 2] cap by (simp add: put_bytes_def)
  moreover note u [of "major (attached_version d)"] u [of "minor (attached_version d)"]
    u [of "patch (attached_version d)"]
  moreover have "length (put_head 5 7) = 1" "length (put_head 4 3) = 1" by (simp_all add: put_head_def)
  moreover note put_uint_bounds(1) [of "word_of_int (secs (issued_at d))"]
    put_uint_bounds(1) [of "word_of_int (secs (expires_at d))"] put_uint_bounds(3)
  ultimately show ?thesis
    using v f(2,4)
    by (simp add: encode_host_access_descriptor_def unix_seconds_def Let_def limit_defs)
qed


section \<open>Properties\<close>

text \<open>A concrete platform and descriptor for the witnesses: tickets are the strings that start with
  \<open>endpoint\<close>, and the representable seconds are those of \<open>chrono\<close>'s documented range.\<close>

definition sample_platform :: "bytes platform" where
  "sample_platform = \<lparr>ticket_from_str = (\<lambda>s. if take 8 s = ascii ''endpoint'' then Some s else None),
     ticket_to_string = (\<lambda>t. t), ticket_id = (\<lambda>t. replicate 32 (t ! 8)),
     representable = (\<lambda>s. -8334601228800 \<le> s \<and> s \<le> 8210266876799)\<rparr>"

definition sample_descriptor :: HostAccessDescriptor where
  "sample_descriptor = \<lparr>host_label = ascii ''office'', issued_at = \<lparr>secs = 1700000000, nanos = 0\<rparr>,
     expires_at = \<lparr>secs = 1700000090, nanos = 0\<rparr>, endpoint_ticket = ascii ''endpointa'',
     attach_capability = replicate 32 7, attached_version = \<lparr>major = 0, minor = 3, patch = 9\<rparr>,
     ssh_enabled = True\<rparr>"

lemmas sample_evals = sample_platform_def sample_descriptor_def byte_simps validate_def
  validate_host_label_def is_ascii_alphanumeric_def is_ascii_digit_def is_ascii_lowercase_def
  is_ascii_uppercase_def nanos_of_def is_ascii_def limit_defs typed_descriptor_def

lemma sample_valid:
  "validate sample_platform sample_descriptor = Inr ()" "typed_descriptor sample_platform sample_descriptor"
  by (simp_all add: sample_evals)

text \<open>C1: the decoder accepts a byte string exactly when it is the canonical encoding of a valid
  descriptor, and then returns that descriptor: the encoding is canonical and decoding inverts it.\<close>

theorem descriptor_decode_iff_encode:
  "decode_host_access_descriptor P bs = Inr d \<longleftrightarrow>
     typed_descriptor P d \<and> encode_host_access_descriptor P d = Inr bs"
  by (rule descriptor_codec.decode_iff)

text \<open>A head is accepted exactly when the unread input starts with the shortest-form head of the
  value it returns, and the cursor moves past exactly that head; overlong and foreign heads are rejected.\<close>

theorem head_accepts_shortest_form:
  assumes "m < 8" and "in_range d"
  shows "head m d = Inr (v, d') \<longleftrightarrow>
    rest d = put_head m v @ rest d' \<and> d' = skip (length (put_head m v)) d"
proof
  show "head m d = Inr (v, d') \<Longrightarrow> rest d = put_head m v @ rest d' \<and> d' = skip (length (put_head m v)) d"
    by (rule head_sound)
  assume "rest d = put_head m v @ rest d' \<and> d' = skip (length (put_head m v)) d"
  then have r: "rest d = put_head m v @ rest d'" and k: "d' = skip (length (put_head m v)) d" by blast+
  show "head m d = Inr (v, d')" unfolding k by (rule head_put_head [OF assms r])
qed

theorem head_accepts_shortest_form_witness:
  "head 3 (new_decoder [120, 200]) = Inr (200, skip 2 (new_decoder [120, 200]))
   \<and> \<not> (\<exists>d'. head 3 (new_decoder [120, 5]) = Inr (5, d'))"
proof -
  have r: "in_range (new_decoder [120, 200])" "in_range (new_decoder [120, 5])"
    by (simp_all add: in_range_def new_decoder_def limit_defs)
  have p: "put_head 3 200 = [120, 200]" "put_head 3 5 = [101]" by (simp_all add: put_head_def)
  have "rest (skip 2 (new_decoder [120, 200])) = []" by simp
  then have "head 3 (new_decoder [120, 200]) = Inr (200, skip 2 (new_decoder [120, 200]))"
    using head_accepts_shortest_form [of 3, OF _ r(1), of 200 "skip 2 (new_decoder [120, 200])"] p
    by (simp add: skip_def)
  moreover have "\<not> (\<exists>d'. head 3 (new_decoder [120, 5]) = Inr (5, d'))"
    using head_accepts_shortest_form [of 3, OF _ r(2), of 5] p by simp
  ultimately show ?thesis ..
qed

text \<open>C3: every descriptor that passes validation has an encoding, of at most 4300 bytes: the
  encoder's own size check never fires on a valid descriptor.\<close>

theorem valid_descriptor_encodes:
  assumes "validate P d = Inr ()" and "length (attach_capability d) = 32"
  shows "\<exists>bs. encode_host_access_descriptor P d = Inr bs \<and> length bs \<le> 4300"
  using assms by (rule length_encoding)

theorem valid_descriptor_encodes_witness:
  "\<exists>bs. encode_host_access_descriptor sample_platform sample_descriptor = Inr bs \<and> length bs \<le> 4300"
  by (rule valid_descriptor_encodes) (simp_all add: sample_evals)

text \<open>Bytes after a complete descriptor are rejected as malformed, whatever they are.\<close>

theorem trailing_bytes_rejected:
  assumes "typed_descriptor P d" and "encode_host_access_descriptor P d = Inr bs" and "xs \<noteq> []"
    and "length (bs @ xs) \<le> MAX_HOST_ACCESS_DESCRIPTOR_BYTES"
  shows "decode_host_access_descriptor P (bs @ xs) = Inl Malformed"
  using read_fields_append [OF assms(1,2,4)] assms(3,4)
  by (simp add: decode_host_access_descriptor_def)

theorem trailing_bytes_rejected_witness:
  "\<exists>bs. encode_host_access_descriptor sample_platform sample_descriptor = Inr bs
     \<and> decode_host_access_descriptor sample_platform (bs @ [0]) = Inl Malformed"
proof -
  obtain bs where bs: "encode_host_access_descriptor sample_platform sample_descriptor = Inr bs"
    and len: "length bs \<le> 4300"
    using length_encoding [OF sample_valid(1)] by (auto simp: sample_descriptor_def)
  have "decode_host_access_descriptor sample_platform (bs @ [0]) = Inl Malformed"
    by (rule trailing_bytes_rejected [OF sample_valid(2) bs]) (use len in \<open>simp_all add: limit_defs\<close>)
  with bs show ?thesis by blast
qed

end
