(* ===== verification/Crypto.thy ===== *)
theory Crypto
  imports Canonical
begin

text \<open>
  \<open>session-sync-protocol/src/crypto.rs\<close>: sealing a descriptor into an envelope and opening it
  again. The key derivation (HKDF-SHA-256) and the AEAD cipher (XChaCha20-Poly1305) are code
  outside the repository and are the \<open>primitives\<close> record; the predicates \<open>kdf_total\<close>, \<open>aead_correct\<close>
  and \<open>no_forgery\<close> name what the code relies on. The results: a sealed descriptor opens to itself
  within its lifetime, opening enforces the time window, and under authenticity an envelope opens
  only for the account and record it was sealed for, to the descriptor that was sealed.
\<close>

record primitives =
  hkdf_expand :: "bytes \<Rightarrow> bytes \<Rightarrow> bytes \<Rightarrow> nat \<Rightarrow> bytes option"
  aead_encrypt :: "bytes \<Rightarrow> bytes \<Rightarrow> bytes \<Rightarrow> bytes \<Rightarrow> bytes option"
  aead_decrypt :: "bytes \<Rightarrow> bytes \<Rightarrow> bytes \<Rightarrow> bytes \<Rightarrow> bytes option"

definition ENVELOPE_VERSION :: u16 where [limit_defs]: "ENVELOPE_VERSION = 1"
definition NONCE_LEN :: nat where [limit_defs]: "NONCE_LEN = 24"
definition MAX_FUTURE_CLOCK_SKEW :: int where [limit_defs]: "MAX_FUTURE_CLOCK_SKEW = 60"
definition KEY_INFO :: bytes where "KEY_INFO = ascii ''attached/host-sync/descriptor-aead-key/v1'' @ [0]"
definition AAD_DOMAIN :: bytes where "AAD_DOMAIN = ascii ''attached/host-sync/envelope-aad/v1'' @ [0]"

record Envelope =
  nonce :: bytes
  ciphertext :: bytes

definition new_envelope :: "bytes \<Rightarrow> bytes \<Rightarrow> HostAccessError + Envelope" where
  "new_envelope n c =
     (if length c > MAX_CIPHERTEXT_BYTES then Inl Limit else Inr \<lparr>nonce = n, ciphertext = c\<rparr>)"

record VerificationContext =
  account_id :: bytes
  record_id :: bytes
  now :: datetime

definition derive_host_access_descriptor_key ::
  "primitives \<Rightarrow> bytes \<Rightarrow> bytes \<Rightarrow> HostAccessError + bytes" where
  "derive_host_access_descriptor_key C account_root_key aid =
     ok_or (hkdf_expand C aid account_root_key KEY_INFO 32) InvalidField"

definition envelope_aad :: "bytes \<Rightarrow> bytes \<Rightarrow> bytes" where
  "envelope_aad aid rid = AAD_DOMAIN @ aid @ rid @ to_be_bytes ENVELOPE_VERSION"

definition seal_host_access_descriptor_with_nonce ::
  "'ticket platform \<Rightarrow> primitives \<Rightarrow> HostAccessDescriptor \<Rightarrow> bytes \<Rightarrow> bytes \<Rightarrow> bytes \<Rightarrow> bytes
     \<Rightarrow> HostAccessError + Envelope" where
  "seal_host_access_descriptor_with_nonce P C descriptor account_root_key aid rid n =
     bind_result (encode_host_access_descriptor P descriptor) (\<lambda>plaintext.
     bind_result (derive_host_access_descriptor_key C account_root_key aid) (\<lambda>k.
     bind_result (ok_or (aead_encrypt C k n (envelope_aad aid rid) plaintext) Decryption) (\<lambda>c.
       new_envelope n c)))"

text \<open>\<open>seal_host_access_descriptor\<close> draws the nonce from the operating system; the draw is the
  argument, \<open>None\<close> when no entropy is available.\<close>

definition seal_host_access_descriptor ::
  "'ticket platform \<Rightarrow> primitives \<Rightarrow> bytes option \<Rightarrow> HostAccessDescriptor \<Rightarrow> bytes \<Rightarrow> bytes \<Rightarrow> bytes
     \<Rightarrow> HostAccessError + Envelope" where
  "seal_host_access_descriptor P C generated descriptor account_root_key aid rid =
     bind_result (ok_or generated NonceReuse) (\<lambda>n.
       seal_host_access_descriptor_with_nonce P C descriptor account_root_key aid rid n)"

definition open_host_access_descriptor ::
  "'ticket platform \<Rightarrow> primitives \<Rightarrow> Envelope \<Rightarrow> bytes \<Rightarrow> VerificationContext
     \<Rightarrow> HostAccessError + HostAccessDescriptor" where
  "open_host_access_descriptor P C envelope account_root_key context =
     (if length (ciphertext envelope) > MAX_CIPHERTEXT_BYTES then Inl Limit
      else bind_result (derive_host_access_descriptor_key C account_root_key (account_id context)) (\<lambda>k.
        bind_result (ok_or (aead_decrypt C k (nonce envelope)
            (envelope_aad (account_id context) (record_id context)) (ciphertext envelope)) Decryption)
          (\<lambda>plaintext.
        bind_result (decode_host_access_descriptor P plaintext) (\<lambda>descriptor.
          let maximum = secs (now context) + MAX_FUTURE_CLOCK_SKEW in
          if \<not> representable P maximum then Inl InvalidField
          else if nanos_of (issued_at descriptor) > maximum * 1000000000 + int (nanos (now context))
            \<or> nanos_of (now context) \<ge> nanos_of (expires_at descriptor)
          then Inl Expired else Inr descriptor))))"

section \<open>What the code relies on\<close>

text \<open>The documented behaviour of the primitives: HKDF-SHA-256 expands to any length up to 8160 bytes;
  XChaCha20-Poly1305 encrypts under a 32-byte key and a 24-byte nonce, appends a 16-byte tag, and
  decryption with the same inputs returns the plaintext.\<close>

definition kdf_total :: "primitives \<Rightarrow> bool" where
  "kdf_total C \<longleftrightarrow> (\<forall>salt ikm info n. n \<le> 8160 \<longrightarrow>
     (\<exists>k. hkdf_expand C salt ikm info n = Some k \<and> length k = n))"

definition aead_correct :: "primitives \<Rightarrow> bool" where
  "aead_correct C \<longleftrightarrow> (\<forall>k n a p. length k = 32 \<longrightarrow> length n = 24 \<longrightarrow>
     (\<exists>c. aead_encrypt C k n a p = Some c \<and> length c = length p + 16 \<and> aead_decrypt C k n a c = Some p))"

text \<open>The AEAD invocations made by the publishers of an account, given the descriptors they sealed,
  the record and the nonce of each. \<open>no_forgery\<close> is the integrity guarantee of the cipher for one
  presented envelope: if it decrypts in a context, it is the output of one of those invocations.\<close>

definition aead_log ::
  "'ticket platform \<Rightarrow> primitives \<Rightarrow> bytes \<Rightarrow> bytes \<Rightarrow> (HostAccessDescriptor \<times> bytes \<times> bytes) set
     \<Rightarrow> (bytes \<times> bytes \<times> bytes \<times> bytes) set" where
  "aead_log P C root aid seals =
     {(n, envelope_aad aid rid, plain, c) | n rid plain c d k.
        (d, rid, n) \<in> seals \<and> encode_host_access_descriptor P d = Inr plain
        \<and> hkdf_expand C aid root KEY_INFO 32 = Some k
        \<and> aead_encrypt C k n (envelope_aad aid rid) plain = Some c}"

definition no_forgery ::
  "primitives \<Rightarrow> bytes \<Rightarrow> VerificationContext \<Rightarrow> Envelope \<Rightarrow> (bytes \<times> bytes \<times> bytes \<times> bytes) set \<Rightarrow> bool" where
  "no_forgery C root ctx env log \<longleftrightarrow>
     (\<forall>k plain. hkdf_expand C (account_id ctx) root KEY_INFO 32 = Some k \<longrightarrow>
        aead_decrypt C k (nonce env) (envelope_aad (account_id ctx) (record_id ctx)) (ciphertext env) = Some plain \<longrightarrow>
        (nonce env, envelope_aad (account_id ctx) (record_id ctx), plain, ciphertext env) \<in> log)"

lemma envelope_aad_inject:
  assumes "length a = length b"
  shows "envelope_aad a r = envelope_aad b s \<longleftrightarrow> a = b \<and> r = s"
  using assms by (auto simp: envelope_aad_def)

lemma new_envelope_Inr:
  "new_envelope n c = Inr e \<longleftrightarrow> length c \<le> MAX_CIPHERTEXT_BYTES \<and> e = \<lparr>nonce = n, ciphertext = c\<rparr>"
  by (auto simp: new_envelope_def)

lemma seal_Inr:
  assumes "seal_host_access_descriptor_with_nonce P C d root aid rid n = Inr env"
  obtains bs k c where "encode_host_access_descriptor P d = Inr bs"
    and "hkdf_expand C aid root KEY_INFO 32 = Some k"
    and "aead_encrypt C k n (envelope_aad aid rid) bs = Some c"
    and "env = \<lparr>nonce = n, ciphertext = c\<rparr>" and "length c \<le> MAX_CIPHERTEXT_BYTES"
  using assms
  by (auto simp: seal_host_access_descriptor_with_nonce_def derive_host_access_descriptor_key_def
      new_envelope_Inr)

definition fresh :: "'ticket platform \<Rightarrow> HostAccessDescriptor \<Rightarrow> datetime \<Rightarrow> bool" where
  "fresh P d t \<longleftrightarrow> representable P (secs t + MAX_FUTURE_CLOCK_SKEW)
     \<and> nanos_of (issued_at d) \<le> nanos_of t + MAX_FUTURE_CLOCK_SKEW * 1000000000
     \<and> nanos_of t < nanos_of (expires_at d)"

lemma window_Inr:
  "(let maximum = secs t + MAX_FUTURE_CLOCK_SKEW in
    if \<not> representable P maximum then Inl InvalidField
    else if nanos_of (issued_at x) > maximum * 1000000000 + int (nanos t)
      \<or> nanos_of t \<ge> nanos_of (expires_at x)
    then Inl Expired else Inr x) = Inr d \<longleftrightarrow> x = d \<and> fresh P x t"
  by (auto simp: Let_def fresh_def nanos_of_def algebra_simps)

lemma open_Inr:
  "open_host_access_descriptor P C env root ctx = Inr d \<longleftrightarrow>
     length (ciphertext env) \<le> MAX_CIPHERTEXT_BYTES \<and> fresh P d (now ctx)
     \<and> (\<exists>k bs. hkdf_expand C (account_id ctx) root KEY_INFO 32 = Some k
          \<and> aead_decrypt C k (nonce env) (envelope_aad (account_id ctx) (record_id ctx)) (ciphertext env) = Some bs
          \<and> decode_host_access_descriptor P bs = Inr d)"
  unfolding open_host_access_descriptor_def derive_host_access_descriptor_key_def
  by (auto simp only: window_Inr bind_result_eq_Inr ok_or_eq_Inr split: if_splits)

lemma seal_succeeds:
  assumes C: "kdf_total C" "aead_correct C" and "validate P d = Inr ()" "length (attach_capability d) = 32"
    and n: "length n = 24"
  shows "\<exists>env. seal_host_access_descriptor_with_nonce P C d root aid rid n = Inr env"
proof -
  obtain bs where bs: "encode_host_access_descriptor P d = Inr bs" "length bs \<le> 4300"
    using length_encoding assms(3,4) by blast
  obtain k where k: "hkdf_expand C aid root KEY_INFO 32 = Some k" "length k = 32"
    using C(1) unfolding kdf_total_def by (metis (no_types) numeral_le_iff semiring_norm(68,69,71,72))
  obtain c where "aead_encrypt C k n (envelope_aad aid rid) bs = Some c" "length c = length bs + 16"
    using C(2) k(2) n unfolding aead_correct_def by blast
  with bs k show ?thesis
    by (simp add: seal_host_access_descriptor_with_nonce_def derive_host_access_descriptor_key_def
        new_envelope_def limit_defs)
qed

lemma seal_then_open:
  assumes C: "aead_correct C" "kdf_total C" and d: "typed_descriptor P d" and n: "length n = 24"
    and env: "seal_host_access_descriptor_with_nonce P C d root aid rid n = Inr env"
    and ctx: "account_id ctx = aid" "record_id ctx = rid"
  shows "open_host_access_descriptor P C env root ctx = Inr d \<longleftrightarrow> fresh P d (now ctx)"
proof -
  obtain bs k c where bs: "encode_host_access_descriptor P d = Inr bs"
    and k: "hkdf_expand C aid root KEY_INFO 32 = Some k"
    and c: "aead_encrypt C k n (envelope_aad aid rid) bs = Some c"
    and e: "env = \<lparr>nonce = n, ciphertext = c\<rparr>" "length c \<le> MAX_CIPHERTEXT_BYTES"
    using env by (rule seal_Inr)
  have "length k = 32" using C(2) k unfolding kdf_total_def
    by (metis (no_types) numeral_le_iff option.inject semiring_norm(68,69,71,72))
  then have "aead_decrypt C k n (envelope_aad aid rid) c = Some bs"
    using C(1) n c unfolding aead_correct_def by (metis option.inject)
  moreover have "decode_host_access_descriptor P bs = Inr d"
    using d bs by (rule descriptor_codec.decode_encode)
  ultimately show ?thesis using k e ctx by (auto simp: open_Inr)
qed

lemma opened_in_log:
  assumes "open_host_access_descriptor P C env root ctx = Inr d"
    and "no_forgery C root ctx env (aead_log P C root (account_id ctx) seals)"
  obtains d' rid n plain where "(d', rid, n) \<in> seals" "encode_host_access_descriptor P d' = Inr plain"
    "envelope_aad (account_id ctx) rid = envelope_aad (account_id ctx) (record_id ctx)"
    "decode_host_access_descriptor P plain = Inr d"
proof -
  from assms(1) obtain k bs where k: "hkdf_expand C (account_id ctx) root KEY_INFO 32 = Some k"
    and p: "aead_decrypt C k (nonce env) (envelope_aad (account_id ctx) (record_id ctx)) (ciphertext env) = Some bs"
    and bs: "decode_host_access_descriptor P bs = Inr d"
    by (auto simp: open_Inr)
  have "(nonce env, envelope_aad (account_id ctx) (record_id ctx), bs, ciphertext env)
      \<in> aead_log P C root (account_id ctx) seals"
    using assms(2) k p by (simp add: no_forgery_def)
  then show ?thesis using bs that by (auto simp: aead_log_def)
qed

lemma opened_origin:
  assumes "open_host_access_descriptor P C env root ctx = Inr d"
    and "no_forgery C root ctx env (aead_log P C root (account_id ctx) seals)"
    and "\<forall>(d', rid, n) \<in> seals. typed_descriptor P d'"
  shows "\<exists>n. (d, record_id ctx, n) \<in> seals" and "validate P d = Inr ()" and "fresh P d (now ctx)"
proof -
  obtain d' rid n plain where s: "(d', rid, n) \<in> seals" "encode_host_access_descriptor P d' = Inr plain"
    and aad: "envelope_aad (account_id ctx) rid = envelope_aad (account_id ctx) (record_id ctx)"
    and dec: "decode_host_access_descriptor P plain = Inr d"
    using opened_in_log [OF assms(1,2)] by blast
  have "d' = d" using descriptor_codec.decode_encode [of P d' plain] s assms(3) dec by auto
  moreover have "rid = record_id ctx" using aad by (simp add: envelope_aad_inject)
  ultimately have "(d, record_id ctx, n) \<in> seals" using s(1) by simp
  moreover have "fresh P d (now ctx)" using assms(1) by (simp add: open_Inr)
  ultimately show "\<exists>n. (d, record_id ctx, n) \<in> seals" and "validate P d = Inr ()" and "fresh P d (now ctx)"
    using decode_Inr(2) [OF dec] by blast+
qed

section \<open>Properties\<close>

text \<open>Concrete primitives for the witnesses: a cipher that appends a constant tag and a key derivation
  that pads the root key. They have the stated algebra and no secrecy.\<close>

definition sample_primitives :: primitives where
  "sample_primitives = \<lparr>hkdf_expand = (\<lambda>salt ikm info n. Some (take n (ikm @ replicate n 0))),
     aead_encrypt = (\<lambda>k n a p. Some (p @ replicate 16 0)),
     aead_decrypt = (\<lambda>k n a c. if 16 \<le> length c then Some (take (length c - 16) c) else None)\<rparr>"

lemma sample_primitives_ok: "kdf_total sample_primitives" "aead_correct sample_primitives"
  by (auto simp: kdf_total_def aead_correct_def sample_primitives_def min_def)

definition sample_context :: VerificationContext where
  "sample_context = \<lparr>account_id = replicate 16 1, record_id = replicate 16 2,
     now = \<lparr>secs = 1700000030, nanos = 0\<rparr>\<rparr>"

lemma sample_fresh: "fresh sample_platform sample_descriptor (now sample_context)"
  by (simp add: fresh_def sample_context_def sample_descriptor_def sample_platform_def nanos_of_def limit_defs)

text \<open>C5: a valid descriptor can always be sealed, and the envelope opens again, under the same account
  and record, exactly while it is fresh: not issued more than 60 seconds in the future and not
  expired. The opened descriptor is the sealed one.\<close>

theorem seal_open_roundtrip:
  assumes "kdf_total C" and "aead_correct C" and "validate P d = Inr ()" and "typed_descriptor P d"
    and "length n = NONCE_LEN" and "account_id ctx = aid" and "record_id ctx = rid"
  shows "\<exists>env. seal_host_access_descriptor P C (Some n) d root aid rid = Inr env \<and>
    (open_host_access_descriptor P C env root ctx = Inr d \<longleftrightarrow> fresh P d (now ctx))"
proof -
  have n: "length n = 24" using assms(5) by (simp add: limit_defs)
  have cap: "length (attach_capability d) = 32" using assms(4) by (simp add: typed_descriptor_def)
  obtain env where env: "seal_host_access_descriptor_with_nonce P C d root aid rid n = Inr env"
    using seal_succeeds [OF assms(1-3) cap n] by blast
  show ?thesis
    using env seal_then_open [OF assms(2,1,4) n env assms(6,7)]
    by (simp add: seal_host_access_descriptor_def)
qed

theorem seal_open_roundtrip_witness:
  "\<exists>env. seal_host_access_descriptor sample_platform sample_primitives (Some (replicate 24 9))
      sample_descriptor (replicate 32 3) (replicate 16 1) (replicate 16 2) = Inr env
    \<and> open_host_access_descriptor sample_platform sample_primitives env (replicate 32 3) sample_context
      = Inr sample_descriptor"
  using seal_open_roundtrip [OF sample_primitives_ok sample_valid, of "replicate 24 9" sample_context
      "replicate 16 1" "replicate 16 2" "replicate 32 3"] sample_fresh
  by (simp add: sample_context_def limit_defs)

text \<open>C6: as long as the cipher is not forged, an envelope opens only to a descriptor that a publisher
  of the account sealed for that very record, and only while it is fresh. The service that stores
  envelopes can neither alter them nor move them to another record.\<close>

theorem opened_descriptor_was_sealed:
  assumes "open_host_access_descriptor P C env root ctx = Inr d"
    and "no_forgery C root ctx env (aead_log P C root (account_id ctx) seals)"
    and "\<forall>(d', rid, n) \<in> seals. typed_descriptor P d'"
  shows "(\<exists>n. (d, record_id ctx, n) \<in> seals) \<and> validate P d = Inr () \<and> fresh P d (now ctx)"
  using opened_origin [OF assms] by blast

theorem opened_descriptor_was_sealed_witness:
  "\<exists>env. open_host_access_descriptor sample_platform sample_primitives env (replicate 32 3) sample_context
      = Inr sample_descriptor
    \<and> (\<exists>n. (sample_descriptor, record_id sample_context, n) \<in> {(sample_descriptor, replicate 16 2, replicate 24 9)})
    \<and> validate sample_platform sample_descriptor = Inr ()"
proof -
  have cap: "length (attach_capability sample_descriptor) = 32" by (simp add: sample_descriptor_def)
  obtain env where env: "seal_host_access_descriptor_with_nonce sample_platform sample_primitives
      sample_descriptor (replicate 32 3) (replicate 16 1) (replicate 16 2) (replicate 24 9) = Inr env"
    using seal_succeeds [OF sample_primitives_ok sample_valid(1) cap, of "replicate 24 9"] by force
  obtain bs k c where bs: "encode_host_access_descriptor sample_platform sample_descriptor = Inr bs"
    and e: "env = \<lparr>nonce = replicate 24 9, ciphertext = c\<rparr>" and c: "c = bs @ replicate 16 0"
    using env by (rule seal_Inr) (simp add: sample_primitives_def)
  have opn: "open_host_access_descriptor sample_platform sample_primitives env (replicate 32 3) sample_context
      = Inr sample_descriptor"
    using seal_then_open [OF sample_primitives_ok(2,1) sample_valid(2) _ env, of sample_context] sample_fresh
    by (simp add: sample_context_def)
  have "no_forgery sample_primitives (replicate 32 3) sample_context env (aead_log sample_platform
      sample_primitives (replicate 32 3) (account_id sample_context) {(sample_descriptor, replicate 16 2, replicate 24 9)})"
    using bs by (simp add: no_forgery_def aead_log_def sample_context_def sample_primitives_def e c)
  from opened_descriptor_was_sealed [OF opn this] sample_valid(2)
  show ?thesis using opn by auto
qed

end
