(* ===== verification/Base64.thy ===== *)
theory Base64
  imports Prelude
begin

text \<open>
  The unpadded URL-safe base64 engine (\<open>URL_SAFE_NO_PAD\<close> of the \<open>base64\<close> crate) is code outside
  the repository: every definition that uses it takes it as a \<open>base64\<close> record. The locale
  \<open>base64_engine\<close> states the documented behaviour the callers rely on, the callers' lemmas on
  fixed-width and bounded decoding are proved once inside it, and the locale is interpreted on
  \<open>url_safe_no_pad\<close>, an executable transcription of RFC 4648, sections 5 and 3.2, which the
  witnesses of the development also use.
\<close>

record base64 =
  b64_encode :: "bytes \<Rightarrow> bytes"
  b64_decode :: "bytes \<Rightarrow> bytes option"

text \<open>\<open>decode_slice\<close> writes into a caller-supplied buffer and fails when the output does not fit.\<close>

definition decode_slice :: "base64 \<Rightarrow> bytes \<Rightarrow> nat \<Rightarrow> bytes option" where
  "decode_slice e s n =
     (case b64_decode e s of None \<Rightarrow> None | Some bs \<Rightarrow> if length bs \<le> n then Some bs else None)"

definition b64_alphabet :: "u8 \<Rightarrow> bool" where
  "b64_alphabet b \<longleftrightarrow> is_ascii_alphanumeric b \<or> b = 45 \<or> b = 95"

section \<open>The engine's contract\<close>

locale base64_engine =
  fixes e :: base64
  assumes decode_encode: "b64_decode e (b64_encode e bs) = Some bs"
    and length_encode: "length (b64_encode e bs) = (length bs * 4 + 2) div 3"
    and encode_alphabet: "b \<in> set (b64_encode e bs) \<Longrightarrow> b64_alphabet b"
begin

lemma encode_inject: "b64_encode e xs = b64_encode e ys \<longleftrightarrow> xs = ys"
  by (metis decode_encode option.inject)

lemma decode_slice_encode: "length bs \<le> n \<Longrightarrow> decode_slice e (b64_encode e bs) n = Some bs"
  by (simp add: decode_slice_def decode_encode)

lemma encode_ascii: "is_ascii (b64_encode e bs)"
proof -
  have "b < 128" if "b64_alphabet b" for b :: u8
    using that is_ascii_alphanumeric_ascii [of b] by (auto simp: b64_alphabet_def)
  then show ?thesis
    using encode_alphabet by (auto simp: is_ascii_def list_all_iff)
qed

lemma encode_utf8: "utf8_valid (b64_encode e bs)"
  by (rule ascii_utf8_valid) (rule encode_ascii)

lemma encode_no_padding: "61 \<notin> set (b64_encode e bs)"
proof
  assume "61 \<in> set (b64_encode e bs)"
  then have "b64_alphabet 61" by (rule encode_alphabet)
  then show False
    by (simp add: b64_alphabet_def is_ascii_alphanumeric_def is_ascii_digit_def
        is_ascii_lowercase_def is_ascii_uppercase_def)
qed

lemma length_encode_16: "length bs = 16 \<Longrightarrow> length (b64_encode e bs) = 22"
  by (simp add: length_encode)

lemma length_encode_32: "length bs = 32 \<Longrightarrow> length (b64_encode e bs) = 43"
  by (simp add: length_encode)

lemma length_encode_24: "length bs = 24 \<Longrightarrow> length (b64_encode e bs) = 32"
  by (simp add: length_encode)

end

section \<open>RFC 4648, base64url without padding\<close>

definition b64_char :: "nat \<Rightarrow> u8" where
  "b64_char n =
     (if n < 26 then word_of_nat (65 + n) else if n < 52 then word_of_nat (71 + n)
      else if n < 62 then word_of_nat (n - 4) else if n = 62 then 45 else 95)"

definition b64_value :: "u8 \<Rightarrow> nat option" where
  "b64_value b =
     (if is_ascii_uppercase b then Some (unat b - 65)
      else if is_ascii_lowercase b then Some (unat b - 71)
      else if is_ascii_digit b then Some (unat b + 4)
      else if b = 45 then Some 62 else if b = 95 then Some 63 else None)"

fun rfc4648_encode :: "bytes \<Rightarrow> bytes" where
  "rfc4648_encode [] = []"
| "rfc4648_encode [a] = (let n = unat a in [b64_char (n div 4), b64_char (n mod 4 * 16)])"
| "rfc4648_encode [a, b] =
     (let n = unat a * 256 + unat b
      in [b64_char (n div 1024), b64_char (n div 16 mod 64), b64_char (n mod 16 * 4)])"
| "rfc4648_encode (a # b # c # r) =
     (let n = unat a * 65536 + unat b * 256 + unat c
      in b64_char (n div 262144) # b64_char (n div 4096 mod 64) # b64_char (n div 64 mod 64)
           # b64_char (n mod 64) # rfc4648_encode r)"

fun rfc4648_values :: "nat list \<Rightarrow> bytes option" where
  "rfc4648_values [] = Some []"
| "rfc4648_values [p] = None"
| "rfc4648_values [p, q] = (if q mod 16 = 0 then Some [word_of_nat (p * 4 + q div 16)] else None)"
| "rfc4648_values [p, q, s] =
     (if s mod 4 = 0
      then let n = p * 1024 + q * 16 + s div 4 in Some [word_of_nat (n div 256), word_of_nat n]
      else None)"
| "rfc4648_values (p # q # s # t # r) =
     (let n = p * 262144 + q * 4096 + s * 64 + t
      in map_option (\<lambda>bs. word_of_nat (n div 65536) # word_of_nat (n div 256) # word_of_nat n # bs)
           (rfc4648_values r))"

fun option_map_list :: "('a \<Rightarrow> 'b option) \<Rightarrow> 'a list \<Rightarrow> 'b list option" where
  "option_map_list f [] = Some []"
| "option_map_list f (x # xs) =
     (case f x of None \<Rightarrow> None | Some y \<Rightarrow> map_option (\<lambda>ys. y # ys) (option_map_list f xs))"

definition rfc4648_decode :: "bytes \<Rightarrow> bytes option" where
  "rfc4648_decode s = Option.bind (option_map_list b64_value s) rfc4648_values"

definition url_safe_no_pad :: base64 where
  "url_safe_no_pad = \<lparr>b64_encode = rfc4648_encode, b64_decode = rfc4648_decode\<rparr>"

lemma unat_u8_add: "k + n < 256 \<Longrightarrow> unat (word_of_nat (k + n) :: u8) = k + n"
  by (simp only: unat_u8_of_nat mod_less)

lemma b64_char_cases:
  assumes "n < 64"
  shows "(n < 26 \<and> unat (b64_char n) = 65 + n) \<or> (26 \<le> n \<and> n < 52 \<and> unat (b64_char n) = 71 + n)
    \<or> (52 \<le> n \<and> n < 62 \<and> unat (b64_char n) = n - 4) \<or> (n = 62 \<and> b64_char n = 45)
    \<or> (n = 63 \<and> b64_char n = 95)"
  using assms unat_u8_add [of 65 n] unat_u8_add [of 71 n] unat_u8_add [of 0 "n - 4"]
  by (auto simp: b64_char_def)

lemma b64_value_char [simp]: "n < 64 \<Longrightarrow> b64_value (b64_char n) = Some n"
  using b64_char_cases [of n]
  by (auto simp: b64_value_def is_ascii_uppercase_def is_ascii_lowercase_def is_ascii_digit_def
      word_le_nat_alt)

lemma b64_alphabet_char: "n < 64 \<Longrightarrow> b64_alphabet (b64_char n)"
  using b64_char_cases [of n]
  by (auto simp: b64_alphabet_def is_ascii_alphanumeric_def is_ascii_uppercase_def
      is_ascii_lowercase_def is_ascii_digit_def word_le_nat_alt)

lemma word_of_nat_unat_eq: "n mod 256 = unat a \<Longrightarrow> (word_of_nat n :: u8) = a"
  by (intro unsigned_word_eqI [where 'a = nat]) (simp add: unat_u8_of_nat)

lemma sextets: "n div 4096 * 4096 + n div 64 mod 64 * 64 + n mod 64 = (n :: nat)"
proof -
  have "n div 64 div 64 = n div 4096" by (simp add: div_mult2_eq [symmetric])
  then show ?thesis
    using div_mult_mod_eq [of "n div 64" 64] div_mult_mod_eq [of n 64] by linarith
qed

lemma three_bytes:
  fixes a b c :: nat
  assumes bounds: "a < 256" "b < 256" "c < 256" and n: "n = a * 65536 + b * 256 + c"
  shows "n div 262144 * 262144 + n div 4096 mod 64 * 4096 + n div 64 mod 64 * 64 + n mod 64 = n"
    and "n div 262144 < 64" and "n div 65536 mod 256 = a" and "n div 256 mod 256 = b" and "n mod 256 = c"
proof -
  have "n div 4096 div 64 = n div 262144" by (simp add: div_mult2_eq [symmetric])
  then show "n div 262144 * 262144 + n div 4096 mod 64 * 4096 + n div 64 mod 64 * 64 + n mod 64 = n"
    using sextets [of n] div_mult_mod_eq [of "n div 4096" 64] by linarith
  show "n div 262144 < 64" using bounds n by (intro less_mult_imp_div_less) linarith
  have "n div 65536 = a" using bounds n by (intro div_nat_eqI) auto
  then show "n div 65536 mod 256 = a" using bounds by simp
  have "n div 256 = a * 256 + b" using bounds n by (intro div_nat_eqI) auto
  then show "n div 256 mod 256 = b" using bounds by simp
  have "n = (a * 256 + b) * 256 + c" using n by simp
  then show "n mod 256 = c" using bounds by (simp only: mod_mult_self3 mod_less)
qed

lemma two_bytes:
  fixes a b :: nat
  assumes bounds: "a < 256" "b < 256" and n: "n = a * 256 + b"
  shows "n div 1024 * 1024 + n div 16 mod 64 * 16 + n mod 16 = n"
    and "n div 1024 < 64" and "n div 256 mod 256 = a" and "n mod 256 = b"
proof -
  have "n div 16 div 64 = n div 1024" by (simp add: div_mult2_eq [symmetric])
  then show "n div 1024 * 1024 + n div 16 mod 64 * 16 + n mod 16 = n"
    using div_mult_mod_eq [of "n div 16" 64] div_mult_mod_eq [of n 16] by linarith
  show "n div 1024 < 64" using bounds n by (intro less_mult_imp_div_less) linarith
  have "n div 256 = a" using bounds n by (intro div_nat_eqI) auto
  then show "n div 256 mod 256 = a" using bounds by simp
  show "n mod 256 = b" using bounds n by simp
qed

lemma rfc4648_decode_encode: "rfc4648_decode (rfc4648_encode bs) = Some bs"
  unfolding rfc4648_decode_def
proof (induction bs rule: rfc4648_encode.induct)
  case 1
  show ?case by simp
next
  case (2 a)
  have "unat a div 4 < 64" "unat a mod 4 * 16 < 64" using unat_u8_bound [of a] by linarith+
  moreover have "unat a div 4 * 4 + unat a mod 4 * 16 div 16 = unat a" by simp
  ultimately show ?case by (simp add: Let_def del: of_nat_add of_nat_mult)
next
  case (3 a b)
  define n where n: "n = unat a * 256 + unat b"
  note m = two_bytes [OF unat_u8_bound [of a] unat_u8_bound [of b] n]
  have enc: "rfc4648_encode [a, b] =
      [b64_char (n div 1024), b64_char (n div 16 mod 64), b64_char (n mod 16 * 4)]"
    by (simp add: n Let_def)
  have "n mod 16 * 4 < 64" using mod_less_divisor [of 16 n] by linarith
  then show ?case
    using m(1,2) unfolding enc
    by (simp add: Let_def word_of_nat_unat_eq [OF m(3)] word_of_nat_unat_eq [OF m(4)]
        del: of_nat_add of_nat_mult)
next
  case (4 a b c r)
  define n where n: "n = unat a * 65536 + unat b * 256 + unat c"
  note m = three_bytes [OF unat_u8_bound [of a] unat_u8_bound [of b] unat_u8_bound [of c] n]
  have enc: "rfc4648_encode (a # b # c # r) = b64_char (n div 262144) # b64_char (n div 4096 mod 64)
      # b64_char (n div 64 mod 64) # b64_char (n mod 64) # rfc4648_encode r"
    by (simp add: n Let_def)
  obtain vs where vs: "option_map_list b64_value (rfc4648_encode r) = Some vs" "rfc4648_values vs = Some r"
    using 4 by (auto simp: Option.bind_eq_Some_conv)
  show ?case
    using m(1,2) vs unfolding enc
    by (simp add: Let_def word_of_nat_unat_eq [OF m(3)] word_of_nat_unat_eq [OF m(4)]
        word_of_nat_unat_eq [OF m(5)] del: of_nat_add of_nat_mult)
qed

lemma length_rfc4648_encode: "length (rfc4648_encode bs) = (length bs * 4 + 2) div 3"
  by (induction bs rule: rfc4648_encode.induct) (simp_all add: Let_def)

lemma rfc4648_encode_alphabet: "b \<in> set (rfc4648_encode bs) \<Longrightarrow> b64_alphabet b"
proof (induction bs rule: rfc4648_encode.induct)
  case 1
  then show ?case by simp
next
  case (2 a)
  have "unat a div 4 < 64" "unat a mod 4 * 16 < 64" using unat_u8_bound [of a] by linarith+
  then show ?case using 2 by (auto simp: Let_def b64_alphabet_char)
next
  case (3 a b')
  then show ?case
    using two_bytes(2) [OF unat_u8_bound [of a] unat_u8_bound [of b'] refl]
    by (auto simp: Let_def b64_alphabet_char)
next
  case (4 a b' c r)
  then show ?case
    using three_bytes(2) [OF unat_u8_bound [of a] unat_u8_bound [of b'] unat_u8_bound [of c] refl]
    by (auto simp: Let_def b64_alphabet_char)
qed

interpretation url_safe: base64_engine url_safe_no_pad
  by unfold_locales
    (auto simp: url_safe_no_pad_def rfc4648_decode_encode length_rfc4648_encode
      dest: rfc4648_encode_alphabet)

end
