(* ===== verification/Origin.thy ===== *)
theory Origin
  imports Limits
begin

text \<open>
  \<open>ServiceOrigin::parse\<close> of \<open>session-sync-protocol/src/account.rs\<close>: the strict grammar of service
  origins. The pieces of the standard library it uses (\<open>str::split\<close>, \<open>Ipv4Addr\<close> and \<open>Ipv6Addr\<close>
  with \<open>from_str\<close> and \<open>Display\<close>) are modelled here; \<open>Url::parse\<close> is the parameter \<open>U\<close>. The main
  result is that plain HTTP is accepted only for the loopback addresses with an explicit port.
\<close>

datatype AccountError =
  InvalidIdentifier | InvalidBearer | InvalidAuthorization | InvalidOrigin | InvalidBundle

section \<open>Strings of the standard library\<close>

definition strip_prefix :: "bytes \<Rightarrow> bytes \<Rightarrow> bytes option" where
  "strip_prefix p s = (if take (length p) s = p then Some (drop (length p) s) else None)"

definition split_once :: "u8 \<Rightarrow> bytes \<Rightarrow> (bytes \<times> bytes) option" where
  "split_once c s = (case dropWhile (\<lambda>b. b \<noteq> c) s of
     [] \<Rightarrow> None | _ # r \<Rightarrow> Some (takeWhile (\<lambda>b. b \<noteq> c) s, r))"

fun split_on :: "u8 \<Rightarrow> bytes \<Rightarrow> bytes list" where
  "split_on c [] = [[]]"
| "split_on c (b # s) =
     (if b = c then [] # split_on c s
      else case split_on c s of [] \<Rightarrow> [[b]] | p # ps \<Rightarrow> (b # p) # ps)"

lemma strip_prefix_Some [simp]: "strip_prefix p s = Some r \<longleftrightarrow> s = p @ r"
  by (auto simp: strip_prefix_def) (metis append_take_drop_id)

lemma strip_prefix_append [simp]: "strip_prefix p (p @ r) = Some r"
  by simp

lemma split_once_Some:
  "split_once c s = Some (a, b) \<longleftrightarrow> s = a @ c # b \<and> c \<notin> set a"
proof
  assume "split_once c s = Some (a, b)"
  then obtain x where x: "dropWhile (\<lambda>b. b \<noteq> c) s = x # b" and a: "a = takeWhile (\<lambda>b. b \<noteq> c) s"
    by (auto simp: split_once_def split: list.splits)
  have "x = c" using hd_dropWhile [of "\<lambda>b. b \<noteq> c" s] x by simp
  then show "s = a @ c # b \<and> c \<notin> set a"
    using takeWhile_dropWhile_id [of "\<lambda>b. b \<noteq> c" s] x a by (auto dest: set_takeWhileD)
next
  assume "s = a @ c # b \<and> c \<notin> set a"
  then have s: "s = a @ c # b" and c: "\<forall>x\<in>set a. x \<noteq> c" by auto
  then show "split_once c s = Some (a, b)"
    by (simp add: split_once_def takeWhile_append2 dropWhile_append2)
qed

lemma split_once_None: "split_once c s = None \<longleftrightarrow> c \<notin> set s"
proof (cases "dropWhile (\<lambda>b. b \<noteq> c) s")
  case Nil
  then have "c \<notin> set s" unfolding dropWhile_eq_Nil_conv by auto
  then show ?thesis unfolding split_once_def Nil by simp
next
  case (Cons x r)
  then have "x = c" using hd_dropWhile [of "\<lambda>b. b \<noteq> c" s] by simp
  moreover have "x \<in> set s" using Cons set_dropWhileD [of x "\<lambda>b. b \<noteq> c" s] by simp
  ultimately show ?thesis using Cons by (simp add: split_once_def)
qed

section \<open>Address text of the standard library\<close>

definition to_digit :: "nat \<Rightarrow> u8 \<Rightarrow> nat option" where
  "to_digit radix b =
     (let v = if is_ascii_digit b then unat b - 48
              else if is_ascii_lowercase b then unat b - 87
              else if is_ascii_uppercase b then unat b - 55 else radix
      in if v < radix then Some v else None)"

fun read_digits :: "nat \<Rightarrow> bytes \<Rightarrow> nat list \<times> bytes" where
  "read_digits radix [] = ([], [])"
| "read_digits radix (b # s) =
     (case to_digit radix b of None \<Rightarrow> ([], b # s)
      | Some d \<Rightarrow> (case read_digits radix s of (ds, r) \<Rightarrow> (d # ds, r)))"

text \<open>\<open>Parser::read_number\<close>: at most \<open>n\<close> digits, the value at most \<open>m\<close>.\<close>

definition read_number :: "nat \<Rightarrow> nat \<Rightarrow> nat \<Rightarrow> bool \<Rightarrow> bytes \<Rightarrow> (nat \<times> bytes) option" where
  "read_number radix n m allow_zero_prefix s =
     (case read_digits radix s of (ds, r) \<Rightarrow>
        let v = foldl (\<lambda>acc d. acc * radix + d) 0 ds in
        if length ds = 0 \<or> length ds > n \<or> v > m then None
        else if \<not> allow_zero_prefix \<and> take 1 s = [48] \<and> length ds > 1 then None
        else Some (v, r))"

text \<open>\<open>Parser::read_separator\<close>: the separator precedes every item but the first.\<close>

definition read_separator :: "u8 \<Rightarrow> nat \<Rightarrow> (bytes \<Rightarrow> ('a \<times> bytes) option) \<Rightarrow> bytes \<Rightarrow> ('a \<times> bytes) option" where
  "read_separator sep i f s =
     (if i = 0 then f s else case s of b # r \<Rightarrow> if b = sep then f r else None | [] \<Rightarrow> None)"

fun read_octets :: "nat \<Rightarrow> nat \<Rightarrow> bytes \<Rightarrow> (u8 list \<times> bytes) option" where
  "read_octets i 0 s = Some ([], s)"
| "read_octets i (Suc k) s =
     Option.bind (read_separator 46 i (read_number 10 3 255 False) s) (\<lambda>(v, r).
     Option.bind (read_octets (Suc i) k r) (\<lambda>(vs, r'). Some (word_of_nat v # vs, r')))"

lemma read_octets_numeral [simp]:
  "read_octets i (numeral k) s =
     Option.bind (read_separator 46 i (read_number 10 3 255 False) s) (\<lambda>(v, r).
     Option.bind (read_octets (Suc i) (pred_numeral k) r) (\<lambda>(vs, r'). Some (word_of_nat v # vs, r')))"
  unfolding numeral_eq_Suc by simp

definition read_ipv4_addr :: "bytes \<Rightarrow> (u8 list \<times> bytes) option" where
  "read_ipv4_addr s = read_octets 0 4 s"

definition ipv4_from_str :: "bytes \<Rightarrow> u8 list option" where
  "ipv4_from_str s =
     (if length s > 15 then None
      else case read_ipv4_addr s of Some (ip, []) \<Rightarrow> Some ip | _ \<Rightarrow> None)"

definition ipv4_to_string :: "u8 list \<Rightarrow> bytes" where
  "ipv4_to_string ip = concat (map (\<lambda>(i, o8). (if i = 0 then [] else [46]) @ dec_text (unat o8))
     (List.enumerate 0 ip))"

text \<open>\<open>read_groups limit\<close> reads up to \<open>limit\<close> 16-bit groups; the flag tells that the last two came
  from a trailing dotted IPv4 address.\<close>

function read_groups :: "nat \<Rightarrow> nat \<Rightarrow> bytes \<Rightarrow> u16 list \<times> bool \<times> bytes" where
  "read_groups limit i s =
     (if i < limit then
        case (if i + 1 < limit then read_separator 58 i read_ipv4_addr s else None) of
          Some (ip, r) \<Rightarrow> ([from_be_bytes (take 2 ip), from_be_bytes (drop 2 ip)], True, r)
        | None \<Rightarrow>
            (case read_separator 58 i (read_number 16 4 65535 True) s of
               None \<Rightarrow> ([], False, s)
             | Some (g, r) \<Rightarrow> (case read_groups limit (Suc i) r of
                 (gs, v4, r') \<Rightarrow> (word_of_nat g # gs, v4, r')))
      else ([], False, s))"
  by pat_completeness auto
termination
  by (relation "measure (\<lambda>(limit, i, s). limit - i)") auto

declare read_groups.simps [simp del]

definition ipv6_from_str :: "bytes \<Rightarrow> u16 list option" where
  "ipv6_from_str s =
     (case read_groups 8 0 s of (hd_groups, head_ipv4, r) \<Rightarrow>
        if length hd_groups = 8 then (if r = [] then Some hd_groups else None)
        else if head_ipv4 then None
        else case strip_prefix [58, 58] r of
          None \<Rightarrow> None
        | Some r' \<Rightarrow>
            (case read_groups (8 - (length hd_groups + 1)) 0 r' of (tail_groups, _, r'') \<Rightarrow>
               if r'' = []
               then Some (hd_groups @ replicate (8 - length hd_groups - length tail_groups) 0 @ tail_groups)
               else None))"

function hex_text :: "nat \<Rightarrow> bytes" where
  "hex_text n =
     (let d = n mod 16; c = word_of_nat (if d < 10 then 48 + d else 87 + d)
      in if n < 16 then [c] else hex_text (n div 16) @ [c])"
  by pat_completeness auto
termination
  by (relation "measure id") auto

declare hex_text.simps [simp del]

definition fmt_subslice :: "u16 list \<Rightarrow> bytes" where
  "fmt_subslice gs = concat (map (\<lambda>(i, g). (if i = 0 then [] else [58]) @ hex_text (unat g))
     (List.enumerate 0 gs))"

text \<open>The first longest run of zero groups, as its start and length.\<close>

fun longest_zeroes :: "nat \<Rightarrow> nat \<times> nat \<Rightarrow> nat \<times> nat \<Rightarrow> u16 list \<Rightarrow> nat \<times> nat" where
  "longest_zeroes i cur best [] = best"
| "longest_zeroes i cur best (g # gs) =
     (if g = 0
      then let cur' = (if snd cur = 0 then i else fst cur, snd cur + 1)
           in longest_zeroes (Suc i) cur' (if snd cur' > snd best then cur' else best) gs
      else longest_zeroes (Suc i) (0, 0) best gs)"

definition ipv6_mapped :: "u16 list \<Rightarrow> bool" where
  "ipv6_mapped ip \<longleftrightarrow> take 6 ip = [0, 0, 0, 0, 0, 0xffff]"

definition ipv6_to_string :: "u16 list \<Rightarrow> bytes" where
  "ipv6_to_string ip =
     (if ipv6_mapped ip
      then ascii ''::ffff:'' @ ipv4_to_string (concat (map to_be_bytes (drop 6 ip)))
      else case longest_zeroes 0 (0, 0) (0, 0) ip of (start, len) \<Rightarrow>
        if len > 1 then fmt_subslice (take start ip) @ [58, 58] @ fmt_subslice (drop (start + len) ip)
        else fmt_subslice ip)"

definition ipv4_localhost :: "u8 list" where "ipv4_localhost = [127, 0, 0, 1]"
definition ipv6_localhost :: "u16 list" where "ipv6_localhost = [0, 0, 0, 0, 0, 0, 0, 1]"

section \<open>The origin parser\<close>

datatype url_host = Domain bytes | Ipv4 "u8 list" | Ipv6 "u16 list"

record url =
  url_scheme :: bytes
  url_username :: bytes
  url_password :: "bytes option"
  url_path :: bytes
  url_query :: "bytes option"
  url_fragment :: "bytes option"
  url_hostname :: "url_host option"
  url_port :: "nat option"

definition split_authority :: "bytes \<Rightarrow> AccountError + bytes \<times> bytes option" where
  "split_authority value =
     (if take 1 value = [91] then
        if 93 \<notin> set value then Inl InvalidOrigin
        else let host = takeWhile (\<lambda>b. b \<noteq> 93) value @ [93]; r = drop (length host) value in
          if r = [] then Inr (host, None)
          else bind_result (ok_or (strip_prefix [58] r) InvalidOrigin) (\<lambda>port. Inr (host, Some port))
      else case split_once 58 value of
        Some (host, port) \<Rightarrow> if 58 \<notin> set port then Inr (host, Some port) else Inl InvalidOrigin
      | None \<Rightarrow> Inr (value, None))"

definition parse_port :: "bytes \<Rightarrow> AccountError + nat" where
  "parse_port value =
     (if value = [] \<or> \<not> list_all is_ascii_digit value \<or> (length value > 1 \<and> take 1 value = [48])
      then Inl InvalidOrigin
      else bind_result (ok_or (parse_uint 65535 value) InvalidOrigin) (\<lambda>port.
        if port = 0 then Inl InvalidOrigin else Inr port))"

fun check_octets :: "nat \<Rightarrow> bytes list \<Rightarrow> AccountError + bytes list" where
  "check_octets 0 parts = Inr parts"
| "check_octets (Suc k) [] = Inl InvalidOrigin"
| "check_octets (Suc k) (part # parts) =
     (if part = [] \<or> (length part > 1 \<and> take 1 part = [48]) then Inl InvalidOrigin
      else check_octets k parts)"

definition parse_canonical_ipv4 :: "bytes \<Rightarrow> AccountError + u8 list" where
  "parse_canonical_ipv4 value =
     bind_result (check_octets 4 (split_on 46 value)) (\<lambda>parts.
     if parts \<noteq> [] then Inl InvalidOrigin
     else bind_result (ok_or (ipv4_from_str value) InvalidOrigin) (\<lambda>ip.
       if ipv4_to_string ip \<noteq> value then Inl InvalidOrigin else Inr ip))"

definition valid_dns_label :: "bytes \<Rightarrow> bool" where
  "valid_dns_label label \<longleftrightarrow> \<not> (label = [] \<or> length label > 63 \<or> take 4 label = ascii ''xn--''
     \<or> take 1 label = [45] \<or> last label = 45
     \<or> \<not> list_all (\<lambda>byte. is_ascii_lowercase byte \<or> is_ascii_digit byte \<or> byte = 45) label)"

definition validate_dns :: "bytes \<Rightarrow> AccountError + unit" where
  "validate_dns value =
     (if value = [] \<or> length value > 253 \<or> last value = 46 \<or> take 1 value = [46] then Inl InvalidOrigin
      else if list_all valid_dns_label (split_on 46 value) then Inr () else Inl InvalidOrigin)"

datatype StrictHost = Dns | V4 "u8 list" | V6 "u16 list"

definition strict_host :: "bytes \<Rightarrow> AccountError + StrictHost" where
  "strict_host host =
     (if take 1 host = [91] then
        if last host \<noteq> 93 then Inl InvalidOrigin
        else let inner = butlast (drop 1 host) in
          bind_result (ok_or (ipv6_from_str inner) InvalidOrigin) (\<lambda>ip.
          if ipv6_to_string ip \<noteq> inner \<or> ipv6_mapped ip \<or> list_all (\<lambda>g. g = 0) ip
          then Inl InvalidOrigin else Inr (V6 ip))
      else if list_all (\<lambda>byte. is_ascii_digit byte \<or> byte = 46) host then
        bind_result (parse_canonical_ipv4 host) (\<lambda>ip.
        if list_all (\<lambda>b. b = 0) ip then Inl InvalidOrigin else Inr (V4 ip))
      else bind_result (validate_dns host) (\<lambda>_.
        if host = ascii ''localhost'' then Inl InvalidOrigin else Inr Dns))"

definition origin_scheme :: "bytes \<Rightarrow> AccountError + bool \<times> bytes" where
  "origin_scheme value =
     (case strip_prefix (ascii ''https://'') value of Some r \<Rightarrow> Inr (True, r)
      | None \<Rightarrow> (case strip_prefix (ascii ''http://'') value of Some r \<Rightarrow> Inr (False, r)
          | None \<Rightarrow> Inl InvalidOrigin))"

definition forbidden_authority_byte :: "u8 \<Rightarrow> bool" where
  "forbidden_authority_byte b \<longleftrightarrow> b \<le> 32 \<or> b = 0x7f \<or> b \<in> {37, 92, 47, 63, 35, 64}"

definition same_host :: "bytes \<Rightarrow> StrictHost \<Rightarrow> url_host option \<Rightarrow> bool" where
  "same_host host strict actual =
     (case (strict, actual) of
        (Dns, Some (Domain a)) \<Rightarrow> a = host
      | (V4 ip, Some (Ipv4 a)) \<Rightarrow> ip = a
      | (V6 ip, Some (Ipv6 a)) \<Rightarrow> ip = a
      | _ \<Rightarrow> False)"

definition parse_origin :: "(bytes \<Rightarrow> url option) \<Rightarrow> bytes \<Rightarrow> AccountError + bytes" where
  "parse_origin U value =
     (if value = [] \<or> length value > 253 + 8 + 6 \<or> \<not> is_ascii value then Inl InvalidOrigin
      else bind_result (origin_scheme value) (\<lambda>(https, authority).
      if list_ex forbidden_authority_byte authority then Inl InvalidOrigin
      else bind_result (split_authority authority) (\<lambda>(host, port_text).
      bind_result (case port_text of None \<Rightarrow> Inr None
          | Some t \<Rightarrow> bind_result (parse_port t) (\<lambda>p. Inr (Some p))) (\<lambda>port.
      if https \<and> port = Some 443 \<or> \<not> https \<and> port = Some 80 then Inl InvalidOrigin
      else if \<not> https \<and> port = None then Inl InvalidOrigin
      else bind_result (strict_host host) (\<lambda>strict.
      if \<not> https \<and> strict \<noteq> V4 ipv4_localhost \<and> strict \<noteq> V6 ipv6_localhost then Inl InvalidOrigin
      else bind_result (ok_or (U value) InvalidOrigin) (\<lambda>parsed.
      if url_scheme parsed \<noteq> (if https then ascii ''https'' else ascii ''http'')
        \<or> url_username parsed \<noteq> [] \<or> url_password parsed \<noteq> None \<or> url_path parsed \<noteq> [47]
        \<or> url_query parsed \<noteq> None \<or> url_fragment parsed \<noteq> None
      then Inl InvalidOrigin
      else if \<not> same_host host strict (url_hostname parsed) \<or> url_port parsed \<noteq> port
      then Inl InvalidOrigin
      else Inr value))))))"

section \<open>Canonical pieces\<close>

lemma dec_text_append_digit:
  assumes "n \<noteq> 0" and "is_ascii_digit b"
  shows "dec_text (n * 10 + (unat b - 48)) = dec_text n @ [b]"
proof -
  have b: "48 \<le> unat b" "unat b \<le> 57" using assms(2) by (simp_all add: is_ascii_digit_def word_le_nat_alt)
  have "(n * 10 + (unat b - 48)) div 10 = n" "(n * 10 + (unat b - 48)) mod 10 = unat b - 48"
    using b by (simp_all del: add_diff_assoc)
  moreover have "word_of_nat (48 + (unat b - 48)) = b" using b by simp
  ultimately show ?thesis
    using assms(1) by (simp add: dec_text.simps [of "n * 10 + (unat b - 48)"])
qed

lemma dec_text_parse_digits:
  assumes "parse_digits m 0 s = Some v" and "s \<noteq> []" and "take 1 s \<noteq> [48]"
  shows "dec_text v = s \<and> v \<noteq> 0"
  using assms
proof (induction s arbitrary: v rule: rev_induct)
  case Nil
  then show ?case by simp
next
  case (snoc b s)
  then obtain w where w: "parse_digits m 0 s = Some w" and b: "is_ascii_digit b"
    and v: "v = w * 10 + (unat b - 48)"
    by (auto simp: parse_digits_append Let_def split: option.splits if_splits)
  show ?case
  proof (cases "s = []")
    case True
    have "48 \<le> unat b" "unat b \<le> 57" using b by (simp_all add: is_ascii_digit_def word_le_nat_alt)
    moreover have "b \<noteq> 48" using snoc.prems(3) True by auto
    then have "unat b \<noteq> 48" using unsigned_word_eqI [of b 48, where 'a = nat] by auto
    ultimately show ?thesis using True w v by (simp add: dec_text.simps)
  next
    case False
    then have "take 1 s \<noteq> [48]" using snoc.prems(3) by (cases s) auto
    then have "dec_text w = s \<and> w \<noteq> 0" using snoc.IH [OF w False] by simp
    then show ?thesis using dec_text_append_digit [OF _ b, of w] v by simp
  qed
qed

lemma parse_port_Inr:
  assumes "parse_port s = Inr p"
  shows "s = dec_text p \<and> 0 < p \<and> p \<le> 65535"
proof -
  have s: "s \<noteq> []" "list_all is_ascii_digit s" "\<not> (length s > 1 \<and> take 1 s = [48])"
    and p: "parse_uint 65535 s = Some p" "p \<noteq> 0"
    using assms by (auto simp: parse_port_def split: if_splits)
  have "hd s \<noteq> 43" using s(1,2) by (cases s) (auto simp: is_ascii_digit_def)
  then have d: "parse_digits 65535 0 s = Some p"
    using s(1) p(1) by (cases s) (simp_all add: parse_uint_def del: parse_digits.simps)
  have "take 1 s \<noteq> [48]"
  proof
    assume z: "take 1 s = [48]"
    then have "s = [48]" using s(1,3) by (cases s) auto
    then show False using d p(2) by (simp add: Let_def split: if_splits)
  qed
  then show ?thesis
    using dec_text_parse_digits [OF d s(1)] parse_uint_bound [OF p(1)] by simp
qed

lemma split_authority_Inr:
  assumes sp: "split_authority a = Inr (h, p)"
  shows "a = h @ (case p of None \<Rightarrow> [] | Some t \<Rightarrow> 58 # t)"
proof (cases "take 1 a = [91]")
  case True
  let ?h = "takeWhile (\<lambda>b. b \<noteq> 93) a @ [93]"
  have mem: "93 \<in> set a" and h: "h = ?h"
    and t: "drop (length ?h) a = (case p of None \<Rightarrow> [] | Some t \<Rightarrow> 58 # t)"
    using sp True by (auto simp: split_authority_def Let_def split: if_splits)
  obtain x where x: "split_once 93 a = Some x" using mem split_once_None [of 93 a] by auto
  obtain b r where b: "a = b @ 93 # r" "93 \<notin> set b"
    using x by (cases x) (auto simp: split_once_Some)
  then have "takeWhile (\<lambda>b. b \<noteq> 93) a = b" by (auto simp: takeWhile_tail)
  then have "a = ?h @ r" using b by simp
  then have "a = ?h @ drop (length ?h) a" by (metis append_eq_conv_conj)
  then show ?thesis unfolding h t [symmetric] .
next
  case False
  then show ?thesis
    using sp by (auto simp: split_authority_def split_once_Some split: option.splits if_splits)
qed

lemma strict_host_V4: "strict_host h = Inr (V4 ip) \<Longrightarrow> h = ipv4_to_string ip"
  by (auto simp: strict_host_def parse_canonical_ipv4_def Let_def split: if_splits)

lemma strict_host_V6:
  assumes "strict_host h = Inr (V6 ip)"
  shows "h = [91] @ ipv6_to_string ip @ [93]"
proof -
  have "take 1 h = [91]" "last h = 93" "butlast (drop 1 h) = ipv6_to_string ip"
    using assms by (auto simp: strict_host_def Let_def split: if_splits)
  moreover from this(1,2) have "drop 1 h \<noteq> []" "last (drop 1 h) = 93"
    by (cases h; auto split: if_splits)+
  ultimately show ?thesis by (metis append_take_drop_id append_butlast_last_id)
qed

lemma localhost_text:
  "ipv4_to_string ipv4_localhost = ascii ''127.0.0.1''"
  "ipv6_to_string ipv6_localhost = ascii ''::1''"
  by (simp_all add: ipv4_to_string_def ipv4_localhost_def ipv6_to_string_def ipv6_localhost_def
      ipv6_mapped_def fmt_subslice_def byte_simps dec_text.simps hex_text.simps Let_def)

lemma parse_origin_Inr:
  assumes "parse_origin U v = Inr u"
  obtains https authority host port_text port strict where "u = v"
    and "v = (if https then ascii ''https://'' else ascii ''http://'') @ authority"
    and "\<not> list_ex forbidden_authority_byte authority"
    and "split_authority authority = Inr (host, port_text)"
    and "(case port_text of None \<Rightarrow> Inr None | Some t \<Rightarrow> bind_result (parse_port t) (\<lambda>p. Inr (Some p))) = Inr port"
    and "strict_host host = Inr strict"
    and "https \<or> (port \<noteq> Some 80 \<and> port \<noteq> None)"
    and "https \<or> strict = V4 ipv4_localhost \<or> strict = V6 ipv6_localhost"
proof -
  obtain https authority where sc: "origin_scheme v = Inr (https, authority)"
    using assms by (auto simp: parse_origin_def split: if_splits)
  then have v: "v = (if https then ascii ''https://'' else ascii ''http://'') @ authority"
    by (auto simp: origin_scheme_def split: option.splits)
  obtain host port_text where sa: "split_authority authority = Inr (host, port_text)"
    and f: "\<not> list_ex forbidden_authority_byte authority"
    using assms sc by (auto simp: parse_origin_def split: if_splits)
  obtain port where p: "(case port_text of None \<Rightarrow> Inr None
      | Some t \<Rightarrow> bind_result (parse_port t) (\<lambda>p. Inr (Some p))) = Inr port"
    and np: "https \<or> (port \<noteq> Some 80 \<and> port \<noteq> None)"
    using assms sc sa f by (auto simp: parse_origin_def split: if_splits)
  obtain strict where st: "strict_host host = Inr strict"
    and lo: "https \<or> strict = V4 ipv4_localhost \<or> strict = V6 ipv6_localhost"
    using assms sc sa f p np by (auto simp: parse_origin_def split: if_splits)
  have "u = v" using assms by (auto simp: parse_origin_def split: if_splits)
  then show thesis using v f sa p st np lo by (rule that)
qed

section \<open>Properties\<close>

text \<open>C7: an accepted service origin is returned unchanged and is either an HTTPS origin without path,
  query, fragment, user information or percent escape, or plain HTTP to one of the two loopback
  addresses, written canonically, with an explicit canonical port other than 80.\<close>

theorem origin_https_or_loopback:
  assumes "parse_origin U v = Inr u"
  shows "u = v \<and>
    ((\<exists>authority. v = ascii ''https://'' @ authority \<and> \<not> list_ex forbidden_authority_byte authority) \<or>
     (\<exists>p. 0 < p \<and> p \<le> 65535 \<and> p \<noteq> 80 \<and>
       (v = ascii ''http://127.0.0.1:'' @ dec_text p \<or> v = ascii ''http://[::1]:'' @ dec_text p)))"
proof -
  obtain https authority host port_text port strict where u: "u = v"
    and v: "v = (if https then ascii ''https://'' else ascii ''http://'') @ authority"
    and f: "\<not> list_ex forbidden_authority_byte authority"
    and sa: "split_authority authority = Inr (host, port_text)"
    and p: "(case port_text of None \<Rightarrow> Inr None | Some t \<Rightarrow> bind_result (parse_port t) (\<lambda>p. Inr (Some p))) = Inr port"
    and st: "strict_host host = Inr strict"
    and np: "https \<or> (port \<noteq> Some 80 \<and> port \<noteq> None)"
    and lo: "https \<or> strict = V4 ipv4_localhost \<or> strict = V6 ipv6_localhost"
    using assms by (rule parse_origin_Inr)
  show ?thesis
  proof (cases https)
    case True
    then show ?thesis using u v f by auto
  next
    case False
    then obtain t q where t: "port_text = Some t" and q: "parse_port t = Inr q" "port = Some q"
      using p np by (auto split: option.splits)
    have "authority = host @ 58 # dec_text q" "0 < q" "q \<le> 65535"
      using split_authority_Inr [of authority host "Some t"] sa t parse_port_Inr [OF q(1)] by auto
    moreover have "host = ascii ''127.0.0.1'' \<or> host = ascii ''[::1]''"
      using lo False st strict_host_V4 [of host ipv4_localhost] strict_host_V6 [of host ipv6_localhost]
        localhost_text by (auto simp: byte_simps)
    ultimately show ?thesis using u v False np q(2) by (auto simp: byte_simps)
  qed
qed

text \<open>A URL parser that knows one address, for the witness.\<close>

definition sample_url :: "bytes \<Rightarrow> url option" where
  "sample_url s = Some \<lparr>url_scheme = ascii ''http'', url_username = [], url_password = None, url_path = [47],
     url_query = None, url_fragment = None, url_hostname = Some (Ipv6 ipv6_localhost), url_port = Some 8787\<rparr>"

lemma sample_origin_parts:
  "origin_scheme (ascii ''http://[::1]:8787'') = Inr (False, ascii ''[::1]:8787'')"
  "split_authority (ascii ''[::1]:8787'') = Inr (ascii ''[::1]'', Some (ascii ''8787''))"
  "parse_port (ascii ''8787'') = Inr 8787"
  "is_ascii (ascii ''http://[::1]:8787'')"
  "\<not> list_ex forbidden_authority_byte (ascii ''[::1]:8787'')"
  by (simp_all add: origin_scheme_def strip_prefix_def split_authority_def parse_port_def parse_uint_def
      is_ascii_digit_def is_ascii_def forbidden_authority_byte_def Let_def byte_simps)

lemma sample_ipv6: "ipv6_from_str (ascii ''::1'') = Some ipv6_localhost"
  by (simp add: ipv6_from_str_def read_groups.simps read_separator_def read_ipv4_addr_def
      read_number_def to_digit_def is_ascii_digit_def is_ascii_lowercase_def
      is_ascii_uppercase_def ipv6_localhost_def strip_prefix_def Let_def byte_simps) (simp add: numeral_eq_Suc)

lemma sample_strict_host: "strict_host (ascii ''[::1]'') = Inr (V6 ipv6_localhost)"
  using sample_ipv6 localhost_text(2)
  by (simp add: strict_host_def byte_simps ipv6_mapped_def) (simp add: ipv6_localhost_def)

lemma sample_origin_accepted:
  "parse_origin sample_url (ascii ''http://[::1]:8787'') = Inr (ascii ''http://[::1]:8787'')"
  by (simp add: parse_origin_def sample_origin_parts sample_strict_host sample_url_def same_host_def)
    (simp add: ascii_def)

theorem origin_https_or_loopback_witness:
  "\<exists>p. 0 < p \<and> p \<le> 65535 \<and> p \<noteq> 80 \<and> ascii ''http://[::1]:8787'' = ascii ''http://[::1]:'' @ dec_text p"
  using origin_https_or_loopback [OF sample_origin_accepted] by (simp add: byte_simps)

end
