(* ===== verification/Identity.thy ===== *)
theory Identity
  imports Base64 Origin
begin

text \<open>
  Identifiers and credentials of \<open>session-sync-protocol/src/account.rs\<close>: account identifiers (UUIDv7
  text), record identifiers and API tokens (unpadded base64url text), the \<open>Authorization\<close> header and
  the domain-separated token hash. The \<open>uuid\<close> crate is the parameter \<open>uuid_lib\<close>, with its documented
  behaviour in the locale \<open>uuid_library\<close>, interpreted on the hyphenated form of RFC 9562. Every
  parser is shown to be a canonical codec: it accepts exactly the texts the printer writes.
\<close>

record uuid_lib =
  uuid_parse_str :: "bytes \<Rightarrow> bytes option"
  uuid_hyphenated :: "bytes \<Rightarrow> bytes"
  uuid_version_sortrand :: "bytes \<Rightarrow> bool"
  uuid_variant_rfc4122 :: "bytes \<Rightarrow> bool"

datatype ApiKeyScope = Publish | Download

definition scope_u8 :: "ApiKeyScope \<Rightarrow> u8" where
  "scope_u8 s = (case s of Publish \<Rightarrow> 1 | Download \<Rightarrow> 2)"

definition scope_try_from :: "u8 \<Rightarrow> AccountError + ApiKeyScope" where
  "scope_try_from v = (if v = 1 then Inr Publish else if v = 2 then Inr Download else Inl InvalidBundle)"

lemma scope_try_from_iff: "scope_try_from v = Inr s \<longleftrightarrow> v = scope_u8 s"
  by (cases s) (auto simp: scope_try_from_def scope_u8_def)

definition is_uuid_v7 :: "uuid_lib \<Rightarrow> bytes \<Rightarrow> bool" where
  "is_uuid_v7 u b \<longleftrightarrow> uuid_version_sortrand u b \<and> uuid_variant_rfc4122 u b"

definition parse_account_id :: "uuid_lib \<Rightarrow> bytes \<Rightarrow> AccountError + bytes" where
  "parse_account_id u value =
     (if length value \<noteq> 36 then Inl InvalidIdentifier
      else bind_result (ok_or (uuid_parse_str u value) InvalidIdentifier) (\<lambda>uuid.
        if uuid_hyphenated u uuid \<noteq> value \<or> \<not> uuid_version_sortrand u uuid \<or> \<not> uuid_variant_rfc4122 u uuid
        then Inl InvalidIdentifier else Inr uuid))"

definition account_id_text :: "uuid_lib \<Rightarrow> bytes \<Rightarrow> bytes" where
  "account_id_text u b = uuid_hyphenated u b"

definition parse_record_id :: "base64 \<Rightarrow> bytes \<Rightarrow> AccountError + bytes" where
  "parse_record_id e value =
     (if length value \<noteq> IDENTIFIER_TEXT_LEN \<or> 61 \<in> set value then Inl InvalidIdentifier
      else bind_result (ok_or (b64_decode e value) InvalidIdentifier) (\<lambda>decoded.
        if length decoded \<noteq> 16 then Inl InvalidIdentifier
        else if b64_encode e decoded \<noteq> value then Inl InvalidIdentifier else Inr decoded))"

definition record_id_text :: "base64 \<Rightarrow> bytes \<Rightarrow> bytes" where
  "record_id_text e b = b64_encode e b"

definition encode_base64 :: "base64 \<Rightarrow> bytes \<Rightarrow> bytes" where
  "encode_base64 e bs = b64_encode e bs"

text \<open>Both secret decoders fill a zeroed 32-byte buffer, then compare its re-encoding with the input.\<close>

definition decode_api_token :: "base64 \<Rightarrow> bytes \<Rightarrow> AccountError + bytes" where
  "decode_api_token e s =
     (if length s \<noteq> SECRET_TEXT_LEN
         \<or> \<not> list_all (\<lambda>byte. is_ascii_alphanumeric byte \<or> byte = 45 \<or> byte = 95) s
      then Inl InvalidBearer
      else bind_result (ok_or (decode_slice e s 32) InvalidBearer) (\<lambda>bs.
        let decoded = bs @ replicate (32 - length bs) 0 in
        if length bs \<noteq> 32 \<or> encode_base64 e decoded \<noteq> s then Inl InvalidBearer else Inr decoded))"

definition decode_bundle_secret :: "base64 \<Rightarrow> bytes \<Rightarrow> AccountError + bytes" where
  "decode_bundle_secret e s =
     (if length s \<noteq> SECRET_TEXT_LEN then Inl InvalidBundle
      else bind_result (ok_or (decode_slice e s 32) InvalidBundle) (\<lambda>bs.
        let decoded = bs @ replicate (32 - length bs) 0 in
        if length bs \<noteq> 32 \<or> encode_base64 e decoded \<noteq> s then Inl InvalidBundle else Inr decoded))"

definition parse_bare :: "base64 \<Rightarrow> bytes \<Rightarrow> AccountError + bytes" where
  "parse_bare e value = decode_api_token e value"

definition parse_authorization :: "base64 \<Rightarrow> bytes list \<Rightarrow> AccountError + bytes" where
  "parse_authorization e values =
     (if length values \<noteq> 1 then Inl InvalidAuthorization
      else let value = values ! 0 in
        if length value \<noteq> 50 \<or> take 7 value \<noteq> ascii ''Bearer '' then Inl InvalidAuthorization
        else bind_result (if utf8_valid (drop 7 value) then Inr (drop 7 value) else Inl InvalidAuthorization)
          (\<lambda>text. map_err (\<lambda>_. InvalidAuthorization) (parse_bare e text)))"

definition token_text :: "base64 \<Rightarrow> bytes \<Rightarrow> bytes" where
  "token_text e t = encode_base64 e t"

definition API_TOKEN_HASH_DOMAIN :: bytes where
  "API_TOKEN_HASH_DOMAIN = ascii ''herdr/session-sync/api-token/v1'' @ [0]"

definition domain_hash :: "(bytes \<Rightarrow> bytes) \<Rightarrow> bytes \<Rightarrow> bytes list \<Rightarrow> bytes" where
  "domain_hash sha256 domain parts = sha256 (domain @ concat parts)"

definition service_hash :: "(bytes \<Rightarrow> bytes) \<Rightarrow> bytes \<Rightarrow> bytes" where
  "service_hash sha256 token = domain_hash sha256 API_TOKEN_HASH_DOMAIN [token]"

section \<open>Base64 identifiers and secrets are canonical codecs\<close>

definition printed :: "('a \<Rightarrow> bytes) \<Rightarrow> 'a \<Rightarrow> unit + bytes" where
  "printed f x = Inr (f x)"

lemma printed_Inr [simp]: "printed f x = Inr b \<longleftrightarrow> f x = b"
  by (simp add: printed_def)

context base64_engine
begin

lemma parse_record_id_iff: "parse_record_id e s = Inr b \<longleftrightarrow> length b = 16 \<and> record_id_text e b = s"
  using encode_no_padding [of b]
  by (auto simp: parse_record_id_def record_id_text_def limit_defs decode_encode length_encode_16
      bind_result_eq_Inr)

lemma decode_bundle_secret_iff:
  "decode_bundle_secret e s = Inr b \<longleftrightarrow> length b = 32 \<and> encode_base64 e b = s"
  by (auto simp: decode_bundle_secret_def encode_base64_def limit_defs decode_slice_encode length_encode_32
      bind_result_eq_Inr Let_def)

lemma parse_bare_iff: "parse_bare e s = Inr b \<longleftrightarrow> length b = 32 \<and> token_text e b = s"
proof -
  have "list_all (\<lambda>byte. is_ascii_alphanumeric byte \<or> byte = 45 \<or> byte = 95) (b64_encode e b)"
    using encode_alphabet [of _ b] by (auto simp: list_all_iff b64_alphabet_def)
  then show ?thesis
    by (auto simp: parse_bare_def decode_api_token_def encode_base64_def token_text_def limit_defs
        decode_slice_encode length_encode_32 bind_result_eq_Inr Let_def)
qed

lemma parse_authorization_iff:
  "parse_authorization e vs = Inr t \<longleftrightarrow> length t = 32 \<and> vs = [ascii ''Bearer '' @ token_text e t]"
proof
  assume p: "parse_authorization e vs = Inr t"
  then obtain v where vs: "vs = [v]" by (auto simp: parse_authorization_def length_Suc_conv split: if_splits)
  with p have v: "take 7 v = ascii ''Bearer ''" "parse_bare e (drop 7 v) = Inr t"
    by (auto simp: parse_authorization_def split: if_splits)
  then show "length t = 32 \<and> vs = [ascii ''Bearer '' @ token_text e t]"
    using vs append_take_drop_id [of 7 v] by (simp add: parse_bare_iff)
next
  assume a: "length t = 32 \<and> vs = [ascii ''Bearer '' @ token_text e t]"
  then have "parse_bare e (token_text e t) = Inr t" by (simp add: parse_bare_iff)
  moreover have "length (token_text e t) = 43" "utf8_valid (token_text e t)"
    using a encode_utf8 length_encode_32 by (simp_all add: token_text_def encode_base64_def)
  ultimately show "parse_authorization e vs = Inr t"
    using a by (simp add: parse_authorization_def)
qed

end

sublocale base64_engine \<subseteq> record_id: canonical_codec "printed (record_id_text e)" "parse_record_id e"
    "\<lambda>b. length b = 16"
  by unfold_locales (simp add: parse_record_id_iff)

sublocale base64_engine \<subseteq> bundle_secret: canonical_codec "printed (encode_base64 e)"
    "decode_bundle_secret e" "\<lambda>b. length b = 32"
  by unfold_locales (simp add: decode_bundle_secret_iff)

sublocale base64_engine \<subseteq> bare_token: canonical_codec "printed (token_text e)" "parse_bare e"
    "\<lambda>b. length b = 32"
  by unfold_locales (simp add: parse_bare_iff)

section \<open>Account identifiers\<close>

definition hyphenated_byte :: "u8 \<Rightarrow> bool" where
  "hyphenated_byte b \<longleftrightarrow> is_ascii_digit b \<or> 97 \<le> b \<and> b \<le> 102 \<or> b = 45"

locale uuid_library =
  fixes u :: uuid_lib
  assumes parse_hyphenated: "length b = 16 \<Longrightarrow> uuid_parse_str u (uuid_hyphenated u b) = Some b"
    and parse_length: "uuid_parse_str u s = Some b \<Longrightarrow> length b = 16"
    and length_hyphenated: "length b = 16 \<Longrightarrow> length (uuid_hyphenated u b) = 36"
    and hyphenated_bytes: "x \<in> set (uuid_hyphenated u b) \<Longrightarrow> hyphenated_byte x"
begin

lemma parse_account_id_iff:
  "parse_account_id u s = Inr b \<longleftrightarrow> length b = 16 \<and> is_uuid_v7 u b \<and> account_id_text u b = s"
  using parse_length [of s b]
  by (auto simp: parse_account_id_def is_uuid_v7_def account_id_text_def parse_hyphenated
      length_hyphenated bind_result_eq_Inr split: if_splits)

end

sublocale uuid_library \<subseteq> account_id_codec: canonical_codec "printed (account_id_text u)" "parse_account_id u"
    "\<lambda>b. length b = 16 \<and> is_uuid_v7 u b"
  by unfold_locales (auto simp: parse_account_id_iff)

text \<open>RFC 9562: the hyphenated text form, the version nibble and the variant bits.\<close>

definition hex_char :: "nat \<Rightarrow> u8" where
  "hex_char d = word_of_nat (if d < 10 then 48 + d else 87 + d)"

definition hex_byte :: "u8 \<Rightarrow> bytes" where
  "hex_byte b = [hex_char (unat b div 16), hex_char (unat b mod 16)]"

fun hex_bytes :: "bytes \<Rightarrow> bytes option" where
  "hex_bytes [] = Some []"
| "hex_bytes [c] = None"
| "hex_bytes (c # d # s) =
     (case (to_digit 16 c, to_digit 16 d) of
        (Some h, Some l) \<Rightarrow> map_option (\<lambda>bs. word_of_nat (h * 16 + l) # bs) (hex_bytes s)
      | _ \<Rightarrow> None)"

definition rfc9562_text :: "bytes \<Rightarrow> bytes" where
  "rfc9562_text b =
     concat (map hex_byte (take 4 b)) @ [45] @ concat (map hex_byte (take 2 (drop 4 b))) @ [45]
     @ concat (map hex_byte (take 2 (drop 6 b))) @ [45] @ concat (map hex_byte (take 2 (drop 8 b))) @ [45]
     @ concat (map hex_byte (drop 10 b))"

definition rfc9562_parse :: "bytes \<Rightarrow> bytes option" where
  "rfc9562_parse s =
     (if length s = 36 \<and> s ! 8 = 45 \<and> s ! 13 = 45 \<and> s ! 18 = 45 \<and> s ! 23 = 45
      then hex_bytes (take 8 s @ take 4 (drop 9 s) @ take 4 (drop 14 s) @ take 4 (drop 19 s) @ drop 24 s)
      else None)"

definition rfc9562 :: uuid_lib where
  "rfc9562 = \<lparr>uuid_parse_str = rfc9562_parse, uuid_hyphenated = rfc9562_text,
     uuid_version_sortrand = (\<lambda>b. unat (b ! 6) div 16 = 7),
     uuid_variant_rfc4122 = (\<lambda>b. unat (b ! 8) div 64 = 2)\<rparr>"

lemma hex_char_digit: "d < 16 \<Longrightarrow> to_digit 16 (hex_char d) = Some d"
  using unat_u8_add [of 48 d] unat_u8_add [of 87 d]
  by (auto simp: hex_char_def to_digit_def is_ascii_digit_def is_ascii_lowercase_def word_le_nat_alt Let_def
      simp del: of_nat_add)

lemma hex_char_hyphenated: "d < 16 \<Longrightarrow> hyphenated_byte (hex_char d)"
  using unat_u8_add [of 48 d] unat_u8_add [of 87 d]
  by (auto simp: hex_char_def hyphenated_byte_def is_ascii_digit_def word_le_nat_alt simp del: of_nat_add)

lemma hex_bytes_hex_byte: "hex_bytes (concat (map hex_byte bs)) = Some bs"
proof (induction bs)
  case Nil
  then show ?case by simp
next
  case (Cons b bs)
  have "unat b div 16 < 16" using unat_u8_bound [of b] by simp
  moreover have "(word_of_nat (unat b div 16 * 16 + unat b mod 16) :: u8) = b"
    unfolding div_mult_mod_eq by simp
  ultimately show ?case using Cons by (simp add: hex_byte_def hex_char_digit del: of_nat_add of_nat_mult)
qed

lemma length_hex [simp]: "length (concat (map hex_byte bs)) = 2 * length bs"
  by (induction bs) (simp_all add: hex_byte_def)

lemma hex_bytes_length: "hex_bytes s = Some b \<Longrightarrow> length s = 2 * length b"
  by (induction s arbitrary: b rule: hex_bytes.induct) (auto split: option.splits)

lemma hyphenated_groups:
  assumes "length P = 8" "length Q = 4" "length R = 4" "length S = 4" "length T = 12"
    and "s = P @ [45] @ Q @ [45] @ R @ [45] @ S @ [45] @ T"
  shows "rfc9562_parse s = hex_bytes (P @ Q @ R @ S @ T)"
  using assms by (simp add: rfc9562_parse_def nth_append)

lemma rfc9562_parse_text: "length b = 16 \<Longrightarrow> rfc9562_parse (rfc9562_text b) = Some b"
proof -
  assume l: "length b = 16"
  let ?h = "\<lambda>x. concat (map hex_byte x)"
  let ?p = "take 4 b" and ?q = "take 2 (drop 4 b)" and ?r = "take 2 (drop 6 b)"
    and ?s = "take 2 (drop 8 b)" and ?t = "drop 10 b"
  have b: "b = ?p @ ?q @ ?r @ ?s @ ?t"
    using append_take_drop_id [of 4 b] append_take_drop_id [of 2 "drop 4 b"]
      append_take_drop_id [of 2 "drop 6 b"] append_take_drop_id [of 2 "drop 8 b"] by simp
  have "rfc9562_parse (rfc9562_text b) = hex_bytes (?h ?p @ ?h ?q @ ?h ?r @ ?h ?s @ ?h ?t)"
    by (rule hyphenated_groups) (simp_all add: l rfc9562_text_def)
  also have "?h ?p @ ?h ?q @ ?h ?r @ ?h ?s @ ?h ?t = ?h b"
    by (subst (6) b) (simp only: map_append concat_append)
  finally show ?thesis by (simp add: hex_bytes_hex_byte)
qed

lemma hex_byte_hyphenated: "x \<in> set (concat (map hex_byte bs)) \<Longrightarrow> hyphenated_byte x"
proof -
  assume "x \<in> set (concat (map hex_byte bs))"
  then obtain b where "x \<in> set (hex_byte b)" by auto
  moreover have "unat b div 16 < 16" using unat_u8_bound [of b] by simp
  ultimately show "hyphenated_byte x" by (auto simp: hex_byte_def hex_char_hyphenated)
qed

interpretation rfc9562: uuid_library rfc9562
proof
  fix b s :: bytes and x :: u8
  show "length b = 16 \<Longrightarrow> uuid_parse_str rfc9562 (uuid_hyphenated rfc9562 b) = Some b"
    by (simp add: rfc9562_def rfc9562_parse_text)
  show "uuid_parse_str rfc9562 s = Some b \<Longrightarrow> length b = 16"
    by (auto simp: rfc9562_def rfc9562_parse_def dest!: hex_bytes_length split: if_splits)
  show "length b = 16 \<Longrightarrow> length (uuid_hyphenated rfc9562 b) = 36"
    by (simp add: rfc9562_def rfc9562_text_def)
  show "x \<in> set (uuid_hyphenated rfc9562 b) \<Longrightarrow> hyphenated_byte x"
    by (auto simp: rfc9562_def rfc9562_text_def hyphenated_byte_def [of 45] simp del: set_concat
        intro: hex_byte_hyphenated)
qed

section \<open>Properties\<close>

text \<open>An \<open>Authorization\<close> header is accepted exactly when it occurs once and is \<open>Bearer\<close>, one space
  and the canonical 43-character text of a 32-byte token; so a token has one accepted header, and
  padded, re-encoded or duplicated headers are refused.\<close>

theorem authorization_accepts_canonical:
  assumes "base64_engine e"
  shows "parse_authorization e vs = Inr t \<longleftrightarrow> length t = 32 \<and> vs = [ascii ''Bearer '' @ token_text e t]"
  using assms by (rule base64_engine.parse_authorization_iff)

theorem authorization_accepts_canonical_witness:
  "parse_authorization url_safe_no_pad [ascii ''Bearer '' @ token_text url_safe_no_pad (replicate 32 7)]
     = Inr (replicate 32 7)"
  using authorization_accepts_canonical [OF url_safe.base64_engine_axioms, of _ "replicate 32 7"] by simp

text \<open>Account and record identifiers each have one text. Parsing an account identifier succeeds
  exactly on the hyphenated lower-case text of a version 7 UUID of the RFC variant, and parsing a
  record identifier exactly on the unpadded base64url text of 16 bytes.\<close>

theorem identifiers_canonical:
  assumes "base64_engine e" and "uuid_library u"
  shows "(parse_record_id e s = Inr r \<longleftrightarrow> length r = 16 \<and> record_id_text e r = s) \<and>
    (parse_account_id u s = Inr a \<longleftrightarrow> length a = 16 \<and> is_uuid_v7 u a \<and> account_id_text u a = s)"
  using base64_engine.parse_record_id_iff [OF assms(1)] uuid_library.parse_account_id_iff [OF assms(2)]
  by blast

theorem identifiers_canonical_witness:
  "parse_record_id url_safe_no_pad (record_id_text url_safe_no_pad (replicate 16 5)) = Inr (replicate 16 5)
   \<and> (\<exists>a. parse_account_id rfc9562 (account_id_text rfc9562 a) = Inr a)"
proof -
  let ?a = "replicate 6 0 @ [0x70, 0, 0x80, 0, 0, 0, 0, 0, 0, 0] :: bytes"
  have "is_uuid_v7 rfc9562 ?a" by (simp add: is_uuid_v7_def rfc9562_def nth_append)
  then have "parse_account_id rfc9562 (account_id_text rfc9562 ?a) = Inr ?a"
    using identifiers_canonical [OF url_safe.base64_engine_axioms rfc9562.uuid_library_axioms,
        of "account_id_text rfc9562 ?a" undefined ?a] by simp
  then show ?thesis
    using identifiers_canonical [OF url_safe.base64_engine_axioms rfc9562.uuid_library_axioms,
        of "record_id_text url_safe_no_pad (replicate 16 5)" "replicate 16 5" undefined] by auto
qed

end
