(* ===== verification/Bundle.thy ===== *)
theory Bundle
  imports Identity
begin

text \<open>
  Account bundles of \<open>session-sync-protocol/src/account.rs\<close>: the scoped and owner credentials of an
  account, their narrowing, and the text a user copies between machines (base64url of JSON). SHA-256,
  Ed25519, \<open>uuid\<close>, \<open>base64\<close>, \<open>url\<close> and the \<open>serde_json\<close> codec of the wire type are parameters; what
  is relied on of \<open>serde_json\<close> is that its output is the compact JSON text (\<open>wire_compact\<close>) and that
  reading it back returns the value (\<open>wire_roundtrip\<close>), both for strings that need no escape. The
  panics of \<open>encode\<close> are \<open>None\<close>.
\<close>

record ScopedAccountBundle =
  sb_service_origin :: bytes
  sb_account_id :: bytes
  sb_api_key_scope :: ApiKeyScope
  sb_api_token :: bytes
  sb_account_root_key :: bytes
  sb_authorized_consumer_identity :: "bytes option"
  sb_consumer_identity_secret :: "bytes option"

record OwnerAccountBundle =
  ob_service_origin :: bytes
  ob_account_id :: bytes
  ob_publish_api_token :: bytes
  ob_download_api_token :: bytes
  ob_account_root_key :: bytes
  ob_consumer_identity_secret :: bytes

datatype AccountBundle = Scoped ScopedAccountBundle | Owner OwnerAccountBundle

datatype AccountBundleWire =
    ScopedWire (sw_origin: bytes) (sw_account_id: bytes) (sw_scope: u8) (sw_api_token: bytes)
      (sw_root_key: bytes) (sw_identity: "bytes option") (sw_secret: "bytes option")
  | OwnerWire (ow_origin: bytes) (ow_account_id: bytes) (ow_publish_token: bytes) (ow_download_token: bytes)
      (ow_root_key: bytes) (ow_secret: "bytes option option")

record crates =
  engine :: base64
  uuids :: uuid_lib
  sha256 :: "bytes \<Rightarrow> bytes"
  verifying_key :: "bytes \<Rightarrow> bytes"
  url_parse :: "bytes \<Rightarrow> url option"
  wire_to_vec :: "AccountBundleWire \<Rightarrow> bytes"
  wire_from_slice :: "bytes \<Rightarrow> AccountBundleWire option"

definition LEGACY_CONSUMER_IDENTITY_DOMAIN :: bytes where
  "LEGACY_CONSUMER_IDENTITY_DOMAIN = ascii ''herdr/session-sync/legacy-consumer-identity/v1'' @ [0]"

definition authorized_identity :: "crates \<Rightarrow> bytes \<Rightarrow> bytes" where
  "authorized_identity K secret = verifying_key K secret"

section \<open>Construction and narrowing\<close>

definition scoped_from_parts ::
  "crates \<Rightarrow> bytes \<Rightarrow> bytes \<Rightarrow> ApiKeyScope \<Rightarrow> bytes \<Rightarrow> bytes \<Rightarrow> bytes option
     \<Rightarrow> AccountError + ScopedAccountBundle" where
  "scoped_from_parts K origin aid scope token root identity =
     (if \<not> is_uuid_v7 (uuids K) aid \<or> (scope = Publish) \<noteq> (identity \<noteq> None) then Inl InvalidBundle
      else Inr \<lparr>sb_service_origin = origin, sb_account_id = aid, sb_api_key_scope = scope,
        sb_api_token = token, sb_account_root_key = root, sb_authorized_consumer_identity = identity,
        sb_consumer_identity_secret = None\<rparr>)"

definition scoped_from_download_parts ::
  "crates \<Rightarrow> bytes \<Rightarrow> bytes \<Rightarrow> bytes \<Rightarrow> bytes \<Rightarrow> bytes \<Rightarrow> AccountError + ScopedAccountBundle" where
  "scoped_from_download_parts K origin aid token root secret =
     (if \<not> is_uuid_v7 (uuids K) aid then Inl InvalidBundle
      else Inr \<lparr>sb_service_origin = origin, sb_account_id = aid, sb_api_key_scope = Download,
        sb_api_token = token, sb_account_root_key = root, sb_authorized_consumer_identity = None,
        sb_consumer_identity_secret = Some secret\<rparr>)"

definition owner_from_parts ::
  "crates \<Rightarrow> bytes \<Rightarrow> bytes \<Rightarrow> bytes \<Rightarrow> bytes \<Rightarrow> bytes \<Rightarrow> bytes \<Rightarrow> AccountError + OwnerAccountBundle" where
  "owner_from_parts K origin aid publish download root secret =
     (if \<not> is_uuid_v7 (uuids K) aid \<or> service_hash (sha256 K) publish = service_hash (sha256 K) download
      then Inl InvalidBundle
      else Inr \<lparr>ob_service_origin = origin, ob_account_id = aid, ob_publish_api_token = publish,
        ob_download_api_token = download, ob_account_root_key = root, ob_consumer_identity_secret = secret\<rparr>)"

definition scoped :: "crates \<Rightarrow> OwnerAccountBundle \<Rightarrow> ApiKeyScope \<Rightarrow> ScopedAccountBundle" where
  "scoped K b scope =
     (let api_token = case scope of Publish \<Rightarrow> ob_publish_api_token b | Download \<Rightarrow> ob_download_api_token b
      in \<lparr>sb_service_origin = ob_service_origin b, sb_account_id = ob_account_id b, sb_api_key_scope = scope,
        sb_api_token = api_token, sb_account_root_key = ob_account_root_key b,
        sb_authorized_consumer_identity =
          (if scope = Publish then Some (authorized_identity K (ob_consumer_identity_secret b)) else None),
        sb_consumer_identity_secret =
          (if scope = Download then Some (ob_consumer_identity_secret b) else None)\<rparr>)"

definition into_scoped :: "crates \<Rightarrow> OwnerAccountBundle \<Rightarrow> ApiKeyScope \<Rightarrow> ScopedAccountBundle" where
  "into_scoped K b scope =
     (let api_token = case scope of Publish \<Rightarrow> ob_publish_api_token b | Download \<Rightarrow> ob_download_api_token b
      in \<lparr>sb_service_origin = ob_service_origin b, sb_account_id = ob_account_id b, sb_api_key_scope = scope,
        sb_api_token = api_token, sb_account_root_key = ob_account_root_key b,
        sb_authorized_consumer_identity =
          (if scope = Publish then Some (authorized_identity K (ob_consumer_identity_secret b)) else None),
        sb_consumer_identity_secret =
          (if scope = Download then Some (ob_consumer_identity_secret b) else None)\<rparr>)"

section \<open>The text form\<close>

definition bundle_wire :: "crates \<Rightarrow> AccountBundle \<Rightarrow> AccountBundleWire" where
  "bundle_wire K b =
     (case b of
        Scoped s \<Rightarrow> ScopedWire (sb_service_origin s) (account_id_text (uuids K) (sb_account_id s))
          (scope_u8 (sb_api_key_scope s)) (token_text (engine K) (sb_api_token s))
          (encode_base64 (engine K) (sb_account_root_key s))
          (map_option (encode_base64 (engine K)) (sb_authorized_consumer_identity s))
          (map_option (encode_base64 (engine K)) (sb_consumer_identity_secret s))
      | Owner b \<Rightarrow> OwnerWire (ob_service_origin b) (account_id_text (uuids K) (ob_account_id b))
          (token_text (engine K) (ob_publish_api_token b)) (token_text (engine K) (ob_download_api_token b))
          (encode_base64 (engine K) (ob_account_root_key b))
          (Some (Some (encode_base64 (engine K) (ob_consumer_identity_secret b)))))"

definition bundle_encode :: "crates \<Rightarrow> AccountBundle \<Rightarrow> bytes option" where
  "bundle_encode K b =
     (let payload = wire_to_vec K (bundle_wire K b)
      in if length payload \<le> MAX_BUNDLE_BYTES then Some (encode_base64 (engine K) payload) else None)"

definition invalid_bundle :: "AccountError + 'a \<Rightarrow> AccountError + 'a" where
  "invalid_bundle r = map_err (\<lambda>_. InvalidBundle) r"

definition decode_optional_secret :: "base64 \<Rightarrow> bytes option \<Rightarrow> AccountError + bytes option" where
  "decode_optional_secret e x =
     (case x of None \<Rightarrow> Inr None | Some s \<Rightarrow> bind_result (decode_bundle_secret e s) (\<lambda>b. Inr (Some b)))"

definition legacy_owner :: "AccountBundleWire \<Rightarrow> bool" where
  "legacy_owner w = (case w of OwnerWire _ _ _ _ _ None \<Rightarrow> True | _ \<Rightarrow> False)"

definition bundle_of_wire :: "crates \<Rightarrow> AccountBundleWire \<Rightarrow> AccountError + AccountBundle" where
  "bundle_of_wire K w =
     (let e = engine K in case w of
        ScopedWire origin aid scope token root identity secret \<Rightarrow>
          bind_result (invalid_bundle (parse_origin (url_parse K) origin)) (\<lambda>origin.
          bind_result (invalid_bundle (parse_account_id (uuids K) aid)) (\<lambda>aid.
          bind_result (decode_bundle_secret e token) (\<lambda>token.
          bind_result (decode_bundle_secret e root) (\<lambda>root.
          bind_result (scope_try_from scope) (\<lambda>scope. case scope of
            Publish \<Rightarrow>
              bind_result (decode_optional_secret e identity) (\<lambda>identity.
              bind_result (scoped_from_parts K origin aid Publish token root identity) (\<lambda>b. Inr (Scoped b)))
          | Download \<Rightarrow>
              bind_result (ok_or secret InvalidBundle) (\<lambda>secret.
              bind_result (decode_bundle_secret e secret) (\<lambda>secret.
              bind_result (scoped_from_download_parts K origin aid token root secret) (\<lambda>b. Inr (Scoped b)))))))))
      | OwnerWire origin aid publish download root secret \<Rightarrow>
          bind_result (decode_bundle_secret e root) (\<lambda>root.
          bind_result (case secret of
              Some (Some s) \<Rightarrow> decode_bundle_secret e s
            | Some None \<Rightarrow> Inl InvalidBundle
            | None \<Rightarrow> Inr (domain_hash (sha256 K) LEGACY_CONSUMER_IDENTITY_DOMAIN [root])) (\<lambda>secret.
          bind_result (invalid_bundle (parse_origin (url_parse K) origin)) (\<lambda>origin.
          bind_result (invalid_bundle (parse_account_id (uuids K) aid)) (\<lambda>aid.
          bind_result (decode_bundle_secret e publish) (\<lambda>publish.
          bind_result (decode_bundle_secret e download) (\<lambda>download.
          bind_result (owner_from_parts K origin aid publish download root secret) (\<lambda>b. Inr (Owner b)))))))))"

text \<open>The outer \<open>option\<close> is \<open>None\<close> when re-encoding the bundle panics.\<close>

definition bundle_parse :: "crates \<Rightarrow> bytes \<Rightarrow> (AccountError + AccountBundle) option" where
  "bundle_parse K inp =
     (if inp = [] \<or> length inp > MAX_BUNDLE_ENCODED_BYTES then Some (Inl InvalidBundle)
      else case decode_slice (engine K) inp MAX_BUNDLE_BYTES of
        None \<Rightarrow> Some (Inl InvalidBundle)
      | Some decoded \<Rightarrow> (case wire_from_slice K decoded of
          None \<Rightarrow> Some (Inl InvalidBundle)
        | Some w \<Rightarrow>
            if legacy_owner w \<and> wire_to_vec K w \<noteq> decoded then Some (Inl InvalidBundle)
            else (case bundle_of_wire K w of
              Inl err \<Rightarrow> Some (Inl err)
            | Inr bundle \<Rightarrow> (case bundle_encode K bundle of
                None \<Rightarrow> None
              | Some canonical \<Rightarrow>
                  if \<not> legacy_owner w \<and> canonical \<noteq> inp then Some (Inl InvalidBundle)
                  else Some (Inr bundle)))))"

section \<open>What the code relies on\<close>

definition json_plain :: "bytes \<Rightarrow> bool" where
  "json_plain s \<longleftrightarrow> list_all (\<lambda>b. 32 \<le> b \<and> b < 127 \<and> b \<noteq> 34 \<and> b \<noteq> 92) s"

definition plain_wire :: "AccountBundleWire \<Rightarrow> bool" where
  "plain_wire w = (case w of
     ScopedWire a b c d e f g \<Rightarrow> list_all json_plain [a, b, d, e]
       \<and> pred_option json_plain f \<and> pred_option json_plain g
   | OwnerWire a b c d e f \<Rightarrow> list_all json_plain [a, b, c, d, e] \<and> pred_option (pred_option json_plain) f)"

definition json_field :: "string \<Rightarrow> bytes \<Rightarrow> bytes" where
  "json_field name v = ascii '',\"'' @ ascii name @ ascii ''\":'' @ v"

definition json_string :: "bytes \<Rightarrow> bytes" where
  "json_string s = [34] @ s @ [34]"

definition compact_wire :: "AccountBundleWire \<Rightarrow> bytes" where
  "compact_wire w = (case w of
     ScopedWire a b c d e f g \<Rightarrow>
       ascii ''{\"bundle_type\":\"scoped\"'' @ json_field ''service_origin'' (json_string a)
       @ json_field ''account_id'' (json_string b) @ json_field ''api_key_scope'' (dec_text (unat c))
       @ json_field ''api_token'' (json_string d) @ json_field ''account_root_key'' (json_string e)
       @ (case f of None \<Rightarrow> [] | Some x \<Rightarrow> json_field ''authorized_consumer_identity'' (json_string x))
       @ (case g of None \<Rightarrow> [] | Some x \<Rightarrow> json_field ''consumer_identity_secret'' (json_string x))
       @ ascii ''}''
   | OwnerWire a b c d e f \<Rightarrow>
       ascii ''{\"bundle_type\":\"owner\"'' @ json_field ''service_origin'' (json_string a)
       @ json_field ''account_id'' (json_string b) @ json_field ''publish_api_token'' (json_string c)
       @ json_field ''download_api_token'' (json_string d) @ json_field ''account_root_key'' (json_string e)
       @ (case f of None \<Rightarrow> [] | Some x \<Rightarrow> json_field ''consumer_identity_secret''
           (case x of None \<Rightarrow> ascii ''null'' | Some s \<Rightarrow> json_string s))
       @ ascii ''}'')"

definition wire_compact :: "crates \<Rightarrow> bool" where
  "wire_compact K \<longleftrightarrow> (\<forall>w. plain_wire w \<longrightarrow> wire_to_vec K w = compact_wire w)"

definition wire_roundtrip :: "crates \<Rightarrow> AccountBundleWire \<Rightarrow> bool" where
  "wire_roundtrip K w \<longleftrightarrow> wire_from_slice K (wire_to_vec K w) = Some w"

text \<open>The account crates behave as documented: digests and public keys have 32 bytes.\<close>

definition account_crates :: "crates \<Rightarrow> bool" where
  "account_crates K \<longleftrightarrow> base64_engine (engine K) \<and> uuid_library (uuids K)
     \<and> (\<forall>s. length (sha256 K s) = 32) \<and> (\<forall>s. length (verifying_key K s) = 32) \<and> wire_compact K"

section \<open>Accepted origins need no escape\<close>

lemma json_plain_append [simp]: "json_plain (a @ b) \<longleftrightarrow> json_plain a \<and> json_plain b"
  by (simp add: json_plain_def)

lemma json_plain_simps [simp]:
  "json_plain []" "json_plain (x # s) \<longleftrightarrow> 32 \<le> x \<and> x < 127 \<and> x \<noteq> 34 \<and> x \<noteq> 92 \<and> json_plain s"
  by (simp_all add: json_plain_def)

definition host_byte :: "u8 \<Rightarrow> bool" where
  "host_byte b \<longleftrightarrow> is_ascii_digit b \<or> is_ascii_lowercase b \<or> b \<in> {45, 46, 58, 91, 93}"

lemma host_byte_plain: "host_byte b \<Longrightarrow> 32 \<le> b \<and> b < 127 \<and> b \<noteq> 34 \<and> b \<noteq> 92"
  by (auto simp: host_byte_def is_ascii_digit_def is_ascii_lowercase_def word_le_nat_alt word_less_nat_alt)

lemma host_bytes_plain: "(\<And>b. b \<in> set s \<Longrightarrow> host_byte b) \<Longrightarrow> json_plain s"
  by (auto simp: json_plain_def list_all_iff dest: host_byte_plain)

lemma host_byte_punct [simp]: "host_byte 45" "host_byte 46" "host_byte 58" "host_byte 91" "host_byte 93"
  by (simp_all add: host_byte_def)

lemma dec_text_host: "b \<in> set (dec_text n) \<Longrightarrow> host_byte b"
  using dec_text_digits by (auto simp: host_byte_def)

lemma hex_text_host: "b \<in> set (hex_text n) \<Longrightarrow> host_byte b"
proof (induction n rule: hex_text.induct)
  case (1 n)
  have "hyphenated_byte (hex_char (n mod 16))" by (simp add: hex_char_hyphenated)
  then have c: "host_byte (hex_char (n mod 16))"
    by (auto simp: hyphenated_byte_def host_byte_def is_ascii_lowercase_def intro: order_trans)
  have "hex_text n = (if n < 16 then [] else hex_text (n div 16)) @ [hex_char (n mod 16)]"
    by (simp add: hex_text.simps [of n] hex_char_def Let_def)
  then show ?case using 1 c by (auto split: if_splits)
qed

lemma ipv4_text_host: "b \<in> set (ipv4_to_string ip) \<Longrightarrow> host_byte b"
  by (auto simp: ipv4_to_string_def dest: dec_text_host split: if_splits)

lemma fmt_subslice_host: "b \<in> set (fmt_subslice gs) \<Longrightarrow> host_byte b"
  by (auto simp: fmt_subslice_def dest: hex_text_host split: if_splits)

lemma ipv6_text_host: "b \<in> set (ipv6_to_string ip) \<Longrightarrow> host_byte b"
proof -
  assume "b \<in> set (ipv6_to_string ip)"
  moreover have "x \<in> set (ascii ''::ffff:'') \<Longrightarrow> host_byte x" for x
    by (auto simp: byte_simps host_byte_def is_ascii_lowercase_def)
  ultimately show "host_byte b"
    by (auto simp: ipv6_to_string_def split: if_splits prod.splits dest: ipv4_text_host fmt_subslice_host)
qed

lemma split_on_mem: "b \<in> set s \<Longrightarrow> b = c \<or> (\<exists>p \<in> set (split_on c s). b \<in> set p)"
  by (induction c s rule: split_on.induct) (auto split: list.splits)

lemma validate_dns_host: "validate_dns h = Inr () \<Longrightarrow> b \<in> set h \<Longrightarrow> host_byte b"
  using split_on_mem [of b h 46]
  by (auto simp: validate_dns_def valid_dns_label_def list_all_iff host_byte_def split: if_splits)

lemma strict_host_bytes: "strict_host h = Inr st \<Longrightarrow> b \<in> set h \<Longrightarrow> host_byte b"
proof (cases st)
  case Dns
  moreover assume "strict_host h = Inr st" "b \<in> set h"
  ultimately show ?thesis
    by (auto simp: strict_host_def Let_def split: if_splits dest: validate_dns_host)
next
  case (V4 ip)
  moreover assume "strict_host h = Inr st" "b \<in> set h"
  ultimately show ?thesis using strict_host_V4 ipv4_text_host by blast
next
  case (V6 ip)
  moreover assume "strict_host h = Inr st" "b \<in> set h"
  ultimately show ?thesis using strict_host_V6 [of h ip] ipv6_text_host by auto
qed

lemma parse_origin_plain:
  assumes "parse_origin U v = Inr w"
  shows "json_plain v"
proof -
  obtain https authority host port_text port strict where
    v: "v = (if https then ascii ''https://'' else ascii ''http://'') @ authority"
    and sa: "split_authority authority = Inr (host, port_text)"
    and p: "(case port_text of None \<Rightarrow> Inr None | Some t \<Rightarrow> bind_result (parse_port t) (\<lambda>p. Inr (Some p))) = Inr port"
    and st: "strict_host host = Inr strict"
    using assms by (rule parse_origin_Inr)
  have "json_plain host" using strict_host_bytes [OF st] by (rule host_bytes_plain)
  moreover have "json_plain t" if "port_text = Some t" for t
    using that p parse_port_Inr [of t] dec_text_host host_bytes_plain by (auto split: option.splits)
  ultimately show ?thesis
    using v split_authority_Inr [OF sa] by (auto simp: byte_simps split: option.splits)
qed

lemma parse_origin_length: "parse_origin U v = Inr w \<Longrightarrow> w = v \<and> length v \<le> 267"
  by (auto simp: parse_origin_def split: if_splits)

lemma parse_origin_idem: "parse_origin U v = Inr w \<Longrightarrow> parse_origin U w = Inr w"
  using parse_origin_length by fastforce

section \<open>Well-formed bundles\<close>

definition wf_scoped :: "crates \<Rightarrow> ScopedAccountBundle \<Rightarrow> bool" where
  "wf_scoped K s \<longleftrightarrow> parse_origin (url_parse K) (sb_service_origin s) = Inr (sb_service_origin s)
     \<and> length (sb_account_id s) = 16 \<and> is_uuid_v7 (uuids K) (sb_account_id s)
     \<and> length (sb_api_token s) = 32 \<and> length (sb_account_root_key s) = 32
     \<and> (case sb_api_key_scope s of
          Publish \<Rightarrow> (\<exists>i. sb_authorized_consumer_identity s = Some i \<and> length i = 32)
            \<and> sb_consumer_identity_secret s = None
        | Download \<Rightarrow> sb_authorized_consumer_identity s = None
            \<and> (\<exists>i. sb_consumer_identity_secret s = Some i \<and> length i = 32))"

definition wf_owner :: "crates \<Rightarrow> OwnerAccountBundle \<Rightarrow> bool" where
  "wf_owner K b \<longleftrightarrow> parse_origin (url_parse K) (ob_service_origin b) = Inr (ob_service_origin b)
     \<and> length (ob_account_id b) = 16 \<and> is_uuid_v7 (uuids K) (ob_account_id b)
     \<and> length (ob_publish_api_token b) = 32 \<and> length (ob_download_api_token b) = 32
     \<and> service_hash (sha256 K) (ob_publish_api_token b) \<noteq> service_hash (sha256 K) (ob_download_api_token b)
     \<and> length (ob_account_root_key b) = 32 \<and> length (ob_consumer_identity_secret b) = 32"

definition wf_bundle :: "crates \<Rightarrow> AccountBundle \<Rightarrow> bool" where
  "wf_bundle K b = (case b of Scoped s \<Rightarrow> wf_scoped K s | Owner s \<Rightarrow> wf_owner K s)"

context base64_engine
begin

lemma encode_json_plain: "json_plain (b64_encode e bs)"
proof -
  have "32 \<le> b \<and> b < 127 \<and> b \<noteq> 34 \<and> b \<noteq> 92" if "b64_alphabet b" for b
    using that by (auto simp: b64_alphabet_def is_ascii_alphanumeric_def is_ascii_digit_def
        is_ascii_lowercase_def is_ascii_uppercase_def word_le_nat_alt word_less_nat_alt)
  then show ?thesis using encode_alphabet by (auto simp: json_plain_def list_all_iff)
qed

end

lemma account_id_text_plain: "uuid_library u \<Longrightarrow> json_plain (account_id_text u b)"
proof (rule host_bytes_plain)
  fix x
  assume "uuid_library u" "x \<in> set (account_id_text u b)"
  then have "hyphenated_byte x" by (simp add: account_id_text_def uuid_library.hyphenated_bytes)
  then show "host_byte x"
    by (auto simp: hyphenated_byte_def host_byte_def is_ascii_lowercase_def intro: order_trans)
qed

lemma wire_plain:
  assumes "account_crates K" and "wf_bundle K b"
  shows "plain_wire (bundle_wire K b)"
proof -
  have e: "json_plain (encode_base64 (engine K) x)" for x
    using assms(1) by (simp add: account_crates_def encode_base64_def base64_engine.encode_json_plain)
  have u: "json_plain (account_id_text (uuids K) x)" for x
    using assms(1) account_id_text_plain by (simp add: account_crates_def)
  show ?thesis
    using assms(2) parse_origin_plain e u
    by (auto simp: plain_wire_def bundle_wire_def wf_bundle_def wf_scoped_def wf_owner_def token_text_def
        option.pred_map o_def pred_option_def split: AccountBundle.splits option.splits)
qed

lemma length_json [simp]:
  "length (json_field n v) = 4 + length n + length v" "length (json_string s) = length s + 2"
  by (simp_all add: json_field_def json_string_def)

lemma length_scope_text: "length (dec_text (unat (scope_u8 s))) = 1"
  by (cases s) (simp_all add: scope_u8_def dec_text.simps)

lemma encode_fits:
  assumes K: "account_crates K" and wf: "wf_bundle K b"
  shows "length (compact_wire (bundle_wire K b)) \<le> MAX_BUNDLE_BYTES"
proof -
  have e: "length x = 32 \<Longrightarrow> length (encode_base64 (engine K) x) = 43" for x
    using K by (simp add: account_crates_def encode_base64_def base64_engine.length_encode_32)
  have u: "length x = 16 \<Longrightarrow> length (account_id_text (uuids K) x) = 36" for x
    using K by (simp add: account_crates_def account_id_text_def uuid_library.length_hyphenated)
  show ?thesis
  proof (cases b)
    case (Scoped s)
    then have "length (sb_service_origin s) \<le> 267"
      using wf parse_origin_length [of "url_parse K"] by (auto simp: wf_bundle_def wf_scoped_def)
    then show ?thesis
      using Scoped wf e u length_scope_text [of "sb_api_key_scope s"]
      by (cases "sb_api_key_scope s") (auto simp: wf_bundle_def wf_scoped_def bundle_wire_def compact_wire_def
          token_text_def limit_defs)
  next
    case (Owner s)
    then have "length (ob_service_origin s) \<le> 267"
      using wf parse_origin_length [of "url_parse K"] by (auto simp: wf_bundle_def wf_owner_def)
    then show ?thesis
      using Owner wf e u
      by (auto simp: wf_bundle_def wf_owner_def bundle_wire_def compact_wire_def token_text_def limit_defs)
  qed
qed

lemma bundle_encode_Some:
  assumes "account_crates K" and "wf_bundle K b"
  shows "bundle_encode K b = Some (encode_base64 (engine K) (compact_wire (bundle_wire K b)))"
  using encode_fits [OF assms] wire_plain [OF assms] assms(1)
  by (simp add: bundle_encode_def account_crates_def wire_compact_def)

lemma scoped_parts_Inr:
  "scoped_from_parts K a b Publish c d i = Inr s \<longleftrightarrow> is_uuid_v7 (uuids K) b \<and> i \<noteq> None \<and>
     s = \<lparr>sb_service_origin = a, sb_account_id = b, sb_api_key_scope = Publish, sb_api_token = c,
       sb_account_root_key = d, sb_authorized_consumer_identity = i, sb_consumer_identity_secret = None\<rparr>"
  by (auto simp: scoped_from_parts_def)

lemma secret_iff:
  assumes "account_crates K"
  shows "decode_bundle_secret (engine K) s = Inr b \<longleftrightarrow> length b = 32 \<and> encode_base64 (engine K) b = s"
    and "parse_account_id (uuids K) t = Inr a \<longleftrightarrow>
      length a = 16 \<and> is_uuid_v7 (uuids K) a \<and> account_id_text (uuids K) a = t"
  using assms base64_engine.decode_bundle_secret_iff uuid_library.parse_account_id_iff
  by (auto simp: account_crates_def)

lemma optional_secret_Inr:
  assumes "account_crates K"
  shows "decode_optional_secret (engine K) x = Inr y \<Longrightarrow> pred_option (\<lambda>b. length b = 32) y"
  using secret_iff(1) [OF assms] by (auto simp: decode_optional_secret_def split: option.splits)

lemma bundle_of_wire_wf:
  assumes K: "account_crates K" and w: "bundle_of_wire K w = Inr b"
  shows "wf_bundle K b"
proof -
  have h: "length (domain_hash (sha256 K) d ps) = 32" for d ps
    using K by (simp add: account_crates_def domain_hash_def)
  note parts = secret_iff [OF K] h parse_origin_idem [of "url_parse K"]
  show ?thesis
  proof (cases w)
    case (ScopedWire a b c d e f g)
    then show ?thesis
      using w parts optional_secret_Inr [OF K]
      by (auto simp: bundle_of_wire_def Let_def invalid_bundle_def scoped_parts_Inr
          scoped_from_download_parts_def wf_bundle_def wf_scoped_def
          split: ApiKeyScope.splits if_splits) fastforce+
  next
    case (OwnerWire a b c d e f)
    then show ?thesis
      using w parts
      by (auto simp: bundle_of_wire_def Let_def invalid_bundle_def owner_from_parts_def wf_bundle_def
          wf_owner_def split: option.splits if_splits)
  qed
qed

lemma bundle_wire_of_wire:
  assumes K: "account_crates K" and wf: "wf_bundle K b"
  shows "bundle_of_wire K (bundle_wire K b) = Inr b"
proof -
  have tok: "token_text (engine K) = encode_base64 (engine K)" by (simp add: fun_eq_iff token_text_def)
  have dec: "length x = 32 \<Longrightarrow> decode_bundle_secret (engine K) (encode_base64 (engine K) x) = Inr x" for x
    using secret_iff(1) [OF K] by simp
  have aid: "length a = 16 \<Longrightarrow> is_uuid_v7 (uuids K) a \<Longrightarrow>
      parse_account_id (uuids K) (account_id_text (uuids K) a) = Inr a" for a
    using secret_iff(2) [OF K] by simp
  have scope: "scope_try_from (scope_u8 s) = Inr s" for s by (simp add: scope_try_from_iff)
  show ?thesis
  proof (cases b)
    case (Scoped s)
    then show ?thesis
      using wf by (cases "sb_api_key_scope s")
        (auto simp: wf_bundle_def wf_scoped_def bundle_wire_def bundle_of_wire_def Let_def dec aid scope tok
          invalid_bundle_def decode_optional_secret_def scoped_parts_Inr scoped_from_download_parts_def
          scoped_from_parts_def)
  next
    case (Owner s)
    then show ?thesis
      using wf by (auto simp: wf_bundle_def wf_owner_def bundle_wire_def bundle_of_wire_def Let_def dec aid
          tok invalid_bundle_def owner_from_parts_def)
  qed
qed

lemma not_legacy_wire [simp]: "\<not> legacy_owner (bundle_wire K b)"
  by (auto simp: legacy_owner_def bundle_wire_def split: AccountBundle.splits)

lemma bundle_parse_encode:
  assumes "account_crates K" and "wf_bundle K b" and "wire_roundtrip K (bundle_wire K b)"
  shows "\<exists>t. bundle_encode K b = Some t \<and> length t \<le> MAX_BUNDLE_ENCODED_BYTES \<and> bundle_parse K t = Some (Inr b)"
proof -
  let ?w = "compact_wire (bundle_wire K b)"
  let ?t = "encode_base64 (engine K) ?w"
  have enc: "bundle_encode K b = Some ?t" by (rule bundle_encode_Some [OF assms(1,2)])
  have fits: "length ?w \<le> 768" using encode_fits [OF assms(1,2)] by (simp add: limit_defs)
  have e: "base64_engine (engine K)" using assms(1) by (simp add: account_crates_def)
  have len: "length ?t = (length ?w * 4 + 2) div 3"
    by (simp add: encode_base64_def base64_engine.length_encode [OF e])
  have pos: "0 < length ?w" by (simp add: compact_wire_def byte_simps split: AccountBundleWire.splits)
  have "0 < (length ?w * 4 + 2) div 3" using pos by (simp add: div_greater_zero_iff Suc_le_eq)
  then have ne: "?t \<noteq> []" using len by auto
  have le: "length ?t \<le> MAX_BUNDLE_ENCODED_BYTES" unfolding len using fits by (simp add: limit_defs)
  have dec: "decode_slice (engine K) ?t MAX_BUNDLE_BYTES = Some ?w"
    using fits by (simp add: encode_base64_def base64_engine.decode_slice_encode [OF e] limit_defs)
  have wire: "wire_from_slice K ?w = Some (bundle_wire K b)"
    using assms(1,3) wire_plain [OF assms(1,2)]
    by (auto simp: wire_roundtrip_def wire_compact_def account_crates_def)
  have "bundle_parse K ?t = Some (Inr b)"
    using ne le dec wire enc by (simp add: bundle_parse_def bundle_wire_of_wire [OF assms(1,2)])
  then show ?thesis using enc le by blast
qed

section \<open>Properties\<close>

text \<open>C10: every well-formed bundle has a text: its JSON fits the 768-byte bound, so encoding does not
  panic, and parsing the text returns exactly that bundle.\<close>

theorem bundle_text_roundtrip:
  assumes "account_crates K" and "wf_bundle K b" and "wire_roundtrip K (bundle_wire K b)"
  shows "\<exists>t. bundle_encode K b = Some t \<and> length t \<le> MAX_BUNDLE_ENCODED_BYTES \<and> bundle_parse K t = Some (Inr b)"
  using assms by (rule bundle_parse_encode)

text \<open>Concrete parameters for the witnesses: the RFC references for base64 and UUIDs, a digest that
  returns the end of its input, an identity key map and a JSON reader that knows one bundle.\<close>

definition sample_owner :: OwnerAccountBundle where
  "sample_owner = \<lparr>ob_service_origin = ascii ''http://[::1]:8787'',
     ob_account_id = replicate 6 0 @ [0x70, 0, 0x80, 0, 0, 0, 0, 0, 0, 0],
     ob_publish_api_token = replicate 32 1, ob_download_api_token = replicate 32 2,
     ob_account_root_key = replicate 32 3, ob_consumer_identity_secret = replicate 32 4\<rparr>"

definition sample_crates :: crates where
  "sample_crates = \<lparr>engine = url_safe_no_pad, uuids = rfc9562, sha256 = (\<lambda>s. take 32 (rev s @ replicate 32 0)),
     verifying_key = (\<lambda>s. take 32 (s @ replicate 32 0)), url_parse = sample_url,
     wire_to_vec = compact_wire,
     wire_from_slice = (\<lambda>s.
       let w = OwnerWire (ob_service_origin sample_owner) (account_id_text rfc9562 (ob_account_id sample_owner))
         (token_text url_safe_no_pad (ob_publish_api_token sample_owner))
         (token_text url_safe_no_pad (ob_download_api_token sample_owner))
         (encode_base64 url_safe_no_pad (ob_account_root_key sample_owner))
         (Some (Some (encode_base64 url_safe_no_pad (ob_consumer_identity_secret sample_owner))))
       in if s = compact_wire w then Some w else None)\<rparr>"

lemma sample_crates_ok: "account_crates sample_crates"
  by (simp add: account_crates_def sample_crates_def wire_compact_def min_def
      url_safe.base64_engine_axioms rfc9562.uuid_library_axioms)

lemma sample_owner_ok: "wf_owner sample_crates sample_owner"
  by (simp add: wf_owner_def sample_crates_def sample_owner_def sample_origin_accepted is_uuid_v7_def
      rfc9562_def nth_append service_hash_def domain_hash_def API_TOKEN_HASH_DOMAIN_def)

lemma sample_wire_ok: "wire_roundtrip sample_crates (bundle_wire sample_crates (Owner sample_owner))"
  by (simp add: wire_roundtrip_def bundle_wire_def sample_crates_def)

theorem bundle_text_roundtrip_witness:
  "\<exists>t. bundle_encode sample_crates (Owner sample_owner) = Some t \<and> length t \<le> MAX_BUNDLE_ENCODED_BYTES
     \<and> bundle_parse sample_crates t = Some (Inr (Owner sample_owner))"
  using bundle_text_roundtrip [OF sample_crates_ok _ sample_wire_ok] sample_owner_ok
  by (simp add: wf_bundle_def)

text \<open>C11: parsing a bundle is total and strict. It never panics, whatever the input; an accepted bundle
  is well formed, and unless it is an owner bundle of the old format without a consumer secret, the
  input is exactly the text that the bundle encodes to.\<close>

theorem bundle_parse_strict:
  assumes "account_crates K"
  shows "\<exists>r. bundle_parse K s = Some r \<and>
    (\<forall>b. r = Inr b \<longrightarrow> wf_bundle K b \<and>
       (bundle_encode K b = Some s \<or>
        (\<exists>w. legacy_owner w \<and> decode_slice (engine K) s MAX_BUNDLE_BYTES = Some (wire_to_vec K w))))"
  using bundle_of_wire_wf [OF assms] bundle_encode_Some [OF assms]
  by (auto simp: bundle_parse_def split: option.splits sum.splits)

theorem bundle_parse_strict_witness:
  "\<exists>r. bundle_parse sample_crates (ascii ''e30'') = Some r"
  using bundle_parse_strict [OF sample_crates_ok, of "ascii ''e30''"] by blast

end
