(* ===== verification/Sync_Api.thy ===== *)
theory Sync_Api
  imports Bundle "HOL-Library.List_Lexorder"
begin

text \<open>
  \<open>session-sync-protocol/src/api.rs\<close>: the JSON messages of the synchronisation service, namely the
  account-creation response, the envelope and the live-record index, with their strict readers. The
  JSON library is the parameter \<open>json_lib\<close> between texts and the \<open>json\<close> datatype; a string carries
  whether it was written with escapes, because borrowed strings are read only without. What is relied
  on of the library for a value is \<open>json_faithful\<close>: its text is the compact one and reads back.
\<close>

datatype json =
    JNull | JBool bool | JNumber nat | JNegative nat | JOtherNumber | JString bytes bool | JArray "json list"
  | JObject "(bytes \<times> json) list"

record json_lib =
  json_from_slice :: "bytes \<Rightarrow> json option"
  json_to_vec :: "json \<Rightarrow> bytes"

text \<open>\<open>JString s True\<close> has escapes in its text; \<open>JNegative n\<close> is the negative integer \<open>-n\<close>, and
  \<open>JOtherNumber\<close> a number that is not a 64-bit integer.\<close>

datatype ApiError = InvalidRequest | TooLarge

datatype ErrorCode =
  CodeInvalidRequest | CodeUnauthorized | CodeTooLarge | CodeQuotaExceeded | CodeRateLimited | CodeUnavailable

definition error_code_text :: "ErrorCode \<Rightarrow> bytes" where
  "error_code_text c = (case c of
     CodeInvalidRequest \<Rightarrow> ascii ''invalid_request'' | CodeUnauthorized \<Rightarrow> ascii ''unauthorized''
   | CodeTooLarge \<Rightarrow> ascii ''too_large'' | CodeQuotaExceeded \<Rightarrow> ascii ''quota_exceeded''
   | CodeRateLimited \<Rightarrow> ascii ''rate_limited'' | CodeUnavailable \<Rightarrow> ascii ''unavailable'')"

definition error_dto :: "ErrorCode \<Rightarrow> json" where
  "error_dto c = JObject [(ascii ''code'', JString (error_code_text c) False)]"

section \<open>Reading JSON values\<close>

definition json_str :: "json \<Rightarrow> bytes option" where
  "json_str j = (case j of JString s False \<Rightarrow> Some s | _ \<Rightarrow> None)"

definition json_uint :: "nat \<Rightarrow> json \<Rightarrow> nat option" where
  "json_uint m j = (case j of JNumber n \<Rightarrow> if n \<le> m then Some n else None | _ \<Rightarrow> None)"

text \<open>The derived reader of a struct with \<open>deny_unknown_fields\<close> and required fields: an object with
  exactly these fields, in any order and without repetition, or an array of exactly their values.\<close>

definition derived_struct :: "bytes list \<Rightarrow> json \<Rightarrow> json list option" where
  "derived_struct names j = (case j of
     JObject kvs \<Rightarrow>
       if distinct (map fst kvs) \<and> list_all (\<lambda>(k, _). List.member names k) kvs
          \<and> list_all (\<lambda>k. List.member (map fst kvs) k) names
       then Some (map (\<lambda>k. the (map_of kvs k)) names) else None
   | JArray vs \<Rightarrow> if length vs = length names then Some vs else None
   | _ \<Rightarrow> None)"

definition parse_bounded :: "json_lib \<Rightarrow> (json \<Rightarrow> 'a option) \<Rightarrow> bytes \<Rightarrow> ApiError + 'a" where
  "parse_bounded J rd s =
     (if length s > MAX_API_BODY_BYTES then Inl TooLarge
      else ok_or (Option.bind (json_from_slice J s) rd) InvalidRequest)"

section \<open>Bounded base64\<close>

definition canonical_matches :: "base64 \<Rightarrow> bytes \<Rightarrow> bytes \<Rightarrow> bool" where
  "canonical_matches e value bs \<longleftrightarrow> b64_encode e bs = value"

definition decode_fixed :: "base64 \<Rightarrow> nat \<Rightarrow> bytes \<Rightarrow> ApiError + bytes" where
  "decode_fixed e n value =
     bind_result (ok_or (decode_slice e value n) InvalidRequest) (\<lambda>bs.
       let decoded = bs @ replicate (n - length bs) 0 in
       if length bs \<noteq> n \<or> \<not> canonical_matches e value decoded then Inl InvalidRequest else Inr decoded)"

definition decode_vec :: "base64 \<Rightarrow> bytes \<Rightarrow> nat \<Rightarrow> ApiError + bytes" where
  "decode_vec e value mx =
     (if length value * 3 > U64_MAX then Inl TooLarge
      else let upper = length value * 3 div 4 in
        if upper > mx then Inl TooLarge
        else bind_result (ok_or (decode_slice e value upper) InvalidRequest) (\<lambda>decoded.
          if \<not> canonical_matches e value decoded then Inl InvalidRequest else Inr decoded))"

section \<open>Account creation\<close>

record CreateAccountResponse =
  car_account_id :: bytes
  car_publish_api_token :: bytes
  car_download_api_token :: bytes

definition new_create_account_response ::
  "crates \<Rightarrow> bytes \<Rightarrow> bytes \<Rightarrow> bytes \<Rightarrow> ApiError + CreateAccountResponse" where
  "new_create_account_response K aid publish download =
     (if \<not> is_uuid_v7 (uuids K) aid \<or> service_hash (sha256 K) publish = service_hash (sha256 K) download
      then Inl InvalidRequest
      else Inr \<lparr>car_account_id = aid, car_publish_api_token = publish, car_download_api_token = download\<rparr>)"

definition create_account_response_json :: "crates \<Rightarrow> CreateAccountResponse \<Rightarrow> json" where
  "create_account_response_json K r = JObject
     [(ascii ''account_id'', JString (account_id_text (uuids K) (car_account_id r)) False),
      (ascii ''publish_api_token'', JString (token_text (engine K) (car_publish_api_token r)) False),
      (ascii ''download_api_token'', JString (token_text (engine K) (car_download_api_token r)) False)]"

definition create_account_response_read :: "crates \<Rightarrow> json \<Rightarrow> CreateAccountResponse option" where
  "create_account_response_read K j =
     (case derived_struct [ascii ''account_id'', ascii ''publish_api_token'', ascii ''download_api_token''] j of
        Some [a, p, d] \<Rightarrow>
          Option.bind (json_str a) (\<lambda>a. Option.bind (result_ok (parse_account_id (uuids K) a)) (\<lambda>aid.
          Option.bind (json_str p) (\<lambda>p. Option.bind (json_str d) (\<lambda>d.
          Option.bind (result_ok (parse_bare (engine K) p)) (\<lambda>publish.
          Option.bind (result_ok (parse_bare (engine K) d)) (\<lambda>download.
            result_ok (new_create_account_response K aid publish download)))))))
      | _ \<Rightarrow> None)"

definition create_account_response_parse :: "crates \<Rightarrow> json_lib \<Rightarrow> bytes \<Rightarrow> ApiError + CreateAccountResponse" where
  "create_account_response_parse K J s = parse_bounded J (create_account_response_read K) s"

section \<open>Envelopes\<close>

record ApiEnvelope =
  envelope_version :: nat
  env_nonce :: bytes
  env_ciphertext :: bytes

definition new_api_envelope :: "bytes \<Rightarrow> bytes \<Rightarrow> ApiError + ApiEnvelope" where
  "new_api_envelope n c =
     (if length c > MAX_CIPHERTEXT_BYTES then Inl TooLarge
      else Inr \<lparr>envelope_version = 1, env_nonce = n, env_ciphertext = c\<rparr>)"

definition envelope_json :: "base64 \<Rightarrow> ApiEnvelope \<Rightarrow> json" where
  "envelope_json e v = JObject
     [(ascii ''envelope_version'', JNumber (envelope_version v)),
      (ascii ''nonce'', JString (b64_encode e (env_nonce v)) False),
      (ascii ''ciphertext'', JString (b64_encode e (env_ciphertext v)) False)]"

record EnvelopeWire =
  ew_version :: nat
  ew_nonce :: bytes
  ew_ciphertext :: bytes

definition envelope_wire_decode :: "base64 \<Rightarrow> EnvelopeWire \<Rightarrow> ApiError + ApiEnvelope" where
  "envelope_wire_decode e w =
     (if ew_version w \<noteq> 1 then Inl InvalidRequest
      else bind_result (decode_fixed e NONCE_BYTES (ew_nonce w)) (\<lambda>n.
        if length (ew_ciphertext w) > MAX_CIPHERTEXT_TEXT_LEN then Inl TooLarge
        else bind_result (decode_vec e (ew_ciphertext w) MAX_CIPHERTEXT_BYTES) (\<lambda>c. new_api_envelope n c)))"

text \<open>The visitor's loop over the fields of the object, with its three slots.\<close>

fun visit_map :: "nat option \<Rightarrow> bytes option \<Rightarrow> bytes option \<Rightarrow> (bytes \<times> json) list \<Rightarrow> EnvelopeWire option" where
  "visit_map version n c [] =
     (case (version, n, c) of
        (Some v, Some n, Some c) \<Rightarrow> Some \<lparr>ew_version = v, ew_nonce = n, ew_ciphertext = c\<rparr>
      | _ \<Rightarrow> None)"
| "visit_map version n c ((field, j) # r) =
     (if field = ascii ''envelope_version'' then
        (if version \<noteq> None then None
         else Option.bind (json_uint 65535 j) (\<lambda>v. visit_map (Some v) n c r))
      else if field = ascii ''nonce'' then
        (if n \<noteq> None then None else Option.bind (json_str j) (\<lambda>s. visit_map version (Some s) c r))
      else if field = ascii ''ciphertext'' then
        (if c \<noteq> None then None else Option.bind (json_str j) (\<lambda>s. visit_map version n (Some s) r))
      else None)"

definition envelope_wire_read :: "json \<Rightarrow> EnvelopeWire option" where
  "envelope_wire_read j = (case j of JObject kvs \<Rightarrow> visit_map None None None kvs | _ \<Rightarrow> None)"

definition envelope_parse_json :: "base64 \<Rightarrow> json_lib \<Rightarrow> bytes \<Rightarrow> ApiError + ApiEnvelope" where
  "envelope_parse_json e J s = bind_result (parse_bounded J envelope_wire_read s) (envelope_wire_decode e)"

section \<open>The live-record index\<close>

record LiveRecordIndexEntry =
  entry_record_id :: bytes
  entry_revision :: nat

type_synonym LiveRecordIndex = "LiveRecordIndexEntry list"

text \<open>Record identifiers compare as byte arrays, lexicographically.\<close>

definition index_validate :: "LiveRecordIndex \<Rightarrow> ApiError + unit" where
  "index_validate records =
     (if length records > MAX_LIVE_RECORDS then Inl InvalidRequest
      else if list_ex (\<lambda>r. entry_revision r = 0) records then Inl InvalidRequest
      else if \<not> successively (\<lambda>a b. entry_record_id a < entry_record_id b) records then Inl InvalidRequest
      else Inr ())"

definition index_new :: "LiveRecordIndex \<Rightarrow> ApiError + LiveRecordIndex" where
  "index_new records = bind_result (index_validate records) (\<lambda>_. Inr records)"

definition entry_json :: "base64 \<Rightarrow> LiveRecordIndexEntry \<Rightarrow> json" where
  "entry_json e r = JObject [(ascii ''record_id'', JString (record_id_text e (entry_record_id r)) False),
     (ascii ''revision'', JNumber (entry_revision r))]"

definition index_json :: "base64 \<Rightarrow> LiveRecordIndex \<Rightarrow> json" where
  "index_json e records = JObject [(ascii ''records'', JArray (map (entry_json e) records))]"

definition entry_read :: "base64 \<Rightarrow> json \<Rightarrow> LiveRecordIndexEntry option" where
  "entry_read e j =
     (case derived_struct [ascii ''record_id'', ascii ''revision''] j of
        Some [i, r] \<Rightarrow>
          Option.bind (json_str i) (\<lambda>i. Option.bind (result_ok (parse_record_id e i)) (\<lambda>rid.
          Option.bind (json_uint U64_MAX r) (\<lambda>rev. Some \<lparr>entry_record_id = rid, entry_revision = rev\<rparr>)))
      | _ \<Rightarrow> None)"

text \<open>\<open>BoundedVecSeed\<close>: at most \<open>m\<close> elements are read, and one more is an error.\<close>

fun bounded_vec :: "(json \<Rightarrow> 'a option) \<Rightarrow> nat \<Rightarrow> json list \<Rightarrow> 'a list option" where
  "bounded_vec rd m [] = Some []"
| "bounded_vec rd 0 (j # js) = None"
| "bounded_vec rd (Suc m) (j # js) =
     Option.bind (rd j) (\<lambda>v. Option.bind (bounded_vec rd m js) (\<lambda>vs. Some (v # vs)))"

definition index_read :: "base64 \<Rightarrow> json \<Rightarrow> LiveRecordIndex option" where
  "index_read e j =
     (case derived_struct [ascii ''records''] j of
        Some [JArray js] \<Rightarrow> Option.bind (bounded_vec (entry_read e) MAX_LIVE_RECORDS js)
          (\<lambda>records. Option.bind (result_ok (index_validate records)) (\<lambda>_. Some records))
      | _ \<Rightarrow> None)"

definition parse_live_record_index :: "base64 \<Rightarrow> json_lib \<Rightarrow> bytes \<Rightarrow> ApiError + LiveRecordIndex" where
  "parse_live_record_index e J s = parse_bounded J (index_read e) s"

section \<open>What the code relies on\<close>

text \<open>The compact text of a value whose strings need no escape.\<close>

fun json_compact :: "json \<Rightarrow> bytes" where
  "json_compact JNull = ascii ''null''"
| "json_compact (JBool b) = (if b then ascii ''true'' else ascii ''false'')"
| "json_compact (JNumber n) = dec_text n"
| "json_compact (JNegative n) = [45] @ dec_text n"
| "json_compact JOtherNumber = []"
| "json_compact (JString s esc) = json_string s"
| "json_compact (JArray js) = [91] @ concat (map (\<lambda>(i, s). (if i = 0 then [] else [44]) @ s)
     (List.enumerate 0 (map json_compact js))) @ [93]"
| "json_compact (JObject kvs) = [123] @ concat (map (\<lambda>(i, s). (if i = 0 then [] else [44]) @ s)
     (List.enumerate 0 (map (\<lambda>(k, v). json_string k @ [58] @ json_compact v) kvs))) @ [125]"

definition json_faithful :: "json_lib \<Rightarrow> json \<Rightarrow> bool" where
  "json_faithful J j \<longleftrightarrow> json_to_vec J j = json_compact j \<and> json_from_slice J (json_compact j) = Some j"

section \<open>Base64 fields\<close>

context base64_engine
begin

lemma decode_fixed_iff: "decode_fixed e n s = Inr b \<longleftrightarrow> length b = n \<and> b64_encode e b = s"
  by (auto simp: decode_fixed_def canonical_matches_def decode_slice_encode bind_result_eq_Inr Let_def)

lemma decode_vec_Inr: "decode_vec e s m = Inr b \<Longrightarrow> b64_encode e b = s \<and> length b \<le> m"
  by (auto simp: decode_vec_def canonical_matches_def decode_slice_def Let_def
      split: if_splits option.splits)

lemma length_encode_limit: "length bs \<le> 65792 \<Longrightarrow> length (b64_encode e bs) \<le> 87723"
proof -
  assume "length bs \<le> 65792"
  then have "(length bs * 4 + 2) div 3 \<le> (65792 * 4 + 2) div 3" by (intro div_le_mono) simp
  then show ?thesis by (simp add: length_encode)
qed

lemma decode_vec_encode:
  assumes "length b \<le> m" and "m \<le> MAX_CIPHERTEXT_BYTES"
  shows "decode_vec e (b64_encode e b) m = Inr b"
proof -
  have l: "length (b64_encode e b) * 3 div 4 = length b"
    unfolding length_encode by presburger
  have "length (b64_encode e b) * 3 \<le> 4 * length b + 2" unfolding length_encode by presburger
  then have "length (b64_encode e b) * 3 \<le> U64_MAX" using assms by (simp add: limit_defs)
  then show ?thesis
    using assms by (simp add: decode_vec_def l canonical_matches_def decode_slice_encode Let_def)
qed

end

lemma index_validate_Inr:
  "index_validate rs = Inr () \<longleftrightarrow> length rs \<le> MAX_LIVE_RECORDS \<and> (\<forall>r\<in>set rs. 0 < entry_revision r)
     \<and> sorted_wrt (\<lambda>a b. entry_record_id a < entry_record_id b) rs"
proof -
  have "transp (\<lambda>a b. entry_record_id a < entry_record_id b)" by (auto simp: transp_on_def)
  then have "successively (\<lambda>a b. entry_record_id a < entry_record_id b) rs
      \<longleftrightarrow> sorted_wrt (\<lambda>a b. entry_record_id a < entry_record_id b) rs"
    by (rule successively_conv_sorted_wrt)
  then show ?thesis by (auto simp: index_validate_def list_ex_iff)
qed

lemma index_validate_cases: "index_validate rs = Inl InvalidRequest \<or> index_validate rs = Inr ()"
  by (simp add: index_validate_def)

section \<open>Envelope messages\<close>

definition wf_envelope :: "ApiEnvelope \<Rightarrow> bool" where
  "wf_envelope v \<longleftrightarrow> envelope_version v = 1 \<and> length (env_nonce v) = NONCE_BYTES
     \<and> length (env_ciphertext v) \<le> MAX_CIPHERTEXT_BYTES"

lemma field_names_distinct [simp]:
  "ascii ''envelope_version'' \<noteq> ascii ''nonce''" "ascii ''envelope_version'' \<noteq> ascii ''ciphertext''"
  "ascii ''nonce'' \<noteq> ascii ''envelope_version''" "ascii ''nonce'' \<noteq> ascii ''ciphertext''"
  "ascii ''ciphertext'' \<noteq> ascii ''envelope_version''" "ascii ''ciphertext'' \<noteq> ascii ''nonce''"
  by (simp_all add: byte_simps)

lemma envelope_wire_read_json:
  "envelope_version v \<le> 65535 \<Longrightarrow> envelope_wire_read (envelope_json e v) =
     Some \<lparr>ew_version = envelope_version v, ew_nonce = b64_encode e (env_nonce v),
       ew_ciphertext = b64_encode e (env_ciphertext v)\<rparr>"
  by (simp add: envelope_wire_read_def envelope_json_def json_uint_def json_str_def)

lemma envelope_compact_length:
  assumes "base64_engine e" and "wf_envelope v"
  shows "length (json_compact (envelope_json e v)) \<le> MAX_API_BODY_BYTES"
proof -
  have "length (b64_encode e (env_ciphertext v)) \<le> 87723" "length (b64_encode e (env_nonce v)) = 32"
    using assms by (simp_all add: base64_engine.length_encode_24 base64_engine.length_encode_limit
        wf_envelope_def limit_defs)
  moreover have "length (dec_text 1) = 1" by (simp add: dec_text.simps)
  ultimately show ?thesis using assms(2) by (simp add: envelope_json_def wf_envelope_def limit_defs)
qed

lemma envelope_wire_decode_iff:
  assumes "base64_engine e"
  shows "envelope_wire_decode e w = Inr v \<longleftrightarrow> wf_envelope v \<and> w = \<lparr>ew_version = 1,
    ew_nonce = b64_encode e (env_nonce v), ew_ciphertext = b64_encode e (env_ciphertext v)\<rparr>"
proof
  assume d: "envelope_wire_decode e w = Inr v"
  then obtain n c where v1: "ew_version w = 1" and n: "decode_fixed e NONCE_BYTES (ew_nonce w) = Inr n"
    and c: "decode_vec e (ew_ciphertext w) MAX_CIPHERTEXT_BYTES = Inr c" and v: "new_api_envelope n c = Inr v"
    by (auto simp: envelope_wire_decode_def split: if_splits)
  have "length n = NONCE_BYTES \<and> b64_encode e n = ew_nonce w"
    using n base64_engine.decode_fixed_iff [OF assms] by simp
  moreover have "b64_encode e c = ew_ciphertext w \<and> length c \<le> MAX_CIPHERTEXT_BYTES"
    using c base64_engine.decode_vec_Inr [OF assms] by blast
  ultimately show "wf_envelope v \<and> w = \<lparr>ew_version = 1,
      ew_nonce = b64_encode e (env_nonce v), ew_ciphertext = b64_encode e (env_ciphertext v)\<rparr>"
    using v v1 by (cases w) (auto simp: wf_envelope_def new_api_envelope_def)
next
  assume a: "wf_envelope v \<and> w = \<lparr>ew_version = 1,
    ew_nonce = b64_encode e (env_nonce v), ew_ciphertext = b64_encode e (env_ciphertext v)\<rparr>"
  then have "decode_fixed e NONCE_BYTES (b64_encode e (env_nonce v)) = Inr (env_nonce v)"
    using base64_engine.decode_fixed_iff [OF assms] by (simp add: wf_envelope_def)
  moreover have "decode_vec e (b64_encode e (env_ciphertext v)) MAX_CIPHERTEXT_BYTES = Inr (env_ciphertext v)"
    using a by (simp add: base64_engine.decode_vec_encode [OF assms] wf_envelope_def)
  moreover have "length (b64_encode e (env_ciphertext v)) \<le> MAX_CIPHERTEXT_TEXT_LEN"
    using a by (simp add: base64_engine.length_encode_limit [OF assms] wf_envelope_def limit_defs)
  ultimately show "envelope_wire_decode e w = Inr v"
    using a by (cases v) (simp add: envelope_wire_decode_def new_api_envelope_def wf_envelope_def)
qed

lemma envelope_json_roundtrip:
  assumes "base64_engine e" and "wf_envelope v" and "json_faithful J (envelope_json e v)"
  shows "envelope_parse_json e J (json_to_vec J (envelope_json e v)) = Inr v"
proof -
  have "length (json_compact (envelope_json e v)) \<le> MAX_API_BODY_BYTES"
    using assms(1,2) by (rule envelope_compact_length)
  moreover have "envelope_version v = 1" using assms(2) by (simp add: wf_envelope_def)
  ultimately show ?thesis
    using assms(2,3) by (simp add: envelope_parse_json_def parse_bounded_def json_faithful_def
        envelope_wire_read_json envelope_wire_decode_iff [OF assms(1)])
qed

text \<open>Each slot of the visitor is filled at most once, from the field of that name.\<close>

definition slot :: "bytes \<Rightarrow> (json \<Rightarrow> 'a option) \<Rightarrow> 'a option \<Rightarrow> (bytes \<times> json) list \<Rightarrow> 'a \<Rightarrow> bool" where
  "slot name rd filled kvs v \<longleftrightarrow>
     (case filled of Some x \<Rightarrow> v = x \<and> name \<notin> set (map fst kvs)
      | None \<Rightarrow> (\<exists>j. filter (\<lambda>(k, _). k = name) kvs = [(name, j)] \<and> rd j = Some v))"

lemma slot_Cons:
  "slot name rd filled ((k, j) # kvs) v \<longleftrightarrow>
     (if k = name then filled = None \<and> (\<exists>x. rd j = Some x \<and> slot name rd (Some x) kvs v)
      else slot name rd filled kvs v)"
  by (auto simp: slot_def filter_empty_conv split: option.splits) force+

lemma visit_map_iff:
  "visit_map version n c kvs = Some w \<longleftrightarrow>
     slot (ascii ''envelope_version'') (json_uint 65535) version kvs (ew_version w)
     \<and> slot (ascii ''nonce'') json_str n kvs (ew_nonce w)
     \<and> slot (ascii ''ciphertext'') json_str c kvs (ew_ciphertext w)
     \<and> set (map fst kvs) \<subseteq> {ascii ''envelope_version'', ascii ''nonce'', ascii ''ciphertext''}"
proof (induction version n c kvs rule: visit_map.induct)
  case (1 version n c)
  then show ?case by (cases w) (auto simp: slot_def split: option.splits)
next
  case (2 version n c field j r)
  consider "field = ascii ''envelope_version''" | "field = ascii ''nonce''" | "field = ascii ''ciphertext''"
    | "field \<notin> {ascii ''envelope_version'', ascii ''nonce'', ascii ''ciphertext''}" by blast
  then show ?case
  proof cases
    case 1
    then show ?thesis using "2.IH"(1) by (auto simp: slot_Cons Option.bind_eq_Some_conv)
  next
    case 2
    then show ?thesis using "2.IH"(2) by (auto simp: slot_Cons Option.bind_eq_Some_conv)
  next
    case 3
    then show ?thesis using "2.IH"(3) by (auto simp: slot_Cons Option.bind_eq_Some_conv)
  next
    case 4
    then show ?thesis by simp
  qed
qed

section \<open>Index messages\<close>

lemma length_dec_text: "n < 10 ^ Suc k \<Longrightarrow> length (dec_text n) \<le> Suc k"
proof (induction k arbitrary: n)
  case 0
  then show ?case by (simp add: dec_text.simps)
next
  case (Suc k)
  then have "n div 10 < 10 ^ Suc k" by (simp add: less_mult_imp_div_less)
  then show ?case using Suc.IH [of "n div 10"] by (simp add: dec_text.simps [of n])
qed

lemma length_joined:
  "(\<And>s. s \<in> set ss \<Longrightarrow> length s \<le> m) \<Longrightarrow>
     length (concat (map (\<lambda>(i, s). (if i = 0 then [] else [44]) @ s) (List.enumerate k ss))) \<le> length ss * (m + 1)"
proof (induction ss arbitrary: k)
  case Nil
  then show ?case by simp
next
  case (Cons s ss)
  have "length s \<le> m" using Cons.prems by simp
  moreover have "length (concat (map (\<lambda>(i, s). (if i = 0 then [] else [44]) @ s) (List.enumerate (Suc k) ss)))
      \<le> length ss * (m + 1)" using Cons by simp
  ultimately show ?case by (cases "k = 0") auto
qed

definition wf_entry :: "LiveRecordIndexEntry \<Rightarrow> bool" where
  "wf_entry r \<longleftrightarrow> length (entry_record_id r) = 16 \<and> entry_revision r \<le> U64_MAX"

lemma entry_compact_length:
  assumes "base64_engine e" and "wf_entry r"
  shows "length (json_compact (entry_json e r)) \<le> 100"
proof -
  have "length (dec_text (entry_revision r)) \<le> Suc 19"
    using assms(2) by (intro length_dec_text) (simp add: wf_entry_def limit_defs)
  then show ?thesis
    using assms by (simp add: entry_json_def record_id_text_def wf_entry_def base64_engine.length_encode_16)
qed

lemma index_compact_length:
  assumes "base64_engine e" and "\<forall>r \<in> set rs. wf_entry r" and "length rs \<le> MAX_LIVE_RECORDS"
  shows "length (json_compact (index_json e rs)) \<le> MAX_API_BODY_BYTES"
proof -
  have "length (concat (map (\<lambda>(i, s). (if i = 0 then [] else [44]) @ s)
      (List.enumerate 0 (map json_compact (map (entry_json e) rs))))) \<le> length rs * (100 + 1)"
    using length_joined [of "map json_compact (map (entry_json e) rs)" 100 0] entry_compact_length assms(1,2)
    by fastforce
  then show ?thesis using assms(3) by (simp add: index_json_def limit_defs)
qed

lemma entry_names: "ascii ''record_id'' \<noteq> ascii ''revision''" "ascii ''revision'' \<noteq> ascii ''record_id''"
  by (simp_all add: byte_simps)

lemma entry_read_json:
  assumes "base64_engine e" and "wf_entry r"
  shows "entry_read e (entry_json e r) = Some r"
proof -
  have "parse_record_id e (record_id_text e (entry_record_id r)) = Inr (entry_record_id r)"
    using assms by (simp add: base64_engine.parse_record_id_iff wf_entry_def)
  then show ?thesis
    using assms(2) by (simp add: entry_read_def entry_json_def derived_struct_def json_str_def json_uint_def
        entry_names wf_entry_def)
qed

lemma bounded_vec_map:
  "(\<And>x. x \<in> set xs \<Longrightarrow> rd (f x) = Some x) \<Longrightarrow> length xs \<le> m \<Longrightarrow> bounded_vec rd m (map f xs) = Some xs"
proof (induction xs arbitrary: m)
  case Nil
  then show ?case by simp
next
  case (Cons x xs)
  then show ?case by (cases m) simp_all
qed

lemma index_json_roundtrip:
  assumes e: "base64_engine e" and wf: "\<forall>r \<in> set rs. wf_entry r" and ok: "index_validate rs = Inr ()"
    and J: "json_faithful J (index_json e rs)"
  shows "parse_live_record_index e J (json_to_vec J (index_json e rs)) = Inr rs"
proof -
  have len: "length rs \<le> MAX_LIVE_RECORDS" using ok by (simp add: index_validate_Inr)
  have "bounded_vec (entry_read e) MAX_LIVE_RECORDS (map (entry_json e) rs) = Some rs"
    using wf len entry_read_json [OF e] by (intro bounded_vec_map) auto
  then have "index_read e (index_json e rs) = Some rs"
    using ok by (simp add: index_read_def index_json_def derived_struct_def)
  then show ?thesis
    using J index_compact_length [OF e wf len]
    by (simp add: parse_live_record_index_def parse_bounded_def json_faithful_def)
qed

lemma index_read_valid: "index_read e j = Some rs \<Longrightarrow> index_validate rs = Inr ()"
  by (auto simp: index_read_def Option.bind_eq_Some_conv split: option.splits list.splits json.splits)

section \<open>Properties\<close>

text \<open>An envelope within the limits survives the service's JSON: its text is at most 98,304 bytes
  long and reads back to the same envelope.\<close>

theorem envelope_message_roundtrip:
  assumes "base64_engine e" and "wf_envelope v" and "json_faithful J (envelope_json e v)"
  shows "length (json_to_vec J (envelope_json e v)) \<le> MAX_API_BODY_BYTES \<and>
    envelope_parse_json e J (json_to_vec J (envelope_json e v)) = Inr v"
  using envelope_json_roundtrip [OF assms] envelope_compact_length [OF assms(1,2)] assms(3)
  by (simp add: json_faithful_def)

definition sample_envelope :: ApiEnvelope where
  "sample_envelope = \<lparr>envelope_version = 1, env_nonce = replicate 24 9, env_ciphertext = [1, 2, 3]\<rparr>"

definition sample_json :: "json \<Rightarrow> json_lib" where
  "sample_json j = \<lparr>json_from_slice = (\<lambda>s. if s = json_compact j then Some j else None),
     json_to_vec = json_compact\<rparr>"

lemma sample_json_faithful: "json_faithful (sample_json j) j"
  by (simp add: json_faithful_def sample_json_def)

lemma sample_envelope_ok: "wf_envelope sample_envelope"
  by (simp add: wf_envelope_def sample_envelope_def limit_defs)

theorem envelope_message_roundtrip_witness:
  "envelope_parse_json url_safe_no_pad (sample_json (envelope_json url_safe_no_pad sample_envelope))
     (json_compact (envelope_json url_safe_no_pad sample_envelope)) = Inr sample_envelope"
  using envelope_message_roundtrip [OF url_safe.base64_engine_axioms sample_envelope_ok sample_json_faithful]
  by (simp add: sample_json_def)

text \<open>An envelope text is accepted exactly when it is within the size limit and is a JSON object
  whose fields are the version 1, a nonce and a ciphertext, each exactly once, in any order, unescaped
  and in canonical base64, and nothing else.\<close>

theorem envelope_accepts_exactly:
  assumes "base64_engine e"
  shows "envelope_parse_json e J s = Inr v \<longleftrightarrow>
    length s \<le> MAX_API_BODY_BYTES \<and> wf_envelope v \<and>
    (\<exists>kvs. json_from_slice J s = Some (JObject kvs) \<and>
       filter (\<lambda>(k, _). k = ascii ''envelope_version'') kvs = [(ascii ''envelope_version'', JNumber 1)] \<and>
       filter (\<lambda>(k, _). k = ascii ''nonce'') kvs = [(ascii ''nonce'', JString (b64_encode e (env_nonce v)) False)] \<and>
       filter (\<lambda>(k, _). k = ascii ''ciphertext'') kvs
         = [(ascii ''ciphertext'', JString (b64_encode e (env_ciphertext v)) False)] \<and>
       set (map fst kvs) \<subseteq> {ascii ''envelope_version'', ascii ''nonce'', ascii ''ciphertext''})"
proof -
  have str: "json_str j = Some t \<longleftrightarrow> j = JString t False" for j t
    by (auto simp: json_str_def split: json.splits bool.splits)
  have num: "json_uint 65535 j = Some 1 \<longleftrightarrow> j = JNumber 1" for j
    by (auto simp: json_uint_def split: json.splits if_splits)
  have rd: "envelope_wire_read j = Some w \<longleftrightarrow> (\<exists>kvs. j = JObject kvs \<and> visit_map None None None kvs = Some w)"
    for j w by (auto simp: envelope_wire_read_def split: json.splits)
  have "envelope_parse_json e J s = Inr v \<longleftrightarrow> length s \<le> MAX_API_BODY_BYTES \<and> wf_envelope v \<and>
      (\<exists>kvs. json_from_slice J s = Some (JObject kvs) \<and> visit_map None None None kvs = Some \<lparr>ew_version = 1,
        ew_nonce = b64_encode e (env_nonce v), ew_ciphertext = b64_encode e (env_ciphertext v)\<rparr>)"
    by (auto simp: envelope_parse_json_def parse_bounded_def bind_result_eq_Inr Option.bind_eq_Some_conv
        envelope_wire_decode_iff [OF assms] rd not_less)
  then show ?thesis by (simp add: visit_map_iff slot_def str num [simplified])
qed

theorem envelope_accepts_exactly_witness:
  "\<not> is_ok (envelope_parse_json url_safe_no_pad (sample_json JNull) (json_compact JNull))"
  using envelope_accepts_exactly [OF url_safe.base64_engine_axioms, of "sample_json JNull" "json_compact JNull"]
  by (auto simp: is_ok_iff sample_json_def)

text \<open>A valid live-record index survives the service's JSON, and whatever index a client accepts has
  at most 128 entries, in strictly ascending order of record identifier, with positive revisions.\<close>

theorem index_message_roundtrip:
  assumes "base64_engine e" and "\<forall>r \<in> set rs. wf_entry r" and "index_validate rs = Inr ()"
    and "json_faithful J (index_json e rs)"
  shows "parse_live_record_index e J (json_to_vec J (index_json e rs)) = Inr rs \<and>
    (parse_live_record_index e J s = Inr rs' \<longrightarrow> length rs' \<le> MAX_LIVE_RECORDS \<and>
      (\<forall>r \<in> set rs'. 0 < entry_revision r) \<and>
      sorted_wrt (\<lambda>a b. entry_record_id a < entry_record_id b) rs')"
proof -
  have "index_validate rs' = Inr ()" if "parse_live_record_index e J s = Inr rs'"
    using that index_read_valid
    by (auto simp: parse_live_record_index_def parse_bounded_def Option.bind_eq_Some_conv split: if_splits)
  then show ?thesis using index_json_roundtrip [OF assms] by (simp add: index_validate_Inr)
qed

definition sample_index :: LiveRecordIndex where
  "sample_index = [\<lparr>entry_record_id = replicate 16 1, entry_revision = 3\<rparr>,
     \<lparr>entry_record_id = replicate 16 2, entry_revision = 1\<rparr>]"

theorem index_message_roundtrip_witness:
  "parse_live_record_index url_safe_no_pad (sample_json (index_json url_safe_no_pad sample_index))
     (json_compact (index_json url_safe_no_pad sample_index)) = Inr sample_index"
proof -
  have "index_validate sample_index = Inr ()"
    by (simp add: index_validate_def sample_index_def limit_defs numeral_eq_Suc)
  moreover have "\<forall>r \<in> set sample_index. wf_entry r"
    by (simp add: sample_index_def wf_entry_def limit_defs)
  ultimately show ?thesis
    using index_message_roundtrip [OF url_safe.base64_engine_axioms _ _ sample_json_faithful, of sample_index]
    by (simp add: sample_json_def)
qed

end
