(* ===== verification/Worker_Model.thy ===== *)
theory Worker_Model
  imports Sync_Api
begin

text \<open>
  \<open>session-sync-worker/src/model.rs\<close>: the stored account with its two token hashes and its 80-byte
  encoding, the stored record, and the pure revision step \<open>put\<close>. Revisions are \<open>u64\<close> values kept
  within the range of \<open>i64\<close>, written as naturals with the bound spelled out.
\<close>

definition ENCODED_ACCOUNT_BYTES :: nat where [limit_defs]: "ENCODED_ACCOUNT_BYTES = 80"

datatype MutationOutcome = Created (outcome_revision: nat) | Updated (outcome_revision: nat)

datatype MutationError = MutationInvalidRequest | LiveQuotaExceeded | RevisionOverflow | InvalidStorage

record StoredAccount =
  sa_account_id :: bytes
  sa_publish_hash :: bytes
  sa_download_hash :: bytes

definition stored_account_validate :: "uuid_lib \<Rightarrow> StoredAccount \<Rightarrow> MutationError + unit" where
  "stored_account_validate u a =
     (if \<not> is_uuid_v7 u (sa_account_id a) \<or> sa_publish_hash a = sa_download_hash a
      then Inl InvalidStorage else Inr ())"

definition stored_account_new :: "uuid_lib \<Rightarrow> bytes \<Rightarrow> bytes \<Rightarrow> bytes \<Rightarrow> MutationError + StoredAccount" where
  "stored_account_new u aid publish download =
     (let account = \<lparr>sa_account_id = aid, sa_publish_hash = publish, sa_download_hash = download\<rparr>
      in bind_result (stored_account_validate u account) (\<lambda>_. Inr account))"

definition account_authenticate :: "StoredAccount \<Rightarrow> bytes \<Rightarrow> ApiKeyScope \<Rightarrow> bool" where
  "account_authenticate a supplied_hash scope \<longleftrightarrow>
     (case scope of Publish \<Rightarrow> sa_publish_hash a | Download \<Rightarrow> sa_download_hash a) = supplied_hash"

definition account_encode :: "StoredAccount \<Rightarrow> bytes" where
  "account_encode a = sa_account_id a @ sa_publish_hash a @ sa_download_hash a"

definition account_decode :: "uuid_lib \<Rightarrow> bytes \<Rightarrow> MutationError + StoredAccount" where
  "account_decode u encoded =
     (if length encoded \<noteq> ENCODED_ACCOUNT_BYTES then Inl InvalidStorage
      else stored_account_new u (take 16 encoded) (take 32 (drop 16 encoded)) (drop 48 encoded))"

record StoredRecord =
  sr_revision :: nat
  sr_nonce :: bytes
  sr_ciphertext :: bytes

definition record_validate :: "StoredRecord \<Rightarrow> MutationError + unit" where
  "record_validate r =
     (if sr_revision r = 0 \<or> sr_revision r > I64_MAX \<or> length (sr_ciphertext r) > MAX_CIPHERTEXT_BYTES
      then Inl InvalidStorage else Inr ())"

definition record_from_storage :: "nat \<Rightarrow> bytes \<Rightarrow> bytes \<Rightarrow> MutationError + StoredRecord" where
  "record_from_storage revision n c =
     (let r = \<lparr>sr_revision = revision, sr_nonce = n, sr_ciphertext = c\<rparr>
      in bind_result (record_validate r) (\<lambda>_. Inr r))"

definition into_envelope :: "StoredRecord \<Rightarrow> ApiEnvelope \<times> nat" where
  "into_envelope r =
     (\<lparr>envelope_version = 1, env_nonce = sr_nonce r, env_ciphertext = sr_ciphertext r\<rparr>, sr_revision r)"

definition next_revision :: "nat \<Rightarrow> MutationError + nat" where
  "next_revision revision =
     (if revision + 1 > U64_MAX then Inl RevisionOverflow
      else if revision + 1 \<le> I64_MAX then Inr (revision + 1) else Inl RevisionOverflow)"

definition put :: "StoredRecord option \<Rightarrow> ApiEnvelope \<Rightarrow> MutationError + StoredRecord \<times> MutationOutcome" where
  "put current v =
     (if envelope_version v \<noteq> 1 then Inl MutationInvalidRequest
      else bind_result (case current of
          Some r \<Rightarrow> bind_result (next_revision (sr_revision r)) (\<lambda>rev. Inr (rev, Updated rev))
        | None \<Rightarrow> Inr (1, Created 1)) (\<lambda>(rev, outcome).
        bind_result (record_from_storage rev (env_nonce v) (env_ciphertext v)) (\<lambda>r. Inr (r, outcome))))"

section \<open>Accounts\<close>

definition wf_account :: "uuid_lib \<Rightarrow> StoredAccount \<Rightarrow> bool" where
  "wf_account u a \<longleftrightarrow> length (sa_account_id a) = 16 \<and> is_uuid_v7 u (sa_account_id a)
     \<and> length (sa_publish_hash a) = 32 \<and> length (sa_download_hash a) = 32
     \<and> sa_publish_hash a \<noteq> sa_download_hash a"

lemma stored_account_new_Inr:
  "stored_account_new u i p d = Inr a \<longleftrightarrow> is_uuid_v7 u i \<and> p \<noteq> d
     \<and> a = \<lparr>sa_account_id = i, sa_publish_hash = p, sa_download_hash = d\<rparr>"
  by (auto simp: stored_account_new_def stored_account_validate_def Let_def)

lemma length_account_encode: "wf_account u a \<Longrightarrow> length (account_encode a) = 80"
  by (simp add: account_encode_def wf_account_def)

lemma account_decode_iff: "account_decode u s = Inr a \<longleftrightarrow> wf_account u a \<and> account_encode a = s"
proof
  assume d: "account_decode u s = Inr a"
  then have "length s = 80" by (auto simp: account_decode_def limit_defs split: if_splits)
  moreover have "take 16 s @ take 32 (drop 16 s) @ drop 48 s = s"
    using append_take_drop_id [of 16 s] append_take_drop_id [of 32 "drop 16 s"] by simp
  ultimately show "wf_account u a \<and> account_encode a = s"
    using d by (auto simp: account_decode_def stored_account_new_Inr wf_account_def account_encode_def limit_defs)
next
  assume "wf_account u a \<and> account_encode a = s"
  then show "account_decode u s = Inr a"
    by (cases a) (auto simp: account_decode_def stored_account_new_Inr wf_account_def account_encode_def limit_defs)
qed

interpretation account_codec: canonical_codec "printed account_encode" "account_decode u" "wf_account u" for u
  by unfold_locales (simp add: account_decode_iff)

lemma authenticate_scopes_disjoint:
  "wf_account u a \<Longrightarrow> account_authenticate a h Publish \<Longrightarrow> \<not> account_authenticate a h Download"
  by (auto simp: wf_account_def account_authenticate_def)

section \<open>Revisions\<close>

lemma next_revision_Inr: "next_revision r = Inr s \<longleftrightarrow> s = r + 1 \<and> s \<le> I64_MAX"
  by (auto simp: next_revision_def limit_defs)

lemma next_revision_Inl: "next_revision r = Inl e \<longleftrightarrow> e = RevisionOverflow \<and> I64_MAX \<le> r"
  by (auto simp: next_revision_def limit_defs)

lemma record_from_storage_Inr:
  "record_from_storage revision n c = Inr r \<longleftrightarrow> 0 < revision \<and> revision \<le> I64_MAX \<and> length c \<le> MAX_CIPHERTEXT_BYTES
     \<and> r = \<lparr>sr_revision = revision, sr_nonce = n, sr_ciphertext = c\<rparr>"
  by (auto simp: record_from_storage_def record_validate_def Let_def)

lemma put_create:
  "wf_envelope v \<Longrightarrow> put None v =
     Inr (\<lparr>sr_revision = 1, sr_nonce = env_nonce v, sr_ciphertext = env_ciphertext v\<rparr>, Created 1)"
  by (simp add: put_def wf_envelope_def record_from_storage_def record_validate_def Let_def limit_defs)

lemma put_update:
  "wf_envelope v \<Longrightarrow> put (Some r) v =
     (if sr_revision r + 1 \<le> I64_MAX
      then Inr (\<lparr>sr_revision = sr_revision r + 1, sr_nonce = env_nonce v, sr_ciphertext = env_ciphertext v\<rparr>,
        Updated (sr_revision r + 1))
      else Inl RevisionOverflow)"
  by (simp add: put_def wf_envelope_def record_from_storage_def record_validate_def next_revision_def Let_def limit_defs)

end
