(* ===== verification/Worker_Storage.thy ===== *)
theory Worker_Storage
  imports Worker_Model
begin

text \<open>
  \<open>session-sync-worker/src/storage.rs\<close>: the SQL storage of one account object. The database is the
  content of the two tables; every SQL statement of the source is a \<open>statement\<close> on it with the
  constraints, the quota trigger and the result rows of the schema. Statements can fail on their own
  account (a violated constraint, a missing table) or because the platform fails: \<open>faults\<close> lists what
  happens to the coming statements, where \<open>ExecFault\<close> fails before any effect and \<open>RowFault\<close> fails
  when the result is read, after the effect. Storage calls are synchronous, so each operation is one
  uninterrupted sequence of statements.
\<close>

datatype InitializeOutcome = InitializeCreated | AlreadyExists
datatype StoreError = Unavailable | Mutation MutationError
datatype SqlStorageValue = SqlNull | SqlInteger int | SqlString bytes | SqlBlob bytes

record database =
  schema_ready :: bool
  account_row :: "(bytes \<times> bytes \<times> bytes) option"
  record_rows :: "(bytes \<times> nat \<times> bytes \<times> bytes) list"

datatype fault = NoFault | ExecFault | RowFault

record storage =
  db :: database
  faults :: "fault list"

type_synonym cursor = "(unit + SqlStorageValue list) list"
type_synonym statement = "database \<Rightarrow> (unit + SqlStorageValue list list) \<times> database"
type_synonym 'a store = "storage \<Rightarrow> (StoreError + 'a) \<times> storage"

definition bind_store :: "'a store \<Rightarrow> ('a \<Rightarrow> 'b store) \<Rightarrow> 'b store" where
  "bind_store m f s = (case m s of (Inl e, s') \<Rightarrow> (Inl e, s') | (Inr a, s') \<Rightarrow> f a s')"

definition lift_store :: "StoreError + 'a \<Rightarrow> 'a store" where
  "lift_store r s = (r, s)"

definition next_fault :: "storage \<Rightarrow> fault" where
  "next_fault s = (case faults s of [] \<Rightarrow> NoFault | f # _ \<Rightarrow> f)"

definition exec_sql :: "statement \<Rightarrow> cursor store" where
  "exec_sql stmt s =
     (let s' = s\<lparr>faults := drop 1 (faults s)\<rparr> in
      if next_fault s = ExecFault then (Inl Unavailable, s')
      else case stmt (db s) of
        (Inl _, d) \<Rightarrow> (Inl Unavailable, s')
      | (Inr rows, d) \<Rightarrow>
          (Inr (if next_fault s = RowFault then [Inl ()] else map Inr rows), s'\<lparr>db := d\<rparr>))"

section \<open>The statements\<close>

text \<open>The schema is one call of three statements that do nothing when repeated, and \<open>schema_ready\<close> says that all of them took effect. A
  schema that is there in part is not told apart from none: an account row is inserted only after the whole call succeeded, without
  one every request is refused before it reads records, and the next initialisation completes the schema.\<close>

definition create_tables :: statement where
  "create_tables d = (Inr [], d\<lparr>schema_ready := True\<rparr>)"

definition insert_account :: "bytes \<Rightarrow> bytes \<Rightarrow> bytes \<Rightarrow> statement" where
  "insert_account i p q d =
     (if \<not> schema_ready d \<or> length i \<noteq> 16 \<or> length p \<noteq> 32 \<or> length q \<noteq> 32 \<or> p = q then (Inl (), d)
      else case account_row d of
        Some _ \<Rightarrow> (Inr [], d)
      | None \<Rightarrow> (Inr [[SqlString (dec_text 1)]], d\<lparr>account_row := Some (i, p, q)\<rparr>))"

definition select_table_name :: statement where
  "select_table_name d = (Inr (if schema_ready d then [[SqlString (ascii ''account_state'')]] else []), d)"

definition select_account :: statement where
  "select_account d =
     (if \<not> schema_ready d then (Inl (), d)
      else (Inr (case account_row d of None \<Rightarrow> []
        | Some (i, p, q) \<Rightarrow> [[SqlBlob i, SqlBlob p, SqlBlob q]]), d))"

definition select_index :: "nat \<Rightarrow> statement" where
  "select_index limit d =
     (if \<not> schema_ready d then (Inl (), d)
      else (Inr (map (\<lambda>(i, rev, _). [SqlBlob i, SqlString (dec_text rev)])
        (take limit (sort_key fst (record_rows d)))), d))"

definition select_record :: "bytes \<Rightarrow> statement" where
  "select_record rid d =
     (if \<not> schema_ready d then (Inl (), d)
      else (Inr (map (\<lambda>(_, rev, n, c). [SqlString (dec_text rev), SqlBlob n, SqlBlob c])
        (filter (\<lambda>r. fst r = rid) (record_rows d))), d))"

definition select_count :: statement where
  "select_count d =
     (if \<not> schema_ready d then (Inl (), d) else (Inr [[SqlString (dec_text (length (record_rows d)))]], d))"

definition record_checks :: "bytes \<Rightarrow> nat \<Rightarrow> bytes \<Rightarrow> bytes \<Rightarrow> bool" where
  "record_checks i revision n c \<longleftrightarrow> length i = 16 \<and> 0 < revision \<and> length n = 24 \<and> length c \<le> MAX_CIPHERTEXT_BYTES"

text \<open>The row is selected only when the account exists; the quota trigger runs before the insertion,
  then the checks and the primary key.\<close>

definition insert_record :: "bytes \<Rightarrow> bytes \<Rightarrow> bytes \<Rightarrow> statement" where
  "insert_record i n c d =
     (if \<not> schema_ready d then (Inl (), d)
      else if account_row d = None then (Inr [], d)
      else if length (record_rows d) \<ge> MAX_LIVE_RECORDS then (Inl (), d)
      else if \<not> record_checks i 1 n c \<or> List.member (map fst (record_rows d)) i then (Inl (), d)
      else (Inr [[SqlString (dec_text 1)]], d\<lparr>record_rows := (i, 1, n, c) # record_rows d\<rparr>))"

definition update_record :: "bytes \<Rightarrow> bytes \<Rightarrow> bytes \<Rightarrow> statement" where
  "update_record n c i d =
     (if \<not> schema_ready d then (Inl (), d)
      else let hit = (\<lambda>(k, rev, _). k = i \<and> rev < I64_MAX);
               rows = filter hit (record_rows d) in
        if list_ex (\<lambda>(k, rev, _). \<not> record_checks k (rev + 1) n c) rows then (Inl (), d)
        else (Inr (map (\<lambda>(_, rev, _). [SqlString (dec_text (rev + 1))]) rows),
          d\<lparr>record_rows := map (\<lambda>r. if hit r then (fst r, fst (snd r) + 1, n, c) else r) (record_rows d)\<rparr>))"

section \<open>Reading rows\<close>

definition sql_text :: "SqlStorageValue \<Rightarrow> StoreError + bytes" where
  "sql_text v = (case v of SqlString s \<Rightarrow> Inr s | _ \<Rightarrow> Inl Unavailable)"

definition variable_blob :: "SqlStorageValue \<Rightarrow> StoreError + bytes" where
  "variable_blob v = (case v of SqlBlob b \<Rightarrow> Inr b | _ \<Rightarrow> Inl Unavailable)"

definition fixed_blob :: "nat \<Rightarrow> SqlStorageValue \<Rightarrow> StoreError + bytes" where
  "fixed_blob n v = bind_result (variable_blob v) (\<lambda>b. if length b = n then Inr b else Inl Unavailable)"

definition revision_text :: "SqlStorageValue \<Rightarrow> StoreError + nat" where
  "revision_text v = bind_result (sql_text v) (\<lambda>s.
     case parse_uint U64_MAX s of
       None \<Rightarrow> Inl Unavailable
     | Some n \<Rightarrow> if n > 0 \<and> n \<le> I64_MAX then Inr n else Inl Unavailable)"

definition optional_row :: "cursor \<Rightarrow> StoreError + SqlStorageValue list option" where
  "optional_row cur = (case cur of
     [] \<Rightarrow> Inr None
   | Inl _ # _ \<Rightarrow> Inl Unavailable
   | [Inr row] \<Rightarrow> Inr (Some row)
   | Inr _ # _ # _ \<Rightarrow> Inl Unavailable)"

definition required_row :: "cursor \<Rightarrow> StoreError + SqlStorageValue list" where
  "required_row cur = bind_result (optional_row cur) (\<lambda>r. ok_or r Unavailable)"

definition single_value :: "SqlStorageValue list \<Rightarrow> StoreError + SqlStorageValue" where
  "single_value row = (case row of [v] \<Rightarrow> Inr v | _ \<Rightarrow> Inl Unavailable)"

definition single_text :: "SqlStorageValue list \<Rightarrow> StoreError + bytes" where
  "single_text row = bind_result (single_value row) sql_text"

definition parse_account :: "uuid_lib \<Rightarrow> SqlStorageValue list \<Rightarrow> StoreError + StoredAccount" where
  "parse_account u row = (case row of
     [i, p, q] \<Rightarrow> bind_result (fixed_blob 16 i) (\<lambda>i. bind_result (fixed_blob 32 p) (\<lambda>p.
       bind_result (fixed_blob 32 q) (\<lambda>q. map_err (\<lambda>_. Unavailable) (stored_account_new u i p q))))
   | _ \<Rightarrow> Inl Unavailable)"

definition parse_record :: "SqlStorageValue list \<Rightarrow> StoreError + StoredRecord" where
  "parse_record row = (case row of
     [t, n, c] \<Rightarrow> bind_result (revision_text t) (\<lambda>rev. bind_result (fixed_blob 24 n) (\<lambda>n.
       bind_result (variable_blob c) (\<lambda>c. map_err (\<lambda>_. Unavailable) (record_from_storage rev n c))))
   | _ \<Rightarrow> Inl Unavailable)"

definition optional_parsed :: "('a \<Rightarrow> StoreError + 'b) \<Rightarrow> 'a option \<Rightarrow> StoreError + 'b option" where
  "optional_parsed f x = (case x of None \<Rightarrow> Inr None | Some a \<Rightarrow> bind_result (f a) (\<lambda>b. Inr (Some b)))"

section \<open>The operations\<close>

definition initialize_schema :: "unit store" where
  "initialize_schema = bind_store (exec_sql create_tables) (\<lambda>_. lift_store (Inr ()))"

definition initialize :: "StoredAccount \<Rightarrow> InitializeOutcome store" where
  "initialize a =
     bind_store initialize_schema (\<lambda>_.
     bind_store (exec_sql (insert_account (sa_account_id a) (sa_publish_hash a) (sa_download_hash a))) (\<lambda>cur.
     bind_store (lift_store (optional_row cur)) (\<lambda>r. case r of
       Some row \<Rightarrow> bind_store (lift_store (single_text row)) (\<lambda>singleton.
         lift_store (if singleton = ascii ''1'' then Inr InitializeCreated else Inl Unavailable))
     | None \<Rightarrow> lift_store (Inr AlreadyExists))))"

definition schema_exists :: "bool store" where
  "schema_exists =
     bind_store (exec_sql select_table_name) (\<lambda>cur.
     bind_store (lift_store (optional_row cur)) (\<lambda>r. case r of
       Some row \<Rightarrow> bind_store (lift_store (single_text row)) (\<lambda>name.
         lift_store (Inr (name = ascii ''account_state'')))
     | None \<Rightarrow> lift_store (Inr False)))"

definition load_account :: "uuid_lib \<Rightarrow> StoredAccount option store" where
  "load_account u =
     bind_store schema_exists (\<lambda>ready. if \<not> ready then lift_store (Inr None)
     else bind_store (exec_sql select_account) (\<lambda>cur.
     bind_store (lift_store (optional_row cur)) (\<lambda>r. lift_store (optional_parsed (parse_account u) r))))"

fun index_rows :: "LiveRecordIndex \<Rightarrow> cursor \<Rightarrow> StoreError + LiveRecordIndex" where
  "index_rows records [] = Inr records"
| "index_rows records (row # rows) = (case row of
     Inr [i, t] \<Rightarrow> bind_result (fixed_blob 16 i) (\<lambda>rid. bind_result (revision_text t) (\<lambda>rev.
       let records' = records @ [\<lparr>entry_record_id = rid, entry_revision = rev\<rparr>] in
       if length records' > MAX_LIVE_RECORDS then Inl Unavailable else index_rows records' rows))
   | _ \<Rightarrow> Inl Unavailable)"

definition load_index :: "LiveRecordIndex store" where
  "load_index =
     bind_store (exec_sql (select_index (MAX_LIVE_RECORDS + 1))) (\<lambda>cur.
     bind_store (lift_store (index_rows [] cur)) (\<lambda>records.
     lift_store (map_err (\<lambda>_. Unavailable) (index_new records))))"

definition load_record :: "bytes \<Rightarrow> StoredRecord option store" where
  "load_record rid =
     bind_store (exec_sql (select_record rid)) (\<lambda>cur.
     bind_store (lift_store (optional_row cur)) (\<lambda>r. lift_store (optional_parsed parse_record r)))"

definition live_record_count :: "nat store" where
  "live_record_count =
     bind_store (exec_sql select_count) (\<lambda>cur.
     bind_store (lift_store (required_row cur)) (\<lambda>row.
     bind_store (lift_store (single_text row)) (\<lambda>t.
     lift_store (ok_or (parse_uint U64_MAX t) Unavailable))))"

text \<open>The part of \<open>put_record\<close> after its two reads: the quota test, the pure step and the write.\<close>

definition confirm_revision :: "nat \<Rightarrow> MutationOutcome \<Rightarrow> cursor \<Rightarrow> MutationOutcome store" where
  "confirm_revision expected outcome cur =
     bind_store (lift_store (required_row cur)) (\<lambda>row.
     bind_store (lift_store (bind_result (single_value row) revision_text)) (\<lambda>stored_revision.
     lift_store (if stored_revision \<noteq> expected then Inl Unavailable else Inr outcome)))"

definition put_checked :: "bytes \<Rightarrow> ApiEnvelope \<Rightarrow> StoredRecord option \<Rightarrow> nat \<Rightarrow> MutationOutcome store" where
  "put_checked rid v current live_records =
     (if live_records > MAX_LIVE_RECORDS then lift_store (Inl Unavailable)
      else if current = None \<and> live_records = MAX_LIVE_RECORDS then lift_store (Inl (Mutation LiveQuotaExceeded))
      else bind_store (lift_store (map_err Mutation (put current v))) (\<lambda>(r, outcome).
      bind_store (exec_sql (case outcome of
          Created _ \<Rightarrow> insert_record rid (sr_nonce r) (sr_ciphertext r)
        | Updated _ \<Rightarrow> update_record (sr_nonce r) (sr_ciphertext r) rid))
        (confirm_revision (sr_revision r) outcome)))"

definition put_record :: "bytes \<Rightarrow> ApiEnvelope \<Rightarrow> MutationOutcome store" where
  "put_record rid v =
     bind_store (load_record rid) (\<lambda>current.
     bind_store live_record_count (\<lambda>live_records.
       put_checked rid v current live_records))"

section \<open>Sequencing\<close>

lemma bind_lift [simp]:
  "bind_store (lift_store (Inr a)) f = f a" "bind_store (lift_store (Inl e)) f = lift_store (Inl e)"
  by (auto simp: bind_store_def lift_store_def fun_eq_iff)

lemma bind_store_Inr [simp]: "m s = (Inr a, s') \<Longrightarrow> bind_store m f s = f a s'"
  by (simp add: bind_store_def)

lemma bind_store_Inl [simp]: "m s = (Inl e, s') \<Longrightarrow> bind_store m f s = (Inl e, s')"
  by (simp add: bind_store_def)

lemma lift_store_apply [simp]: "fst (lift_store r s) = r" "snd (lift_store r s) = s"
  by (simp_all add: lift_store_def)

text \<open>\<open>reads m s x\<close>: the operation leaves the tables alone and returns \<open>x\<close>, or reports the platform
  failure; without a pending fault it returns \<open>x\<close> and leaves the whole storage alone.\<close>

definition reads :: "'a store \<Rightarrow> storage \<Rightarrow> 'a \<Rightarrow> bool" where
  "reads m s x \<longleftrightarrow> db (snd (m s)) = db s \<and> (fst (m s) = Inr x \<or> fst (m s) = Inl Unavailable)
     \<and> (faults s = [] \<longrightarrow> m s = (Inr x, s))"

lemma readsE:
  assumes "reads m s x"
  obtains (down) s' where "m s = (Inl Unavailable, s')" and "db s' = db s" and "faults s \<noteq> []"
  | (up) s' where "m s = (Inr x, s')" and "db s' = db s" and "faults s = [] \<Longrightarrow> s' = s"
  using assms by (cases "m s") (auto simp: reads_def)

lemma reads_lift [simp]: "reads (lift_store (Inr x)) s y \<longleftrightarrow> x = y"
  by (auto simp: reads_def lift_store_def)

lemma reads_bind:
  assumes m: "reads m s x" and f: "\<And>s'. db s' = db s \<Longrightarrow> reads (f x) s' y"
  shows "reads (bind_store m f) s y"
  using m
proof (cases rule: readsE)
  case (down s')
  then show ?thesis by (simp add: reads_def)
next
  case (up s')
  then show ?thesis using f [OF up(2)] f [OF refl] by (auto simp: reads_def)
qed

lemma next_fault_Nil: "faults s = [] \<Longrightarrow> next_fault s = NoFault"
  by (simp add: next_fault_def)

lemma exec_sql_Inr:
  "stmt (db s) = (Inr rows, d) \<Longrightarrow> next_fault s \<noteq> ExecFault \<Longrightarrow>
     exec_sql stmt s = (Inr (if next_fault s = RowFault then [Inl ()] else map Inr rows),
       s\<lparr>faults := drop 1 (faults s), db := d\<rparr>)"
  by (simp add: exec_sql_def)

lemma reads_exec:
  assumes stmt: "stmt (db s) = (Inr rows, db s)" and row_fault: "k [Inl ()] = lift_store (Inl Unavailable)"
    and k: "\<And>s'. db s' = db s \<Longrightarrow> reads (k (map Inr rows)) s' x"
  shows "reads (bind_store (exec_sql stmt) k) s x"
proof -
  let ?s = "s\<lparr>faults := drop 1 (faults s), db := db s\<rparr>"
  have same: "faults s = [] \<Longrightarrow> ?s = s" by (cases s) simp
  consider "next_fault s = ExecFault" | "next_fault s = RowFault" | "next_fault s = NoFault"
    using fault.exhaust by blast
  then show ?thesis
  proof cases
    case 1
    then have "exec_sql stmt s = (Inl Unavailable, s\<lparr>faults := drop 1 (faults s)\<rparr>)" by (simp add: exec_sql_def)
    then show ?thesis using 1 by (auto simp: reads_def next_fault_def split: list.splits)
  next
    case 2
    then have "exec_sql stmt s = (Inr [Inl ()], ?s)" using exec_sql_Inr [of stmt s, OF stmt] by simp
    then show ?thesis using 2 by (auto simp: reads_def row_fault next_fault_def split: list.splits)
  next
    case 3
    then have e: "exec_sql stmt s = (Inr (map Inr rows), ?s)" using exec_sql_Inr [of stmt s, OF stmt] by simp
    have "reads (k (map Inr rows)) ?s x" by (rule k) simp
    then show ?thesis using e same by (auto simp: reads_def)
  qed
qed

section \<open>The invariant of the tables\<close>

definition wf_db :: "uuid_lib \<Rightarrow> database \<Rightarrow> bool" where
  "wf_db u d \<longleftrightarrow>
     (\<not> schema_ready d \<longrightarrow> account_row d = None)
     \<and> (case account_row d of None \<Rightarrow> record_rows d = []
        | Some (i, p, q) \<Rightarrow> length i = 16 \<and> length p = 32 \<and> length q = 32 \<and> p \<noteq> q \<and> is_uuid_v7 u i)
     \<and> distinct (map fst (record_rows d)) \<and> length (record_rows d) \<le> MAX_LIVE_RECORDS
     \<and> (\<forall>(i, r, n, c) \<in> set (record_rows d). record_checks i r n c \<and> r \<le> I64_MAX)"

definition empty_db :: database where
  "empty_db = \<lparr>schema_ready = False, account_row = None, record_rows = []\<rparr>"

lemma wf_empty_db: "wf_db u empty_db"
  by (simp add: wf_db_def empty_db_def)

definition account_of :: "database \<Rightarrow> StoredAccount option" where
  "account_of d = map_option (\<lambda>(i, p, q). \<lparr>sa_account_id = i, sa_publish_hash = p, sa_download_hash = q\<rparr>) (account_row d)"

definition contents :: "database \<Rightarrow> bytes \<Rightarrow> (nat \<times> bytes \<times> bytes) option" where
  "contents d = map_of (record_rows d)"

definition record_of :: "nat \<times> bytes \<times> bytes \<Rightarrow> StoredRecord" where
  "record_of x = (case x of (r, n, c) \<Rightarrow> \<lparr>sr_revision = r, sr_nonce = n, sr_ciphertext = c\<rparr>)"

lemma filter_key:
  "distinct (map fst xs) \<Longrightarrow>
     filter (\<lambda>r. fst r = k) xs = (case map_of xs k of None \<Rightarrow> [] | Some v \<Rightarrow> [(k, v)])"
proof (induction xs)
  case Nil
  then show ?case by simp
next
  case (Cons x xs)
  then show ?case
    by (cases x) (force simp: filter_empty_conv split: option.splits dest: map_of_SomeD)
qed

lemma wf_db_record:
  assumes "wf_db u d" and "contents d k = Some (r, n, c)"
  shows "length k = 16" and "0 < r" and "r \<le> I64_MAX" and "length n = 24" and "length c \<le> MAX_CIPHERTEXT_BYTES"
  using assms by (auto simp: wf_db_def contents_def record_checks_def dest!: map_of_SomeD)

lemma revision_text_dec [simp]:
  "0 < r \<Longrightarrow> r \<le> I64_MAX \<Longrightarrow> revision_text (SqlString (dec_text r)) = Inr r"
  by (simp add: revision_text_def sql_text_def parse_uint_dec_text limit_defs)

lemma row_simps [simp]:
  "optional_row [] = Inr None" "optional_row [Inl e] = Inl Unavailable" "optional_row [Inr row] = Inr (Some row)"
  "required_row [] = Inl Unavailable" "required_row [Inl e] = Inl Unavailable" "required_row [Inr row] = Inr row"
  "single_text [SqlString t] = Inr t" "single_value [v] = Inr v"
  by (simp_all add: optional_row_def required_row_def single_text_def single_value_def sql_text_def)

section \<open>Reading operations\<close>

lemma reads_schema_exists: "reads schema_exists s (schema_ready (db s))"
  unfolding schema_exists_def
  by (rule reads_exec [where rows = "if schema_ready (db s) then [[SqlString (ascii ''account_state'')]] else []"])
    (auto simp: select_table_name_def)

lemma parse_account_row:
  assumes "wf_db u d" and "account_row d = Some (i, p, q)"
  shows "parse_account u [SqlBlob i, SqlBlob p, SqlBlob q]
    = Inr \<lparr>sa_account_id = i, sa_publish_hash = p, sa_download_hash = q\<rparr>"
  using assms by (simp add: wf_db_def parse_account_def fixed_blob_def variable_blob_def
      stored_account_new_def stored_account_validate_def Let_def)

lemma reads_load_account:
  assumes wf: "wf_db u (db s)"
  shows "reads (load_account u) s (account_of (db s))"
proof -
  have acc: "reads (bind_store (exec_sql select_account) (\<lambda>cur. bind_store (lift_store (optional_row cur))
      (\<lambda>r. lift_store (optional_parsed (parse_account u) r)))) s' (account_of (db s'))"
    if "db s' = db s" "schema_ready (db s)" for s'
    using that wf parse_account_row [OF wf]
    by (intro reads_exec [where rows = "case account_row (db s) of None \<Rightarrow> []
          | Some (i, p, q) \<Rightarrow> [[SqlBlob i, SqlBlob p, SqlBlob q]]"])
      (auto simp: select_account_def optional_parsed_def account_of_def split: option.splits)
  have "account_of (db s) = None" if "\<not> schema_ready (db s)"
    using that wf by (simp add: wf_db_def account_of_def)
  then show ?thesis
    unfolding load_account_def using acc reads_schema_exists
    by (intro reads_bind [where x = "schema_ready (db s)"]) (auto split: if_splits)
qed

lemma parse_record_row:
  assumes "wf_db u d" and "contents d k = Some (r, n, c)"
  shows "parse_record [SqlString (dec_text r), SqlBlob n, SqlBlob c] = Inr (record_of (r, n, c))"
  using wf_db_record [OF assms]
  by (simp add: parse_record_def fixed_blob_def variable_blob_def record_from_storage_def record_validate_def
      record_of_def)

lemma reads_load_record:
  assumes wf: "wf_db u (db s)" and "schema_ready (db s)"
  shows "reads (load_record k) s (map_option record_of (contents (db s) k))"
proof -
  have d: "distinct (map fst (record_rows (db s)))" using wf by (simp add: wf_db_def)
  show ?thesis
    unfolding load_record_def
    using assms parse_record_row [OF wf, of k] filter_key [OF d, of k]
    by (intro reads_exec [where rows = "case contents (db s) k of None \<Rightarrow> []
          | Some (r, n, c) \<Rightarrow> [[SqlString (dec_text r), SqlBlob n, SqlBlob c]]"])
      (auto simp: select_record_def optional_parsed_def contents_def split: option.splits)
qed

lemma reads_live_record_count:
  assumes "wf_db u (db s)" and "schema_ready (db s)"
  shows "reads live_record_count s (length (record_rows (db s)))"
proof -
  have "parse_uint U64_MAX (dec_text (length (record_rows (db s)))) = Some (length (record_rows (db s)))"
    using assms(1) by (intro parse_uint_dec_text) (simp add: wf_db_def limit_defs)
  then show ?thesis
    unfolding live_record_count_def using assms(2)
    by (intro reads_exec [where rows = "[[SqlString (dec_text (length (record_rows (db s))))]]"])
      (auto simp: select_count_def)
qed

definition index_of :: "database \<Rightarrow> LiveRecordIndex" where
  "index_of d = map (\<lambda>(i, r, _). \<lparr>entry_record_id = i, entry_revision = r\<rparr>) (sort_key fst (record_rows d))"

lemma index_rows_entries:
  assumes "\<forall>(i, r, n, c) \<in> set xs. length i = 16 \<and> 0 < r \<and> r \<le> I64_MAX" and "length acc + length xs \<le> MAX_LIVE_RECORDS"
  shows "index_rows acc (map Inr (map (\<lambda>(i, r, _). [SqlBlob i, SqlString (dec_text r)]) xs))
    = Inr (acc @ map (\<lambda>(i, r, _). \<lparr>entry_record_id = i, entry_revision = r\<rparr>) xs)"
  using assms
proof (induction xs arbitrary: acc)
  case Nil
  then show ?case by simp
next
  case (Cons x xs)
  then show ?case
    by (cases x) (simp add: fixed_blob_def variable_blob_def)
qed

lemma index_of_valid:
  assumes "wf_db u d"
  shows "index_validate (index_of d) = Inr ()" and "\<forall>r \<in> set (index_of d). wf_entry r"
proof -
  let ?k = "map fst (sort_key fst (record_rows d))"
  have rows: "\<forall>(i, r, n, c) \<in> set (record_rows d). length i = 16 \<and> 0 < r \<and> r \<le> I64_MAX"
    using assms by (auto simp: wf_db_def record_checks_def)
  have "distinct (map fst (record_rows d))" using assms by (simp add: wf_db_def)
  then have "distinct ?k" by (simp add: distinct_map)
  then have "sorted_wrt (<) ?k" by (simp add: strict_sorted_iff sorted_sort_key)
  moreover have "map entry_record_id (index_of d) = ?k"
    by (simp add: index_of_def case_prod_unfold comp_def)
  ultimately have "sorted_wrt (\<lambda>a b. entry_record_id a < entry_record_id b) (index_of d)"
    by (metis sorted_wrt_map)
  moreover have "length (index_of d) \<le> MAX_LIVE_RECORDS" using assms by (simp add: index_of_def wf_db_def)
  ultimately show "index_validate (index_of d) = Inr ()"
    using rows by (auto simp: index_validate_Inr index_of_def)
  show "\<forall>r \<in> set (index_of d). wf_entry r"
    using rows by (auto simp: index_of_def wf_entry_def limit_defs)
qed

lemma reads_load_index:
  assumes wf: "wf_db u (db s)" and "schema_ready (db s)"
  shows "reads load_index s (index_of (db s))"
proof -
  let ?xs = "sort_key fst (record_rows (db s))"
  have len: "length (record_rows (db s)) \<le> MAX_LIVE_RECORDS" using wf by (simp add: wf_db_def)
  then have all: "take (MAX_LIVE_RECORDS + 1) ?xs = ?xs" by simp
  have "\<forall>(i, r, n, c) \<in> set ?xs. length i = 16 \<and> 0 < r \<and> r \<le> I64_MAX"
    using wf by (auto simp: wf_db_def record_checks_def)
  then have rows: "index_rows [] (map Inr (map (\<lambda>(i, r, _). [SqlBlob i, SqlString (dec_text r)]) ?xs))
      = Inr (index_of (db s))"
    using index_rows_entries [of ?xs "[]"] len by (simp add: index_of_def)
  have "index_new (index_of (db s)) = Inr (index_of (db s))"
    using index_of_valid(1) [OF wf] by (simp add: index_new_def)
  then show ?thesis
    unfolding load_index_def using rows all assms(2)
    by (intro reads_exec [where rows = "map (\<lambda>(i, r, _). [SqlBlob i, SqlString (dec_text r)]) ?xs"])
      (auto simp: select_index_def)
qed

section \<open>Publishing a record\<close>

text \<open>The abstract step on the map from record identifiers to versioned envelopes.\<close>

definition spec_put :: "bytes \<Rightarrow> ApiEnvelope \<Rightarrow> (bytes \<rightharpoonup> nat \<times> bytes \<times> bytes)
  \<Rightarrow> (StoreError + MutationOutcome) \<times> (bytes \<rightharpoonup> nat \<times> bytes \<times> bytes)" where
  "spec_put rid v m = (case m rid of
     Some (r, _, _) \<Rightarrow>
       if r < I64_MAX then (Inr (Updated (r + 1)), m(rid \<mapsto> (r + 1, env_nonce v, env_ciphertext v)))
       else (Inl (Mutation RevisionOverflow), m)
   | None \<Rightarrow>
       if card (dom m) \<ge> MAX_LIVE_RECORDS then (Inl (Mutation LiveQuotaExceeded), m)
       else (Inr (Created 1), m(rid \<mapsto> (1, env_nonce v, env_ciphertext v))))"

text \<open>The change of the tables by one successful statement.\<close>

definition written :: "bytes \<Rightarrow> ApiEnvelope \<Rightarrow> database \<Rightarrow> database" where
  "written rid v d = (case contents d rid of
     None \<Rightarrow> d\<lparr>record_rows := (rid, 1, env_nonce v, env_ciphertext v) # record_rows d\<rparr>
   | Some _ \<Rightarrow> d\<lparr>record_rows := map (\<lambda>r. if fst r = rid \<and> fst (snd r) < I64_MAX
       then (fst r, fst (snd r) + 1, env_nonce v, env_ciphertext v) else r) (record_rows d)\<rparr>)"

lemma card_contents: "distinct (map fst (record_rows d)) \<Longrightarrow> card (dom (contents d)) = length (record_rows d)"
  by (simp add: contents_def dom_map_of_conv_image_fst distinct_card flip: set_map)

lemma map_of_update_rows:
  "distinct (map fst xs) \<Longrightarrow> map_of xs k = Some (r, n, c) \<Longrightarrow> r < I64_MAX \<Longrightarrow>
     map_of (map (\<lambda>x. if fst x = k \<and> fst (snd x) < I64_MAX then (fst x, fst (snd x) + 1, n', c') else x) xs)
       = (map_of xs)(k \<mapsto> (r + 1, n', c'))"
proof (induction xs)
  case Nil
  then show ?case by simp
next
  case (Cons x xs)
  have "map (\<lambda>x. if fst x = k \<and> fst (snd x) < I64_MAX then (fst x, fst (snd x) + 1, n', c') else x) xs = xs"
    if "k \<notin> fst ` set xs" using that by (intro map_idI) auto
  then show ?case using Cons by (cases x) (auto simp: fun_eq_iff)
qed

lemma contents_written:
  assumes "wf_db u d" and "fst (spec_put rid v (contents d)) = Inr out"
  shows "contents (written rid v d) = snd (spec_put rid v (contents d))"
proof (cases "contents d rid")
  case None
  then show ?thesis using assms(2) by (auto simp: written_def spec_put_def contents_def split: if_splits)
next
  case (Some x)
  have "distinct (map fst (record_rows d))" using assms(1) by (simp add: wf_db_def)
  then show ?thesis
    using assms(2) Some map_of_update_rows [of "record_rows d" rid]
    by (cases x) (auto simp: written_def spec_put_def contents_def split: if_splits)
qed

lemma wf_written:
  assumes wf: "wf_db u d" and "account_row d \<noteq> None" and "length rid = 16" and v: "wf_envelope v"
    and sp: "fst (spec_put rid v (contents d)) = Inr out"
  shows "wf_db u (written rid v d)"
proof (cases "contents d rid")
  case None
  have "card (dom (contents d)) = length (record_rows d)" using wf by (simp add: card_contents wf_db_def)
  then have "length (record_rows d) < MAX_LIVE_RECORDS"
    using sp None by (auto simp: spec_put_def split: if_splits)
  moreover have "rid \<notin> fst ` set (record_rows d)" using None by (simp add: contents_def map_of_eq_None_iff)
  ultimately show ?thesis
    using assms None by (auto simp: wf_db_def written_def record_checks_def wf_envelope_def limit_defs
        split: option.splits)
next
  case (Some x)
  let ?f = "\<lambda>r. if fst r = rid \<and> fst (snd r) < I64_MAX
       then (fst r, fst (snd r) + 1, env_nonce v, env_ciphertext v) else r"
  have "map fst (map ?f (record_rows d)) = map fst (record_rows d)" by simp
  then show ?thesis
    using assms Some
    by (auto simp: wf_db_def written_def record_checks_def wf_envelope_def NONCE_BYTES_def comp_def
        simp del: map_map split: option.splits)
qed

lemma insert_written:
  assumes "schema_ready d" "account_row d \<noteq> None" "length (record_rows d) < MAX_LIVE_RECORDS"
    "length rid = 16" "wf_envelope v" "contents d rid = None"
  shows "insert_record rid (env_nonce v) (env_ciphertext v) d
    = (Inr [[SqlString (dec_text 1)]], written rid v d)"
proof -
  have "rid \<notin> fst ` set (record_rows d)" using assms(6) by (simp add: contents_def map_of_eq_None_iff)
  then show ?thesis
    using assms by (auto simp: insert_record_def record_checks_def wf_envelope_def NONCE_BYTES_def written_def)
qed

lemma update_written:
  assumes wf: "wf_db u d" "schema_ready d" "wf_envelope v" and c: "contents d rid = Some (r, n, c)" "r < I64_MAX"
  shows "update_record (env_nonce v) (env_ciphertext v) rid d
    = (Inr [[SqlString (dec_text (r + 1))]], written rid v d)"
proof -
  have d: "distinct (map fst (record_rows d))" using wf(1) by (simp add: wf_db_def)
  have "filter (\<lambda>x. fst x = rid) (record_rows d) = [(rid, r, n, c)]"
    using filter_key [OF d, of rid] c(1) by (simp add: contents_def)
  then have hit: "filter (\<lambda>(k, q, _). k = rid \<and> q < I64_MAX) (record_rows d) = [(rid, r, n, c)]"
    using c(2) filter_filter [of "\<lambda>(k, q, _). q < I64_MAX" "\<lambda>x. fst x = rid" "record_rows d"]
    by (simp add: case_prod_unfold conj_commute)
  have "length rid = 16" using wf_db_record(1) [OF wf(1) c(1)] .
  then show ?thesis
    using wf(2,3) c(1) hit by (simp add: update_record_def Let_def record_checks_def wf_envelope_def
        NONCE_BYTES_def written_def case_prod_unfold)
qed

lemma exec_write:
  fixes s :: storage and d' :: database and out :: MutationOutcome
  assumes stmt: "stmt (db s) = (Inr [[SqlString (dec_text r)]], d')" and r: "0 < r" "r \<le> I64_MAX"
  defines "m \<equiv> bind_store (exec_sql stmt) (confirm_revision r out)"
  obtains (ok) s' where "m s = (Inr out, s')" and "db s' = d'" and "faults s = [] \<Longrightarrow> faults s' = []"
  | (fail) s' where "m s = (Inl Unavailable, s')" and "faults s \<noteq> []" and "db s' = db s \<or> db s' = d'"
proof -
  let ?s = "s\<lparr>faults := drop 1 (faults s), db := d'\<rparr>"
  consider "next_fault s = ExecFault" | "next_fault s = RowFault" | "next_fault s = NoFault"
    using fault.exhaust by blast
  then show thesis
  proof cases
    case 1
    then have "exec_sql stmt s = (Inl Unavailable, s\<lparr>faults := drop 1 (faults s)\<rparr>)" by (simp add: exec_sql_def)
    then have "m s = (Inl Unavailable, s\<lparr>faults := drop 1 (faults s)\<rparr>)" by (simp add: m_def)
    then show thesis using 1 by (intro fail) (auto simp: next_fault_def split: list.splits)
  next
    case 2
    then have "exec_sql stmt s = (Inr [Inl ()], ?s)" using exec_sql_Inr [of stmt s, OF stmt] by simp
    then have "m s = (Inl Unavailable, ?s)" by (simp add: m_def confirm_revision_def) (simp add: lift_store_def)
    then show thesis using 2 by (intro fail) (auto simp: next_fault_def split: list.splits)
  next
    case 3
    then have "exec_sql stmt s = (Inr [Inr [SqlString (dec_text r)]], ?s)"
      using exec_sql_Inr [of stmt s, OF stmt] by simp
    then have "m s = (Inr out, ?s)" using r by (simp add: m_def confirm_revision_def) (simp add: lift_store_def)
    then show thesis by (rule ok) auto
  qed
qed

lemma spec_put_values:
  "contents d rid = Some (r, n, c) \<Longrightarrow> r < I64_MAX \<Longrightarrow> fst (spec_put rid v (contents d)) = Inr (Updated (r + 1))"
  "contents d rid = Some (r, n, c) \<Longrightarrow> \<not> r < I64_MAX \<Longrightarrow>
     fst (spec_put rid v (contents d)) = Inl (Mutation RevisionOverflow)"
  "contents d rid = None \<Longrightarrow> distinct (map fst (record_rows d)) \<Longrightarrow> length (record_rows d) < MAX_LIVE_RECORDS \<Longrightarrow>
     fst (spec_put rid v (contents d)) = Inr (Created 1)"
  "contents d rid = None \<Longrightarrow> distinct (map fst (record_rows d)) \<Longrightarrow> \<not> length (record_rows d) < MAX_LIVE_RECORDS \<Longrightarrow>
     fst (spec_put rid v (contents d)) = Inl (Mutation LiveQuotaExceeded)"
  by (simp_all add: spec_put_def card_contents)

text \<open>\<open>put_result s d rid v m\<close>: run in \<open>s\<close>, the operation does the abstract step on the tables \<open>d\<close>
  and reports it, or it reports a platform failure and did either nothing or the whole step.\<close>

definition put_result :: "storage \<Rightarrow> bytes \<Rightarrow> ApiEnvelope \<Rightarrow> MutationOutcome store \<Rightarrow> bool" where
  "put_result s rid v m \<longleftrightarrow> (let sp = fst (spec_put rid v (contents (db s))) in
     (\<exists>s'. m s = (sp, s') \<and> db s' = (if is_ok sp then written rid v (db s) else db s)
        \<and> (faults s = [] \<longrightarrow> faults s' = []))
     \<or> (\<exists>s'. m s = (Inl Unavailable, s') \<and> faults s \<noteq> []
        \<and> (db s' = db s \<or> is_ok sp \<and> db s' = written rid v (db s))))"

lemma put_checked_create:
  assumes wf: "wf_db u (db s)" and acc: "account_row (db s) \<noteq> None" and rid: "length rid = 16"
    and v: "wf_envelope v" and c: "contents (db s) rid = None"
  shows "put_result s rid v (put_checked rid v None (length (record_rows (db s))))"
proof -
  have ready: "schema_ready (db s)" using wf acc by (auto simp: wf_db_def)
  have dist: "distinct (map fst (record_rows (db s)))" and len: "length (record_rows (db s)) \<le> MAX_LIVE_RECORDS"
    using wf by (simp_all add: wf_db_def)
  show ?thesis
  proof (cases "length (record_rows (db s)) < MAX_LIVE_RECORDS")
    case True
    note sp = spec_put_values(3) [OF c dist True, of v]
    have "0 < (1 :: nat)" "(1 :: nat) \<le> I64_MAX" by (simp_all add: limit_defs)
    from exec_write [where s = s and stmt = "insert_record rid (env_nonce v) (env_ciphertext v)" and out = "Created 1",
        OF insert_written [OF ready acc True rid v c] this]
    show ?thesis
    proof cases
      case (1 s')
      then show ?thesis using True sp v by (simp add: put_result_def put_checked_def put_create Let_def)
    next
      case (2 s')
      then show ?thesis using True sp v by (simp add: put_result_def put_checked_def put_create Let_def)
    qed
  next
    case False
    then show ?thesis
      using len spec_put_values(4) [OF c dist False, of v]
      by (simp add: put_result_def put_checked_def lift_store_def Let_def)
  qed
qed

lemma put_checked_update:
  assumes wf: "wf_db u (db s)" and ready: "schema_ready (db s)" and v: "wf_envelope v"
    and c: "contents (db s) rid = Some (r, n, c)"
  shows "put_result s rid v (put_checked rid v (Some (record_of (r, n, c))) (length (record_rows (db s))))"
proof -
  have len: "length (record_rows (db s)) \<le> MAX_LIVE_RECORDS" using wf by (simp add: wf_db_def)
  have upd: "put (Some (record_of (r, n, c))) v = (if r + 1 \<le> I64_MAX
      then Inr (\<lparr>sr_revision = r + 1, sr_nonce = env_nonce v, sr_ciphertext = env_ciphertext v\<rparr>, Updated (r + 1))
      else Inl RevisionOverflow)"
    using put_update [OF v, of "record_of (r, n, c)"] by (simp add: record_of_def)
  show ?thesis
  proof (cases "r < I64_MAX")
    case True
    note sp = spec_put_values(1) [OF c True, of v]
    have "0 < r + 1" "r + 1 \<le> I64_MAX" using True by simp_all
    from exec_write [where s = s and stmt = "update_record (env_nonce v) (env_ciphertext v) rid" and out = "Updated (r + 1)",
        OF update_written [OF wf ready v c True] this]
    show ?thesis
    proof cases
      case (1 s')
      then show ?thesis using True sp len upd by (simp add: put_result_def put_checked_def Let_def)
    next
      case (2 s')
      then show ?thesis using True sp len upd by (simp add: put_result_def put_checked_def Let_def)
    qed
  next
    case False
    then show ?thesis
      using len spec_put_values(2) [OF c False, of v] upd
      by (simp add: put_result_def put_checked_def lift_store_def Let_def)
  qed
qed

lemma put_record_result:
  assumes wf: "wf_db u (db s)" and acc: "account_row (db s) \<noteq> None" and rid: "length rid = 16"
    and v: "wf_envelope v"
  shows "put_result s rid v (put_record rid v)"
proof -
  have ready: "schema_ready (db s)" using wf acc by (auto simp: wf_db_def)
  let ?cur = "map_option record_of (contents (db s) rid)" and ?n = "length (record_rows (db s))"
  from reads_load_record [OF wf ready, of rid] show ?thesis
  proof (cases rule: readsE)
    case (down s1)
    then show ?thesis by (simp add: put_result_def put_record_def Let_def)
  next
    case (up s1)
    note s1 = up
    have "reads live_record_count s1 ?n"
      using reads_live_record_count [of u s1] wf ready s1(2) by simp
    then show ?thesis
    proof (cases rule: readsE)
      case (down s2)
      then show ?thesis using s1 by (auto simp: put_result_def put_record_def Let_def)
    next
      case (up s2)
      have d2: "db s2 = db s" using up s1 by simp
      have "put_result s2 rid v (put_checked rid v ?cur ?n)"
      proof (cases "contents (db s) rid")
        case None
        then show ?thesis using put_checked_create [of u s2 rid v] wf acc rid v d2 by simp
      next
        case (Some x)
        then show ?thesis using put_checked_update [of u s2 v rid] wf ready v d2 by (cases x) auto
      qed
      moreover have "put_record rid v s = put_checked rid v ?cur ?n s2"
        using s1 up by (simp add: put_record_def)
      moreover have "faults s = [] \<Longrightarrow> faults s2 = []" "faults s2 \<noteq> [] \<Longrightarrow> faults s \<noteq> []"
        using up s1 by auto
      ultimately show ?thesis using d2 by (auto simp: put_result_def Let_def)
    qed
  qed
qed

section \<open>The contract of a versioned store\<close>

text \<open>What a client relies on when it publishes: an operation keeps the state well formed and bounded,
  and either does nothing or replaces one entry by the new payload with the next revision.\<close>

locale versioned_store =
  fixes put_op :: "'k \<Rightarrow> 'v \<Rightarrow> 's \<Rightarrow> 'r \<times> 's"
    and view :: "'s \<Rightarrow> 'k \<Rightarrow> (nat \<times> 'x) option"
    and payload :: "'v \<Rightarrow> 'x"
    and ok_state :: "'s \<Rightarrow> bool"
    and ok_key :: "'k \<Rightarrow> bool"
    and ok_value :: "'v \<Rightarrow> bool"
    and limit :: nat
  assumes keeps: "ok_state s \<Longrightarrow> ok_key k \<Longrightarrow> ok_value v \<Longrightarrow> ok_state (snd (put_op k v s))"
    and effect: "ok_state s \<Longrightarrow> ok_key k \<Longrightarrow> ok_value v \<Longrightarrow>
      view (snd (put_op k v s)) = view s \<or>
      view (snd (put_op k v s)) =
        (view s)(k \<mapsto> (Suc (case view s k of None \<Rightarrow> 0 | Some (r, _) \<Rightarrow> r), payload v))"
    and bounded: "ok_state s \<Longrightarrow> card (dom (view s)) \<le> limit"
begin

abbreviation run :: "('k \<times> 'v) list \<Rightarrow> 's \<Rightarrow> 's" where
  "run ops s \<equiv> fold (\<lambda>(k, v) s. snd (put_op k v s)) ops s"

abbreviation ok_ops :: "('k \<times> 'v) list \<Rightarrow> bool" where
  "ok_ops ops \<equiv> \<forall>(k, v) \<in> set ops. ok_key k \<and> ok_value v"

lemma run_keeps: "ok_state s \<Longrightarrow> ok_ops ops \<Longrightarrow> ok_state (run ops s)"
  by (induction ops arbitrary: s) (auto simp: keeps)

lemma run_bounded: "ok_state s \<Longrightarrow> ok_ops ops \<Longrightarrow> card (dom (view (run ops s))) \<le> limit"
  using run_keeps bounded by blast

lemma run_monotone:
  "ok_state s \<Longrightarrow> ok_ops ops \<Longrightarrow> view s k = Some (r, x) \<Longrightarrow>
     \<exists>r' x'. view (run ops s) k = Some (r', x') \<and> r \<le> r' \<and> (r = r' \<longrightarrow> x = x')"
proof (induction ops arbitrary: s r x)
  case Nil
  then show ?case by simp
next
  case (Cons op ops)
  obtain j v where op: "op = (j, v)" by (cases op)
  let ?s = "snd (put_op j v s)"
  have j: "ok_key j" "ok_value v" using Cons.prems(2) op by auto
  have "\<exists>r1 x1. view ?s k = Some (r1, x1) \<and> r \<le> r1 \<and> (r = r1 \<longrightarrow> x = x1)"
    using effect [OF Cons.prems(1) j] Cons.prems(3) by (cases "j = k") auto
  then obtain r1 x1 where one: "view ?s k = Some (r1, x1)" "r \<le> r1" "r = r1 \<longrightarrow> x = x1" by blast
  obtain r2 x2 where "view (run ops ?s) k = Some (r2, x2)" "r1 \<le> r2" "r1 = r2 \<longrightarrow> x1 = x2"
    using Cons.IH [OF keeps [OF Cons.prems(1) j] _ one(1)] Cons.prems(2) by auto
  with one show ?case by (simp add: op)
qed

lemma run_provenance:
  "ok_state s \<Longrightarrow> ok_ops ops \<Longrightarrow> view (run ops s) k = Some (r, x) \<Longrightarrow>
     view s k = Some (r, x) \<or> (\<exists>v. (k, v) \<in> set ops \<and> x = payload v)"
proof (induction ops arbitrary: s)
  case Nil
  then show ?case by simp
next
  case (Cons op ops)
  obtain j v where op: "op = (j, v)" by (cases op)
  let ?s = "snd (put_op j v s)"
  have j: "ok_key j" "ok_value v" using Cons.prems(2) op by auto
  have "view ?s k = Some (r, x) \<or> (\<exists>v. (k, v) \<in> set ops \<and> x = payload v)"
    using Cons.IH [of ?s] keeps [OF Cons.prems(1) j] Cons.prems(2,3) by (simp add: op)
  moreover have "view ?s k = Some (r, x) \<Longrightarrow> view s k = Some (r, x) \<or> j = k \<and> x = payload v"
    using effect [OF Cons.prems(1) j] by (auto split: if_splits)
  ultimately show ?case using op by auto
qed

end

definition ready_store :: "uuid_lib \<Rightarrow> storage \<Rightarrow> bool" where
  "ready_store u s \<longleftrightarrow> wf_db u (db s) \<and> account_row (db s) \<noteq> None"

lemma account_row_written [simp]: "account_row (written rid v d) = account_row d"
  by (simp add: written_def split: option.splits)

lemma snd_spec_put:
  "snd (spec_put rid v m) = m \<or>
   snd (spec_put rid v m) = m(rid \<mapsto> (Suc (case m rid of None \<Rightarrow> 0 | Some (r, _) \<Rightarrow> r), env_nonce v, env_ciphertext v))"
  by (auto simp: spec_put_def split: option.splits)

lemma put_record_effect:
  assumes s: "ready_store u s" and rid: "length rid = 16" and v: "wf_envelope v"
  shows "ready_store u (snd (put_record rid v s)) \<and>
    (contents (db (snd (put_record rid v s))) = contents (db s) \<or>
     contents (db (snd (put_record rid v s))) = snd (spec_put rid v (contents (db s))))"
proof -
  have wf: "wf_db u (db s)" and acc: "account_row (db s) \<noteq> None" using s by (simp_all add: ready_store_def)
  note w = wf_written [OF wf acc rid v] contents_written [OF wf]
  have "db (snd (put_record rid v s)) = db s \<or>
      is_ok (fst (spec_put rid v (contents (db s)))) \<and> db (snd (put_record rid v s)) = written rid v (db s)"
    using put_record_result [OF wf acc rid v] by (auto simp: put_result_def Let_def split: if_splits)
  then show ?thesis using w wf acc by (auto simp: ready_store_def is_ok_iff)
qed

interpretation record_store: versioned_store put_record "\<lambda>s. contents (db s)"
    "\<lambda>v. (env_nonce v, env_ciphertext v)" "ready_store u" "\<lambda>k. length k = 16" wf_envelope MAX_LIVE_RECORDS
  for u
proof
  fix s :: storage and k :: bytes and v :: ApiEnvelope
  assume a: "ready_store u s" "length k = 16" "wf_envelope v"
  show "ready_store u (snd (put_record k v s))" using put_record_effect [OF a] by blast
  show "contents (db (snd (put_record k v s))) = contents (db s) \<or>
      contents (db (snd (put_record k v s))) = (contents (db s))(k \<mapsto>
        (Suc (case contents (db s) k of None \<Rightarrow> 0 | Some (r, _) \<Rightarrow> r), env_nonce v, env_ciphertext v))"
    using put_record_effect [OF a] snd_spec_put [of k v "contents (db s)"] by auto
next
  fix s
  assume "ready_store u s"
  then show "card (dom (contents (db s))) \<le> MAX_LIVE_RECORDS"
    by (simp add: ready_store_def wf_db_def card_contents)
qed

section \<open>Initialising an account\<close>

definition with_account :: "StoredAccount \<Rightarrow> database \<Rightarrow> database" where
  "with_account a d = d\<lparr>schema_ready := True,
     account_row := (case account_row d of None \<Rightarrow> Some (sa_account_id a, sa_publish_hash a, sa_download_hash a)
       | Some x \<Rightarrow> Some x)\<rparr>"

lemma insert_account_row:
  assumes "wf_account u a" and "schema_ready d"
  shows "insert_account (sa_account_id a) (sa_publish_hash a) (sa_download_hash a) d
    = (Inr (if account_row d = None then [[SqlString (dec_text 1)]] else []), with_account a d)"
  using assms by (cases d) (auto simp: insert_account_def with_account_def wf_account_def split: option.splits)

lemma initialize_healthy:
  assumes "wf_account u a" and "faults s = []"
  shows "initialize a s = (Inr (if account_row (db s) = None then InitializeCreated else AlreadyExists),
    s\<lparr>db := with_account a (db s)\<rparr>)"
proof -
  let ?s = "s\<lparr>faults := [], db := (db s)\<lparr>schema_ready := True\<rparr>\<rparr>"
  have one: "initialize_schema s = (Inr (), ?s)"
    using assms(2) by (simp add: initialize_schema_def exec_sql_def create_tables_def next_fault_def lift_store_def
        bind_store_def)
  have "exec_sql (insert_account (sa_account_id a) (sa_publish_hash a) (sa_download_hash a)) ?s =
      (Inr (map Inr (if account_row (db s) = None then [[SqlString (dec_text 1)]] else [])),
        s\<lparr>db := with_account a (db s)\<rparr>)"
    using insert_account_row [OF assms(1), of "(db s)\<lparr>schema_ready := True\<rparr>"] assms(2)
    by (cases s) (simp add: exec_sql_def next_fault_def with_account_def)
  moreover have "dec_text 1 = ascii ''1''" by (simp add: dec_text.simps byte_simps)
  ultimately show ?thesis
    using one by (auto simp: initialize_def bind_store_def lift_store_def)
qed

lemma initialize_keeps:
  assumes wf: "wf_db u (db s)" and a: "wf_account u a"
  shows "wf_db u (db (snd (initialize a s))) \<and> contents (db (snd (initialize a s))) = contents (db s)
    \<and> (account_row (db s) \<noteq> None \<longrightarrow> account_row (db (snd (initialize a s))) = account_row (db s))"
proof -
  let ?d1 = "(db s)\<lparr>schema_ready := True\<rparr>"
  have ins: "insert_account (sa_account_id a) (sa_publish_hash a) (sa_download_hash a) ?d1
      = (Inr (if account_row (db s) = None then [[SqlString (dec_text 1)]] else []), with_account a ?d1)"
    using insert_account_row [OF a, of ?d1] by simp
  have "db (snd (initialize a s)) \<in> {db s, ?d1, with_account a ?d1}"
    by (auto simp: initialize_def initialize_schema_def bind_store_def lift_store_def exec_sql_def create_tables_def
        ins Let_def split: option.splits sum.splits prod.splits)
  moreover have "wf_db u ?d1" "wf_db u (with_account a ?d1)"
    using wf a by (auto simp: wf_db_def with_account_def wf_account_def split: option.splits)
  ultimately show ?thesis using wf by (auto simp: contents_def with_account_def)
qed

section \<open>Properties\<close>

lemma put_record_spec:
  assumes "ready_store u s" and "length rid = 16" and "wf_envelope v"
    and "put_record rid v s = (r, s')" and "spec_put rid v (contents (db s)) = (q, m)"
  shows "(faults s = [] \<longrightarrow> r = q) \<and> (r = q \<or> r = Inl Unavailable) \<and>
    (r = q \<longrightarrow> contents (db s') = m) \<and> (contents (db s') = contents (db s) \<or> contents (db s') = m)"
proof -
  have wf: "wf_db u (db s)" and acc: "account_row (db s) \<noteq> None" using assms(1) by (simp_all add: ready_store_def)
  have same: "\<not> is_ok q \<Longrightarrow> m = contents (db s)"
    using assms(5) by (auto simp: spec_put_def split: option.splits if_splits)
  have new: "is_ok q \<Longrightarrow> contents (written rid v (db s)) = m"
    using contents_written [OF wf] assms(5) by (auto simp: is_ok_iff)
  have q: "q \<noteq> Inl Unavailable" using assms(5) by (auto simp: spec_put_def split: option.splits if_splits)
  show ?thesis
    using put_record_result [OF wf acc assms(2,3)] assms(4,5) same new q
    by (auto simp: put_result_def Let_def split: if_splits)
qed

text \<open>C16: publishing refines the abstract step. Without a platform failure the operation reports exactly
  the outcome of the abstract step (created with revision 1, updated with the next revision, quota of
  128 records, revision overflow) and the tables hold exactly its result; with one, it reports the
  failure or the same outcome, and the tables hold the old or the new content, never anything else.\<close>

theorem put_record_refines:
  assumes "ready_store u s" and "length rid = 16" and "wf_envelope v"
    and "put_record rid v s = (r, s')" and "spec_put rid v (contents (db s)) = (q, m)"
  shows "(faults s = [] \<longrightarrow> r = q) \<and> (r = q \<or> r = Inl Unavailable) \<and>
    (r = q \<longrightarrow> contents (db s') = m) \<and> (contents (db s') = contents (db s) \<or> contents (db s') = m)"
  by (rule put_record_spec [OF assms])

text \<open>An account object with one account and no record, for the witnesses.\<close>

definition sample_account :: StoredAccount where
  "sample_account = \<lparr>sa_account_id = ob_account_id sample_owner, sa_publish_hash = replicate 32 1,
     sa_download_hash = replicate 32 2\<rparr>"

definition sample_storage :: "fault list \<Rightarrow> storage" where
  "sample_storage fs = \<lparr>db = with_account sample_account empty_db, faults = fs\<rparr>"

lemma sample_account_ok: "wf_account rfc9562 sample_account"
  by (simp add: wf_account_def sample_account_def sample_owner_def is_uuid_v7_def rfc9562_def nth_append)

lemma sample_storage_ready: "ready_store rfc9562 (sample_storage fs)"
  using sample_account_ok
  by (simp add: ready_store_def sample_storage_def with_account_def empty_db_def wf_db_def wf_account_def)

lemma sample_storage_empty: "contents (db (sample_storage fs)) = Map.empty"
  by (simp add: sample_storage_def with_account_def empty_db_def contents_def)

theorem put_record_refines_witness:
  "\<exists>s'. put_record (replicate 16 5) sample_envelope (sample_storage []) = (Inr (Created 1), s')
     \<and> contents (db s') (replicate 16 5) = Some (1, env_nonce sample_envelope, env_ciphertext sample_envelope)"
proof -
  obtain r s' where p: "put_record (replicate 16 5) sample_envelope (sample_storage []) = (r, s')"
    by (cases "put_record (replicate 16 5) sample_envelope (sample_storage [])")
  have sp: "spec_put (replicate 16 5) sample_envelope (contents (db (sample_storage []))) =
      (Inr (Created 1), [replicate 16 5 \<mapsto> (1, env_nonce sample_envelope, env_ciphertext sample_envelope)])"
    by (simp add: sample_storage_empty spec_put_def limit_defs)
  show ?thesis
    using put_record_refines [OF sample_storage_ready _ sample_envelope_ok p sp] p
    by (simp add: sample_storage_def)
qed

text \<open>C17: over any sequence of publications, whatever platform failures strike, at most 128 records are
  live; a live record stays live, its revision never goes back and a revision names one content; and
  every content stored under a record identifier was there before or was published under it.\<close>

theorem record_store_history:
  assumes "ready_store u s" and "\<forall>(k, v) \<in> set ops. length k = 16 \<and> wf_envelope v"
  shows "card (dom (contents (db (fold (\<lambda>(k, v) s. snd (put_record k v s)) ops s)))) \<le> MAX_LIVE_RECORDS \<and>
    (\<forall>k r x. contents (db s) k = Some (r, x) \<longrightarrow>
       (\<exists>r' x'. contents (db (fold (\<lambda>(k, v) s. snd (put_record k v s)) ops s)) k = Some (r', x')
          \<and> r \<le> r' \<and> (r = r' \<longrightarrow> x = x'))) \<and>
    (\<forall>k r x. contents (db (fold (\<lambda>(k, v) s. snd (put_record k v s)) ops s)) k = Some (r, x) \<longrightarrow>
       contents (db s) k = Some (r, x) \<or> (\<exists>v. (k, v) \<in> set ops \<and> x = (env_nonce v, env_ciphertext v)))"
  using record_store.run_bounded [OF assms] record_store.run_monotone [OF assms]
    record_store.run_provenance [OF assms] by blast

theorem record_store_history_witness:
  "card (dom (contents (db (fold (\<lambda>(k, v) s. snd (put_record k v s))
     [(replicate 16 5, sample_envelope), (replicate 16 5, sample_envelope)] (sample_storage [RowFault]))))) \<le> MAX_LIVE_RECORDS"
  using record_store_history [OF sample_storage_ready, of "[(replicate 16 5, sample_envelope), (replicate 16 5, sample_envelope)]"]
    sample_envelope_ok by simp

text \<open>The index a consumer lists is exactly the live records: strictly sorted by identifier, valid
  for the wire format, one entry per record with its current revision.\<close>

theorem load_index_exact:
  assumes "ready_store u s" and "faults s = []"
  shows "\<exists>ix. load_index s = (Inr ix, s) \<and> index_validate ix = Inr () \<and>
    (\<lambda>e. (entry_record_id e, entry_revision e)) ` set ix = {(k, r) | k r x. contents (db s) k = Some (r, x)}"
proof -
  have wf: "wf_db u (db s)" and ready: "schema_ready (db s)"
    using assms(1) by (auto simp: ready_store_def wf_db_def)
  have "(\<lambda>e. (entry_record_id e, entry_revision e)) ` set (index_of (db s))
      = (\<lambda>(i, r, _). (i, r)) ` set (record_rows (db s))"
    by (simp add: index_of_def image_image case_prod_unfold)
  also have "\<dots> = {(k, r) | k r x. contents (db s) k = Some (r, x)}"
    using wf by (force simp: contents_def wf_db_def image_iff dest: map_of_SomeD)
  finally show ?thesis
    using reads_load_index [OF wf ready] index_of_valid(1) [OF wf] assms(2) by (auto simp: reads_def)
qed

theorem load_index_exact_witness:
  "\<exists>ix. load_index (sample_storage []) = (Inr ix, sample_storage []) \<and> index_validate ix = Inr ()"
proof -
  have "faults (sample_storage []) = []" by (simp add: sample_storage_def)
  from load_index_exact [OF sample_storage_ready this] show ?thesis by blast
qed

text \<open>C19: initialising an account object never replaces an account. On an empty object it stores the
  account and says so; on an object that has one it changes nothing and says that it exists; whatever
  platform failure strikes, an existing account and all records are kept.\<close>

theorem initialize_never_replaces:
  assumes "wf_db u (db s)" and "wf_account u a"
  shows "(faults s = [] \<longrightarrow> fst (initialize a s) =
        Inr (if account_row (db s) = None then InitializeCreated else AlreadyExists)
      \<and> account_of (db (snd (initialize a s))) =
        (case account_of (db s) of None \<Rightarrow> Some a | Some b \<Rightarrow> Some b)) \<and>
    (account_row (db s) \<noteq> None \<longrightarrow> account_row (db (snd (initialize a s))) = account_row (db s)) \<and>
    contents (db (snd (initialize a s))) = contents (db s) \<and> wf_db u (db (snd (initialize a s)))"
proof -
  have "account_of (with_account a (db s)) = (case account_of (db s) of None \<Rightarrow> Some a | Some b \<Rightarrow> Some b)"
    by (auto simp: account_of_def with_account_def split: option.splits)
  then show ?thesis
    using initialize_keeps [OF assms] initialize_healthy [OF assms(2), of s] by simp
qed

theorem initialize_never_replaces_witness:
  "fst (initialize sample_account (sample_storage [])) = Inr AlreadyExists
   \<and> contents (db (snd (initialize sample_account (sample_storage [])))) = Map.empty"
proof -
  have "wf_db rfc9562 (db (sample_storage []))" using sample_storage_ready by (simp add: ready_store_def)
  from initialize_never_replaces [OF this sample_account_ok] show ?thesis
    using sample_storage_ready [of "[]"] by (simp add: ready_store_def sample_storage_empty) (simp add: sample_storage_def)
qed

end
