(* ===== verification/Worker_Api.thy ===== *)
theory Worker_Api
  imports Worker_Storage
begin

text \<open>
  \<open>session-sync-worker/src/api.rs\<close>, the account object: requests, responses, bounded bodies, token
  authentication and the handlers of the record routes. A request has a body as a stream of chunks
  that may fail, and header lookups that may fail; building a response does not fail. The platform's
  router is the parameter \<open>R\<close>: what a method and path dispatch to.
\<close>

datatype http_method = GET | PUT | POST | OtherMethod

record request =
  rq_method :: http_method
  rq_path :: bytes
  rq_header :: "bytes \<Rightarrow> unit + bytes option"
  rq_body :: "(unit + bytes) list option"
  rq_cancel :: "unit + unit"

record response =
  rs_status :: nat
  rs_headers :: "bytes \<rightharpoonup> bytes"
  rs_body :: bytes

datatype route =
    RouteHealth | RouteAccounts | RouteIndex bytes | RouteRecord bytes bytes | RouteInitialize
  | RouteFallback | RouterReply response

type_synonym 'a worker = "unit + 'a"

definition INTERNAL_INITIALIZE_PATH :: bytes where
  "INTERNAL_INITIALIZE_PATH = ascii ''/__attached/initialize-account/v1''"
definition INTERNAL_OVERSIZED_BODY_HEADER :: bytes where
  "INTERNAL_OVERSIZED_BODY_HEADER = ascii ''x-attached-internal-oversized-body''"
definition MAX_ACCOUNT_ISSUANCE_ATTEMPTS :: nat where [limit_defs]: "MAX_ACCOUNT_ISSUANCE_ATTEMPTS = 4"
definition STATUS_OK :: nat where [limit_defs]: "STATUS_OK = 200"
definition STATUS_CREATED :: nat where [limit_defs]: "STATUS_CREATED = 201"
definition STATUS_NO_CONTENT :: nat where [limit_defs]: "STATUS_NO_CONTENT = 204"
definition STATUS_BAD_REQUEST :: nat where [limit_defs]: "STATUS_BAD_REQUEST = 400"
definition STATUS_UNAUTHORIZED :: nat where [limit_defs]: "STATUS_UNAUTHORIZED = 401"
definition STATUS_NOT_FOUND :: nat where [limit_defs]: "STATUS_NOT_FOUND = 404"
definition STATUS_METHOD_NOT_ALLOWED :: nat where [limit_defs]: "STATUS_METHOD_NOT_ALLOWED = 405"
definition STATUS_CONFLICT :: nat where [limit_defs]: "STATUS_CONFLICT = 409"
definition STATUS_PAYLOAD_TOO_LARGE :: nat where [limit_defs]: "STATUS_PAYLOAD_TOO_LARGE = 413"
definition STATUS_TOO_MANY_REQUESTS :: nat where [limit_defs]: "STATUS_TOO_MANY_REQUESTS = 429"
definition STATUS_UNAVAILABLE :: nat where [limit_defs]: "STATUS_UNAVAILABLE = 503"
definition AUTHENTICATE_VALUE :: bytes where
  "AUTHENTICATE_VALUE = ascii ''Bearer realm=\"attached-sync-v1\"''"

section \<open>Responses\<close>

definition set_header :: "response \<Rightarrow> bytes \<Rightarrow> bytes \<Rightarrow> response" where
  "set_header r name value = r\<lparr>rs_headers := (rs_headers r)(name \<mapsto> value)\<rparr>"

definition no_store :: "response \<Rightarrow> response" where
  "no_store r = set_header r (ascii ''cache-control'') (ascii ''no-store'')"

definition empty_response :: "nat \<Rightarrow> response" where
  "empty_response status = no_store \<lparr>rs_status = status, rs_headers = Map.empty, rs_body = []\<rparr>"

definition json_response :: "json_lib \<Rightarrow> nat \<Rightarrow> json \<Rightarrow> response" where
  "json_response J status j = no_store \<lparr>rs_status = status,
     rs_headers = [ascii ''content-type'' \<mapsto> ascii ''application/json''], rs_body = json_to_vec J j\<rparr>"

definition error_response :: "json_lib \<Rightarrow> nat \<Rightarrow> ErrorCode \<Rightarrow> response" where
  "error_response J status code = json_response J status (error_dto code)"

definition etag_response :: "response \<Rightarrow> nat \<Rightarrow> response" where
  "etag_response r revision = set_header r (ascii ''etag'') ([34] @ dec_text revision @ [34])"

definition unavailable_response :: "json_lib \<Rightarrow> response" where
  "unavailable_response J =
     set_header (error_response J STATUS_UNAVAILABLE CodeUnavailable) (ascii ''retry-after'') (ascii ''1'')"

definition unauthorized_response :: response where
  "unauthorized_response =
     set_header (empty_response STATUS_UNAUTHORIZED) (ascii ''www-authenticate'') AUTHENTICATE_VALUE"

definition method_not_allowed_response :: "json_lib \<Rightarrow> bytes \<Rightarrow> response" where
  "method_not_allowed_response J allow =
     set_header (error_response J STATUS_METHOD_NOT_ALLOWED CodeInvalidRequest) (ascii ''allow'') allow"

definition mutation_error_response :: "json_lib \<Rightarrow> MutationError \<Rightarrow> response" where
  "mutation_error_response J e = (case e of
     MutationInvalidRequest \<Rightarrow> error_response J STATUS_BAD_REQUEST CodeInvalidRequest
   | LiveQuotaExceeded \<Rightarrow>
       set_header (error_response J STATUS_TOO_MANY_REQUESTS CodeQuotaExceeded) (ascii ''retry-after'') (ascii ''60'')
   | RevisionOverflow \<Rightarrow> unavailable_response J
   | InvalidStorage \<Rightarrow> unavailable_response J)"

definition mutation_success_response :: "MutationOutcome \<Rightarrow> response" where
  "mutation_success_response outcome = (case outcome of
     Created r \<Rightarrow> etag_response (empty_response STATUS_CREATED) r
   | Updated r \<Rightarrow> etag_response (empty_response STATUS_NO_CONTENT) r)"

section \<open>Request bodies\<close>

datatype BodyReadError = BodyTooLarge | BodyUnavailable

fun read_chunks :: "nat \<Rightarrow> bool \<Rightarrow> bytes \<Rightarrow> (unit + bytes) list \<Rightarrow> BodyReadError + bytes" where
  "read_chunks limit too_large out [] = (if too_large then Inl BodyTooLarge else Inr out)"
| "read_chunks limit too_large out (Inl _ # r) = Inl BodyUnavailable"
| "read_chunks limit too_large out (Inr chunk # r) =
     (if too_large then read_chunks limit too_large out r
      else if length out + length chunk > U64_MAX then read_chunks limit True [] r
      else if length out + length chunk > limit then read_chunks limit True [] r
      else read_chunks limit False (out @ chunk) r)"

definition read_bounded_body :: "request \<Rightarrow> nat \<Rightarrow> BodyReadError + bytes" where
  "read_bounded_body rq limit = (case rq_header rq (ascii ''content-length'') of
     Inl _ \<Rightarrow> Inl BodyUnavailable
   | Inr len \<Rightarrow>
       let too_large = (case Option.bind len (parse_uint U64_MAX) of Some n \<Rightarrow> n > limit | None \<Rightarrow> False) in
       case rq_body rq of
         None \<Rightarrow> if too_large then Inl BodyTooLarge else Inr []
       | Some chunks \<Rightarrow> read_chunks limit too_large [] chunks)"

definition cancel_request_body :: "request \<Rightarrow> unit worker" where
  "cancel_request_body rq = (case rq_body rq of None \<Rightarrow> Inr () | Some _ \<Rightarrow> rq_cancel rq)"

definition discard_request_body :: "request \<Rightarrow> unit worker" where
  "discard_request_body rq = (case read_bounded_body rq 0 of
     Inl BodyUnavailable \<Rightarrow> Inl () | _ \<Rightarrow> Inr ())"

section \<open>The account object\<close>

datatype AccountOperation = ListRecords | GetRecord bytes | PutRecord bytes

datatype AuthenticationError = Unauthorized | AuthUnavailable

definition authenticate_request ::
  "crates \<Rightarrow> (bytes \<Rightarrow> unit + bytes option) \<Rightarrow> bytes \<Rightarrow> ApiKeyScope \<Rightarrow> storage \<Rightarrow> (AuthenticationError + unit) \<times> storage" where
  "authenticate_request K headers aid scope s = (case headers (ascii ''authorization'') of
     Inl _ \<Rightarrow> (Inl Unauthorized, s)
   | Inr None \<Rightarrow> (Inl Unauthorized, s)
   | Inr (Some value) \<Rightarrow> (case parse_authorization (engine K) [value] of
       Inl _ \<Rightarrow> (Inl Unauthorized, s)
     | Inr token \<Rightarrow> (case load_account (uuids K) s of
         (Inl _, s') \<Rightarrow> (Inl AuthUnavailable, s')
       | (Inr None, s') \<Rightarrow> (Inl Unauthorized, s')
       | (Inr (Some account), s') \<Rightarrow>
           if sa_account_id account \<noteq> aid then (Inl AuthUnavailable, s')
           else if account_authenticate account (service_hash (sha256 K) token) scope then (Inr (), s')
           else (Inl Unauthorized, s'))))"

definition list_records :: "crates \<Rightarrow> json_lib \<Rightarrow> storage \<Rightarrow> response worker \<times> storage" where
  "list_records K J s = (case load_index s of
     (Inl _, s') \<Rightarrow> (Inr (unavailable_response J), s')
   | (Inr index, s') \<Rightarrow> (Inr (json_response J STATUS_OK (index_json (engine K) index)), s'))"

definition get_record :: "crates \<Rightarrow> json_lib \<Rightarrow> bytes \<Rightarrow> storage \<Rightarrow> response worker \<times> storage" where
  "get_record K J rid s = (case load_record rid s of
     (Inl _, s') \<Rightarrow> (Inr (unavailable_response J), s')
   | (Inr None, s') \<Rightarrow> (Inr (error_response J STATUS_NOT_FOUND CodeInvalidRequest), s')
   | (Inr (Some r), s') \<Rightarrow> (case into_envelope r of (v, revision) \<Rightarrow>
       (Inr (etag_response (json_response J STATUS_OK (envelope_json (engine K) v)) revision), s')))"

definition put_response :: "json_lib \<Rightarrow> StoreError + MutationOutcome \<Rightarrow> response" where
  "put_response J r = (case r of
     Inr outcome \<Rightarrow> mutation_success_response outcome
   | Inl (Mutation e) \<Rightarrow> mutation_error_response J e
   | Inl Unavailable \<Rightarrow> unavailable_response J)"

definition put_record_request :: "crates \<Rightarrow> json_lib \<Rightarrow> request \<Rightarrow> bytes \<Rightarrow> storage \<Rightarrow> response worker \<times> storage" where
  "put_record_request K J rq rid s = (case rq_header rq INTERNAL_OVERSIZED_BODY_HEADER of
     Inl _ \<Rightarrow> (Inl (), s)
   | Inr (Some _) \<Rightarrow> (case cancel_request_body rq of
       Inl _ \<Rightarrow> (Inl (), s)
     | Inr _ \<Rightarrow> (Inr (error_response J STATUS_PAYLOAD_TOO_LARGE CodeTooLarge), s))
   | Inr None \<Rightarrow> (case read_bounded_body rq MAX_API_BODY_BYTES of
       Inl BodyTooLarge \<Rightarrow> (Inr (error_response J STATUS_PAYLOAD_TOO_LARGE CodeTooLarge), s)
     | Inl BodyUnavailable \<Rightarrow> (Inr (unavailable_response J), s)
     | Inr body \<Rightarrow> (case envelope_parse_json (engine K) J body of
         Inl TooLarge \<Rightarrow> (Inr (error_response J STATUS_PAYLOAD_TOO_LARGE CodeTooLarge), s)
       | Inl InvalidRequest \<Rightarrow> (Inr (error_response J STATUS_BAD_REQUEST CodeInvalidRequest), s)
       | Inr v \<Rightarrow> (case put_record rid v s of (r, s') \<Rightarrow> (Inr (put_response J r), s')))))"

definition operation_scope :: "AccountOperation \<Rightarrow> ApiKeyScope" where
  "operation_scope op = (case op of ListRecords \<Rightarrow> Download | GetRecord _ \<Rightarrow> Download | PutRecord _ \<Rightarrow> Publish)"

text \<open>The operation of a method and an optional record parameter; \<open>Inl\<close> is the error status.\<close>

definition account_operation :: "crates \<Rightarrow> http_method \<Rightarrow> bytes option \<Rightarrow> nat + AccountOperation" where
  "account_operation K m record_param = (case (m, record_param) of
     (GET, None) \<Rightarrow> Inr ListRecords
   | (GET, Some r) \<Rightarrow> (case parse_record_id (engine K) r of
       Inl _ \<Rightarrow> Inl STATUS_BAD_REQUEST | Inr rid \<Rightarrow> Inr (GetRecord rid))
   | (PUT, Some r) \<Rightarrow> (case parse_record_id (engine K) r of
       Inl _ \<Rightarrow> Inl STATUS_BAD_REQUEST | Inr rid \<Rightarrow> Inr (PutRecord rid))
   | _ \<Rightarrow> Inl STATUS_NOT_FOUND)"

definition run_operation ::
  "crates \<Rightarrow> json_lib \<Rightarrow> request \<Rightarrow> AccountOperation \<Rightarrow> storage \<Rightarrow> response worker \<times> storage" where
  "run_operation K J rq op s = (case op of
     ListRecords \<Rightarrow> list_records K J s
   | GetRecord rid \<Rightarrow> get_record K J rid s
   | PutRecord rid \<Rightarrow> put_record_request K J rq rid s)"

definition route_account_request ::
  "crates \<Rightarrow> json_lib \<Rightarrow> request \<Rightarrow> bytes \<Rightarrow> bytes option \<Rightarrow> storage \<Rightarrow> response worker \<times> storage" where
  "route_account_request K J rq account_param record_param s =
     (if account_param = [] then (Inr (error_response J STATUS_NOT_FOUND CodeInvalidRequest), s)
      else case parse_account_id (uuids K) account_param of
        Inl _ \<Rightarrow> (Inr (error_response J STATUS_BAD_REQUEST CodeInvalidRequest), s)
      | Inr aid \<Rightarrow> (case account_operation K (rq_method rq) record_param of
          Inl status \<Rightarrow> (Inr (error_response J status CodeInvalidRequest), s)
        | Inr op \<Rightarrow> (case authenticate_request K (rq_header rq) aid (operation_scope op) s of (auth, s') \<Rightarrow>
            (case (if (case op of PutRecord _ \<Rightarrow> False | _ \<Rightarrow> True) \<or> \<not> is_ok auth then cancel_request_body rq else Inr ()) of
               Inl _ \<Rightarrow> (Inl (), s')
             | Inr _ \<Rightarrow> (case auth of
                 Inl Unauthorized \<Rightarrow> (Inr unauthorized_response, s')
               | Inl AuthUnavailable \<Rightarrow> (Inr (unavailable_response J), s')
               | Inr _ \<Rightarrow> run_operation K J rq op s')))))"

definition initialize_account :: "crates \<Rightarrow> json_lib \<Rightarrow> request \<Rightarrow> storage \<Rightarrow> response worker \<times> storage" where
  "initialize_account K J rq s = (case read_bounded_body rq ENCODED_ACCOUNT_BYTES of
     Inl _ \<Rightarrow> (Inr (unavailable_response J), s)
   | Inr encoded \<Rightarrow> (case account_decode (uuids K) encoded of
       Inl _ \<Rightarrow> (Inr (unavailable_response J), s)
     | Inr account \<Rightarrow> (case initialize account s of
         (Inr InitializeCreated, s') \<Rightarrow> (Inr (empty_response STATUS_NO_CONTENT), s')
       | (Inr AlreadyExists, s') \<Rightarrow> (Inr (empty_response STATUS_CONFLICT), s')
       | (Inl _, s') \<Rightarrow> (Inr (unavailable_response J), s'))))"

definition handle_account_request ::
  "crates \<Rightarrow> json_lib \<Rightarrow> (http_method \<Rightarrow> bytes \<Rightarrow> route) \<Rightarrow> request \<Rightarrow> storage \<Rightarrow> response worker \<times> storage" where
  "handle_account_request K J R rq s = (case R (rq_method rq) (rq_path rq) of
     RouteInitialize \<Rightarrow> initialize_account K J rq s
   | RouteIndex a \<Rightarrow> route_account_request K J rq a None s
   | RouteRecord a r \<Rightarrow> route_account_request K J rq a (Some r) s
   | RouterReply r \<Rightarrow> (Inr r, s)
   | _ \<Rightarrow> (Inr (error_response J STATUS_NOT_FOUND CodeInvalidRequest), s))"

definition account_object_fetch ::
  "crates \<Rightarrow> json_lib \<Rightarrow> (http_method \<Rightarrow> bytes \<Rightarrow> route) \<Rightarrow> request \<Rightarrow> storage \<Rightarrow> response \<times> storage" where
  "account_object_fetch K J R rq s = (case handle_account_request K J R rq s of
     (Inr r, s') \<Rightarrow> (r, s') | (Inl _, s') \<Rightarrow> (unavailable_response J, s'))"

definition internal_request :: "bytes \<Rightarrow> request" where
  "internal_request body = \<lparr>rq_method = POST, rq_path = INTERNAL_INITIALIZE_PATH, rq_header = (\<lambda>_. Inr None),
     rq_body = Some [Inr body], rq_cancel = Inr ()\<rparr>"

section \<open>Bodies\<close>

definition chunk_bytes :: "(unit + bytes) list \<Rightarrow> bytes" where
  "chunk_bytes chunks = concat (map (\<lambda>c. case c of Inr b \<Rightarrow> b | Inl _ \<Rightarrow> []) chunks)"

lemma chunk_bytes_simps [simp]: "chunk_bytes [] = []" "chunk_bytes (Inr b # r) = b @ chunk_bytes r"
  by (simp_all add: chunk_bytes_def)

lemma read_chunks_exact:
  assumes "limit \<le> U64_MAX" and "length out \<le> limit"
  shows "read_chunks limit big out chunks =
    (if \<not> list_all is_ok chunks then Inl BodyUnavailable
     else if big \<or> length out + length (chunk_bytes chunks) > limit then Inl BodyTooLarge
     else Inr (out @ chunk_bytes chunks))"
  using assms
proof (induction limit big out chunks rule: read_chunks.induct)
  case (1 limit big out)
  then show ?case by simp
next
  case (2 limit big out e r)
  then show ?case by simp
next
  case (3 limit big out chunk r)
  show ?case
  proof (cases "big \<or> length out + length chunk > limit")
    case True
    then show ?thesis using 3 by (cases big) auto
  next
    case False
    then show ?thesis using 3 by auto
  qed
qed

section \<open>Authentication\<close>

definition bearer :: "crates \<Rightarrow> (bytes \<Rightarrow> unit + bytes option) \<Rightarrow> bytes \<Rightarrow> bool" where
  "bearer K headers token \<longleftrightarrow>
     headers (ascii ''authorization'') = Inr (Some (ascii ''Bearer '' @ token_text (engine K) token)) \<and> length token = 32"

lemma authenticate_db:
  assumes "wf_db (uuids K) (db s)"
  shows "db (snd (authenticate_request K h aid sc s)) = db s"
proof -
  have "db (snd (load_account (uuids K) s)) = db s"
    using reads_load_account [OF assms] by (simp add: reads_def)
  then show ?thesis
    by (auto simp: authenticate_request_def split: sum.splits option.splits prod.splits)
qed

lemma authenticate_Inr:
  assumes "base64_engine (engine K)" and "wf_db (uuids K) (db s)"
    and "authenticate_request K h aid sc s = (Inr (), s')"
  obtains token a where "bearer K h token" and "account_of (db s) = Some a" and "sa_account_id a = aid"
    and "account_authenticate a (service_hash (sha256 K) token) sc"
proof -
  obtain v token where h: "h (ascii ''authorization'') = Inr (Some v)" and t: "parse_authorization (engine K) [v] = Inr token"
    using assms(3) by (auto simp: authenticate_request_def split: sum.splits option.splits)
  have b: "bearer K h token"
    using h t base64_engine.parse_authorization_iff [OF assms(1)] by (simp add: bearer_def)
  from reads_load_account [OF assms(2)] show thesis
  proof (cases rule: readsE)
    case (down s1)
    then show thesis using assms(3) h t by (simp add: authenticate_request_def)
  next
    case (up s1)
    then show thesis
      using assms(3) h t b that
      by (auto simp: authenticate_request_def split: option.splits if_splits)
  qed
qed

lemma account_of_wf: "wf_db u d \<Longrightarrow> account_of d = Some a \<Longrightarrow> wf_account u a"
  by (auto simp: wf_db_def account_of_def wf_account_def split: option.splits)

lemma account_of_ready: "wf_db u (db s) \<Longrightarrow> account_of (db s) = Some a \<Longrightarrow> ready_store u s \<and> schema_ready (db s)"
  by (auto simp: ready_store_def account_of_def wf_db_def)

section \<open>Operations of an account object\<close>

lemma list_records_db:
  assumes "wf_db u (db s)" and "schema_ready (db s)"
  shows "db (snd (list_records K J s)) = db s"
  using reads_load_index [OF assms] by (auto simp: list_records_def reads_def split: prod.splits sum.splits)

lemma get_record_db:
  assumes "wf_db u (db s)" and "schema_ready (db s)"
  shows "db (snd (get_record K J rid s)) = db s"
  using reads_load_record [OF assms, of rid]
  by (auto simp: get_record_def reads_def split: prod.splits sum.splits option.splits)

lemma envelope_parse_wf:
  assumes "base64_engine e" and "envelope_parse_json e J s = Inr v"
  shows "wf_envelope v"
  using assms(2) by (auto simp: envelope_parse_json_def envelope_wire_decode_iff [OF assms(1)])

lemma put_record_account:
  assumes "ready_store u s" and "length rid = 16" and "wf_envelope v"
  shows "account_row (db (snd (put_record rid v s))) = account_row (db s)"
proof -
  have "wf_db u (db s)" "account_row (db s) \<noteq> None" using assms(1) by (simp_all add: ready_store_def)
  from put_record_result [OF this assms(2,3)] show ?thesis
    by (auto simp: put_result_def Let_def split: if_splits)
qed

lemma put_record_request_keeps:
  assumes e: "base64_engine (engine K)" and s: "ready_store u s" and rid: "length rid = 16"
  shows "ready_store u (snd (put_record_request K J rq rid s)) \<and>
    account_row (db (snd (put_record_request K J rq rid s))) = account_row (db s)"
proof -
  have "snd (put_record_request K J rq rid s) = s \<or>
      (\<exists>v. wf_envelope v \<and> snd (put_record_request K J rq rid s) = snd (put_record rid v s))"
    using envelope_parse_wf [OF e, of J]
    by (fastforce simp: put_record_request_def case_prod_unfold split: sum.splits option.splits
        BodyReadError.splits ApiError.splits)
  then show ?thesis using put_record_effect [OF s rid] put_record_account [OF s rid] s by auto
qed

text \<open>What one authenticated operation does to the object, and the status it can answer with.\<close>

lemma run_operation_effect:
  assumes e: "base64_engine (engine K)" and s: "ready_store u s" "schema_ready (db s)"
    and op: "account_operation K m rp = Inr op"
  shows "ready_store u (snd (run_operation K J rq op s))"
    and "account_row (db (snd (run_operation K J rq op s))) = account_row (db s)"
    and "operation_scope op = Download \<Longrightarrow> db (snd (run_operation K J rq op s)) = db s"
proof -
  have wf: "wf_db u (db s)" using s by (simp add: ready_store_def)
  have rid: "op = PutRecord rid \<Longrightarrow> length rid = 16" for rid
    using op base64_engine.parse_record_id_iff [OF e]
    by (auto simp: account_operation_def split: http_method.splits option.splits sum.splits)
  have *: "ready_store u (snd (run_operation K J rq op s)) \<and>
      account_row (db (snd (run_operation K J rq op s))) = account_row (db s)"
    using list_records_db [OF wf s(2), of K J] get_record_db [OF wf s(2), of K J]
      put_record_request_keeps [OF e s(1) rid, of _ J rq] s(1)
    by (cases op) (simp_all add: run_operation_def ready_store_def)
  then show "ready_store u (snd (run_operation K J rq op s))"
    and "account_row (db (snd (run_operation K J rq op s))) = account_row (db s)" by blast+
  show "operation_scope op = Download \<Longrightarrow> db (snd (run_operation K J rq op s)) = db s"
    using list_records_db [OF wf s(2), of K J] get_record_db [OF wf s(2), of K J]
    by (cases op) (simp_all add: run_operation_def operation_scope_def)
qed

lemma status_simps [simp]:
  "rs_status (set_header r n v) = rs_status r" "rs_status (no_store r) = rs_status r"
  "rs_status (empty_response st) = st" "rs_status (json_response J st j) = st"
  "rs_status (error_response J st c) = st" "rs_status (etag_response r k) = rs_status r"
  "rs_status (unavailable_response J) = 503" "rs_status unauthorized_response = 401"
  "rs_status (method_not_allowed_response J a) = 405"
  by (simp_all add: set_header_def no_store_def empty_response_def json_response_def error_response_def
      etag_response_def unavailable_response_def unauthorized_response_def method_not_allowed_response_def limit_defs)

definition success :: "response \<Rightarrow> bool" where
  "success r \<longleftrightarrow> rs_status r < 300"

lemma account_operation_error: "account_operation K m rp = Inl st \<Longrightarrow> st = 400 \<or> st = 404"
  by (auto simp: account_operation_def limit_defs split: http_method.splits option.splits sum.splits)

lemma route_account_request_cases:
  assumes "route_account_request K J rq ap rp s = (x, s')" and "wf_db (uuids K) (db s)"
  obtains (refused) "db s' = db s" and "\<And>r. x = Inr r \<Longrightarrow> \<not> success r"
  | (allowed) aid op s1 where "parse_account_id (uuids K) ap = Inr aid"
      and "account_operation K (rq_method rq) rp = Inr op"
      and "authenticate_request K (rq_header rq) aid (operation_scope op) s = (Inr (), s1)"
      and "db s1 = db s" and "run_operation K J rq op s1 = (x, s')"
proof -
  have auth: "db s1 = db s" if "authenticate_request K h aid sc s = (q, s1)" for h aid sc q s1
    using authenticate_db [OF assms(2), of h aid sc] that by simp
  have err: "account_operation K (rq_method rq) rp = Inl st \<Longrightarrow> \<not> st < 300" for st
    using account_operation_error [of K "rq_method rq" rp st] by auto
  show thesis
  proof (cases "\<exists>aid op s1. parse_account_id (uuids K) ap = Inr aid \<and> account_operation K (rq_method rq) rp = Inr op
      \<and> authenticate_request K (rq_header rq) aid (operation_scope op) s = (Inr (), s1)
      \<and> run_operation K J rq op s1 = (x, s')")
    case True
    then show thesis using allowed auth by blast
  next
    case False
    then have "db s' = db s \<and> (\<forall>r. x = Inr r \<longrightarrow> \<not> success r)"
      using assms(1) auth err
      by (auto simp: route_account_request_def success_def limit_defs
          split: if_splits sum.splits prod.splits AuthenticationError.splits)
    then show thesis using refused by blast
  qed
qed

lemma operation_method:
  "account_operation K m rp = Inr op \<Longrightarrow> (operation_scope op = Publish \<longleftrightarrow> m = PUT) \<and> (operation_scope op = Download \<longleftrightarrow> m = GET)"
  by (auto simp: account_operation_def operation_scope_def split: http_method.splits option.splits sum.splits)

definition authorized_for :: "crates \<Rightarrow> request \<Rightarrow> database \<Rightarrow> ApiKeyScope \<Rightarrow> bool" where
  "authorized_for K rq d sc \<longleftrightarrow> (\<exists>token a. bearer K (rq_header rq) token \<and> account_of d = Some a
     \<and> account_authenticate a (service_hash (sha256 K) token) sc)"

section \<open>Properties of the account object\<close>

text \<open>Reading a body is exact and bounded. A failed chunk makes the read fail; otherwise the body is
  returned exactly when neither the declared nor the actual length exceeds the limit.\<close>

theorem bounded_body_exact:
  assumes "limit \<le> U64_MAX" and "rq_header rq (ascii ''content-length'') = Inr len"
  shows "read_bounded_body rq limit =
    (let chunks = (case rq_body rq of None \<Rightarrow> [] | Some c \<Rightarrow> c);
         declared = (case Option.bind len (parse_uint U64_MAX) of Some n \<Rightarrow> n > limit | None \<Rightarrow> False) in
     if \<not> list_all is_ok chunks then Inl BodyUnavailable
     else if declared \<or> length (chunk_bytes chunks) > limit then Inl BodyTooLarge
     else Inr (chunk_bytes chunks))"
  using assms read_chunks_exact [of limit "[]"] by (simp add: read_bounded_body_def Let_def split: option.splits)

theorem bounded_body_exact_witness:
  "read_bounded_body (internal_request [1, 2, 3]) 2 = Inl BodyTooLarge
   \<and> read_bounded_body (internal_request [1, 2, 3]) 3 = Inr [1, 2, 3]"
  using bounded_body_exact [of 2 "internal_request [1, 2, 3]" None]
    bounded_body_exact [of 3 "internal_request [1, 2, 3]" None]
  by (simp add: internal_request_def limit_defs)

lemma object_routes_effect:
  assumes "account_crates K" and "wf_db (uuids K) (db s)"
    and "route_account_request K J rq ap rp s = (x, s')"
  shows "wf_db (uuids K) (db s') \<and> account_row (db s') = account_row (db s) \<and>
    (contents (db s') \<noteq> contents (db s) \<longrightarrow> rq_method rq = PUT \<and> authorized_for K rq (db s) Publish) \<and>
    (\<forall>r. x = Inr r \<and> success r \<longrightarrow>
      (rq_method rq = PUT \<and> authorized_for K rq (db s) Publish \<or> rq_method rq = GET \<and> authorized_for K rq (db s) Download)) \<and>
    \<not> (authorized_for K rq (db s) Publish \<and> authorized_for K rq (db s) Download)"
proof -
  have e: "base64_engine (engine K)" using assms(1) by (simp add: account_crates_def)
  have unique: "bearer K h t \<Longrightarrow> bearer K h t' \<Longrightarrow> t = t'" for h t t'
    using base64_engine.encode_inject [OF e] by (auto simp: bearer_def token_text_def encode_base64_def)
  have disjoint: "\<not> (authorized_for K rq (db s) Publish \<and> authorized_for K rq (db s) Download)"
    using unique authenticate_scopes_disjoint account_of_wf [OF assms(2)] by (force simp: authorized_for_def)
  from assms(3,2) show ?thesis
  proof (cases rule: route_account_request_cases)
    case refused
    then show ?thesis using assms(2) disjoint by auto
  next
    case (allowed aid op s1)
    obtain token a where auth: "bearer K (rq_header rq) token" "account_of (db s) = Some a"
        "account_authenticate a (service_hash (sha256 K) token) (operation_scope op)"
      using authenticate_Inr [OF e assms(2) allowed(3)] by blast
    have s1: "ready_store (uuids K) s1" "schema_ready (db s1)"
      using account_of_ready [of "uuids K" s1 a] allowed(4) assms(2) auth(2) by auto
    have r: "authorized_for K rq (db s) (operation_scope op)" using auth by (auto simp: authorized_for_def)
    have "operation_scope op = Publish \<or> operation_scope op = Download" by (cases "operation_scope op") auto
    then show ?thesis
      using run_operation_effect [OF e s1 allowed(2), of J rq] operation_method [OF allowed(2)] r disjoint allowed(4,5)
      by (auto simp: ready_store_def)
  qed
qed

text \<open>C21: scopes are enforced. Whatever request reaches an account object through its record routes, the
  account is kept; the records change only on a \<open>PUT\<close> that carries the publish token of the account,
  a successful \<open>PUT\<close> carries it, and a successful \<open>GET\<close> carries the download token. No token
  authenticates for both.\<close>

theorem object_scope_separation:
  assumes "account_crates K" and "wf_db (uuids K) (db s)"
    and "route_account_request K J rq ap rp s = (x, s')"
  shows "wf_db (uuids K) (db s') \<and> account_row (db s') = account_row (db s) \<and>
    (contents (db s') \<noteq> contents (db s) \<longrightarrow> rq_method rq = PUT \<and> authorized_for K rq (db s) Publish) \<and>
    (\<forall>r. x = Inr r \<and> success r \<longrightarrow>
      (rq_method rq = PUT \<and> authorized_for K rq (db s) Publish \<or> rq_method rq = GET \<and> authorized_for K rq (db s) Download)) \<and>
    \<not> (authorized_for K rq (db s) Publish \<and> authorized_for K rq (db s) Download)"
  using assms by (rule object_routes_effect)

text \<open>A request for the witnesses: a download request without credentials.\<close>

definition sample_request :: "http_method \<Rightarrow> request" where
  "sample_request m = \<lparr>rq_method = m, rq_path = [], rq_header = (\<lambda>_. Inr None), rq_body = None, rq_cancel = Inr ()\<rparr>"

theorem object_scope_separation_witness:
  "\<exists>x s'. route_account_request sample_crates (sample_json JNull) (sample_request GET)
      (account_id_text rfc9562 (ob_account_id sample_owner)) None (sample_storage []) = (x, s')
    \<and> account_row (db s') = account_row (db (sample_storage []))"
proof -
  let ?r = "route_account_request sample_crates (sample_json JNull) (sample_request GET)
      (account_id_text rfc9562 (ob_account_id sample_owner)) None (sample_storage [])"
  have "wf_db (uuids sample_crates) (db (sample_storage []))"
    using sample_storage_ready [of "[]"] by (simp add: ready_store_def sample_crates_def)
  then have "account_row (db (snd ?r)) = account_row (db (sample_storage []))"
    using object_scope_separation [OF sample_crates_ok, of "sample_storage []" "sample_json JNull" "sample_request GET"
        "account_id_text rfc9562 (ob_account_id sample_owner)" None "fst ?r" "snd ?r"] by simp
  then show ?thesis by (metis prod.collapse)
qed

lemma put_request_success:
  assumes "put_record_request K J rq rid s = (Inr r, s')" and "success r"
  obtains body v outcome where "read_bounded_body rq MAX_API_BODY_BYTES = Inr body"
    and "envelope_parse_json (engine K) J body = Inr v" and "put_record rid v s = (Inr outcome, s')"
    and "r = mutation_success_response outcome"
  using assms
  by (auto simp: put_record_request_def success_def put_response_def mutation_error_response_def limit_defs
      split: sum.splits option.splits prod.splits BodyReadError.splits ApiError.splits StoreError.splits
        MutationError.splits)

lemma etag_value: "rs_headers (mutation_success_response outcome) (ascii ''etag'')
    = Some ([34] @ dec_text (outcome_revision outcome) @ [34])"
  by (cases outcome) (simp_all add: mutation_success_response_def etag_response_def set_header_def)

text \<open>A reader sees what was published. After a successful \<open>PUT\<close> of an envelope, a \<open>GET\<close> of that
  record answers 200 with the JSON of the same envelope and the entity tag that the \<open>PUT\<close> reported.\<close>

theorem put_then_get:
  assumes "account_crates K" and "ready_store u s" and "length rid = 16" and "faults s' = []"
    and "put_record_request K J rq rid s = (Inr r, s')" and "success r"
  shows "\<exists>body v n. read_bounded_body rq MAX_API_BODY_BYTES = Inr body \<and>
    envelope_parse_json (engine K) J body = Inr v \<and>
    get_record K J rid s' = (Inr (etag_response (json_response J STATUS_OK (envelope_json (engine K) v)) n), s') \<and>
    rs_headers r (ascii ''etag'') = Some ([34] @ dec_text n @ [34])"
proof -
  have e: "base64_engine (engine K)" using assms(1) by (simp add: account_crates_def)
  obtain body v outcome where b: "read_bounded_body rq MAX_API_BODY_BYTES = Inr body"
    and v: "envelope_parse_json (engine K) J body = Inr v" and p: "put_record rid v s = (Inr outcome, s')"
    and r: "r = mutation_success_response outcome"
    using assms(5,6) by (rule put_request_success)
  have wv: "wf_envelope v" using e v by (rule envelope_parse_wf)
  obtain q m where sp: "spec_put rid v (contents (db s)) = (q, m)" by (cases "spec_put rid v (contents (db s))")
  have m: "q = Inr outcome" "contents (db s') = m" using put_record_spec [OF assms(2,3) wv p sp] by auto
  have "m rid = Some (outcome_revision outcome, env_nonce v, env_ciphertext v)"
    using sp m(1) by (auto simp: spec_put_def split: option.splits if_splits)
  then have c: "contents (db s') rid = Some (outcome_revision outcome, env_nonce v, env_ciphertext v)"
    unfolding m(2) .
  have s': "ready_store u s'" using put_record_effect [OF assms(2,3) wv] p by simp
  have "reads (load_record rid) s' (Some (record_of (outcome_revision outcome, env_nonce v, env_ciphertext v)))"
    using reads_load_record [of u s' rid] s' c by (auto simp: ready_store_def wf_db_def)
  then have "load_record rid s' = (Inr (Some (record_of (outcome_revision outcome, env_nonce v, env_ciphertext v))), s')"
    using assms(4) by (simp add: reads_def)
  moreover have "into_envelope (record_of (outcome_revision outcome, env_nonce v, env_ciphertext v)) = (v, outcome_revision outcome)"
    using wv by (cases v) (simp add: into_envelope_def record_of_def wf_envelope_def)
  ultimately show ?thesis using b v r etag_value by (auto simp: get_record_def)
qed

definition sample_put :: request where
  "sample_put = \<lparr>rq_method = PUT, rq_path = [], rq_header = (\<lambda>_. Inr None),
     rq_body = Some [Inr (json_compact (envelope_json url_safe_no_pad sample_envelope))], rq_cancel = Inr ()\<rparr>"

abbreviation sample_envelope_json :: json_lib where
  "sample_envelope_json \<equiv> sample_json (envelope_json url_safe_no_pad sample_envelope)"

lemma sample_put_body:
  "read_bounded_body sample_put MAX_API_BODY_BYTES = Inr (json_compact (envelope_json url_safe_no_pad sample_envelope))"
  using envelope_compact_length [OF url_safe.base64_engine_axioms sample_envelope_ok]
  by (simp add: sample_put_def read_bounded_body_def Let_def) (simp add: limit_defs)

lemma sample_put_envelope:
  "envelope_parse_json (engine sample_crates) sample_envelope_json
     (json_compact (envelope_json url_safe_no_pad sample_envelope)) = Inr sample_envelope"
  using envelope_json_roundtrip [OF url_safe.base64_engine_axioms sample_envelope_ok sample_json_faithful]
  by (simp add: sample_crates_def sample_json_def)

lemma sample_put_succeeds:
  obtains r s' where "put_record_request sample_crates sample_envelope_json sample_put (replicate 16 5)
      (sample_storage []) = (Inr r, s')" and "success r" and "faults s' = []"
proof -
  have "wf_db rfc9562 (db (sample_storage []))" "account_row (db (sample_storage [])) \<noteq> None"
    using sample_storage_ready [of "[]"] by (simp_all add: ready_store_def)
  moreover have "fst (spec_put (replicate 16 5) sample_envelope (contents (db (sample_storage [])))) = Inr (Created 1)"
    by (simp add: sample_storage_empty spec_put_def limit_defs)
  moreover have "faults (sample_storage []) = []" by (simp add: sample_storage_def)
  ultimately obtain s' where "put_record (replicate 16 5) sample_envelope (sample_storage []) = (Inr (Created 1), s')"
      "faults s' = []"
    using put_record_result [OF _ _ _ sample_envelope_ok, of rfc9562 "sample_storage []" "replicate 16 5"]
    by (auto simp: put_result_def Let_def)
  moreover have "rq_header sample_put INTERNAL_OVERSIZED_BODY_HEADER = Inr None" by (simp add: sample_put_def)
  ultimately have "put_record_request sample_crates sample_envelope_json sample_put (replicate 16 5) (sample_storage [])
      = (Inr (mutation_success_response (Created 1)), s')"
    by (simp add: put_record_request_def sample_put_body sample_put_envelope put_response_def)
  moreover have "success (mutation_success_response (Created 1))"
    by (simp add: mutation_success_response_def success_def limit_defs)
  ultimately show thesis using \<open>faults s' = []\<close> by (rule that)
qed

theorem put_then_get_witness:
  "\<exists>v n s'. get_record sample_crates sample_envelope_json (replicate 16 5) s' =
     (Inr (etag_response (json_response sample_envelope_json STATUS_OK (envelope_json (engine sample_crates) v)) n), s')"
proof -
  obtain r s' where "put_record_request sample_crates sample_envelope_json sample_put (replicate 16 5)
      (sample_storage []) = (Inr r, s')" "success r" "faults s' = []"
    by (rule sample_put_succeeds)
  with put_then_get [OF sample_crates_ok sample_storage_ready, of "replicate 16 5" s' sample_envelope_json sample_put "[]" r]
  show ?thesis by auto
qed

end
