(* ===== verification/Worker_Public.thy ===== *)
theory Worker_Public
  imports Worker_Api
begin

text \<open>
  \<open>session-sync-worker/src/api.rs\<close>, \<open>issuance.rs\<close>, \<open>rate_limit.rs\<close> and \<open>lib.rs\<close>: the public Worker in
  front of the account objects. Its state is the map from object names to their storage; random draws,
  fresh UUIDs, the rate limiter and whether calls to account objects go through are inputs. The
  results: account creation never touches an existing account and hands out exactly the tokens it
  stored, it is always charged to a network address, and forwarding changes at most the records of
  the addressed account, with its publish token.
\<close>

section \<open>Issuing credentials\<close>

datatype IssuanceError = EntropyUnavailable

text \<open>The loop draws 64 random bytes until the two tokens hash differently; the draws are the list, a
  failing draw is \<open>None\<close>, and the result is \<open>None\<close> when the listed draws do not end the loop.\<close>

fun distinct_tokens :: "crates \<Rightarrow> bytes option list \<Rightarrow> (IssuanceError + bytes \<times> bytes) option" where
  "distinct_tokens K [] = None"
| "distinct_tokens K (None # _) = Some (Inl EntropyUnavailable)"
| "distinct_tokens K (Some bs # r) =
     (let publish = take 32 bs; download = drop 32 bs in
      if service_hash (sha256 K) publish \<noteq> service_hash (sha256 K) download
      then Some (Inr (publish, download)) else distinct_tokens K r)"

record IssuedAccount =
  issued_account_id :: bytes
  issued_publish_token :: bytes
  issued_download_token :: bytes

definition issue :: "crates \<Rightarrow> bytes \<Rightarrow> bytes option list \<Rightarrow> (IssuanceError + IssuedAccount) option" where
  "issue K uuid draws = map_option (\<lambda>r. bind_result r (\<lambda>(p, d).
     Inr \<lparr>issued_account_id = uuid, issued_publish_token = p, issued_download_token = d\<rparr>)) (distinct_tokens K draws)"

section \<open>Rate limiting\<close>

datatype ip_addr = IpV4 "u8 list" | IpV6 "u16 list"

definition ip_from_str :: "bytes \<Rightarrow> ip_addr option" where
  "ip_from_str s = (case read_ipv4_addr s of
     Some (ip, r) \<Rightarrow> if r = [] then Some (IpV4 ip) else None
   | None \<Rightarrow> map_option IpV6 (ipv6_from_str s))"

definition to_canonical :: "ip_addr \<Rightarrow> ip_addr" where
  "to_canonical ip = (case ip of
     IpV4 a \<Rightarrow> IpV4 a
   | IpV6 a \<Rightarrow> if ipv6_mapped a then IpV4 (concat (map to_be_bytes (drop 6 a))) else IpV6 a)"

definition account_creation_key :: "bytes option \<Rightarrow> bytes option" where
  "account_creation_key ip = Option.bind ip (\<lambda>s. map_option (\<lambda>a.
     ascii ''account-create:v1:'' @ (case to_canonical a of
       IpV4 a \<Rightarrow> ipv4_to_string a
     | IpV6 a \<Rightarrow> ipv6_to_string (take 4 a @ replicate 4 0))) (ip_from_str s))"

definition allow_account_creation :: "(bytes \<Rightarrow> unit + bool) \<Rightarrow> request \<Rightarrow> bool worker" where
  "allow_account_creation limiter rq =
     bind_result (rq_header rq (ascii ''cf-connecting-ip'')) (\<lambda>ip.
     bind_result (ok_or (account_creation_key ip) ()) limiter)"

section \<open>The public Worker\<close>

type_synonym objects = "bytes \<Rightarrow> storage"

text \<open>What becomes of a call to an account object: the platform gives no object to call, the call does not reach the object, the
  object answers, or it did its work and the answer is lost.\<close>

datatype stub_call = NoStub | CallLost | CallAnswered | AnswerLost

text \<open>One attempt of account creation: the fresh UUID, the random draws, and what becomes of the call to the
  account object.\<close>

record attempt =
  at_uuid :: bytes
  at_draws :: "bytes option list"
  at_fetch :: stub_call

definition initialize_remote_account ::
  "crates \<Rightarrow> json_lib \<Rightarrow> (http_method \<Rightarrow> bytes \<Rightarrow> route) \<Rightarrow> stub_call \<Rightarrow> bytes \<Rightarrow> StoredAccount \<Rightarrow> objects
     \<Rightarrow> InitializeOutcome worker \<times> objects" where
  "initialize_remote_account K J R fetch aid account w =
     (if fetch = NoStub \<or> fetch = CallLost then (Inl (), w)
      else let name = account_id_text (uuids K) aid in
        case account_object_fetch K J R (internal_request (account_encode account)) (w name) of (r, s') \<Rightarrow>
          (if fetch = AnswerLost then Inl ()
           else if rs_status r = STATUS_NO_CONTENT then Inr InitializeCreated
           else if rs_status r = STATUS_CONFLICT then Inr AlreadyExists else Inl (), w(name := s')))"

text \<open>The outer \<open>None\<close> is an issuance loop that the listed draws do not end; \<open>Inl\<close> of the expectation
  on the response is a panic, which the runtime reports as a failure like any other.\<close>

fun create_account_loop ::
  "crates \<Rightarrow> json_lib \<Rightarrow> (http_method \<Rightarrow> bytes \<Rightarrow> route) \<Rightarrow> nat \<Rightarrow> attempt list \<Rightarrow> objects
     \<Rightarrow> (response worker \<times> objects) option" where
  "create_account_loop K J R 0 ats w = Some (Inr (unavailable_response J), w)"
| "create_account_loop K J R (Suc n) [] w = None"
| "create_account_loop K J R (Suc n) (t # ats) w = (case issue K (at_uuid t) (at_draws t) of
     None \<Rightarrow> None
   | Some (Inl _) \<Rightarrow> Some (Inr (unavailable_response J), w)
   | Some (Inr i) \<Rightarrow>
       (case stored_account_new (uuids K) (issued_account_id i)
           (service_hash (sha256 K) (issued_publish_token i)) (service_hash (sha256 K) (issued_download_token i)) of
          Inl _ \<Rightarrow> Some (Inr (unavailable_response J), w)
        | Inr stored \<Rightarrow>
            (case initialize_remote_account K J R (at_fetch t) (issued_account_id i) stored w of
               (Inl _, w') \<Rightarrow> Some (Inl (), w')
             | (Inr AlreadyExists, w') \<Rightarrow> create_account_loop K J R n ats w'
             | (Inr InitializeCreated, w') \<Rightarrow>
                 (case new_create_account_response K (issued_account_id i) (issued_publish_token i)
                     (issued_download_token i) of
                    Inl _ \<Rightarrow> Some (Inl (), w')
                  | Inr r \<Rightarrow> Some (Inr (json_response J STATUS_CREATED (create_account_response_json K r)), w')))))"

definition create_account ::
  "crates \<Rightarrow> json_lib \<Rightarrow> (http_method \<Rightarrow> bytes \<Rightarrow> route) \<Rightarrow> attempt list \<Rightarrow> objects
     \<Rightarrow> (response worker \<times> objects) option" where
  "create_account K J R ats w = create_account_loop K J R MAX_ACCOUNT_ISSUANCE_ATTEMPTS ats w"

definition handle_health :: "json_lib \<Rightarrow> request \<Rightarrow> response worker" where
  "handle_health J rq =
     (if rq_method rq \<noteq> GET then Inr (method_not_allowed_response J (ascii ''GET''))
      else Inr (empty_response STATUS_NO_CONTENT))"

definition handle_accounts ::
  "crates \<Rightarrow> json_lib \<Rightarrow> (http_method \<Rightarrow> bytes \<Rightarrow> route) \<Rightarrow> (bytes \<Rightarrow> unit + bool) \<Rightarrow> attempt list \<Rightarrow> request \<Rightarrow> objects
     \<Rightarrow> (response worker \<times> objects) option" where
  "handle_accounts K J R limiter ats rq w =
     (if rq_method rq \<noteq> POST then Some (Inr (method_not_allowed_response J (ascii ''POST'')), w)
      else case allow_account_creation limiter rq of
        Inr False \<Rightarrow> Some (bind_result (discard_request_body rq) (\<lambda>_.
          Inr (set_header (error_response J STATUS_TOO_MANY_REQUESTS CodeRateLimited)
            (ascii ''retry-after'') (ascii ''60''))), w)
      | Inl _ \<Rightarrow> Some (bind_result (discard_request_body rq) (\<lambda>_. Inr (unavailable_response J)), w)
      | Inr True \<Rightarrow> (case read_bounded_body rq MAX_API_BODY_BYTES of
          Inl BodyTooLarge \<Rightarrow> Some (Inr (error_response J STATUS_PAYLOAD_TOO_LARGE CodeTooLarge), w)
        | Inl BodyUnavailable \<Rightarrow> Some (Inr (unavailable_response J), w)
        | Inr body \<Rightarrow>
            if body \<noteq> [] then Some (Inr (error_response J STATUS_BAD_REQUEST CodeInvalidRequest), w)
            else create_account K J R ats w))"

definition selected_headers :: "request \<Rightarrow> bytes list \<Rightarrow> (bytes \<Rightarrow> bytes option) worker" where
  "selected_headers rq names =
     fold (\<lambda>name acc. bind_result acc (\<lambda>h. bind_result (rq_header rq name) (\<lambda>v.
       Inr (case v of None \<Rightarrow> h | Some x \<Rightarrow> h(name \<mapsto> x))))) names (Inr Map.empty)"

definition forwarded_get_request :: "request \<Rightarrow> request worker" where
  "forwarded_get_request rq = bind_result (selected_headers rq [ascii ''authorization'']) (\<lambda>h.
     Inr \<lparr>rq_method = GET, rq_path = rq_path rq, rq_header = (\<lambda>n. Inr (h n)), rq_body = None, rq_cancel = Inr ()\<rparr>)"

definition buffered_put_request :: "request \<Rightarrow> request worker" where
  "buffered_put_request rq =
     bind_result (case read_bounded_body rq MAX_API_BODY_BYTES of
         Inr body \<Rightarrow> Inr (body, False)
       | Inl BodyTooLarge \<Rightarrow> Inr ([], True)
       | Inl BodyUnavailable \<Rightarrow> Inl ()) (\<lambda>(body, too_large).
     bind_result (selected_headers rq [ascii ''authorization'']) (\<lambda>h.
     let h' = (if too_large then h(INTERNAL_OVERSIZED_BODY_HEADER \<mapsto> ascii ''1'') else h) in
     Inr \<lparr>rq_method = PUT, rq_path = rq_path rq, rq_header = (\<lambda>n. Inr (h' n)), rq_body = Some [Inr body],
       rq_cancel = Inr ()\<rparr>))"

definition forward_account_request ::
  "crates \<Rightarrow> json_lib \<Rightarrow> (http_method \<Rightarrow> bytes \<Rightarrow> route) \<Rightarrow> stub_call \<Rightarrow> request \<Rightarrow> bytes \<Rightarrow> objects
     \<Rightarrow> response worker \<times> objects" where
  "forward_account_request K J R fetch rq aid w =
     (case (if rq_method rq = GET then forwarded_get_request rq else buffered_put_request rq) of
        Inl _ \<Rightarrow> (Inr (unavailable_response J), w)
      | Inr rq' \<Rightarrow>
          if fetch = NoStub then (Inl (), w)
          else if fetch = CallLost then (Inr (unavailable_response J), w)
          else let name = account_id_text (uuids K) aid in
            case account_object_fetch K J R rq' (w name) of (r, s') \<Rightarrow>
              (Inr (if fetch = AnswerLost then unavailable_response J else r), w(name := s')))"

definition route_public_account_request ::
  "crates \<Rightarrow> json_lib \<Rightarrow> (http_method \<Rightarrow> bytes \<Rightarrow> route) \<Rightarrow> stub_call \<Rightarrow> request \<Rightarrow> bytes \<Rightarrow> bytes option \<Rightarrow> objects
     \<Rightarrow> response worker \<times> objects" where
  "route_public_account_request K J R fetch rq account_param record_param w =
     (if account_param = [] then (Inr (error_response J STATUS_NOT_FOUND CodeInvalidRequest), w)
      else let record_route = (record_param \<noteq> None) in
        if \<not> (if record_route then rq_method rq = GET \<or> rq_method rq = PUT else rq_method rq = GET)
        then (Inr (method_not_allowed_response J (if record_route then ascii ''GET, PUT'' else ascii ''GET'')), w)
        else case parse_account_id (uuids K) account_param of
          Inl _ \<Rightarrow> (Inr (error_response J STATUS_BAD_REQUEST CodeInvalidRequest), w)
        | Inr aid \<Rightarrow>
            if (case record_param of None \<Rightarrow> False | Some r \<Rightarrow> \<not> is_ok (parse_record_id (engine K) r))
            then (Inr (error_response J STATUS_BAD_REQUEST CodeInvalidRequest), w)
            else forward_account_request K J R fetch rq aid w)"

definition handle_public_request ::
  "crates \<Rightarrow> json_lib \<Rightarrow> (http_method \<Rightarrow> bytes \<Rightarrow> route) \<Rightarrow> (http_method \<Rightarrow> bytes \<Rightarrow> route) \<Rightarrow> (bytes \<Rightarrow> unit + bool)
     \<Rightarrow> attempt list \<Rightarrow> stub_call \<Rightarrow> request \<Rightarrow> objects \<Rightarrow> (response worker \<times> objects) option" where
  "handle_public_request K J P R limiter ats fetch rq w = (case P (rq_method rq) (rq_path rq) of
     RouteHealth \<Rightarrow> Some (handle_health J rq, w)
   | RouteAccounts \<Rightarrow> handle_accounts K J R limiter ats rq w
   | RouteIndex a \<Rightarrow> Some (route_public_account_request K J R fetch rq a None w)
   | RouteRecord a r \<Rightarrow> Some (route_public_account_request K J R fetch rq a (Some r) w)
   | RouterReply r \<Rightarrow> Some (Inr r, w)
   | _ \<Rightarrow> Some (Inr (error_response J STATUS_NOT_FOUND CodeInvalidRequest), w))"

definition worker_fetch ::
  "crates \<Rightarrow> json_lib \<Rightarrow> (http_method \<Rightarrow> bytes \<Rightarrow> route) \<Rightarrow> (http_method \<Rightarrow> bytes \<Rightarrow> route) \<Rightarrow> (bytes \<Rightarrow> unit + bool)
     \<Rightarrow> attempt list \<Rightarrow> stub_call \<Rightarrow> request \<Rightarrow> objects \<Rightarrow> (response \<times> objects) option" where
  "worker_fetch K J P R limiter ats fetch rq w =
     map_option (\<lambda>(r, w'). (case r of Inr x \<Rightarrow> x | Inl _ \<Rightarrow> unavailable_response J, w'))
       (handle_public_request K J P R limiter ats fetch rq w)"


section \<open>Issuance\<close>

lemma distinct_tokens_Inr:
  "distinct_tokens K draws = Some (Inr (p, d)) \<Longrightarrow> service_hash (sha256 K) p \<noteq> service_hash (sha256 K) d \<and>
     (\<exists>bs. Some bs \<in> set draws \<and> p = take 32 bs \<and> d = drop 32 bs)"
  by (induction K draws rule: distinct_tokens.induct) (auto simp: Let_def split: if_splits)

lemma issue_Inr:
  assumes "issue K uuid draws = Some (Inr i)"
  shows "issued_account_id i = uuid"
    and "service_hash (sha256 K) (issued_publish_token i) \<noteq> service_hash (sha256 K) (issued_download_token i)"
  using assms distinct_tokens_Inr by (auto simp: issue_def)

section \<open>Creating accounts\<close>

definition router_initializes :: "(http_method \<Rightarrow> bytes \<Rightarrow> route) \<Rightarrow> bool" where
  "router_initializes R \<longleftrightarrow> R POST INTERNAL_INITIALIZE_PATH = RouteInitialize"

lemma initialize_created:
  assumes "wf_account u a" and "initialize a s = (Inr InitializeCreated, s')"
  shows "account_row (db s) = None \<and> account_of (db s') = Some a"
proof -
  let ?d1 = "(db s)\<lparr>schema_ready := True\<rparr>"
  have ins: "insert_account (sa_account_id a) (sa_publish_hash a) (sa_download_hash a) ?d1
      = (Inr (if account_row (db s) = None then [[SqlString (dec_text 1)]] else []), with_account a ?d1)"
    using insert_account_row [OF assms(1), of ?d1] by simp
  show ?thesis
    using assms(2)
    by (auto simp: initialize_def initialize_schema_def bind_store_def lift_store_def exec_sql_def create_tables_def
        ins Let_def account_of_def with_account_def split: option.splits sum.splits prod.splits if_splits)
qed

lemma internal_body: "length bs \<le> 80 \<Longrightarrow> read_bounded_body (internal_request bs) ENCODED_ACCOUNT_BYTES = Inr bs"
  by (simp add: read_bounded_body_def internal_request_def limit_defs)

lemma initialize_remote:
  assumes "router_initializes R" and "wf_account (uuids K) a"
  shows "initialize_remote_account K J R CallAnswered aid a w =
    (case initialize a (w (account_id_text (uuids K) aid)) of (r, s') \<Rightarrow>
      (case r of Inr out \<Rightarrow> Inr out | Inl _ \<Rightarrow> Inl (), w(account_id_text (uuids K) aid := s')))"
proof -
  let ?rq = "internal_request (account_encode a)"
  have body: "read_bounded_body ?rq ENCODED_ACCOUNT_BYTES = Inr (account_encode a)"
    using length_account_encode [OF assms(2)] by (simp add: internal_body)
  have dec: "account_decode (uuids K) (account_encode a) = Inr a" using assms(2) by (simp add: account_decode_iff)
  have route: "R (rq_method ?rq) (rq_path ?rq) = RouteInitialize"
    using assms(1) by (simp add: internal_request_def router_initializes_def)
  have "account_object_fetch K J R ?rq s =
      ((case fst (initialize a s) of Inr InitializeCreated \<Rightarrow> empty_response STATUS_NO_CONTENT
        | Inr AlreadyExists \<Rightarrow> empty_response STATUS_CONFLICT | Inl _ \<Rightarrow> unavailable_response J), snd (initialize a s))" for s
    by (auto simp: account_object_fetch_def handle_account_request_def route initialize_account_def body dec
        split: sum.splits prod.splits InitializeOutcome.splits)
  then show ?thesis
    by (auto simp: initialize_remote_account_def Let_def case_prod_unfold limit_defs
        split: sum.splits InitializeOutcome.splits)
qed

lemma initialize_remote_effect:
  assumes R: "router_initializes R" and a: "wf_account (uuids K) a" and w: "\<forall>n. wf_db (uuids K) (db (w n))"
    and q: "initialize_remote_account K J R fetch aid a w = (q, w')"
  shows "(\<forall>n. wf_db (uuids K) (db (w' n)) \<and> contents (db (w' n)) = contents (db (w n)) \<and>
      (account_row (db (w n)) \<noteq> None \<longrightarrow> account_row (db (w' n)) = account_row (db (w n))))"
    and "q = Inr InitializeCreated \<Longrightarrow> account_of (db (w (account_id_text (uuids K) aid))) = None \<and>
      account_of (db (w' (account_id_text (uuids K) aid))) = Some a"
proof -
  let ?n = "account_id_text (uuids K) aid"
  have w': "w' = w \<and> q = Inl () \<or> w' = w(?n := snd (initialize a (w ?n))) \<and>
      (q = Inl () \<or> q = (case fst (initialize a (w ?n)) of Inr out \<Rightarrow> Inr out | Inl _ \<Rightarrow> Inl ()))"
    using q initialize_remote [OF R a, of J aid w]
    by (cases fetch) (auto simp: initialize_remote_account_def case_prod_unfold Let_def)
  then show "\<forall>n. wf_db (uuids K) (db (w' n)) \<and> contents (db (w' n)) = contents (db (w n)) \<and>
      (account_row (db (w n)) \<noteq> None \<longrightarrow> account_row (db (w' n)) = account_row (db (w n)))"
    using initialize_keeps [OF _ a] w by auto
  assume "q = Inr InitializeCreated"
  then have "initialize a (w ?n) = (Inr InitializeCreated, w' ?n)"
    using w' by (cases "initialize a (w ?n)") (auto split: sum.splits)
  then show "account_of (db (w ?n)) = None \<and> account_of (db (w' ?n)) = Some a"
    using initialize_created [OF a] by (auto simp: account_of_def)
qed

lemma create_account_first:
  assumes R: "router_initializes R" and a: "wf_account (uuids K) a"
    and i: "issue K (at_uuid t) (at_draws t) = Some (Inr i)"
    and st: "stored_account_new (uuids K) (issued_account_id i)
      (service_hash (sha256 K) (issued_publish_token i)) (service_hash (sha256 K) (issued_download_token i)) = Inr a"
    and t: "at_fetch t = CallAnswered" and w: "db (w (account_id_text (uuids K) (issued_account_id i))) = empty_db"
      "faults (w (account_id_text (uuids K) (issued_account_id i))) = []"
  shows "\<exists>w' r. create_account K J R (t # ats) w = Some (Inr (json_response J STATUS_CREATED r), w')"
proof -
  have "initialize a (w (account_id_text (uuids K) (issued_account_id i)))
      = (Inr InitializeCreated, w (account_id_text (uuids K) (issued_account_id i))\<lparr>db := with_account a empty_db\<rparr>)"
    using initialize_healthy [OF a w(2)] w(1) by (simp add: empty_db_def)
  moreover have "\<exists>r. new_create_account_response K (issued_account_id i) (issued_publish_token i) (issued_download_token i) = Inr r"
    using st by (auto simp: new_create_account_response_def stored_account_new_Inr)
  ultimately show ?thesis
    using i st t initialize_remote [OF R a, of J "issued_account_id i" w]
    by (auto simp: create_account_def limit_defs numeral_eq_Suc)
qed

definition accounts_kept :: "objects \<Rightarrow> objects \<Rightarrow> bool" where
  "accounts_kept w w' \<longleftrightarrow> (\<forall>n. contents (db (w' n)) = contents (db (w n)) \<and>
     (account_row (db (w n)) \<noteq> None \<longrightarrow> account_row (db (w' n)) = account_row (db (w n))))"

lemma accounts_kept_trans: "accounts_kept w w1 \<Longrightarrow> accounts_kept w1 w2 \<Longrightarrow> accounts_kept w w2"
  by (simp add: accounts_kept_def)

definition account_issued :: "crates \<Rightarrow> json_lib \<Rightarrow> objects \<Rightarrow> objects \<Rightarrow> response \<Rightarrow> bool" where
  "account_issued K J w w' r \<longleftrightarrow> (\<exists>aid p d.
     service_hash (sha256 K) p \<noteq> service_hash (sha256 K) d \<and> is_uuid_v7 (uuids K) aid \<and>
     r = json_response J STATUS_CREATED (create_account_response_json K
       \<lparr>car_account_id = aid, car_publish_api_token = p, car_download_api_token = d\<rparr>) \<and>
     account_of (db (w (account_id_text (uuids K) aid))) = None \<and>
     account_of (db (w' (account_id_text (uuids K) aid))) = Some \<lparr>sa_account_id = aid,
       sa_publish_hash = service_hash (sha256 K) p, sa_download_hash = service_hash (sha256 K) d\<rparr>)"

lemma account_issued_before:
  assumes kept: "accounts_kept w w1" and "account_issued K J w1 w' r"
  shows "account_issued K J w w' r"
proof -
  have "account_of (db (w n)) = None" if "account_of (db (w1 n)) = None" for n
  proof -
    have "account_row (db (w1 n)) = None" using that by (simp add: account_of_def)
    then have "account_row (db (w n)) = None" using kept unfolding accounts_kept_def by metis
    then show ?thesis by (simp add: account_of_def)
  qed
  then show ?thesis using assms(2) unfolding account_issued_def by blast
qed

lemma stored_account_wf:
  assumes "account_crates K" and "length aid = 16"
    and "stored_account_new (uuids K) aid (service_hash (sha256 K) p) (service_hash (sha256 K) d) = Inr a"
  shows "wf_account (uuids K) a"
  using assms by (auto simp: stored_account_new_Inr wf_account_def account_crates_def service_hash_def domain_hash_def)

lemma create_account_loop_effect:
  assumes K: "account_crates K" and R: "router_initializes R" and w: "\<forall>n. wf_db (uuids K) (db (w n))"
    and ats: "\<forall>t \<in> set ats. length (at_uuid t) = 16"
    and run: "create_account_loop K J R n ats w = Some (x, w')"
  shows "accounts_kept w w' \<and> (\<forall>r. x = Inr r \<and> rs_status r = STATUS_CREATED \<longrightarrow> account_issued K J w w' r)"
  using K R w ats run
proof (induction K J R n ats w rule: create_account_loop.induct)
  case (1 K J R ats w)
  then show ?case by (auto simp: accounts_kept_def limit_defs)
next
  case (2 K J R n w)
  then show ?case by simp
next
  case (3 K J R n t ats w)
  let ?issued = "issue K (at_uuid t) (at_draws t)"
  consider (no) "x = Inr (unavailable_response J)" "w' = w"
    | (yes) i a where "?issued = Some (Inr i)"
      "stored_account_new (uuids K) (issued_account_id i) (service_hash (sha256 K) (issued_publish_token i))
         (service_hash (sha256 K) (issued_download_token i)) = Inr a"
    using "3.prems"(5) by (auto split: option.splits sum.splits)
  then show ?case
  proof cases
    case no
    then show ?thesis by (auto simp: accounts_kept_def limit_defs)
  next
    case (yes i a)
    obtain q w1 where q: "initialize_remote_account K J R (at_fetch t) (issued_account_id i) a w = (q, w1)"
      by (cases "initialize_remote_account K J R (at_fetch t) (issued_account_id i) a w")
    have len: "length (issued_account_id i) = 16" using issue_Inr(1) [OF yes(1)] "3.prems"(4) by simp
    have a: "wf_account (uuids K) a" using stored_account_wf [OF "3.prems"(1) len yes(2)] .
    note eff = initialize_remote_effect [OF "3.prems"(2) a "3.prems"(3) q]
    have kept: "accounts_kept w w1" and wf1: "\<forall>n. wf_db (uuids K) (db (w1 n))"
      using eff(1) by (auto simp: accounts_kept_def)
    consider (err) "q = Inl ()" | (again) "q = Inr AlreadyExists" | (created) "q = Inr InitializeCreated"
      by (metis InitializeOutcome.exhaust old.unit.exhaust sum.exhaust)
    then show ?thesis
    proof cases
      case err
      then show ?thesis using "3.prems"(5) yes q kept by auto
    next
      case again
      then have run': "create_account_loop K J R n ats w1 = Some (x, w')" using "3.prems"(5) yes q by simp
      then have ih: "accounts_kept w1 w' \<and> (\<forall>r. x = Inr r \<and> rs_status r = STATUS_CREATED \<longrightarrow> account_issued K J w1 w' r)"
        using "3.IH" [OF yes(1) refl yes(2) q [symmetric] again refl "3.prems"(1,2) wf1] "3.prems"(4) by simp
      moreover have "account_issued K J w1 w' r \<Longrightarrow> account_issued K J w w' r" for r
        by (rule account_issued_before [OF kept])
      ultimately show ?thesis using accounts_kept_trans [OF kept] by blast
    next
      case created
      have hashes: "is_uuid_v7 (uuids K) (issued_account_id i)"
        and sa: "a = \<lparr>sa_account_id = issued_account_id i, sa_publish_hash = service_hash (sha256 K) (issued_publish_token i),
          sa_download_hash = service_hash (sha256 K) (issued_download_token i)\<rparr>"
        using yes(2) by (simp_all add: stored_account_new_Inr)
      then have new: "new_create_account_response K (issued_account_id i) (issued_publish_token i) (issued_download_token i)
          = Inr \<lparr>car_account_id = issued_account_id i, car_publish_api_token = issued_publish_token i,
            car_download_api_token = issued_download_token i\<rparr>"
        using issue_Inr(2) [OF yes(1)] by (simp add: new_create_account_response_def)
      then have "w' = w1" "x = Inr (json_response J STATUS_CREATED (create_account_response_json K
          \<lparr>car_account_id = issued_account_id i, car_publish_api_token = issued_publish_token i,
            car_download_api_token = issued_download_token i\<rparr>))"
        using "3.prems"(5) yes q created by auto
      then show ?thesis
        using kept eff(2) [OF created] hashes sa issue_Inr(2) [OF yes(1)] by (auto simp: account_issued_def)
    qed
  qed
qed

section \<open>Forwarding\<close>

definition initializes_on_post :: "(http_method \<Rightarrow> bytes \<Rightarrow> route) \<Rightarrow> bool" where
  "initializes_on_post R \<longleftrightarrow> (\<forall>m p. R m p = RouteInitialize \<longrightarrow> m = POST)"

lemma forwarded_request:
  assumes "(if rq_method rq = GET then forwarded_get_request rq else buffered_put_request rq) = Inr rq'"
    and "rq_method rq = GET \<or> rq_method rq = PUT"
  shows "rq_method rq' = rq_method rq \<and> rq_header rq' (ascii ''authorization'') = rq_header rq (ascii ''authorization'')"
proof -
  have "INTERNAL_OVERSIZED_BODY_HEADER \<noteq> ascii ''authorization''"
    by (simp add: INTERNAL_OVERSIZED_BODY_HEADER_def byte_simps)
  then show ?thesis
    using assms by (auto simp: forwarded_get_request_def buffered_put_request_def selected_headers_def Let_def
        split: if_splits sum.splits BodyReadError.splits option.splits)
qed

lemma object_fetch_effect:
  assumes K: "account_crates K" and R: "initializes_on_post R" and s: "wf_db (uuids K) (db s)"
    and m: "rq_method rq = GET \<or> rq_method rq = PUT" and f: "account_object_fetch K J R rq s = (r, s')"
  shows "wf_db (uuids K) (db s') \<and> account_row (db s') = account_row (db s) \<and>
    (contents (db s') \<noteq> contents (db s) \<longrightarrow> rq_method rq = PUT \<and> authorized_for K rq (db s) Publish)"
proof -
  have "R (rq_method rq) (rq_path rq) \<noteq> RouteInitialize" using R m by (auto simp: initializes_on_post_def)
  then consider "db s' = db s" | ap rp x where "route_account_request K J rq ap rp s = (x, s')"
    using f by (auto simp: account_object_fetch_def handle_account_request_def split: route.splits prod.splits sum.splits)
  then show ?thesis
  proof cases
    case 1
    then show ?thesis using s by simp
  next
    case 2
    then show ?thesis using object_routes_effect [OF K s 2] by blast
  qed
qed

section \<open>Properties\<close>

text \<open>C23: creating an account never touches an existing one. Whatever the attempts meet, every account and
  all records of all objects are kept; and when the Worker answers 201, the answer names a UUIDv7
  account that did not exist before, whose object now stores exactly the hashes of the two tokens in
  the answer, and these hashes differ.\<close>

theorem create_account_safe:
  assumes "account_crates K" and "router_initializes R" and "\<forall>n. wf_db (uuids K) (db (w n))"
    and "\<forall>t \<in> set ats. length (at_uuid t) = 16" and "create_account K J R ats w = Some (x, w')"
  shows "accounts_kept w w' \<and> (\<forall>r. x = Inr r \<and> rs_status r = STATUS_CREATED \<longrightarrow> account_issued K J w w' r)"
  using create_account_loop_effect [OF assms(1-4)] assms(5) by (simp add: create_account_def)

definition sample_router :: "http_method \<Rightarrow> bytes \<Rightarrow> route" where
  "sample_router m p = (if m = POST \<and> p = INTERNAL_INITIALIZE_PATH then RouteInitialize else RouteIndex p)"

definition sample_attempt :: attempt where
  "sample_attempt = \<lparr>at_uuid = ob_account_id sample_owner, at_draws = [Some (replicate 32 1 @ replicate 32 2)], at_fetch = CallAnswered\<rparr>"

definition empty_objects :: objects where
  "empty_objects n = \<lparr>db = empty_db, faults = []\<rparr>"

lemma sample_router_initializes: "router_initializes sample_router" "initializes_on_post sample_router"
  by (auto simp: router_initializes_def initializes_on_post_def sample_router_def)

lemma sample_issue:
  "issue sample_crates (at_uuid sample_attempt) (at_draws sample_attempt) = Some (Inr
     \<lparr>issued_account_id = ob_account_id sample_owner, issued_publish_token = ob_publish_api_token sample_owner,
       issued_download_token = ob_download_api_token sample_owner\<rparr>)"
  using sample_owner_ok by (simp add: wf_owner_def issue_def) (simp add: sample_attempt_def sample_owner_def)

lemma sample_attempts_ok:
  "\<forall>n. wf_db (uuids sample_crates) (db (empty_objects n))" "\<forall>t \<in> set [sample_attempt]. length (at_uuid t) = 16"
  by (simp_all add: empty_objects_def wf_empty_db sample_attempt_def sample_owner_def)

lemma sample_create_runs:
  obtains j w' where "create_account sample_crates (sample_json JNull) sample_router [sample_attempt] empty_objects
      = Some (Inr (json_response (sample_json JNull) STATUS_CREATED j), w')"
proof -
  have "is_uuid_v7 (uuids sample_crates) (ob_account_id sample_owner)"
    "service_hash (sha256 sample_crates) (ob_publish_api_token sample_owner)
      \<noteq> service_hash (sha256 sample_crates) (ob_download_api_token sample_owner)"
    using sample_owner_ok by (simp_all add: wf_owner_def)
  then obtain a where st: "stored_account_new (uuids sample_crates) (ob_account_id sample_owner)
      (service_hash (sha256 sample_crates) (ob_publish_api_token sample_owner))
      (service_hash (sha256 sample_crates) (ob_download_api_token sample_owner)) = Inr a"
    by (simp add: stored_account_new_Inr)
  have "wf_account (uuids sample_crates) a"
    using stored_account_wf [OF sample_crates_ok _ st] sample_attempts_ok(2) by (simp add: sample_attempt_def)
  then show thesis
    using that create_account_first [OF sample_router_initializes(1) _ sample_issue, of a empty_objects "sample_json JNull" "[]"] st
    by (auto simp: empty_objects_def sample_attempt_def)
qed

theorem create_account_safe_witness:
  "\<exists>r w'. create_account sample_crates (sample_json JNull) sample_router [sample_attempt] empty_objects = Some (Inr r, w')
     \<and> rs_status r = STATUS_CREATED \<and> account_issued sample_crates (sample_json JNull) empty_objects w' r"
proof -
  obtain j w' where run: "create_account sample_crates (sample_json JNull) sample_router [sample_attempt] empty_objects
      = Some (Inr (json_response (sample_json JNull) STATUS_CREATED j), w')" by (rule sample_create_runs)
  then show ?thesis
    using create_account_safe [OF sample_crates_ok sample_router_initializes(1) sample_attempts_ok run] by auto
qed

text \<open>C24: account creation is always charged. An object changes on the account-creation route only for a
  \<open>POST\<close> whose connecting address gives a limiter key for which the limiter answered that the attempt
  is allowed; a missing or malformed address, a refusal and a limiter failure all create nothing.\<close>

theorem creation_is_charged:
  assumes "handle_accounts K J R limiter ats rq w = Some (x, w')" and "w' \<noteq> w"
  shows "rq_method rq = POST \<and> (\<exists>ip limiter_key. rq_header rq (ascii ''cf-connecting-ip'') = Inr (Some ip) \<and>
    account_creation_key (Some ip) = Some limiter_key \<and> limiter limiter_key = Inr True)"
proof -
  have "rq_method rq = POST" "allow_account_creation limiter rq = Inr True"
    using assms by (auto simp: handle_accounts_def split: if_splits sum.splits bool.splits)
  then show ?thesis
    by (auto simp: allow_account_creation_def account_creation_key_def Option.bind_eq_Some_conv)
qed

definition sample_post :: request where
  "sample_post = \<lparr>rq_method = POST, rq_path = [],
     rq_header = (\<lambda>n. Inr (if n = ascii ''cf-connecting-ip'' then Some (ascii ''::1'') else None)),
     rq_body = None, rq_cancel = Inr ()\<rparr>"

lemma sample_key: "\<exists>limiter_key. account_creation_key (Some (ascii ''::1'')) = Some limiter_key"
proof -
  have "read_ipv4_addr (ascii ''::1'') = None"
    by (simp add: read_ipv4_addr_def read_separator_def read_number_def to_digit_def is_ascii_digit_def
        is_ascii_lowercase_def is_ascii_uppercase_def Let_def byte_simps)
  then show ?thesis by (simp add: account_creation_key_def ip_from_str_def sample_ipv6)
qed

theorem creation_is_charged_witness:
  "\<exists>ip limiter_key. rq_header sample_post (ascii ''cf-connecting-ip'') = Inr (Some ip)
     \<and> account_creation_key (Some ip) = Some limiter_key"
proof -
  obtain j w' where run: "create_account sample_crates (sample_json JNull) sample_router [sample_attempt] empty_objects
      = Some (Inr (json_response (sample_json JNull) STATUS_CREATED j), w')" by (rule sample_create_runs)
  let ?r = "json_response (sample_json JNull) STATUS_CREATED j"
  have issued: "account_issued sample_crates (sample_json JNull) empty_objects w' ?r"
    using create_account_loop_effect [OF sample_crates_ok sample_router_initializes(1) sample_attempts_ok] run
    by (simp add: create_account_def)
  have "allow_account_creation (\<lambda>_. Inr True) sample_post = Inr True"
    using sample_key by (auto simp: allow_account_creation_def sample_post_def)
  moreover have "read_bounded_body sample_post MAX_API_BODY_BYTES = Inr []"
    by (simp add: read_bounded_body_def sample_post_def byte_simps)
  moreover have "rq_method sample_post = POST" by (simp add: sample_post_def)
  ultimately have "handle_accounts sample_crates (sample_json JNull) sample_router (\<lambda>_. Inr True) [sample_attempt]
      sample_post empty_objects = Some (Inr ?r, w')"
    using run by (simp add: handle_accounts_def)
  moreover have "w' \<noteq> empty_objects" using issued by (auto simp: account_issued_def)
  ultimately show ?thesis using creation_is_charged by blast
qed

text \<open>C25: forwarding is confined. A request on the record routes of the public Worker keeps every account,
  and changes the records of at most the object it names in its path, only when it is a \<open>PUT\<close> that
  carries that account's publish token.\<close>

theorem forwarding_confined:
  assumes "account_crates K" and "initializes_on_post R" and "\<forall>n. wf_db (uuids K) (db (w n))"
    and "route_public_account_request K J R fetch rq ap rp w = (x, w')"
  shows "wf_db (uuids K) (db (w' n)) \<and> account_row (db (w' n)) = account_row (db (w n)) \<and>
    (contents (db (w' n)) \<noteq> contents (db (w n)) \<longrightarrow>
      n = ap \<and> rq_method rq = PUT \<and> authorized_for K rq (db (w n)) Publish)"
proof (cases "w' = w")
  case True
  then show ?thesis using assms(3) by simp
next
  case False
  then obtain aid where m: "rq_method rq = GET \<or> rq_method rq = PUT" and aid: "parse_account_id (uuids K) ap = Inr aid"
    and fwd: "forward_account_request K J R fetch rq aid w = (x, w')"
    using assms(4) by (auto simp: route_public_account_request_def Let_def split: if_splits sum.splits)
  have name: "account_id_text (uuids K) aid = ap"
    using aid uuid_library.parse_account_id_iff assms(1) by (auto simp: account_crates_def)
  obtain rq' r s' where rq': "(if rq_method rq = GET then forwarded_get_request rq else buffered_put_request rq) = Inr rq'"
    and f: "account_object_fetch K J R rq' (w ap) = (r, s')" and w': "w' = w(ap := s')"
    using fwd False name by (auto simp: forward_account_request_def Let_def split: if_splits sum.splits prod.splits)
  have h: "rq_method rq' = rq_method rq" "authorized_for K rq' d sc = authorized_for K rq d sc" for d sc
    using forwarded_request [OF rq' m] by (auto simp: authorized_for_def bearer_def)
  show ?thesis
    using object_fetch_effect [OF assms(1,2) _ _ f] assms(3) m h w' by auto
qed

theorem forwarding_confined_witness:
  "\<forall>n. account_row (db (snd (route_public_account_request sample_crates (sample_json JNull) sample_router CallAnswered
     (sample_request GET) (account_id_text rfc9562 (ob_account_id sample_owner)) None empty_objects) n))
   = account_row (db (empty_objects n))"
  using forwarding_confined [OF sample_crates_ok sample_router_initializes(2) sample_attempts_ok(1) prod.collapse [symmetric]]
  by blast

end
