(* ===== verification/Io.thy ===== *)
theory Io
  imports Prelude
begin

text \<open>
  Effects of the command-line client. An action takes the state of the machine and returns a
  \<open>Result\<close> and the next state, on the error path too: what an action did before it failed is visible.
  \<open>bind_io\<close> is the \<open>?\<close> operator on actions. \<open>triple P m Q E\<close> says that from a state in \<open>P\<close> the action
  ends in \<open>Q\<close> with its value or in \<open>E\<close> with an error; the rules of \<open>triple_rules\<close> follow the code.
\<close>

datatype failure =
    Io | NotFound | AlreadyExists | InvalidName | UnsafeFile | UnsafeDirectory | StateTooLarge | MissingState
  | SecretTooLarge | SecretTruncated | SecretFormat | SecretVersion | SecretAuthentication
  | InvalidPassword | PasswordMismatch | MissingSalt | InvalidSalt
  | InvalidAccount | WrongScope | AccountExists | AccountMissing | WrongConsumer
  | InvalidCatalog | CatalogConflict | GenerationExhausted | HostNotFound | HostAmbiguous
  | HttpStatus nat "bytes option" | HttpResponse | RevisionRegressed | RecordUnstable | InvalidDescriptor
  | DescriptorExpired | RecordRemoved | SshDisabled | IdentityChanged | InvalidLabel | InvalidVersion | InvalidOsAccount | LockTimeout | HostKeyChanged | PinStorage | HostPanic

type_synonym ('s, 'a) io = "'s \<Rightarrow> (failure + 'a) \<times> 's"

definition return_io :: "'a \<Rightarrow> ('s, 'a) io" where
  "return_io a s = (Inr a, s)"

definition fail_io :: "failure \<Rightarrow> ('s, 'a) io" where
  "fail_io e s = (Inl e, s)"

definition bind_io :: "('s, 'a) io \<Rightarrow> ('a \<Rightarrow> ('s, 'b) io) \<Rightarrow> ('s, 'b) io" where
  "bind_io m f s = (case m s of (Inl e, t) \<Rightarrow> (Inl e, t) | (Inr a, t) \<Rightarrow> f a t)"

definition ensure_io :: "bool \<Rightarrow> failure \<Rightarrow> ('s, unit) io" where
  "ensure_io c e s = (if c then (Inr (), s) else (Inl e, s))"

definition of_result :: "failure + 'a \<Rightarrow> ('s, 'a) io" where
  "of_result r s = (r, s)"

text \<open>\<open>match\<close> on the \<open>Result\<close> of an action, and reading the state.\<close>

definition try_io :: "('s, 'a) io \<Rightarrow> ('s, failure + 'a) io" where
  "try_io m s = (case m s of (r, t) \<Rightarrow> (Inr r, t))"

definition get_io :: "('s \<Rightarrow> 'a) \<Rightarrow> ('s, 'a) io" where
  "get_io f s = (Inr (f s), s)"

definition map_error :: "(failure \<Rightarrow> failure) \<Rightarrow> ('s, 'a) io \<Rightarrow> ('s, 'a) io" where
  "map_error g m s = (case m s of (r, t) \<Rightarrow> (map_err g r, t))"

section \<open>Running actions\<close>

named_theorems io_simps "running an action on a state"

lemma run_io [io_simps]:
  "return_io a s = (Inr a, s)"
  "fail_io e s = (Inl e, s)"
  "of_result r s = (r, s)"
  "get_io f s = (Inr (f s), s)"
  by (simp_all add: return_io_def fail_io_def of_result_def get_io_def)

lemma run_bind [io_simps]:
  "m s = (Inl e, t) \<Longrightarrow> bind_io m f s = (Inl e, t)"
  "m s = (Inr a, t) \<Longrightarrow> bind_io m f s = f a t"
  by (simp_all add: bind_io_def)

lemma run_ensure [io_simps]:
  "c \<Longrightarrow> ensure_io c e s = (Inr (), s)"
  "\<not> c \<Longrightarrow> ensure_io c e s = (Inl e, s)"
  by (simp_all add: ensure_io_def)

lemma bind_io_Inr:
  "bind_io m f s = (Inr b, u) \<longleftrightarrow> (\<exists>a t. m s = (Inr a, t) \<and> f a t = (Inr b, u))"
  by (auto simp: bind_io_def split: prod.splits sum.splits)

lemma bind_io_Inl:
  "bind_io m f s = (Inl e, u) \<longleftrightarrow> m s = (Inl e, u) \<or> (\<exists>a t. m s = (Inr a, t) \<and> f a t = (Inl e, u))"
  by (auto simp: bind_io_def split: prod.splits sum.splits)

lemma ensure_io_Inr [simp]: "ensure_io c e s = (Inr u, t) \<longleftrightarrow> c \<and> t = s"
  by (auto simp: ensure_io_def)

lemma return_io_Inr [simp]: "return_io a s = (Inr b, t) \<longleftrightarrow> b = a \<and> t = s"
  by (auto simp: return_io_def)

lemma fail_io_Inr [simp]: "fail_io e s \<noteq> (Inr b, t)"
  by (simp add: fail_io_def)

lemma of_result_Inr [simp]: "of_result r s = (Inr b, t) \<longleftrightarrow> r = Inr b \<and> t = s"
  by (auto simp: of_result_def)

lemma get_io_Inr [simp]: "get_io f s = (Inr b, t) \<longleftrightarrow> b = f s \<and> t = s"
  by (auto simp: get_io_def)

lemma try_io_Inr: "try_io m s = (Inr r, t) \<longleftrightarrow> m s = (r, t)"
  by (auto simp: try_io_def split: prod.splits)

lemma map_error_Inr: "map_error g m s = (Inr a, t) \<longleftrightarrow> m s = (Inr a, t)"
  by (auto simp: map_error_def split: prod.splits)

lemmas io_Inr = bind_io_Inr try_io_Inr map_error_Inr

section \<open>Triples\<close>

definition triple :: "('s \<Rightarrow> bool) \<Rightarrow> ('s, 'a) io \<Rightarrow> ('a \<Rightarrow> 's \<Rightarrow> bool) \<Rightarrow> ('s \<Rightarrow> bool) \<Rightarrow> bool" where
  "triple P m Q E \<longleftrightarrow> (\<forall>s. P s \<longrightarrow> (case m s of (Inl _, t) \<Rightarrow> E t | (Inr a, t) \<Rightarrow> Q a t))"

named_theorems triple_rules "one rule per combinator"

lemma triple_conseq:
  "triple P m Q E \<Longrightarrow> (\<And>s. P' s \<Longrightarrow> P s) \<Longrightarrow> (\<And>a s. Q a s \<Longrightarrow> Q' a s) \<Longrightarrow> (\<And>s. E s \<Longrightarrow> E' s)
     \<Longrightarrow> triple P' m Q' E'"
  unfolding triple_def by (fastforce split: prod.splits sum.splits)

lemma triple_bind [triple_rules]:
  "triple P m R E \<Longrightarrow> (\<And>a. triple (R a) (f a) Q E) \<Longrightarrow> triple P (bind_io m f) Q E"
  unfolding triple_def bind_io_def by (fastforce split: prod.splits sum.splits)

lemma triple_return [triple_rules]: "(\<And>s. P s \<Longrightarrow> Q a s) \<Longrightarrow> triple P (return_io a) Q E"
  by (simp add: triple_def return_io_def)

lemma triple_fail [triple_rules]: "(\<And>s. P s \<Longrightarrow> E s) \<Longrightarrow> triple P (fail_io e) Q E"
  by (simp add: triple_def fail_io_def)

lemma triple_ensure [triple_rules]:
  "(\<And>s. P s \<Longrightarrow> c \<Longrightarrow> Q () s) \<Longrightarrow> (\<And>s. P s \<Longrightarrow> \<not> c \<Longrightarrow> E s) \<Longrightarrow> triple P (ensure_io c e) Q E"
  by (simp add: triple_def ensure_io_def)

lemma triple_of_result [triple_rules]:
  "(\<And>s a. P s \<Longrightarrow> r = Inr a \<Longrightarrow> Q a s) \<Longrightarrow> (\<And>s e. P s \<Longrightarrow> r = Inl e \<Longrightarrow> E s) \<Longrightarrow> triple P (of_result r) Q E"
  by (simp add: triple_def of_result_def split: sum.splits)

lemma triple_get [triple_rules]: "(\<And>s. P s \<Longrightarrow> Q (f s) s) \<Longrightarrow> triple P (get_io f) Q E"
  by (simp add: triple_def get_io_def)

lemma triple_try [triple_rules]:
  "triple P m (\<lambda>a. Q (Inr a)) (\<lambda>s. \<forall>e. Q (Inl e) s) \<Longrightarrow> triple P (try_io m) Q E"
  unfolding triple_def try_io_def by (fastforce split: prod.splits sum.splits)

lemma triple_map_error [triple_rules]: "triple P m Q E \<Longrightarrow> triple P (map_error g m) Q E"
  unfolding triple_def map_error_def by (fastforce split: prod.splits sum.splits)

lemma triple_if [triple_rules]:
  "(c \<Longrightarrow> triple P a Q E) \<Longrightarrow> (\<not> c \<Longrightarrow> triple P b Q E) \<Longrightarrow> triple P (if c then a else b) Q E"
  by simp

lemma triple_case_option [triple_rules]:
  "(x = None \<Longrightarrow> triple P a Q E) \<Longrightarrow> (\<And>y. x = Some y \<Longrightarrow> triple P (b y) Q E)
     \<Longrightarrow> triple P (case x of None \<Rightarrow> a | Some y \<Rightarrow> b y) Q E"
  by (cases x) simp_all

lemma triple_case_sum [triple_rules]:
  "(\<And>e. x = Inl e \<Longrightarrow> triple P (a e) Q E) \<Longrightarrow> (\<And>y. x = Inr y \<Longrightarrow> triple P (b y) Q E)
     \<Longrightarrow> triple P (case x of Inl e \<Rightarrow> a e | Inr y \<Rightarrow> b y) Q E"
  by (cases x) simp_all

lemma triple_Inr: "triple P m Q E \<Longrightarrow> P s \<Longrightarrow> m s = (Inr a, t) \<Longrightarrow> Q a t"
  by (fastforce simp: triple_def split: prod.splits sum.splits)

lemma triple_Inl: "triple P m Q E \<Longrightarrow> P s \<Longrightarrow> m s = (Inl e, t) \<Longrightarrow> E t"
  by (fastforce simp: triple_def split: prod.splits sum.splits)

lemma triple_exhaust:
  assumes "triple P m Q E" and "P s"
  obtains a t where "m s = (Inr a, t)" "Q a t" | e t where "m s = (Inl e, t)" "E t"
  using assms by (cases "m s"; cases "fst (m s)") (auto simp: triple_def)

text \<open>The same reading of one state: what holds after \<open>m\<close>. Its equations open the combinators, and a
  triple of a primitive call becomes an introduction rule by \<open>triple_wp\<close>.\<close>

definition wp :: "('s, 'a) io \<Rightarrow> ('a \<Rightarrow> 's \<Rightarrow> bool) \<Rightarrow> ('s \<Rightarrow> bool) \<Rightarrow> 's \<Rightarrow> bool" where
  "wp m Q E s = (case m s of (Inl _, t) \<Rightarrow> E t | (Inr a, t) \<Rightarrow> Q a t)"

named_theorems wp_simps "what holds after a combinator"

lemma wp_combinators [wp_simps]:
  "wp (bind_io m f) Q E = wp m (\<lambda>a. wp (f a) Q E) E"
  "wp (return_io a) Q E = Q a"
  "wp (fail_io e) Q' E = E"
  "wp (ensure_io c e) R E = (\<lambda>s. if c then R () s else E s)"
  "wp (get_io g) R' E = (\<lambda>s. R' (g s) s)"
  "wp (map_error h m) Q'' E = wp m Q'' E"
  by (auto simp: fun_eq_iff wp_def bind_io_def return_io_def fail_io_def ensure_io_def get_io_def map_error_def
      map_err_def split: prod.splits sum.splits)

lemma wp_of_result [wp_simps]: "wp (of_result r) Q E = (\<lambda>s. case r of Inl _ \<Rightarrow> E s | Inr a \<Rightarrow> Q a s)"
  by (simp add: fun_eq_iff wp_def of_result_def)

lemma wp_try: "wp m (\<lambda>a. Q (Inr a)) (\<lambda>t. \<forall>e. Q (Inl e) t) s \<Longrightarrow> wp (try_io m) Q E s"
  by (auto simp: wp_def try_io_def split: prod.splits sum.splits)

lemma triple_wp:
  "triple P m Q E \<Longrightarrow> P s \<Longrightarrow> (\<And>a t. Q a t \<Longrightarrow> Q' a t) \<Longrightarrow> (\<And>t. E t \<Longrightarrow> E' t) \<Longrightarrow> wp m Q' E' s"
  unfolding triple_def wp_def by (fastforce split: prod.splits sum.splits)

lemma tripleI: "(\<And>s. P s \<Longrightarrow> wp m Q E s) \<Longrightarrow> triple P m Q E"
  by (simp add: triple_def wp_def)

lemma wp_mono: "wp m Q E s \<Longrightarrow> (\<And>a t. Q a t \<Longrightarrow> Q' a t) \<Longrightarrow> (\<And>t. E t \<Longrightarrow> E' t) \<Longrightarrow> wp m Q' E' s"
  by (auto simp: wp_def split: prod.splits sum.splits)

lemma wp_any: "(\<And>a t. Q a t) \<Longrightarrow> wp m Q (\<lambda>_. True) s"
  by (auto simp: wp_def split: prod.splits sum.splits)

lemma wp_Inr: "wp m Q E s \<Longrightarrow> m s = (Inr a, t) \<Longrightarrow> Q a t"
  by (simp add: wp_def)

lemma wp_Inl: "wp m Q E s \<Longrightarrow> m s = (Inl e, t) \<Longrightarrow> E t"
  by (simp add: wp_def)

text \<open>An action keeps a property when it holds afterwards whether the action succeeded or not.\<close>

definition keeps :: "('s \<Rightarrow> bool) \<Rightarrow> ('s, 'a) io \<Rightarrow> bool" where
  "keeps I m \<longleftrightarrow> (\<forall>s. I s \<longrightarrow> I (snd (m s)))"

named_theorems keeps_rules "actions that keep a property"

lemma keeps_triple: "keeps I m \<longleftrightarrow> triple I m (\<lambda>_. I) I"
  unfolding keeps_def triple_def by (fastforce split: prod.splits sum.splits)

lemma keeps_bind [keeps_rules]: "keeps I m \<Longrightarrow> (\<And>a. keeps I (f a)) \<Longrightarrow> keeps I (bind_io m f)"
  unfolding keeps_triple by (rule triple_bind)

lemma keeps_pure [keeps_rules]:
  "keeps I (return_io a)" "keeps I (fail_io e)" "keeps I (ensure_io c e)" "keeps I (of_result r)" "keeps I (get_io f)"
  by (simp_all add: keeps_def return_io_def fail_io_def ensure_io_def of_result_def get_io_def)

lemma keeps_try [keeps_rules]: "keeps I m \<Longrightarrow> keeps I (try_io m)" "keeps I m \<Longrightarrow> keeps I (map_error g m)"
  by (fastforce simp: keeps_def try_io_def map_error_def split: prod.splits)+

lemma keeps_cases [keeps_rules]:
  "(c \<Longrightarrow> keeps I a) \<Longrightarrow> (\<not> c \<Longrightarrow> keeps I b) \<Longrightarrow> keeps I (if c then a else b)"
  "(x = None \<Longrightarrow> keeps I a) \<Longrightarrow> (\<And>y. x = Some y \<Longrightarrow> keeps I (d y)) \<Longrightarrow> keeps I (case x of None \<Rightarrow> a | Some y \<Rightarrow> d y)"
  by (simp_all split: option.split)

lemma keeps_case_sum [keeps_rules]:
  "(\<And>e. z = Inl e \<Longrightarrow> keeps I (l e)) \<Longrightarrow> (\<And>y. z = Inr y \<Longrightarrow> keeps I (r y))
     \<Longrightarrow> keeps I (case z of Inl e \<Rightarrow> l e | Inr y \<Rightarrow> r y)"
  by (simp split: sum.split)

lemma keepsD: "keeps I m \<Longrightarrow> I s \<Longrightarrow> m s = (r, t) \<Longrightarrow> I t"
  by (auto simp: keeps_def)

end
