(* ===== verification/Secure_State.thy ===== *)
theory Secure_State
  imports Io Identity
begin

text \<open>
  \<open>cli/src/secure_state.rs\<close>: owner-only files of a state directory. The directory is a map from names
  to files with their owner, mode, link count and bytes; every system call consumes one entry of
  \<open>os_faults\<close> and fails when the entry says so, a failed write leaving part of its bytes. A crash is the
  fault list that fails every later call, so a statement for all fault lists covers crashes between
  any two calls. Modes are octal 600 (\<open>0x180\<close>) and 700 (\<open>0x1C0\<close>). The process holds the directory's lock, so no other process changes the files.
\<close>

datatype file_kind = Regular | Symlink | Directory | OtherKind

record state_file =
  f_kind :: file_kind
  f_owner :: nat
  f_mode :: nat
  f_links :: nat
  f_data :: bytes

record disk =
  euid :: nat
  creation_mode :: nat
  directory :: "state_file option"
  dir :: "bytes \<rightharpoonup> state_file"
  os_faults :: "nat option list"
  entropy :: bytes

section \<open>System calls\<close>

definition syscall :: "('z disk_scheme, 'a) io \<Rightarrow> ('z disk_scheme, 'a) io" where
  "syscall m s = (case os_faults s of
     [] \<Rightarrow> m s
   | None # r \<Rightarrow> m (s\<lparr>os_faults := r\<rparr>)
   | Some _ # r \<Rightarrow> (Inl Io, s\<lparr>os_faults := r\<rparr>))"

text \<open>\<open>openat\<close> with \<open>O_NOFOLLOW\<close>: an open file is named by its entry.\<close>

definition openat_file :: "bytes \<Rightarrow> ('z disk_scheme, unit) io" where
  "openat_file name = syscall (\<lambda>s. case dir s name of
     None \<Rightarrow> (Inl NotFound, s)
   | Some f \<Rightarrow> if f_kind f = Symlink then (Inl Io, s) else (Inr (), s))"

definition create_exclusive :: "bytes \<Rightarrow> ('z disk_scheme, unit) io" where
  "create_exclusive name = syscall (\<lambda>s. case dir s name of
     Some _ \<Rightarrow> (Inl AlreadyExists, s)
   | None \<Rightarrow> (Inr (), s\<lparr>dir := (dir s)(name \<mapsto>
       \<lparr>f_kind = Regular, f_owner = euid s, f_mode = creation_mode s, f_links = 1, f_data = []\<rparr>)\<rparr>))"

definition file_metadata :: "bytes \<Rightarrow> ('z disk_scheme, state_file) io" where
  "file_metadata name = syscall (\<lambda>s. case dir s name of None \<Rightarrow> (Inl Io, s) | Some f \<Rightarrow> (Inr f, s))"

definition update_file :: "bytes \<Rightarrow> (state_file \<Rightarrow> state_file) \<Rightarrow> ('z disk_scheme, unit) io" where
  "update_file name g s = (case dir s name of
     None \<Rightarrow> (Inl Io, s) | Some f \<Rightarrow> (Inr (), s\<lparr>dir := (dir s)(name \<mapsto> g f)\<rparr>))"

definition protect_file :: "bytes \<Rightarrow> ('z disk_scheme, unit) io" where
  "protect_file name = syscall (update_file name (\<lambda>f. f\<lparr>f_mode := 0x180\<rparr>))"

definition write_all :: "bytes \<Rightarrow> bytes \<Rightarrow> ('z disk_scheme, unit) io" where
  "write_all name bytes s = (case os_faults s of
     Some k # r \<Rightarrow> (Inl Io, snd (update_file name (\<lambda>f. f\<lparr>f_data := f_data f @ take k bytes\<rparr>) (s\<lparr>os_faults := r\<rparr>)))
   | _ \<Rightarrow> update_file name (\<lambda>f. f\<lparr>f_data := f_data f @ bytes\<rparr>) (s\<lparr>os_faults := tl (os_faults s)\<rparr>))"

definition sync_all :: "('z disk_scheme, unit) io" where
  "sync_all = syscall (return_io ())"

definition renameat :: "bytes \<Rightarrow> bytes \<Rightarrow> ('z disk_scheme, unit) io" where
  "renameat old new = syscall (\<lambda>s. case dir s old of
     None \<Rightarrow> (Inl NotFound, s)
   | Some f \<Rightarrow> (Inr (), s\<lparr>dir := (dir s)(old := None, new \<mapsto> f)\<rparr>))"

definition unlinkat :: "bytes \<Rightarrow> ('z disk_scheme, unit) io" where
  "unlinkat name = syscall (\<lambda>s. case dir s name of
     None \<Rightarrow> (Inl NotFound, s) | Some _ \<Rightarrow> (Inr (), s\<lparr>dir := (dir s)(name := None)\<rparr>))"

definition random_bytes :: "nat \<Rightarrow> ('z disk_scheme, bytes) io" where
  "random_bytes n = syscall (\<lambda>s. if length (entropy s) < n then (Inl Io, s)
     else (Inr (take n (entropy s)), s\<lparr>entropy := drop n (entropy s)\<rparr>))"

section \<open>Validation\<close>

text \<open>\<open>Path::components\<close>: empty and inner \<open>.\<close> segments disappear.\<close>

datatype path_component = RootDir | CurDir | ParentDir | NormalComponent bytes

fun path_segments :: "bytes \<Rightarrow> bytes \<Rightarrow> bytes list" where
  "path_segments acc [] = [acc]"
| "path_segments acc (b # bs) = (if b = 47 then acc # path_segments [] bs else path_segments (acc @ [b]) bs)"

definition segment_components :: "bytes list \<Rightarrow> path_component list" where
  "segment_components segments = map (\<lambda>g. if g = [46, 46] then ParentDir else NormalComponent g)
     (filter (\<lambda>g. g \<noteq> [] \<and> g \<noteq> [46]) segments)"

definition path_components :: "bytes \<Rightarrow> path_component list" where
  "path_components p =
     (if take 1 p = [47] then [RootDir] else if hd (path_segments [] p) = [46] then [CurDir] else [])
     @ segment_components (path_segments [] p)"

definition validate_name :: "bytes \<Rightarrow> failure + unit" where
  "validate_name name =
     bind_result (ensure (case path_components name of [NormalComponent _] \<Rightarrow> True | _ \<Rightarrow> False) InvalidName) (\<lambda>_.
       ensure (0 \<notin> set name) InvalidName)"

definition validate_owner_mode :: "state_file \<Rightarrow> nat \<Rightarrow> failure \<Rightarrow> ('z disk_scheme, unit) io" where
  "validate_owner_mode metadata expected e =
     bind_io (get_io euid) (\<lambda>uid.
     bind_io (ensure_io (f_owner metadata = uid) e) (\<lambda>_.
       ensure_io (f_mode metadata mod 4096 = expected) e))"

definition validate_file :: "bytes \<Rightarrow> nat \<Rightarrow> ('z disk_scheme, unit) io" where
  "validate_file name expected_mode =
     bind_io (file_metadata name) (\<lambda>metadata.
     bind_io (ensure_io (f_kind metadata = Regular) UnsafeFile) (\<lambda>_.
     bind_io (validate_owner_mode metadata expected_mode UnsafeFile) (\<lambda>_.
       ensure_io (f_links metadata = 1) UnsafeFile)))"

definition validate_existing :: "bytes \<Rightarrow> ('z disk_scheme, unit) io" where
  "validate_existing name = bind_io (try_io (openat_file name)) (\<lambda>r. case r of
     Inr _ \<Rightarrow> validate_file name 0x180
   | Inl e \<Rightarrow> if e = NotFound then return_io () else fail_io e)"

section \<open>Files of a state directory\<close>

definition read_secret_bounded_contents :: "bytes \<Rightarrow> nat \<Rightarrow> ('z disk_scheme, bytes) io" where
  "read_secret_bounded_contents name limit =
     bind_io (file_metadata name) (\<lambda>f.
     let contents = take (limit + 1) (f_data f) in
     bind_io (ensure_io (length contents \<le> limit) StateTooLarge) (\<lambda>_. return_io contents))"

definition read_secret_bounded_file :: "bytes \<Rightarrow> nat \<Rightarrow> ('z disk_scheme, bytes) io" where
  "read_secret_bounded_file name limit =
     bind_io (validate_file name 0x180) (\<lambda>_.
     bind_io (file_metadata name) (\<lambda>metadata.
     bind_io (ensure_io (length (f_data metadata) \<le> limit) StateTooLarge) (\<lambda>_.
       read_secret_bounded_contents name limit)))"

definition read_secret_optional_bounded :: "bytes \<Rightarrow> nat \<Rightarrow> ('z disk_scheme, bytes option) io" where
  "read_secret_optional_bounded name limit =
     bind_io (of_result (validate_name name)) (\<lambda>_.
     bind_io (try_io (openat_file name)) (\<lambda>r. case r of
       Inr _ \<Rightarrow> bind_io (read_secret_bounded_file name limit) (\<lambda>b. return_io (Some b))
     | Inl e \<Rightarrow> if e = NotFound then return_io None else fail_io e))"

definition read_secret_bounded :: "bytes \<Rightarrow> nat \<Rightarrow> ('z disk_scheme, bytes) io" where
  "read_secret_bounded name limit = bind_io (read_secret_optional_bounded name limit) (\<lambda>r.
     case r of None \<Rightarrow> fail_io MissingState | Some b \<Rightarrow> return_io b)"

definition hex :: "bytes \<Rightarrow> bytes" where
  "hex bs = concat (map hex_byte bs)"

definition temporary_name :: "bytes \<Rightarrow> ('z disk_scheme, bytes) io" where
  "temporary_name name = bind_io (random_bytes 16) (\<lambda>n.
     return_io ([46] @ name @ ascii ''.tmp.'' @ hex n))"

text \<open>The closure of \<open>atomic_replace\<close> up to the rename, and the closure of \<open>create_noclobber\<close>.\<close>

definition pre_rename :: "bytes \<Rightarrow> bytes \<Rightarrow> bytes \<Rightarrow> ('z disk_scheme, unit) io" where
  "pre_rename name temporary bytes =
     bind_io (protect_file temporary) (\<lambda>_.
     bind_io (validate_file temporary 0x180) (\<lambda>_.
     bind_io (write_all temporary bytes) (\<lambda>_.
     bind_io sync_all (\<lambda>_.
     bind_io (validate_existing name) (\<lambda>_. renameat temporary name)))))"

definition atomic_replace :: "bytes \<Rightarrow> bytes \<Rightarrow> ('z disk_scheme, unit) io" where
  "atomic_replace name bytes =
     bind_io (of_result (validate_name name)) (\<lambda>_.
     bind_io (validate_existing name) (\<lambda>_.
     bind_io (temporary_name name) (\<lambda>temporary.
     bind_io (create_exclusive temporary) (\<lambda>_.
     bind_io (try_io (pre_rename name temporary bytes)) (\<lambda>r. case r of
       Inl e \<Rightarrow> bind_io (try_io (unlinkat temporary)) (\<lambda>_. fail_io e)
     | Inr _ \<Rightarrow> bind_io (try_io sync_all) (\<lambda>_. return_io ()))))))"

definition before_sync :: "bytes \<Rightarrow> bytes \<Rightarrow> ('z disk_scheme, unit) io" where
  "before_sync name bytes =
     bind_io (protect_file name) (\<lambda>_.
     bind_io (validate_file name 0x180) (\<lambda>_.
     bind_io (write_all name bytes) (\<lambda>_. sync_all)))"

definition create_noclobber :: "bytes \<Rightarrow> bytes \<Rightarrow> ('z disk_scheme, bool) io" where
  "create_noclobber name bytes =
     bind_io (of_result (validate_name name)) (\<lambda>_.
     bind_io (try_io (create_exclusive name)) (\<lambda>r. case r of
       Inl e \<Rightarrow> if e = AlreadyExists
         then bind_io (openat_file name) (\<lambda>_. bind_io (validate_file name 0x180) (\<lambda>_. return_io False))
         else fail_io e
     | Inr _ \<Rightarrow> bind_io (try_io (before_sync name bytes)) (\<lambda>w. case w of
         Inl e \<Rightarrow> bind_io (try_io (unlinkat name)) (\<lambda>_. fail_io e)
       | Inr _ \<Rightarrow> bind_io (try_io sync_all) (\<lambda>_. return_io True))))"

text \<open>The output directory is opened, never created; it need not be private.\<close>

definition create_secret_output :: "bytes \<Rightarrow> bytes \<Rightarrow> ('z disk_scheme, unit) io" where
  "create_secret_output name bytes =
     bind_io (of_result (validate_name name)) (\<lambda>_.
     bind_io (syscall (return_io ())) (\<lambda>_.
     bind_io (create_exclusive name) (\<lambda>_.
     bind_io (try_io (before_sync name bytes)) (\<lambda>w. case w of
       Inl e \<Rightarrow> bind_io (try_io (unlinkat name)) (\<lambda>_. fail_io e)
     | Inr _ \<Rightarrow> sync_all))))"

section \<open>Locks\<close>

definition open_private_lock_file :: "bytes \<Rightarrow> bool \<Rightarrow> ('z disk_scheme, unit option) io" where
  "open_private_lock_file name create =
     bind_io (of_result (validate_name name)) (\<lambda>_.
     bind_io (try_io (if create then create_exclusive name else openat_file name)) (\<lambda>r.
       let opened = (\<lambda>created.
         bind_io (if created then protect_file name else return_io ()) (\<lambda>_.
         bind_io (validate_file name 0x180) (\<lambda>_.
         bind_io (if created then sync_all else return_io ()) (\<lambda>_. return_io (Some ()))))) in
       case r of
         Inr _ \<Rightarrow> opened create
       | Inl e \<Rightarrow>
           if create \<and> e = AlreadyExists then bind_io (openat_file name) (\<lambda>_. opened False)
           else if \<not> create \<and> e = NotFound then return_io None
           else fail_io e))"

definition open_validated_lock :: "bytes \<Rightarrow> ('z disk_scheme, unit) io" where
  "open_validated_lock lock_name =
     bind_io (of_result (validate_name lock_name)) (\<lambda>_.
     bind_io (open_private_lock_file lock_name True) (\<lambda>r.
       case r of None \<Rightarrow> fail_io MissingState | Some _ \<Rightarrow> return_io ()))"

definition validate_private_dir :: "('z disk_scheme, unit) io" where
  "validate_private_dir = bind_io (syscall (get_io directory)) (\<lambda>d. case d of
     None \<Rightarrow> fail_io Io
   | Some metadata \<Rightarrow> bind_io (ensure_io (f_kind metadata = Directory) UnsafeDirectory) (\<lambda>_.
       validate_owner_mode metadata 0x1C0 UnsafeDirectory))"

definition verify_path_identity :: "bytes \<Rightarrow> ('z disk_scheme, unit) io" where
  "verify_path_identity name =
     bind_io (openat_file name) (\<lambda>_.
     bind_io (validate_file name 0x180) (\<lambda>_.
     bind_io (file_metadata name) (\<lambda>_. bind_io (file_metadata name) (\<lambda>_. return_io ()))))"

definition verify_locked_file :: "bytes \<Rightarrow> ('z disk_scheme, unit) io" where
  "verify_locked_file name = bind_io validate_private_dir (\<lambda>_. verify_path_identity name)"

definition acquire_lock :: "bytes \<Rightarrow> ('z disk_scheme, unit) io" where
  "acquire_lock lock_name =
     bind_io (open_validated_lock lock_name) (\<lambda>_.
     bind_io (syscall (return_io ())) (\<lambda>_. verify_locked_file lock_name))"

text \<open>An unlock failure after the operation is only logged.\<close>

definition finish_locked_operation :: "failure + 'a \<Rightarrow> ('z disk_scheme, 'a) io" where
  "finish_locked_operation r = bind_io (try_io (syscall (return_io ()))) (\<lambda>_. of_result r)"

text \<open>\<open>open_state_directory\<close> for the last component of the state path: creating it when asked, repairing
  its permissions when asked, then checking that it is owner-only.\<close>

definition open_state_directory :: "bool \<Rightarrow> bool \<Rightarrow> ('z disk_scheme, unit) io" where
  "open_state_directory create repair =
     bind_io (syscall (\<lambda>s. case directory s of
         Some _ \<Rightarrow> (Inr (), s)
       | None \<Rightarrow> if create then (Inr (), s\<lparr>directory :=
           Some \<lparr>f_kind = Directory, f_owner = euid s, f_mode = 0x1C0, f_links = 1, f_data = []\<rparr>\<rparr>)
         else (Inl NotFound, s))) (\<lambda>_.
     bind_io (if repair
       then bind_io (syscall (get_io directory)) (\<lambda>d. case d of
           None \<Rightarrow> fail_io Io
         | Some metadata \<Rightarrow> bind_io (get_io euid) (\<lambda>uid.
             bind_io (ensure_io (f_owner metadata = uid) UnsafeDirectory) (\<lambda>_.
               if f_mode metadata mod 4096 \<noteq> 0x1C0
               then syscall (\<lambda>s. (Inr (), s\<lparr>directory := map_option (\<lambda>f. f\<lparr>f_mode := 0x1C0\<rparr>) (directory s)\<rparr>))
               else return_io ())))
       else return_io ()) (\<lambda>_. validate_private_dir))"

definition prepare_private_dir :: "('z disk_scheme, unit) io" where
  "prepare_private_dir = open_state_directory True True"

definition with_locked_inner :: "bytes \<Rightarrow> ('z disk_scheme, 'a) io \<Rightarrow> ('z disk_scheme, 'a) io" where
  "with_locked_inner lock_name operation =
     bind_io (acquire_lock lock_name) (\<lambda>_. bind_io (try_io operation) finish_locked_operation)"

definition with_exclusive_lock :: "bytes \<Rightarrow> ('z disk_scheme, 'a) io \<Rightarrow> ('z disk_scheme, 'a) io" where
  "with_exclusive_lock lock_name operation =
     bind_io (open_state_directory True False) (\<lambda>_. with_locked_inner lock_name operation)"

definition with_locked_existing :: "bytes \<Rightarrow> ('z disk_scheme, 'a) io \<Rightarrow> ('z disk_scheme, 'a) io" where
  "with_locked_existing lock_name operation =
     bind_io (open_state_directory False False) (\<lambda>_. with_locked_inner lock_name operation)"

text \<open>\<open>acquire_lock_until\<close> polls the lock; the list says for each poll before the deadline whether another
  process holds it.\<close>

fun poll_lock :: "bool list \<Rightarrow> ('z disk_scheme, unit) io" where
  "poll_lock [] = fail_io LockTimeout"
| "poll_lock (taken # r) = bind_io (syscall (return_io ())) (\<lambda>_. if taken then poll_lock r else return_io ())"

definition acquire_lock_until :: "bool list \<Rightarrow> bytes \<Rightarrow> ('z disk_scheme, unit) io" where
  "acquire_lock_until polls lock_name =
     bind_io (open_validated_lock lock_name) (\<lambda>_.
     bind_io (poll_lock polls) (\<lambda>_. verify_locked_file lock_name))"

definition with_exclusive_lock_until :: "bool list \<Rightarrow> bytes \<Rightarrow> ('z disk_scheme, 'a) io \<Rightarrow> ('z disk_scheme, 'a) io" where
  "with_exclusive_lock_until polls lock_name operation =
     bind_io (open_state_directory True False) (\<lambda>_.
     bind_io (acquire_lock_until polls lock_name) (\<lambda>_. bind_io (try_io operation) finish_locked_operation))"

section \<open>What each call does to the directory\<close>

definition private_file :: "nat \<Rightarrow> bytes \<Rightarrow> state_file" where
  "private_file uid b = \<lparr>f_kind = Regular, f_owner = uid, f_mode = 0x180, f_links = 1, f_data = b\<rparr>"

text \<open>\<open>at s D\<close>: the files are \<open>D\<close>, and everything a file operation does not touch is as in \<open>s\<close>.\<close>

definition at :: "'z disk_scheme \<Rightarrow> (bytes \<rightharpoonup> state_file) \<Rightarrow> 'z disk_scheme \<Rightarrow> bool" where
  "at s D t \<longleftrightarrow> dir t = D \<and> euid t = euid s \<and> creation_mode t = creation_mode s
     \<and> directory t = directory s \<and> disk.more t = disk.more s"

definition acceptable :: "nat \<Rightarrow> nat \<Rightarrow> state_file \<Rightarrow> bool" where
  "acceptable uid m f \<longleftrightarrow> f_kind f = Regular \<and> f_owner f = uid \<and> f_mode f mod 4096 = m \<and> f_links f = 1"

lemma at_updates [simp]:
  "at s D (t\<lparr>os_faults := x\<rparr>) = at s D t" "at s D (t\<lparr>entropy := y\<rparr>) = at s D t"
  "at s D (t\<lparr>dir := D'\<rparr>) \<longleftrightarrow> D' = D \<and> at s (dir t) t"
  by (auto simp: at_def)

lemma at_self [simp]: "at s (dir s) s"
  by (simp add: at_def)

lemma at_dir: "at s D t \<Longrightarrow> dir t = D \<and> euid t = euid s \<and> creation_mode t = creation_mode s"
  by (simp add: at_def)

lemma acceptable_private [simp]: "acceptable uid 0x180 (private_file uid b)"
  by (simp add: acceptable_def private_file_def)

lemma syscall_triple:
  assumes "triple (at s D) m Q E" and "\<And>t. at s D t \<Longrightarrow> E t"
  shows "triple (at s D) (syscall m) Q E"
  using assms by (auto simp: triple_def syscall_def split: list.split option.split)

lemma openat_triple:
  "triple (at s D) (openat_file n) (\<lambda>_ t. at s D t \<and> D n \<noteq> None) (at s D)"
  unfolding openat_file_def
  by (rule syscall_triple) (auto simp: triple_def at_def split: option.splits)

lemma metadata_triple:
  "triple (at s D) (file_metadata n) (\<lambda>f t. at s D t \<and> D n = Some f) (at s D)"
  unfolding file_metadata_def
  by (rule syscall_triple) (auto simp: triple_def at_def split: option.splits)

lemma create_triple:
  "triple (at s D) (create_exclusive n)
     (\<lambda>_ t. D n = None \<and> at s (D(n \<mapsto> (private_file (euid s) [])\<lparr>f_mode := creation_mode s\<rparr>)) t) (at s D)"
  unfolding create_exclusive_def
  by (rule syscall_triple) (auto simp: triple_def at_def private_file_def split: option.splits)

lemma protect_triple:
  "D n = Some f \<Longrightarrow> triple (at s D) (protect_file n) (\<lambda>_. at s (D(n \<mapsto> f\<lparr>f_mode := 0x180\<rparr>))) (at s D)"
  unfolding protect_file_def
  by (rule syscall_triple) (auto simp: triple_def update_file_def at_def split: option.splits)

lemma write_triple:
  "D n = Some f \<Longrightarrow> triple (at s D) (write_all n b) (\<lambda>_. at s (D(n \<mapsto> f\<lparr>f_data := f_data f @ b\<rparr>)))
     (\<lambda>t. \<exists>c. at s (D(n \<mapsto> f\<lparr>f_data := c\<rparr>)) t)"
  by (auto simp: triple_def write_all_def update_file_def at_def split: list.splits option.splits)

lemma sync_triple: "triple (at s D) sync_all (\<lambda>_. at s D) (at s D)"
  unfolding sync_all_def by (rule syscall_triple) (auto simp: triple_def return_io_def)

lemma rename_triple:
  "D old = Some f \<Longrightarrow> triple (at s D) (renameat old new) (\<lambda>_. at s (D(old := None, new \<mapsto> f))) (at s D)"
  unfolding renameat_def
  by (rule syscall_triple) (auto simp: triple_def at_def split: option.splits)

lemma unlink_triple: "triple (at s D) (unlinkat n) (\<lambda>_. at s (D(n := None))) (at s D)"
  unfolding unlinkat_def
  by (rule syscall_triple) (auto simp: triple_def at_def split: option.splits)

lemma random_triple: "triple (at s D) (random_bytes k) (\<lambda>b t. at s D t \<and> length b = k) (at s D)"
  unfolding random_bytes_def
  by (rule syscall_triple) (auto simp: triple_def at_def)

lemmas call_wp = openat_triple [THEN triple_wp] metadata_triple [THEN triple_wp] create_triple [THEN triple_wp]
  sync_triple [THEN triple_wp] unlink_triple [THEN triple_wp] random_triple [THEN triple_wp]
lemmas protect_wp = protect_triple [THEN triple_wp]
lemmas write_wp = write_triple [THEN triple_wp]
lemmas rename_wp = rename_triple [THEN triple_wp]

lemma validate_file_triple:
  "triple (at s D) (validate_file n m) (\<lambda>_ t. at s D t \<and> (\<exists>f. D n = Some f \<and> acceptable (euid s) m f)) (at s D)"
  unfolding validate_file_def validate_owner_mode_def
  by (rule tripleI) (simp only: wp_simps, rule call_wp(2), assumption,
    auto simp: wp_simps acceptable_def at_dir)

lemmas validate_file_wp = validate_file_triple [THEN triple_wp]

lemma validate_existing_triple:
  "triple (at s D) (validate_existing n)
     (\<lambda>_ t. at s D t \<and> (\<forall>f. D n = Some f \<longrightarrow> acceptable (euid s) 0x180 f)) (at s D)"
proof -
  have opened: "triple (at s D) (try_io (openat_file n))
      (\<lambda>r t. at s D t \<and> (r = Inl NotFound \<longrightarrow> D n = None)) (at s D)"
    by (auto simp: triple_def try_io_def openat_file_def syscall_def at_def split: prod.splits list.splits option.splits)
  show ?thesis
    unfolding validate_existing_def
    by (rule tripleI) (simp only: wp_simps, rule opened [THEN triple_wp], assumption,
      auto simp: wp_simps split: sum.split intro: validate_file_wp)
qed

lemmas validate_existing_wp = validate_existing_triple [THEN triple_wp]

lemma pre_rename_triple:
  assumes D: "D tmp = Some f" and f: "f_data f = []" "f_kind f = Regular" "f_owner f = euid s" "f_links f = 1"
    and ne: "tmp \<noteq> name"
  shows "triple (at s D) (pre_rename name tmp b)
     (\<lambda>_. at s (D(tmp := None, name \<mapsto> private_file (euid s) b))) (\<lambda>t. \<exists>g. at s (D(tmp \<mapsto> g)) t)"
proof (rule tripleI)
  fix t assume t: "at s D t"
  let ?f = "f\<lparr>f_mode := 0x180\<rparr>" and ?g = "f\<lparr>f_mode := 0x180, f_data := f_data f @ b\<rparr>"
  have g: "?g = private_file (euid s) b" using f by (simp add: private_file_def)
  have "D(tmp \<mapsto> f) = D" using D by auto
  then have D': "\<exists>g. at s (D(tmp \<mapsto> g)) u" if "at s D u" for u using that by metis
  have late: "at s (D(tmp \<mapsto> ?g)) u \<Longrightarrow> wp sync_all (\<lambda>_. wp (validate_existing name) (\<lambda>_. wp (renameat tmp name)
      (\<lambda>_. at s (D(tmp := None, name \<mapsto> private_file (euid s) b))) (\<lambda>t. \<exists>g. at s (D(tmp \<mapsto> g)) t))
      (\<lambda>t. \<exists>g. at s (D(tmp \<mapsto> g)) t)) (\<lambda>t. \<exists>g. at s (D(tmp \<mapsto> g)) t) u" for u
    by (erule call_wp(4), erule validate_existing_wp, rule rename_wp [of "D(tmp \<mapsto> ?g)" tmp ?g s])
      (use ne g in auto)
  show "wp (pre_rename name tmp b) (\<lambda>_. at s (D(tmp := None, name \<mapsto> private_file (euid s) b)))
      (\<lambda>t. \<exists>g. at s (D(tmp \<mapsto> g)) t) t"
    unfolding pre_rename_def wp_simps
    by (rule protect_wp [of D tmp f s, OF D t], erule validate_file_wp,
        rule write_wp [of "D(tmp \<mapsto> ?f)" tmp ?f s], simp, simp)
      (use late D' in auto)
qed

section \<open>Replacing and creating files\<close>

definition temporary_for :: "bytes \<Rightarrow> bytes \<Rightarrow> bool" where
  "temporary_for name t \<longleftrightarrow> (\<exists>n. length n = 16 \<and> t = [46] @ name @ ascii ''.tmp.'' @ hex n)"

lemma temporary_for_ne: "temporary_for name t \<Longrightarrow> t \<noteq> name"
  by (auto simp: temporary_for_def dest: arg_cong [of _ _ length])

lemma temporary_name_triple:
  "triple (at s D) (temporary_name n) (\<lambda>x t. at s D t \<and> temporary_for n x) (at s D)"
  unfolding temporary_name_def
  by (rule tripleI) (simp only: wp_simps, rule call_wp(6), assumption, auto simp: temporary_for_def wp_simps)

text \<open>Files that a failed replacement may leave: the old ones and at most one temporary file.\<close>

definition leftover :: "bytes \<Rightarrow> (bytes \<rightharpoonup> state_file) \<Rightarrow> (bytes \<rightharpoonup> state_file) \<Rightarrow> bool" where
  "leftover name D D' \<longleftrightarrow> D' = D \<or> (\<exists>x g. temporary_for name x \<and> D x = None \<and> D' = D(x \<mapsto> g))"

lemma atomic_replace_triple:
  "triple (at s D) (atomic_replace name b)
     (\<lambda>_. at s (D(name \<mapsto> private_file (euid s) b))) (\<lambda>t. \<exists>D'. leftover name D D' \<and> at s D' t)"
proof (rule tripleI)
  fix t assume t: "at s D t"
  let ?Q = "\<lambda>_. at s (D(name \<mapsto> private_file (euid s) b))" and ?E = "\<lambda>t. \<exists>D'. leftover name D D' \<and> at s D' t"
  have E: "?E u" if "at s D u" for u using that by (auto simp: leftover_def)
  have tail: "wp (try_io (pre_rename name x b)) (\<lambda>r. wp (case r of
        Inl e \<Rightarrow> bind_io (try_io (unlinkat x)) (\<lambda>_. fail_io e)
      | Inr _ \<Rightarrow> bind_io (try_io sync_all) (\<lambda>_. return_io ())) ?Q ?E) ?E u"
    if x: "temporary_for name x" "D x = None"
      and u: "at s (D(x \<mapsto> (private_file (euid s) [])\<lparr>f_mode := creation_mode s\<rparr>)) u" for x u
  proof -
    let ?f = "(private_file (euid s) [])\<lparr>f_mode := creation_mode s\<rparr>"
    have ne: "x \<noteq> name" using x(1) by (rule temporary_for_ne)
    have D': "D(x := None, name \<mapsto> f) = D(name \<mapsto> f)" for f using x(2) by auto
    have gone: "D(x := None) = D" using x(2) by auto
    have left: "?E v" if "at s (D(x \<mapsto> g)) v" for g v using that x unfolding leftover_def by blast
    show ?thesis
      by (rule wp_try, rule pre_rename_triple [of "D(x \<mapsto> ?f)" x ?f s name b, THEN triple_wp])
        (use ne u x in \<open>auto simp: private_file_def wp_simps D' gone
          intro!: wp_try elim!: call_wp(4) call_wp(5) intro: left E\<close>)
  qed
  show "wp (atomic_replace name b) ?Q ?E t"
    unfolding atomic_replace_def wp_simps
    by (cases "validate_name name", simp add: E t, simp, rule validate_existing_wp, rule t, elim conjE,
        rule temporary_name_triple [THEN triple_wp], assumption, elim conjE, rule call_wp(3), assumption)
      (auto simp: E tail)
qed

lemma before_sync_triple:
  assumes D: "D n = Some f" and f: "f_data f = []" "f_kind f = Regular" "f_owner f = euid s" "f_links f = 1"
  shows "triple (at s D) (before_sync n b) (\<lambda>_. at s (D(n \<mapsto> private_file (euid s) b))) (\<lambda>t. \<exists>g. at s (D(n \<mapsto> g)) t)"
proof (rule tripleI)
  fix t assume t: "at s D t"
  let ?f = "f\<lparr>f_mode := 0x180\<rparr>"
  have g: "?f\<lparr>f_data := f_data ?f @ b\<rparr> = private_file (euid s) b" using f by (simp add: private_file_def)
  have "D(n \<mapsto> f) = D" using D by auto
  then have D': "\<exists>g. at s (D(n \<mapsto> g)) u" if "at s D u" for u using that by metis
  show "wp (before_sync n b) (\<lambda>_. at s (D(n \<mapsto> private_file (euid s) b))) (\<lambda>t. \<exists>g. at s (D(n \<mapsto> g)) t) t"
    unfolding before_sync_def wp_simps
    by (rule protect_wp [of D n f s, OF D t], erule validate_file_wp,
        rule write_wp [of "D(n \<mapsto> ?f)" n ?f s], simp, simp, rule call_wp(4), assumption)
      (use g D' in auto)
qed

lemma create_noclobber_triple:
  "triple (at s D) (create_noclobber name b)
     (\<lambda>created t. if created then D name = None \<and> at s (D(name \<mapsto> private_file (euid s) b)) t
        else (\<exists>f. D name = Some f \<and> acceptable (euid s) 0x180 f) \<and> at s D t)
     (\<lambda>t. at s D t \<or> D name = None \<and> (\<exists>g. at s (D(name \<mapsto> g)) t))"
  (is "triple _ _ ?Q ?E")
proof (rule tripleI)
  fix t assume t: "at s D t"
  have E: "?E u" if "at s D u" for u using that by blast
  let ?f = "(private_file (euid s) [])\<lparr>f_mode := creation_mode s\<rparr>"
  have made: "wp (try_io (before_sync name b)) (\<lambda>w. wp (case w of
        Inl e \<Rightarrow> bind_io (try_io (unlinkat name)) (\<lambda>_. fail_io e)
      | Inr _ \<Rightarrow> bind_io (try_io sync_all) (\<lambda>_. return_io True)) ?Q ?E) ?E u"
    if n: "D name = None" and u: "at s (D(name \<mapsto> ?f)) u" for u
  proof -
    have gone: "D(name := None) = D" using n by auto
    show ?thesis
      by (rule wp_try, rule before_sync_triple [of "D(name \<mapsto> ?f)" name ?f s b, THEN triple_wp])
        (use u n in \<open>auto simp: private_file_def wp_simps gone intro!: wp_try elim!: call_wp(4) call_wp(5)\<close>)
  qed
  show "wp (create_noclobber name b) ?Q ?E t"
  proof (cases "validate_name name")
    case (Inl e)
    then show ?thesis using t by (simp add: create_noclobber_def wp_simps)
  next
    case (Inr u)
    show ?thesis
      unfolding create_noclobber_def wp_simps Inr sum.case
      by (rule wp_try, rule call_wp(3), rule t, simp (no_asm) only: sum.case wp_simps, elim conjE, erule (1) made)
        (simp add: wp_simps, rule call_wp(1), assumption, auto simp: wp_simps intro: validate_file_wp)
  qed
qed

text \<open>An exported credential never replaces a file: success means that the name was free and the new file is complete and owner-only.\<close>

lemma create_output_triple:
  "triple (at s D) (create_secret_output name b)
     (\<lambda>_ t. D name = None \<and> at s (D(name \<mapsto> private_file (euid s) b)) t)
     (\<lambda>t. at s D t \<or> D name = None \<and> (\<exists>g. at s (D(name \<mapsto> g)) t))"
  (is "triple _ _ ?Q ?E")
proof (rule tripleI)
  fix t assume t: "at s D t"
  let ?f = "(private_file (euid s) [])\<lparr>f_mode := creation_mode s\<rparr>"
  have made: "wp (try_io (before_sync name b)) (\<lambda>w. wp (case w of
        Inl e \<Rightarrow> bind_io (try_io (unlinkat name)) (\<lambda>_. fail_io e) | Inr _ \<Rightarrow> sync_all) ?Q ?E) ?E u"
    if n: "D name = None" and u: "at s (D(name \<mapsto> ?f)) u" for u
  proof -
    have gone: "D(name := None) = D" using n by auto
    show ?thesis
      by (rule wp_try, rule before_sync_triple [of "D(name \<mapsto> ?f)" name ?f s b, THEN triple_wp])
        (use u n in \<open>auto simp: private_file_def wp_simps gone intro!: wp_try elim!: call_wp(4) call_wp(5)\<close>)
  qed
  have opened: "wp (syscall (return_io ())) (\<lambda>_. at s D) (at s D) t"
    using t by (auto simp: wp_def syscall_def return_io_def split: list.split option.split)
  show "wp (create_secret_output name b) ?Q ?E t"
  proof (cases "validate_name name")
    case (Inl e)
    then show ?thesis using t by (simp add: create_secret_output_def wp_simps)
  next
    case (Inr u)
    show ?thesis
      unfolding create_secret_output_def wp_simps Inr sum.case
      by (rule wp_mono [OF opened], rule call_wp(3), assumption, elim conjE, erule (1) made) auto
  qed
qed

section \<open>Reading files\<close>

lemma read_file_triple:
  "triple (at s D) (read_secret_bounded_file name limit)
     (\<lambda>b t. at s D t \<and> (\<exists>f. D name = Some f \<and> acceptable (euid s) 0x180 f \<and> f_data f = b \<and> length b \<le> limit)) (at s D)"
  unfolding read_secret_bounded_file_def read_secret_bounded_contents_def
  by (rule tripleI, unfold wp_simps, rule validate_file_wp, assumption, elim conjE exE)
    (rule metadata_triple [THEN triple_wp], assumption, auto simp: wp_simps Let_def min_def
      intro!: metadata_triple [of s D, THEN triple_wp])

lemma read_secret_triple:
  "triple (at s D) (read_secret_optional_bounded name limit)
     (\<lambda>r t. at s D t \<and> (case r of None \<Rightarrow> D name = None
        | Some b \<Rightarrow> \<exists>f. D name = Some f \<and> acceptable (euid s) 0x180 f \<and> f_data f = b \<and> length b \<le> limit)) (at s D)"
proof (rule tripleI)
  fix t assume t: "at s D t"
  have opened: "triple (at s D) (try_io (openat_file name))
      (\<lambda>r t. at s D t \<and> (r = Inl NotFound \<longrightarrow> D name = None)) (at s D)"
    by (auto simp: triple_def try_io_def openat_file_def syscall_def at_def split: prod.splits list.splits option.splits)
  show "wp (read_secret_optional_bounded name limit)
     (\<lambda>r t. at s D t \<and> (case r of None \<Rightarrow> D name = None
        | Some b \<Rightarrow> \<exists>f. D name = Some f \<and> acceptable (euid s) 0x180 f \<and> f_data f = b \<and> length b \<le> limit)) (at s D) t"
    unfolding read_secret_optional_bounded_def wp_simps
    by (cases "validate_name name", simp add: t, simp, rule opened [THEN triple_wp], rule t)
      (auto simp: wp_simps split: sum.split intro: read_file_triple [of s D, THEN triple_wp])
qed

section \<open>Files that other operations keep\<close>

definition has_file :: "bytes \<Rightarrow> state_file \<Rightarrow> nat \<Rightarrow> 'z disk_scheme \<Rightarrow> bool" where
  "has_file n f u t \<longleftrightarrow> dir t n = Some f \<and> euid t = u"

definition file_kept :: "bytes \<Rightarrow> 'z disk_scheme \<Rightarrow> 'z disk_scheme \<Rightarrow> bool" where
  "file_kept k s t \<longleftrightarrow> euid t = euid s \<and> (dir s k = None \<or> dir t k = dir s k)"

lemma keeps_has_file:
  assumes "\<And>s. triple (at s (dir s)) m (\<lambda>a. file_kept k s) (file_kept k s)"
  shows "keeps (has_file k f u) m"
  unfolding keeps_def
proof (intro allI impI)
  fix s :: "'a disk_scheme" assume h: "has_file k f u s"
  show "has_file k f u (snd (m s))"
    by (rule triple_exhaust [OF assms at_self [of s]]) (use h in \<open>auto simp: has_file_def file_kept_def\<close>)
qed

lemma keeps_reading [keeps_rules]:
  "keeps (has_file k f u) (read_secret_optional_bounded n limit)" "keeps (has_file k f u) (random_bytes j)"
  by (rule keeps_has_file, rule triple_conseq [OF read_secret_triple] triple_conseq [OF random_triple],
      auto simp: file_kept_def at_def)+

lemma keeps_creating [keeps_rules]: "keeps (has_file k f u) (create_noclobber n b)"
  by (rule keeps_has_file, rule triple_conseq [OF create_noclobber_triple])
    (auto simp: file_kept_def at_def split: if_splits)

lemma keeps_replacing [keeps_rules]: "n \<noteq> k \<Longrightarrow> keeps (has_file k f u) (atomic_replace n b)"
  by (rule keeps_has_file, rule triple_conseq [OF atomic_replace_triple])
    (auto simp: file_kept_def at_def leftover_def split: if_splits)

text \<open>An entry, absent or present, that no operation on other names changes.\<close>

definition entry_is :: "bytes \<Rightarrow> state_file option \<Rightarrow> nat \<Rightarrow> 'z disk_scheme \<Rightarrow> bool" where
  "entry_is k x u t \<longleftrightarrow> dir t k = x \<and> euid t = u"

lemma keeps_same_files:
  assumes "\<And>s t. dir s = dir t \<Longrightarrow> euid s = euid t \<Longrightarrow> P s = P t"
    and "\<And>s. dir (snd (m s)) = dir s \<and> euid (snd (m s)) = euid s"
  shows "keeps P m"
  unfolding keeps_def using assms by blast

lemma read_same_files:
  "dir (snd (read_secret_optional_bounded n limit s)) = dir s \<and> euid (snd (read_secret_optional_bounded n limit s)) = euid s"
  by (rule triple_exhaust [OF read_secret_triple at_self [of s], of n limit]) (auto simp: at_def)

lemma keeps_disk_only:
  assumes "\<And>s t. dir s = dir t \<Longrightarrow> euid s = euid t \<Longrightarrow> P s = P t"
  shows "keeps P (read_secret_optional_bounded n limit)" "keeps P (random_bytes j)" "keeps P (syscall (return_io v))"
  by (rule keeps_same_files [OF assms]; auto simp: read_same_files random_bytes_def syscall_def return_io_def
      split: list.split option.split)+

lemma keeps_entry_creating: "n \<noteq> k \<Longrightarrow> keeps (entry_is k x u) (create_noclobber n b)"
proof -
  assume n: "n \<noteq> k"
  show ?thesis
    unfolding keeps_def
  proof (intro allI impI)
    fix s :: "'a disk_scheme" assume "entry_is k x u s"
    then show "entry_is k x u (snd (create_noclobber n b s))"
      by (rule_tac triple_exhaust [OF create_noclobber_triple at_self [of s], of n b])
        (use n in \<open>auto simp: at_def entry_is_def split: if_splits\<close>)
  qed
qed

lemma keeps_entry_replacing:
  assumes "n \<noteq> k" and "hd k \<noteq> 46"
  shows "keeps (entry_is k x u) (atomic_replace n b)"
  unfolding keeps_def
proof (intro allI impI)
  fix s :: "'a disk_scheme" assume "entry_is k x u s"
  then show "entry_is k x u (snd (atomic_replace n b s))"
    by (rule_tac triple_exhaust [OF atomic_replace_triple at_self [of s], of n b])
      (use assms in \<open>auto simp: at_def entry_is_def leftover_def temporary_for_def\<close>)
qed

section \<open>Locked operations\<close>

definition stable :: "('z disk_scheme \<Rightarrow> bool) \<Rightarrow> bool" where
  "stable I \<longleftrightarrow> (\<forall>t r. I t \<longrightarrow> I (t\<lparr>os_faults := r\<rparr>))"

lemma stable_at [simp]: "stable (at s D)"
  by (simp add: stable_def)

lemma keeps_syscall: "keeps I m \<Longrightarrow> stable I \<Longrightarrow> keeps I (syscall m)"
  by (auto simp: keeps_def stable_def syscall_def split: list.split option.split)

text \<open>Taking and releasing a lock changes no file but the lock file.\<close>

definition same_but :: "bytes \<Rightarrow> 'z disk_scheme \<Rightarrow> 'z disk_scheme \<Rightarrow> bool" where
  "same_but l s t \<longleftrightarrow> (\<forall>n. n \<noteq> l \<longrightarrow> dir t n = dir s n) \<and> euid t = euid s
     \<and> creation_mode t = creation_mode s \<and> disk.more t = disk.more s"

lemma same_but_refl [simp]: "same_but l s s"
  by (simp add: same_but_def)

lemma stable_same_but [simp]: "stable (same_but l s)"
  by (simp add: stable_def same_but_def)

lemma keeps_file_calls [keeps_rules]:
  "keeps (same_but l s) (openat_file n)"
  "keeps (same_but l s) (file_metadata n)"
  "keeps (same_but l s) (create_exclusive l)"
  "keeps (same_but l s) (protect_file l)"
  "keeps (same_but l s) sync_all"
  "keeps (same_but l s) (syscall (return_io u))"
  "keeps (same_but l s) (syscall (get_io g))"
  unfolding openat_file_def file_metadata_def create_exclusive_def protect_file_def update_file_def sync_all_def
  by (intro keeps_syscall stable_same_but;
      auto simp: keeps_def same_but_def return_io_def get_io_def split: option.split)+

lemma keeps_validate [keeps_rules]:
  "keeps (same_but l s) (validate_owner_mode f m e)"
  "keeps (same_but l s) (validate_file n m)"
  unfolding validate_owner_mode_def validate_file_def by (intro keeps_rules)+

lemma keeps_acquire [keeps_rules]: "keeps (same_but l s) (acquire_lock l)"
  unfolding acquire_lock_def open_validated_lock_def open_private_lock_file_def verify_locked_file_def
    validate_private_dir_def verify_path_identity_def Let_def
  by (intro keeps_rules)

lemma keeps_acquire_until [keeps_rules]: "keeps (same_but l s) (acquire_lock_until polls l)"
proof -
  have poll: "keeps (same_but l s) (syscall (return_io v))" for v
    by (intro keeps_syscall stable_same_but keeps_rules)
  have "keeps (same_but l s) (poll_lock polls)"
  proof (induction polls)
    case Nil
    then show ?case by (simp add: keeps_rules)
  next
    case (Cons taken r)
    then show ?case unfolding poll_lock.simps by (intro keeps_rules poll)
  qed
  then show ?thesis
    unfolding acquire_lock_until_def open_validated_lock_def open_private_lock_file_def verify_locked_file_def
      validate_private_dir_def verify_path_identity_def Let_def
    by (intro keeps_rules)
qed

lemma keeps_open_directory [keeps_rules]: "keeps (same_but l s) (open_state_directory c r)"
proof -
  have change: "keeps (same_but l s) (syscall m)"
    if "\<And>t. same_but l s t \<Longrightarrow> same_but l s (snd (m t))" for m :: "('a disk_scheme, unit) io"
    using that by (intro keeps_syscall stable_same_but) (simp add: keeps_def)
  show ?thesis
    unfolding open_state_directory_def validate_private_dir_def
    by (intro keeps_rules change) (auto simp: same_but_def split: option.splits)
qed

lemma wp_keeps: "keeps I m \<Longrightarrow> I s \<Longrightarrow> (\<And>a t. I t \<Longrightarrow> Q a t) \<Longrightarrow> (\<And>t. I t \<Longrightarrow> E t) \<Longrightarrow> wp m Q E s"
  unfolding keeps_triple by (rule triple_wp)

lemma finish_wp:
  "(case r of Inl _ \<Rightarrow> E s | Inr a \<Rightarrow> Q a s) \<Longrightarrow> (\<And>a. stable (Q a)) \<Longrightarrow> stable E \<Longrightarrow>
     wp (finish_locked_operation r) Q E s"
  by (auto simp: finish_locked_operation_def wp_def bind_io_def try_io_def syscall_def return_io_def of_result_def
      stable_def split: sum.splits list.splits option.splits)

lemma locked_wp:
  assumes "\<And>t. same_but l s t \<Longrightarrow> wp m Q E t" and "\<And>t. same_but l s t \<Longrightarrow> E t"
    and "\<And>a. stable (Q a)" and "stable E"
  shows "wp (with_exclusive_lock l m) Q E s" and "wp (with_locked_existing l m) Q E s"
    and "wp (with_exclusive_lock_until polls l m) Q E s"
proof -
  have run: "wp (try_io m) (\<lambda>r. wp (finish_locked_operation r) Q E) E t" if "same_but l s t" for t
    by (rule wp_try, rule triple_wp [where P = "\<lambda>u. u = t" and Q = Q and E = E])
      (use assms(1) [OF that] in \<open>auto simp: triple_def wp_def [of m] intro!: finish_wp assms(3,4)\<close>)
  have "wp (open_state_directory c False) (\<lambda>_. wp (acquire_lock l) (\<lambda>_. wp (try_io m)
      (\<lambda>r. wp (finish_locked_operation r) Q E) E) E) E s" for c
    by (rule wp_keeps [OF keeps_open_directory [of l s]], simp)
      (auto intro: wp_keeps [OF keeps_acquire [of l s]] run assms(2))
  moreover have "wp (open_state_directory True False) (\<lambda>_. wp (acquire_lock_until polls l) (\<lambda>_. wp (try_io m)
      (\<lambda>r. wp (finish_locked_operation r) Q E) E) E) E s"
    by (rule wp_keeps [OF keeps_open_directory [of l s]], simp)
      (auto intro: wp_keeps [OF keeps_acquire_until [of l s]] run assms(2))
  ultimately show "wp (with_exclusive_lock l m) Q E s" and "wp (with_locked_existing l m) Q E s"
    and "wp (with_exclusive_lock_until polls l m) Q E s"
    by (simp_all add: with_exclusive_lock_until_def with_exclusive_lock_def with_locked_existing_def with_locked_inner_def wp_simps)
qed

section \<open>Runs without faults\<close>

lemma syscall_quiet [io_simps]: "os_faults s = [] \<Longrightarrow> syscall m s = m s"
  by (simp add: syscall_def)

lemma validate_file_quiet [io_simps]:
  "os_faults s = [] \<Longrightarrow> dir s n = Some f \<Longrightarrow> acceptable (euid s) m f \<Longrightarrow> validate_file n m s = (Inr (), s)"
  by (simp add: validate_file_def validate_owner_mode_def file_metadata_def acceptable_def bind_io_def get_io_def
      ensure_io_def syscall_quiet)

lemma acceptable_kind: "acceptable u m f \<Longrightarrow> f_kind f \<noteq> Symlink"
  by (simp add: acceptable_def)

lemma read_quiet:
  assumes "os_faults s = []" and "validate_name n = Inr ()"
  shows "dir s n = None \<Longrightarrow> read_secret_optional_bounded n limit s = (Inr None, s)"
    and "dir s n = Some f \<Longrightarrow> acceptable (euid s) 0x180 f \<Longrightarrow> length (f_data f) \<le> limit \<Longrightarrow>
      read_secret_optional_bounded n limit s = (Inr (Some (f_data f)), s)"
  using assms
  by (simp_all add: read_secret_optional_bounded_def read_secret_bounded_file_def read_secret_bounded_contents_def
      openat_file_def file_metadata_def bind_io_def try_io_def ensure_io_def return_io_def of_result_def io_simps
      acceptable_kind)

lemma create_quiet:
  assumes "os_faults s = []" and "validate_name n = Inr ()" and "dir s n = None"
  shows "create_noclobber n b s = (Inr True, s\<lparr>dir := (dir s)(n \<mapsto> private_file (euid s) b)\<rparr>)"
  using assms
  by (simp add: create_noclobber_def before_sync_def create_exclusive_def protect_file_def write_all_def
      update_file_def sync_all_def bind_io_def try_io_def return_io_def of_result_def io_simps
      acceptable_def private_file_def)

lemma replace_quiet:
  assumes q: "os_faults s = []" "16 \<le> length (entropy s)" and n: "validate_name n = Inr ()"
    and old: "\<And>f. dir s n = Some f \<Longrightarrow> acceptable (euid s) 0x180 f"
    and free: "dir s ([46] @ n @ ascii ''.tmp.'' @ hex (take 16 (entropy s))) = None"
  shows "atomic_replace n b s =
    (Inr (), s\<lparr>dir := (dir s)(n \<mapsto> private_file (euid s) b), entropy := drop 16 (entropy s)\<rparr>)"
proof -
  let ?tmp = "[46] @ n @ ascii ''.tmp.'' @ hex (take 16 (entropy s))"
  have ne: "?tmp \<noteq> n" by (auto dest: arg_cong [of _ _ length])
  have existing: "validate_existing n t = (Inr (), t)"
    if "os_faults t = []" "euid t = euid s" "dir t n = dir s n" for t :: "'a disk_scheme"
    using that old
    by (cases "dir s n") (simp_all add: validate_existing_def openat_file_def bind_io_def try_io_def
        return_io_def io_simps acceptable_kind)
  have tmp: "temporary_name n t = (Inr ?tmp, t\<lparr>entropy := drop 16 (entropy s)\<rparr>)"
    if "os_faults t = []" "entropy t = entropy s" for t :: "'a disk_scheme"
    using that q(2) by (simp add: temporary_name_def random_bytes_def bind_io_def return_io_def io_simps not_less)
  show ?thesis
    using q n free ne existing [of s] tmp [of s]
    by (simp add: atomic_replace_def pre_rename_def create_exclusive_def protect_file_def write_all_def renameat_def
        update_file_def sync_all_def bind_io_def try_io_def return_io_def of_result_def io_simps existing
        acceptable_def private_file_def fun_upd_twist)
      (auto simp: fun_eq_iff)
qed

text \<open>The state directory is usable: owner-only, and the lock file absent or ours.\<close>

definition usable :: "bytes \<Rightarrow> 'z disk_scheme \<Rightarrow> bool" where
  "usable l s \<longleftrightarrow> os_faults s = []
     \<and> (\<exists>d. directory s = Some d \<and> f_kind d = Directory \<and> f_owner d = euid s \<and> f_mode d mod 4096 = 0x1C0)
     \<and> (\<forall>f. dir s l = Some f \<longrightarrow> acceptable (euid s) 0x180 f)"

definition locked :: "bytes \<Rightarrow> 'z disk_scheme \<Rightarrow> 'z disk_scheme" where
  "locked l s = (if dir s l = None then s\<lparr>dir := (dir s)(l \<mapsto> private_file (euid s) [])\<rparr> else s)"

lemma locked_simps [simp]:
  "os_faults (locked l s) = os_faults s" "euid (locked l s) = euid s" "entropy (locked l s) = entropy s"
  "directory (locked l s) = directory s" "creation_mode (locked l s) = creation_mode s"
  "n \<noteq> l \<Longrightarrow> dir (locked l s) n = dir s n" "disk.more (locked l s) = disk.more s"
  by (simp_all add: locked_def)

lemma open_directory_quiet: "usable l s \<Longrightarrow> open_state_directory c r s = (Inr (), s)"
  by (auto simp: usable_def open_state_directory_def validate_private_dir_def validate_owner_mode_def bind_io_def
      get_io_def ensure_io_def return_io_def io_simps)

lemma verify_locked_quiet:
  "usable l t \<Longrightarrow> dir t l = Some f \<Longrightarrow> acceptable (euid t) 0x180 f \<Longrightarrow> verify_locked_file l t = (Inr (), t)"
  by (auto simp: verify_locked_file_def validate_private_dir_def validate_owner_mode_def verify_path_identity_def
      openat_file_def file_metadata_def usable_def bind_io_def get_io_def ensure_io_def return_io_def io_simps acceptable_kind)

lemma open_lock_quiet:
  assumes "usable l s" and "validate_name l = Inr ()"
  shows "open_validated_lock l s = (Inr (), locked l s)" and "verify_locked_file l (locked l s) = (Inr (), locked l s)"
proof -
  have "acceptable (euid s) 0x180 (private_file (euid s) [])" by simp
  then obtain f where f: "usable l (locked l s)" "dir (locked l s) l = Some f" "acceptable (euid (locked l s)) 0x180 f"
    using assms(1) by (cases "dir s l") (auto simp: usable_def locked_def)
  then show "verify_locked_file l (locked l s) = (Inr (), locked l s)" by (rule verify_locked_quiet)
  show "open_validated_lock l s = (Inr (), locked l s)"
    using assms f
    by (cases "dir s l") (simp_all add: usable_def open_validated_lock_def open_private_lock_file_def create_exclusive_def
        protect_file_def update_file_def openat_file_def sync_all_def bind_io_def try_io_def return_io_def of_result_def
        io_simps locked_def acceptable_def private_file_def)
qed

lemma acquire_quiet:
  assumes "usable l s" and "validate_name l = Inr ()"
  shows "acquire_lock l s = (Inr (), locked l s)" and "acquire_lock_until (False # r) l s = (Inr (), locked l s)"
  using open_lock_quiet [OF assms] assms(1)
  by (simp_all add: acquire_lock_def acquire_lock_until_def bind_io_def return_io_def io_simps usable_def)

lemma locked_quiet:
  assumes "usable l s" and "validate_name l = Inr ()" and "os_faults (snd (m (locked l s))) = []"
  shows "with_exclusive_lock l m s = m (locked l s)" and "with_locked_existing l m s = m (locked l s)"
    and "with_exclusive_lock_until (False # r) l m s = m (locked l s)"
  using assms
  by (cases "m (locked l s)"; simp add: with_exclusive_lock_def with_locked_existing_def with_locked_inner_def
      with_exclusive_lock_until_def open_directory_quiet acquire_quiet bind_io_def try_io_def finish_locked_operation_def
      return_io_def of_result_def io_simps)+

section \<open>Properties\<close>

lemma leftover_kept: "leftover n D D' \<Longrightarrow> D' n = D n \<and> D \<subseteq>\<^sub>m D'"
  by (auto simp: leftover_def map_le_def dest: temporary_for_ne)

definition sample_disk :: disk where
  "sample_disk = \<lparr>euid = 1000, creation_mode = 0x180,
     directory = Some \<lparr>f_kind = Directory, f_owner = 1000, f_mode = 0x1C0, f_links = 2, f_data = []\<rparr>,
     dir = [ascii ''a'' \<mapsto> private_file 1000 [1, 2]], os_faults = [], entropy = replicate 16 7\<rparr>"

lemmas sample_disk_evals = sample_disk_def validate_name_def path_components_def segment_components_def hex_def
  hex_byte_def hex_char_def byte_simps

text \<open>C28: replacing a file is atomic. Whatever system calls fail, a process that is killed between two of
  them included, the file has either its old contents or exactly the new bytes, owner-only, and every
  other existing file is untouched; success is reported exactly in the second case. Without faults,
  for an absent or owner-only file, the replacement succeeds.\<close>

theorem replace_is_atomic:
  "(case atomic_replace name b s of
      (Inr _, t) \<Rightarrow> dir t = (dir s)(name \<mapsto> private_file (euid s) b)
    | (Inl _, t) \<Rightarrow> dir t name = dir s name \<and> dir s \<subseteq>\<^sub>m dir t) \<and>
   (os_faults s = [] \<and> 16 \<le> length (entropy s) \<and> validate_name name = Inr ()
      \<and> (\<forall>f. dir s name = Some f \<longrightarrow> acceptable (euid s) 0x180 f)
      \<and> dir s ([46] @ name @ ascii ''.tmp.'' @ hex (take 16 (entropy s))) = None
    \<longrightarrow> fst (atomic_replace name b s) = Inr ())"
proof (intro conjI impI)
  show "case atomic_replace name b s of (Inr _, t) \<Rightarrow> dir t = (dir s)(name \<mapsto> private_file (euid s) b)
    | (Inl _, t) \<Rightarrow> dir t name = dir s name \<and> dir s \<subseteq>\<^sub>m dir t"
    by (rule triple_exhaust [OF atomic_replace_triple [of s "dir s" name b], OF at_self]) (auto dest: leftover_kept at_dir)
qed (auto simp: replace_quiet)

theorem replace_is_atomic_witness:
  "fst (atomic_replace (ascii ''a'') [9] sample_disk) = Inr ()
   \<and> dir (snd (atomic_replace (ascii ''a'') [9] sample_disk)) (ascii ''a'') = Some (private_file 1000 [9])"
proof -
  have "fst (atomic_replace (ascii ''a'') [9] sample_disk) = Inr ()"
    using replace_is_atomic [where name = "ascii ''a''" and b = "[9]" and s = sample_disk] by (simp add: sample_disk_evals)
  then show ?thesis
    using replace_is_atomic [where name = "ascii ''a''" and b = "[9]" and s = sample_disk]
    by (auto simp: sample_disk_def split: prod.splits)
qed

text \<open>C29: creating a file never alters an existing one, whatever fails: it reports \<open>true\<close> only when the
  name was free and the new file holds exactly the bytes, owner-only, and \<open>false\<close> only when a safe
  file was already there. Reading returns only complete contents of a safe file within the limit, and
  a file just created is read back.\<close>

theorem create_never_replaces:
  "(case create_noclobber name b s of
      (Inr True, t) \<Rightarrow> dir s name = None \<and> dir t = (dir s)(name \<mapsto> private_file (euid s) b)
    | (Inr False, t) \<Rightarrow> dir s name \<noteq> None \<and> dir t = dir s
    | (Inl _, t) \<Rightarrow> dir s \<subseteq>\<^sub>m dir t) \<and>
   (case read_secret_optional_bounded name limit s of
      (Inr (Some c), t) \<Rightarrow> dir t = dir s \<and> length c \<le> limit
        \<and> (\<exists>f. dir s name = Some f \<and> acceptable (euid s) 0x180 f \<and> f_data f = c)
    | (Inr None, t) \<Rightarrow> dir t = dir s \<and> dir s name = None
    | (Inl _, t) \<Rightarrow> dir t = dir s) \<and>
   (create_noclobber name b s = (Inr True, t) \<and> os_faults t = [] \<and> length b \<le> limit
     \<longrightarrow> fst (read_secret_optional_bounded name limit t) = Inr (Some b))"
proof (intro conjI impI)
  show "case create_noclobber name b s of
      (Inr True, t) \<Rightarrow> dir s name = None \<and> dir t = (dir s)(name \<mapsto> private_file (euid s) b)
    | (Inr False, t) \<Rightarrow> dir s name \<noteq> None \<and> dir t = dir s
    | (Inl _, t) \<Rightarrow> dir s \<subseteq>\<^sub>m dir t"
    by (rule triple_exhaust [OF create_noclobber_triple [of s "dir s" name b], OF at_self]) (auto simp: map_le_def dest!: at_dir split: bool.splits if_splits)
  show "case read_secret_optional_bounded name limit s of
      (Inr (Some c), t) \<Rightarrow> dir t = dir s \<and> length c \<le> limit
        \<and> (\<exists>f. dir s name = Some f \<and> acceptable (euid s) 0x180 f \<and> f_data f = c)
    | (Inr None, t) \<Rightarrow> dir t = dir s \<and> dir s name = None
    | (Inl _, t) \<Rightarrow> dir t = dir s"
    by (rule triple_exhaust [OF read_secret_triple [of s "dir s" name limit], OF at_self]) (auto dest!: at_dir split: option.splits)
  assume a: "create_noclobber name b s = (Inr True, t) \<and> os_faults t = [] \<and> length b \<le> limit"
  then have "dir t name = Some (private_file (euid t) b)"
    using triple_Inr [OF create_noclobber_triple at_self [of s], of name b True t] by (auto dest!: at_dir)
  moreover have "validate_name name = Inr ()"
    using a by (auto simp: create_noclobber_def bind_io_Inr)
  ultimately show "fst (read_secret_optional_bounded name limit t) = Inr (Some b)"
    using a read_quiet(2) [of t name "private_file (euid t) b" limit] by (simp add: private_file_def acceptable_def)
qed

theorem create_never_replaces_witness:
  "fst (read_secret_optional_bounded (ascii ''b'') 5 (snd (create_noclobber (ascii ''b'') [3] sample_disk))) = Inr (Some [3])"
proof -
  have "create_noclobber (ascii ''b'') [3] sample_disk =
      (Inr True, sample_disk\<lparr>dir := (dir sample_disk)(ascii ''b'' \<mapsto> private_file (euid sample_disk) [3])\<rparr>)"
    by (rule create_quiet) (simp_all add: sample_disk_evals)
  then show ?thesis
    using create_never_replaces [where name = "ascii ''b''" and b = "[3]" and s = sample_disk and limit = 5] by (simp add: sample_disk_def)
qed

end
