(* ===== verification/Local_Encryption.thy ===== *)
theory Local_Encryption
  imports Secure_State Sync_Api
begin

text \<open>
  \<open>cli/src/local_encryption.rs\<close>: secrets of the state directory, sealed under a master key derived
  from a password. ChaCha20-Poly1305, Argon2id and JSON syntax are the parameters \<open>L\<close> and \<open>J\<close>; the
  terminal, the process environment and the 1Password program are inputs of the \<open>session\<close> record,
  consumed in order. Proved: the opener accepts exactly the envelopes the sealer makes for the same
  purpose, and a derived master key does not change between calls.
\<close>

record local_crypto =
  chacha_encrypt :: "bytes \<Rightarrow> bytes \<Rightarrow> bytes \<Rightarrow> bytes \<Rightarrow> bytes option"
  chacha_decrypt :: "bytes \<Rightarrow> bytes \<Rightarrow> bytes \<Rightarrow> bytes \<Rightarrow> bytes option"
  argon2id :: "nat \<Rightarrow> nat \<Rightarrow> nat \<Rightarrow> nat \<Rightarrow> bytes \<Rightarrow> bytes \<Rightarrow> bytes option"

definition LOCAL_MAGIC :: bytes where "LOCAL_MAGIC = ascii ''ATSECR01''"
definition LOCAL_VERSION :: u8 where "LOCAL_VERSION = 1"
definition LOCAL_NONCE_BYTES :: nat where [limit_defs]: "LOCAL_NONCE_BYTES = 12"
definition TAG_BYTES :: nat where [limit_defs]: "TAG_BYTES = 16"
definition HEADER_BYTES :: nat where [limit_defs]: "HEADER_BYTES = 21"
definition MASTER_KEY_BYTES :: nat where [limit_defs]: "MASTER_KEY_BYTES = 32"
definition KDF_SALT_FILE :: bytes where "KDF_SALT_FILE = ascii ''encryption-salt.argon2id-v1''"
definition KDF_SALT_BYTES :: nat where [limit_defs]: "KDF_SALT_BYTES = 16"
definition KDF_MEMORY_KIB :: nat where [limit_defs]: "KDF_MEMORY_KIB = 19 * 1024"
definition KDF_ITERATIONS :: nat where [limit_defs]: "KDF_ITERATIONS = 2"
definition KDF_PARALLELISM :: nat where [limit_defs]: "KDF_PARALLELISM = 1"
definition MAX_PASSWORD_BYTES :: nat where [limit_defs]: "MAX_PASSWORD_BYTES = 1024"
definition ONE_PASSWORD_ITEM_TITLE :: bytes where "ONE_PASSWORD_ITEM_TITLE = ascii ''Attached encryption password''"
definition ONE_PASSWORD_LOCATOR_FILE :: bytes where "ONE_PASSWORD_LOCATOR_FILE = ascii ''one-password-item.json''"
definition MAX_ONE_PASSWORD_LOCATOR_BYTES :: nat where [limit_defs]: "MAX_ONE_PASSWORD_LOCATOR_BYTES = 1024"

section \<open>Sealed secrets\<close>

datatype Purpose = AdminIdentity | SyncAccount | SyncCatalog | SshHost

definition purpose_aad :: "Purpose \<Rightarrow> bytes" where
  "purpose_aad p = (case p of
     AdminIdentity \<Rightarrow> ascii ''attached/local-secret/v1/admin-identity''
   | SyncAccount \<Rightarrow> ascii ''attached/local-secret/v1/sync-account''
   | SyncCatalog \<Rightarrow> ascii ''attached/local-secret/v1/sync-catalog''
   | SshHost \<Rightarrow> ascii ''attached/local-secret/v1/ssh-host'')"

definition associated_data :: "Purpose \<Rightarrow> bytes" where
  "associated_data p = LOCAL_MAGIC @ [LOCAL_VERSION] @ purpose_aad p"

definition stored_limit :: "nat \<Rightarrow> nat" where
  "stored_limit plaintext_limit = HEADER_BYTES + TAG_BYTES + plaintext_limit"

definition is_envelope :: "bytes \<Rightarrow> bool" where
  "is_envelope b \<longleftrightarrow> take (length LOCAL_MAGIC) b = LOCAL_MAGIC"

definition has_envelope_shape :: "bytes \<Rightarrow> bool" where
  "has_envelope_shape b \<longleftrightarrow> is_envelope b \<or> length b \<ge> HEADER_BYTES + TAG_BYTES"

definition seal :: "local_crypto \<Rightarrow> bytes \<Rightarrow> Purpose \<Rightarrow> bytes \<Rightarrow> nat \<Rightarrow> ('z disk_scheme, bytes) io" where
  "seal L mk purpose plaintext plaintext_limit =
     bind_io (ensure_io (length plaintext \<le> plaintext_limit) SecretTooLarge) (\<lambda>_.
     bind_io (random_bytes LOCAL_NONCE_BYTES) (\<lambda>n.
     bind_io (of_result (ok_or (chacha_encrypt L mk n (associated_data purpose) plaintext) SecretFormat)) (\<lambda>c.
       return_io (LOCAL_MAGIC @ [LOCAL_VERSION] @ n @ c))))"

definition open_secret :: "local_crypto \<Rightarrow> bytes \<Rightarrow> Purpose \<Rightarrow> bytes \<Rightarrow> nat \<Rightarrow> failure + bytes" where
  "open_secret L mk purpose envelope plaintext_limit =
     (let maximum = HEADER_BYTES + plaintext_limit + TAG_BYTES in
      bind_result (ensure (maximum \<le> U64_MAX) SecretTooLarge) (\<lambda>_.
      bind_result (ensure (length envelope \<le> maximum) SecretTooLarge) (\<lambda>_.
      bind_result (ensure (length envelope \<ge> HEADER_BYTES + TAG_BYTES) SecretTruncated) (\<lambda>_.
      bind_result (ensure (take (length LOCAL_MAGIC) envelope = LOCAL_MAGIC) SecretFormat) (\<lambda>_.
      bind_result (ensure (envelope ! length LOCAL_MAGIC = LOCAL_VERSION) SecretVersion) (\<lambda>_.
      let nonce_start = length LOCAL_MAGIC + 1; nonce_end = nonce_start + LOCAL_NONCE_BYTES in
      bind_result (ok_or (chacha_decrypt L mk (take LOCAL_NONCE_BYTES (drop nonce_start envelope))
          (associated_data purpose) (drop nonce_end envelope)) SecretAuthentication) (\<lambda>plaintext.
      bind_result (ensure (length plaintext \<le> plaintext_limit) SecretTooLarge) (\<lambda>_. Inr plaintext))))))))"

section \<open>Passwords\<close>

datatype env_var = NotPresent | NotUnicode | EnvText bytes

record session = disk +
  handoff_key :: "bytes option"
  use_one_password :: bool
  item_tag :: bytes
  environment_password :: env_var
  noninteractive :: bool
  terminal :: "(failure + bytes) list"
  op_answers :: "(failure + bool \<times> bytes) list"
  op_calls :: "bytes list list"
  user_password :: "bytes option"
  op_password :: "bytes option"
  user_key :: "(bytes \<times> bytes) option"
  environment_key :: "(bytes \<times> bytes) option"
  op_key :: "(bytes \<times> bytes) option"

definition validate_password :: "bytes \<Rightarrow> failure + unit" where
  "validate_password password =
     bind_result (ensure (password \<noteq> []) InvalidPassword) (\<lambda>_.
       ensure (length password \<le> MAX_PASSWORD_BYTES) InvalidPassword)"

definition read_password :: "('z session_scheme, bytes) io" where
  "read_password s =
     (if noninteractive s then (Inl Io, s)
      else case terminal s of [] \<Rightarrow> (Inl Io, s) | a # r \<Rightarrow> (a, s\<lparr>terminal := r\<rparr>))"

definition user_password_provider :: "bool \<Rightarrow> ('z session_scheme, bytes) io" where
  "user_password_provider create =
     bind_io (get_io user_password) (\<lambda>cached. case cached of
       Some password \<Rightarrow> return_io password
     | None \<Rightarrow>
         bind_io read_password (\<lambda>password.
         bind_io (of_result (validate_password password)) (\<lambda>_.
         bind_io (if create
           then bind_io read_password (\<lambda>confirmation.
             bind_io (of_result (validate_password confirmation)) (\<lambda>_.
               ensure_io (password = confirmation) PasswordMismatch))
           else return_io ()) (\<lambda>_ s. (Inr password, s\<lparr>user_password := Some password\<rparr>)))))"

definition environment_password_provider :: "('z session_scheme, bytes) io" where
  "environment_password_provider =
     bind_io (get_io environment_password) (\<lambda>v. case v of
       EnvText password \<Rightarrow> bind_io (of_result (validate_password password)) (\<lambda>_. return_io password)
     | _ \<Rightarrow> fail_io InvalidPassword)"

section \<open>1Password\<close>

record ItemLocator =
  item_id :: bytes
  vault_id :: bytes

definition json_string_owned :: "json \<Rightarrow> bytes option" where
  "json_string_owned j = (case j of JString t _ \<Rightarrow> Some t | _ \<Rightarrow> None)"

text \<open>A derived reader that ignores unknown fields.\<close>

definition lenient_struct :: "bytes list \<Rightarrow> json \<Rightarrow> json list option" where
  "lenient_struct names j = (case j of
     JObject kvs \<Rightarrow>
       let known = filter (\<lambda>(k, _). List.member names k) kvs in
       if distinct (map fst known) \<and> list_all (\<lambda>k. List.member (map fst known) k) names
       then Some (map (\<lambda>k. the (map_of known k)) names) else None
   | JArray vs \<Rightarrow> if length vs = length names then Some vs else None
   | _ \<Rightarrow> None)"

text \<open>\<open>ListedItem\<close>: identifier, title and vault identifier of one listed item.\<close>

definition listed_item_read :: "json \<Rightarrow> (bytes \<times> bytes \<times> bytes) option" where
  "listed_item_read j = (case lenient_struct [ascii ''id'', ascii ''title'', ascii ''vault''] j of
     Some [i, t, v] \<Rightarrow> (case (json_string_owned i, json_string_owned t, lenient_struct [ascii ''id''] v) of
       (Some iid, Some title, Some [w]) \<Rightarrow> map_option (\<lambda>vid. (iid, title, vid)) (json_string_owned w)
     | _ \<Rightarrow> None)
   | _ \<Rightarrow> None)"

definition listed_items_read :: "json \<Rightarrow> (bytes \<times> bytes \<times> bytes) list option" where
  "listed_items_read j = (case j of
     JArray vs \<Rightarrow> (let rs = map listed_item_read vs in
       if None \<in> set rs then None else Some (map the rs))
   | _ \<Rightarrow> None)"

definition locator_validate :: "ItemLocator \<Rightarrow> failure + unit" where
  "locator_validate l =
     bind_result (ensure (item_id l \<noteq> [] \<and> list_all is_ascii_alphanumeric (item_id l)) InvalidPassword) (\<lambda>_.
       ensure (vault_id l \<noteq> [] \<and> list_all is_ascii_alphanumeric (vault_id l)) InvalidPassword)"

definition locator_from_item :: "bytes \<times> bytes \<times> bytes \<Rightarrow> failure + ItemLocator" where
  "locator_from_item item = (case item of (iid, _, vid) \<Rightarrow>
     let locator = \<lparr>item_id = iid, vault_id = vid\<rparr> in
     bind_result (locator_validate locator) (\<lambda>_. Inr locator))"

definition locator_json :: "ItemLocator \<Rightarrow> json" where
  "locator_json l = JObject [(ascii ''item_id'', JString (item_id l) False), (ascii ''vault_id'', JString (vault_id l) False)]"

definition locator_read :: "json \<Rightarrow> ItemLocator option" where
  "locator_read j = (case derived_struct [ascii ''item_id'', ascii ''vault_id''] j of
     Some [i, v] \<Rightarrow> (case (json_string_owned i, json_string_owned v) of
       (Some iid, Some vid) \<Rightarrow> Some \<lparr>item_id = iid, vault_id = vid\<rparr> | _ \<Rightarrow> None)
   | _ \<Rightarrow> None)"

definition op_run :: "bytes list \<Rightarrow> ('z session_scheme, bytes) io" where
  "op_run arguments s = (let s1 = s\<lparr>op_calls := op_calls s @ [arguments]\<rparr> in case op_answers s of
     [] \<Rightarrow> (Inl Io, s1)
   | Inl e # r \<Rightarrow> (Inl e, s1\<lparr>op_answers := r\<rparr>)
   | Inr (success, out) # r \<Rightarrow> (if success then Inr out else Inl Io, s1\<lparr>op_answers := r\<rparr>))"

definition op_item :: "json_lib \<Rightarrow> ('z session_scheme, ItemLocator option) io" where
  "op_item J =
     bind_io (get_io item_tag) (\<lambda>tag.
     bind_io (op_run [ascii ''item'', ascii ''list'', ascii ''--categories=Password'', ascii ''--tags='' @ tag,
         ascii ''--format=json'']) (\<lambda>out.
     bind_io (of_result (ok_or (Option.bind (json_from_slice J out) listed_items_read) InvalidPassword)) (\<lambda>listed.
     case filter (\<lambda>(_, title, _). title = ONE_PASSWORD_ITEM_TITLE) listed of
       [] \<Rightarrow> return_io None
     | [selected] \<Rightarrow> bind_io (of_result (locator_from_item selected)) (\<lambda>l. return_io (Some l))
     | _ \<Rightarrow> fail_io InvalidPassword)))"

definition load_item_locator :: "json_lib \<Rightarrow> ('z session_scheme, ItemLocator option) io" where
  "load_item_locator J =
     bind_io (read_secret_optional_bounded ONE_PASSWORD_LOCATOR_FILE MAX_ONE_PASSWORD_LOCATOR_BYTES) (\<lambda>r.
     return_io (case Option.bind (Option.bind r (json_from_slice J)) locator_read of
       None \<Rightarrow> None
     | Some l \<Rightarrow> if is_ok (locator_validate l) then Some l else None))"

definition store_item_locator :: "json_lib \<Rightarrow> ItemLocator \<Rightarrow> ('z session_scheme, unit) io" where
  "store_item_locator J l =
     bind_io (of_result (locator_validate l)) (\<lambda>_.
     let encoded = json_to_vec J (locator_json l) in
     bind_io (ensure_io (length encoded \<le> MAX_ONE_PASSWORD_LOCATOR_BYTES) StateTooLarge) (\<lambda>_.
     bind_io (create_noclobber ONE_PASSWORD_LOCATOR_FILE encoded) (\<lambda>created.
       if created then return_io () else atomic_replace ONE_PASSWORD_LOCATOR_FILE encoded)))"

fun strip_line_ends :: "bytes \<Rightarrow> bytes" where
  "strip_line_ends [] = []"
| "strip_line_ends (b # r) = (if b = 10 \<or> b = 13 then strip_line_ends r else b # r)"

definition parse_one_password_output :: "bytes \<Rightarrow> failure + bytes" where
  "parse_one_password_output out =
     (let password = rev (strip_line_ends (rev out)) in
      bind_result (ensure (10 \<notin> set password \<and> 13 \<notin> set password) InvalidPassword) (\<lambda>_.
      bind_result (validate_password password) (\<lambda>_. Inr password)))"

definition read_item_password :: "ItemLocator \<Rightarrow> ('z session_scheme, bytes) io" where
  "read_item_password l =
     bind_io (op_run [ascii ''item'', ascii ''get'', item_id l, ascii ''--vault='' @ vault_id l,
         ascii ''--fields=label=password'', ascii ''--reveal'']) (\<lambda>out. of_result (parse_one_password_output out))"

definition create_item :: "('z session_scheme, unit) io" where
  "create_item =
     bind_io (get_io item_tag) (\<lambda>tag.
     bind_io (op_run [ascii ''item'', ascii ''create'', ascii ''--category=Password'',
         ascii ''--title='' @ ONE_PASSWORD_ITEM_TITLE, ascii ''--tags='' @ tag,
         ascii ''--generate-password=letters,digits,symbols,64'']) (\<lambda>_. return_io ()))"

definition one_password_provider :: "json_lib \<Rightarrow> bool \<Rightarrow> ('z session_scheme, bytes) io" where
  "one_password_provider J create =
     bind_io (get_io op_password) (\<lambda>cached. case cached of
       Some password \<Rightarrow> return_io password
     | None \<Rightarrow>
         let remember = (\<lambda>password s. (Inr password, s\<lparr>op_password := Some password\<rparr>)) in
         bind_io (load_item_locator J) (\<lambda>known.
         bind_io (case known of
             Some l \<Rightarrow> try_io (read_item_password l) | None \<Rightarrow> return_io (Inl NotFound)) (\<lambda>attempt.
         case attempt of
           Inr password \<Rightarrow> remember password
         | Inl _ \<Rightarrow>
             bind_io (op_item J) (\<lambda>found.
             bind_io (case found of
                 Some l \<Rightarrow> return_io l
               | None \<Rightarrow> if create
                   then bind_io create_item (\<lambda>_. bind_io (op_item J) (\<lambda>again.
                     of_result (ok_or again InvalidPassword)))
                   else fail_io InvalidPassword) (\<lambda>l.
             bind_io (read_item_password l) (\<lambda>password.
             bind_io (store_item_locator J l) (\<lambda>_. remember password)))))))"

definition one_password_remove :: "json_lib \<Rightarrow> ('z session_scheme, unit) io" where
  "one_password_remove J = bind_io (op_item J) (\<lambda>found. case found of
     None \<Rightarrow> return_io ()
   | Some l \<Rightarrow> bind_io (op_run [ascii ''item'', ascii ''delete'', item_id l, ascii ''--vault='' @ vault_id l])
       (\<lambda>_. return_io ()))"

section \<open>The master key\<close>

definition parse_kdf_salt :: "bytes \<Rightarrow> failure + bytes" where
  "parse_kdf_salt stored = bind_result (ensure (length stored = KDF_SALT_BYTES) InvalidSalt) (\<lambda>_. Inr stored)"

definition load_or_create_kdf_salt :: "bool \<Rightarrow> ('z disk_scheme, bytes) io" where
  "load_or_create_kdf_salt create =
     bind_io (read_secret_optional_bounded KDF_SALT_FILE KDF_SALT_BYTES) (\<lambda>stored. case stored of
       Some b \<Rightarrow> of_result (parse_kdf_salt b)
     | None \<Rightarrow>
         bind_io (ensure_io create MissingSalt) (\<lambda>_.
         bind_io (random_bytes KDF_SALT_BYTES) (\<lambda>candidate.
         bind_io (create_noclobber KDF_SALT_FILE candidate) (\<lambda>created.
           if created then return_io candidate
           else bind_io (read_secret_bounded KDF_SALT_FILE KDF_SALT_BYTES) (\<lambda>b. of_result (parse_kdf_salt b))))))"

definition derive_master_key :: "local_crypto \<Rightarrow> bytes \<Rightarrow> bytes \<Rightarrow> failure + bytes" where
  "derive_master_key L password salt =
     bind_result (validate_password password) (\<lambda>_.
       ok_or (argon2id L KDF_MEMORY_KIB KDF_ITERATIONS KDF_PARALLELISM MASTER_KEY_BYTES password salt) InvalidPassword)"

datatype key_store = HandoffMasterKeyStore bytes | OnePasswordStore | EnvironmentPasswordStore | UserPasswordStore

definition cached_key :: "key_store \<Rightarrow> 'z session_scheme \<Rightarrow> (bytes \<times> bytes) option" where
  "cached_key store s = (case store of
     HandoffMasterKeyStore _ \<Rightarrow> None | OnePasswordStore \<Rightarrow> op_key s
   | EnvironmentPasswordStore \<Rightarrow> environment_key s | UserPasswordStore \<Rightarrow> user_key s)"

definition set_cached_key :: "key_store \<Rightarrow> (bytes \<times> bytes) option \<Rightarrow> 'z session_scheme \<Rightarrow> 'z session_scheme" where
  "set_cached_key store k s = (case store of
     HandoffMasterKeyStore _ \<Rightarrow> s | OnePasswordStore \<Rightarrow> s\<lparr>op_key := k\<rparr>
   | EnvironmentPasswordStore \<Rightarrow> s\<lparr>environment_key := k\<rparr> | UserPasswordStore \<Rightarrow> s\<lparr>user_key := k\<rparr>)"

definition store_password :: "json_lib \<Rightarrow> key_store \<Rightarrow> bool \<Rightarrow> ('z session_scheme, bytes) io" where
  "store_password J store create = (case store of
     OnePasswordStore \<Rightarrow> one_password_provider J create
   | EnvironmentPasswordStore \<Rightarrow> environment_password_provider
   | _ \<Rightarrow> user_password_provider create)"

text \<open>\<open>PasswordMasterKeyStore::load_or_create\<close>, and \<open>load_or_create_master_key\<close> for every kind of store.\<close>

definition password_store_load :: "local_crypto \<Rightarrow> json_lib \<Rightarrow> key_store \<Rightarrow> bool \<Rightarrow> ('z session_scheme, bytes) io" where
  "password_store_load L J store create =
     bind_io (load_or_create_kdf_salt create) (\<lambda>salt.
     bind_io (get_io (cached_key store)) (\<lambda>cached.
     if (case cached of Some (known, _) \<Rightarrow> known = salt | None \<Rightarrow> False) then return_io (snd (the cached))
     else
       bind_io (store_password J store create) (\<lambda>password.
       bind_io (of_result (derive_master_key L password salt)) (\<lambda>mk s.
         (Inr mk, set_cached_key store (Some (salt, mk)) s)))))"

definition load_or_create_master_key ::
  "local_crypto \<Rightarrow> json_lib \<Rightarrow> key_store \<Rightarrow> bool \<Rightarrow> ('z session_scheme, bytes) io" where
  "load_or_create_master_key L J store create = (case store of
     HandoffMasterKeyStore mk \<Rightarrow> return_io mk
   | _ \<Rightarrow> password_store_load L J store create)"

definition active_store :: "'z session_scheme \<Rightarrow> key_store" where
  "active_store s = (case handoff_key s of
     Some mk \<Rightarrow> HandoffMasterKeyStore mk
   | None \<Rightarrow> if use_one_password s then OnePasswordStore
       else if environment_password s \<noteq> NotPresent then EnvironmentPasswordStore
       else UserPasswordStore)"

text \<open>The coordination directory holds nothing but its lock: taking it is a call that may fail.\<close>

definition with_master_key_store ::
  "local_crypto \<Rightarrow> json_lib \<Rightarrow> key_store \<Rightarrow> bool \<Rightarrow> (bytes \<Rightarrow> ('z session_scheme, 'a) io) \<Rightarrow> ('z session_scheme, 'a) io" where
  "with_master_key_store L J store create operation =
     bind_io (syscall (return_io ())) (\<lambda>_.
     bind_io (try_io (bind_io (load_or_create_master_key L J store create) operation)) finish_locked_operation)"

definition with_master_key ::
  "local_crypto \<Rightarrow> json_lib \<Rightarrow> bool \<Rightarrow> (bytes \<Rightarrow> ('z session_scheme, 'a) io) \<Rightarrow> ('z session_scheme, 'a) io" where
  "with_master_key L J create operation =
     bind_io (get_io active_store) (\<lambda>store. with_master_key_store L J store create operation)"

section \<open>The envelope\<close>

text \<open>RFC 8439: under a 32-byte key and a 12-byte nonce the cipher encrypts texts of up to \<open>2\<^sup>3\<^sup>2\<close> bytes,
  adds a 16-byte tag, and decryption accepts exactly the outputs of encryption.\<close>

definition local_aead :: "local_crypto \<Rightarrow> bool" where
  "local_aead L \<longleftrightarrow> (\<forall>mk n a p. length mk = 32 \<longrightarrow> length n = 12 \<longrightarrow>
     (length p \<le> 2 ^ 32 \<longrightarrow> chacha_encrypt L mk n a p \<noteq> None) \<and>
     (\<forall>c. (chacha_encrypt L mk n a p = Some c \<longrightarrow> length c = length p + 16) \<and>
        (chacha_decrypt L mk n a c = Some p \<longleftrightarrow> chacha_encrypt L mk n a p = Some c)))"

lemma local_aeadD:
  assumes "local_aead L" and "length mk = 32" and "length n = 12"
  shows "length p \<le> 2 ^ 32 \<Longrightarrow> \<exists>c. chacha_encrypt L mk n a p = Some c"
    and "chacha_encrypt L mk n a p = Some c \<Longrightarrow> length c = length p + 16"
    and "chacha_decrypt L mk n a c = Some p \<longleftrightarrow> chacha_encrypt L mk n a p = Some c"
  using assms unfolding local_aead_def by blast+

lemma length_local_magic [simp]: "length LOCAL_MAGIC = 8"
  by (simp add: LOCAL_MAGIC_def)

definition sealed_as :: "local_crypto \<Rightarrow> bytes \<Rightarrow> Purpose \<Rightarrow> bytes \<Rightarrow> bytes \<Rightarrow> bool" where
  "sealed_as L mk p pt e \<longleftrightarrow> (\<exists>n c. length n = 12 \<and> chacha_encrypt L mk n (associated_data p) pt = Some c
     \<and> e = LOCAL_MAGIC @ [LOCAL_VERSION] @ n @ c)"

lemma header_split:
  assumes "21 \<le> length e" and "take 8 e = LOCAL_MAGIC" and "e ! 8 = LOCAL_VERSION"
  shows "e = LOCAL_MAGIC @ [LOCAL_VERSION] @ take 12 (drop 9 e) @ drop 21 e"
proof -
  have "e = take 8 e @ drop 8 e" by simp
  moreover have "drop 8 e = e ! 8 # drop 9 e" using assms(1) Cons_nth_drop_Suc [of 8 e] by simp
  moreover have "drop 9 e = take 12 (drop 9 e) @ drop 21 e" using append_take_drop_id [of 12 "drop 9 e"] by simp
  ultimately show ?thesis using assms by (metis append_Cons append_Nil)
qed

lemma open_secret_iff:
  assumes L: "local_aead L" "length mk = 32" and fits: "HEADER_BYTES + limit + TAG_BYTES \<le> U64_MAX"
  shows "open_secret L mk p e limit = Inr pt \<longleftrightarrow> sealed_as L mk p pt e \<and> length pt \<le> limit"
proof
  assume "open_secret L mk p e limit = Inr pt"
  then have e: "37 \<le> length e" "take 8 e = LOCAL_MAGIC" "e ! 8 = LOCAL_VERSION"
    and d: "chacha_decrypt L mk (take 12 (drop 9 e)) (associated_data p) (drop 21 e) = Some pt"
    and l: "length pt \<le> limit"
    by (auto simp: open_secret_def Let_def limit_defs)
  have n: "length (take 12 (drop 9 e)) = 12" using e(1) by simp
  show "sealed_as L mk p pt e \<and> length pt \<le> limit"
    unfolding sealed_as_def
    using header_split [of e] e n l local_aeadD(3) [OF L n, of "associated_data p" "drop 21 e" pt] d
    by (intro conjI exI [of _ "take 12 (drop 9 e)"] exI [of _ "drop 21 e"]) simp_all
next
  assume a: "sealed_as L mk p pt e \<and> length pt \<le> limit"
  then obtain n c where n: "length n = 12" and c: "chacha_encrypt L mk n (associated_data p) pt = Some c"
    and e: "e = LOCAL_MAGIC @ [LOCAL_VERSION] @ n @ c" unfolding sealed_as_def by blast
  have "length c = length pt + 16" "chacha_decrypt L mk n (associated_data p) c = Some pt"
    using local_aeadD(2,3) [OF L n] c by simp_all
  then show "open_secret L mk p e limit = Inr pt"
    using a n fits by (simp add: open_secret_def Let_def e limit_defs nth_append)
qed

lemma seal_wp:
  "at s D t \<Longrightarrow> (\<And>e u. at s D u \<Longrightarrow> sealed_as L mk p pt e \<Longrightarrow> length pt \<le> lim \<Longrightarrow> Q e u) \<Longrightarrow>
     (\<And>u. at s D u \<Longrightarrow> E u) \<Longrightarrow> wp (seal L mk p pt lim) Q E t"
  unfolding seal_def wp_simps
  by (auto simp: sealed_as_def limit_defs split: sum.splits intro!: random_triple [of s D, THEN triple_wp])

lemma seal_sealed: "seal L mk p pt lim s = (Inr e, t) \<Longrightarrow> sealed_as L mk p pt e \<and> length pt \<le> lim"
  using wp_Inr [OF seal_wp [OF at_self, where Q = "\<lambda>e _. sealed_as L mk p pt e \<and> length pt \<le> lim" and E = "\<lambda>_. True"]]
  by blast

lemma sealed_is_envelope: "sealed_as L mk p pt e \<Longrightarrow> is_envelope e"
  by (auto simp: sealed_as_def is_envelope_def)

lemma sealed_length:
  "local_aead L \<Longrightarrow> length mk = 32 \<Longrightarrow> sealed_as L mk p pt e \<Longrightarrow> length pt \<le> lim \<Longrightarrow> length e \<le> stored_limit lim"
  by (auto simp: sealed_as_def stored_limit_def limit_defs dest: local_aeadD(2))

lemma associated_data_inject: "associated_data p = associated_data q \<longleftrightarrow> p = q"
  by (cases p; cases q) (simp_all add: associated_data_def purpose_aad_def byte_simps)

section \<open>The salt and the derived key\<close>

lemma file_names:
  "validate_name KDF_SALT_FILE = Inr ()" "KDF_SALT_FILE \<noteq> ONE_PASSWORD_LOCATOR_FILE"
  by (simp_all add: validate_name_def KDF_SALT_FILE_def ONE_PASSWORD_LOCATOR_FILE_def path_components_def
      segment_components_def byte_simps)

text \<open>What loading a key does, as a contract: a property that survives reading files and inputs, remembering passwords and keys,
  creating the salt, and creating or replacing the 1Password locator, survives every password provider and loading the
  key, whatever fails.\<close>

locale key_actions =
  fixes P :: "'z session_scheme \<Rightarrow> bool"
  assumes reads: "keeps P (read_secret_optional_bounded n limit)"
    and draws: "keeps P (random_bytes j)"
    and calls: "keeps P (syscall (return_io ()))"
    and asks: "keeps P read_password"
    and runs: "keeps P (op_run args)"
    and remembers: "P s \<Longrightarrow> P (s\<lparr>user_password := v\<rparr>)" "P s \<Longrightarrow> P (s\<lparr>op_password := v\<rparr>)" "P s \<Longrightarrow> P (set_cached_key store c s)"
    and salt_created: "keeps P (create_noclobber KDF_SALT_FILE b)"
    and locator_created: "keeps P (create_noclobber ONE_PASSWORD_LOCATOR_FILE b)"
    and locator_replaced: "keeps P (atomic_replace ONE_PASSWORD_LOCATOR_FILE b)"
begin

lemma keeps_remembering:
  "keeps P (\<lambda>s. (r, s\<lparr>user_password := v\<rparr>))" "keeps P (\<lambda>s. (r', s\<lparr>op_password := v\<rparr>))" "keeps P (\<lambda>s. (r'', set_cached_key store c s))"
  by (simp_all add: keeps_def remembers)

lemmas key_rules = keeps_rules keeps_remembering reads draws calls asks runs salt_created locator_created locator_replaced

lemma keeps_password: "keeps P (store_password J store create)"
proof -
  have item: "keeps P (op_item J)"
    unfolding op_item_def by (intro key_rules) (auto split: list.split intro!: key_rules)
  have get: "keeps P (read_item_password l)" for l
    unfolding read_item_password_def by (intro key_rules)
  have "keeps P (one_password_provider J create)"
    unfolding one_password_provider_def Let_def load_item_locator_def create_item_def store_item_locator_def
    by (intro key_rules item get)
  moreover have "keeps P (user_password_provider create)"
    unfolding user_password_provider_def by (intro key_rules)
  moreover have "keeps P environment_password_provider"
    unfolding environment_password_provider_def by (intro key_rules) (auto split: env_var.split intro!: key_rules)
  ultimately show ?thesis by (cases store) (simp_all add: store_password_def)
qed

lemma keeps_salt: "keeps P (load_or_create_kdf_salt create)"
  unfolding load_or_create_kdf_salt_def read_secret_bounded_def by (intro key_rules)

lemma keeps_master_key: "keeps P (load_or_create_master_key L J store create)"
  by (cases store) (auto simp: load_or_create_master_key_def password_store_load_def
      intro!: key_rules keeps_password keeps_salt)

lemma keeps_finish: "keeps P (finish_locked_operation r)"
  unfolding finish_locked_operation_def by (intro key_rules)

lemma keeps_seal: "keeps P (seal L mk p pt lim)"
  unfolding seal_def by (intro key_rules)

lemma keeps_with_master_key:
  "(\<And>mk. keeps P (operation mk)) \<Longrightarrow> keeps P (with_master_key_store L J store create operation)"
  "(\<And>mk. keeps P (operation mk)) \<Longrightarrow> keeps P (with_master_key L J create operation)"
  unfolding with_master_key_def with_master_key_store_def
  by (intro key_rules keeps_master_key keeps_finish; simp)+

text \<open>Reasoning about an operation that runs under the key: it starts in \<open>P\<close>.\<close>

lemma with_key_wp:
  assumes "P t" and "\<And>mk v. P v \<Longrightarrow> wp (operation mk) Q E v"
    and "\<And>v. P v \<Longrightarrow> E v" and "\<And>a. stable (Q a)" and "stable E"
  shows "wp (with_master_key_store L J store create operation) Q E t" and "wp (with_master_key L J create operation) Q E t"
proof -
  have fin: "wp (try_io m) (\<lambda>r. wp (finish_locked_operation r) Q E) E v" if "wp m Q E v" for m v
    by (rule wp_try, rule triple_wp [where P = "\<lambda>w. w = v" and Q = Q and E = E])
      (use that in \<open>auto simp: triple_def wp_def [of m] intro!: finish_wp assms(4,5)\<close>)
  have one: "wp (with_master_key_store L J store create operation) Q E t" for store
    unfolding with_master_key_store_def wp_simps
    by (rule wp_keeps [OF calls assms(1)])
      (auto simp: wp_simps intro!: fin assms(3) wp_keeps [OF keeps_master_key] assms(2))
  then show "wp (with_master_key_store L J store create operation) Q E t" .
  show "wp (with_master_key L J create operation) Q E t"
    unfolding with_master_key_def wp_simps by (rule one)
qed

end

text \<open>A property of the files needs to survive the three operations that change one.\<close>

locale key_files =
  fixes P :: "'z session_scheme \<Rightarrow> bool"
  assumes files_only: "dir s = dir t \<Longrightarrow> euid s = euid t \<Longrightarrow> P s = P t"
    and creates_salt: "keeps P (create_noclobber KDF_SALT_FILE b)"
    and creates_locator: "keeps P (create_noclobber ONE_PASSWORD_LOCATOR_FILE b)"
    and replaces_locator: "keeps P (atomic_replace ONE_PASSWORD_LOCATOR_FILE b)"

sublocale key_files \<subseteq> key_actions
proof
  have same: "P (f s) = P s" if "dir (f s) = dir s" "euid (f s) = euid s" for f s using files_only that by blast
  show "keeps P (read_secret_optional_bounded n limit)" "keeps P (random_bytes j)" "keeps P (syscall (return_io ()))" for n limit j
    by (rule keeps_disk_only [of P, OF files_only]; assumption)+
  show "keeps P read_password" "keeps P (op_run args)" for args
    by (rule keeps_same_files [OF files_only]; auto simp: read_password_def op_run_def Let_def split: list.split sum.split)+
  show "P (s\<lparr>user_password := v\<rparr>)" "P (s\<lparr>op_password := v\<rparr>)" "P (set_cached_key store c s)" if "P s" for s v store c
    using that same [of "\<lambda>s. s\<lparr>user_password := v\<rparr>"] same [of "\<lambda>s. s\<lparr>op_password := v\<rparr>"] same [of "set_cached_key store c"]
    by (simp_all add: set_cached_key_def split: key_store.splits)
qed (rule creates_salt creates_locator replaces_locator)+

interpretation salt_file: key_files "has_file KDF_SALT_FILE f u" for f u
  by unfold_locales (auto simp: has_file_def file_names(2) [symmetric] intro!: keeps_rules)

definition salt_stored :: "bytes \<Rightarrow> 'z disk_scheme \<Rightarrow> bool" where
  "salt_stored salt t \<longleftrightarrow> (\<exists>f. has_file KDF_SALT_FILE f (euid t) t \<and> acceptable (euid t) 0x180 f
     \<and> f_data f = salt \<and> length salt = KDF_SALT_BYTES)"

lemma salt_stored_read:
  assumes "read_secret_optional_bounded KDF_SALT_FILE KDF_SALT_BYTES s = (Inr (Some b), t)"
    and "parse_kdf_salt b = Inr salt"
  shows "salt_stored salt t"
  using triple_Inr [OF read_secret_triple at_self assms(1)] assms(2)
  by (auto simp: salt_stored_def has_file_def at_def parse_kdf_salt_def)

lemma salt_stored_created:
  "create_noclobber KDF_SALT_FILE b s = (Inr True, t) \<Longrightarrow> length b = KDF_SALT_BYTES \<Longrightarrow> salt_stored b t"
  using triple_Inr [OF create_noclobber_triple at_self [of s], of KDF_SALT_FILE b True t]
  by (auto simp: salt_stored_def has_file_def at_def private_file_def acceptable_def)

lemma load_salt_stored:
  "load_or_create_kdf_salt create s = (Inr salt, t) \<Longrightarrow> salt_stored salt t"
  unfolding load_or_create_kdf_salt_def read_secret_bounded_def
  by (auto simp: bind_io_Inr limit_defs [symmetric] split: option.splits if_splits
      dest: salt_stored_read triple_Inr [OF random_triple at_self] intro: salt_stored_created)

lemma load_salt_quiet:
  assumes "salt_stored salt t" and "os_faults t = []"
  shows "load_or_create_kdf_salt create t = (Inr salt, t)"
proof -
  obtain f where f: "dir t KDF_SALT_FILE = Some f" "acceptable (euid t) 0x180 f" "f_data f = salt"
    "length salt = KDF_SALT_BYTES" using assms(1) by (auto simp: salt_stored_def has_file_def)
  then show ?thesis
    using read_quiet(2) [OF assms(2) file_names(1) f(1,2)]
    by (simp add: load_or_create_kdf_salt_def bind_io_def of_result_def parse_kdf_salt_def)
qed

lemma set_cached_key_disk [simp]:
  "dir (set_cached_key store v s) = dir s" "euid (set_cached_key store v s) = euid s"
  by (cases store; simp add: set_cached_key_def)+

lemma keeps_salt_stored:
  assumes "\<And>f u. keeps (has_file KDF_SALT_FILE f u) m" and "m s = (r, t)" and "salt_stored salt s"
  shows "salt_stored salt t"
proof -
  obtain f where f: "has_file KDF_SALT_FILE f (euid s) s" "acceptable (euid s) 0x180 f" "f_data f = salt"
    "length salt = KDF_SALT_BYTES" using assms(3) by (auto simp: salt_stored_def)
  have "has_file KDF_SALT_FILE f (euid s) t" using keepsD [OF assms(1) f(1) assms(2)] .
  then show ?thesis using f by (auto simp: salt_stored_def has_file_def)
qed

lemma password_store_load_Inr:
  assumes "password_store_load L J store create s = (Inr mk, t)" and "\<nexists>k. store = HandoffMasterKeyStore k"
  obtains salt where "salt_stored salt t" and "cached_key store t = Some (salt, mk)"
proof -
  obtain salt s1 where salt: "load_or_create_kdf_salt create s = (Inr salt, s1)"
    and run: "bind_io (get_io (cached_key store)) (\<lambda>cached.
       if (case cached of Some (known, _) \<Rightarrow> known = salt | None \<Rightarrow> False) then return_io (snd (the cached))
       else bind_io (store_password J store create) (\<lambda>password.
         bind_io (of_result (derive_master_key L password salt)) (\<lambda>mk s.
           (Inr mk, set_cached_key store (Some (salt, mk)) s)))) s1 = (Inr mk, t)"
    using assms(1) by (auto simp: password_store_load_def bind_io_Inr)
  have s1: "salt_stored salt s1" using load_salt_stored [OF salt] .
  show thesis
  proof (cases "case cached_key store s1 of Some (known, _) \<Rightarrow> known = salt | None \<Rightarrow> False")
    case True
    then have "t = s1" "cached_key store s1 = Some (salt, mk)"
      using run by (auto simp: bind_io_def get_io_def return_io_def split: option.splits)
    then show thesis using s1 that by blast
  next
    case False
    then obtain password s2 where p: "store_password J store create s1 = (Inr password, s2)"
      and t: "t = set_cached_key store (Some (salt, mk)) s2"
      using run by (auto simp: bind_io_def get_io_def of_result_def split: prod.splits sum.splits)
    have "salt_stored salt s2"
      using keeps_salt_stored [OF salt_file.keeps_password p s1] .
    then have "salt_stored salt t" by (auto simp: t salt_stored_def has_file_def)
    moreover have "cached_key store t = Some (salt, mk)"
      using assms(2) by (cases store) (auto simp: t cached_key_def set_cached_key_def)
    ultimately show thesis by (rule that)
  qed
qed

lemma master_key_reload:
  assumes "load_or_create_master_key L J store create s = (Inr mk, t)" and "os_faults t = []"
  shows "load_or_create_master_key L J store again t = (Inr mk, t)"
proof (cases "\<exists>k. store = HandoffMasterKeyStore k")
  case True
  then show ?thesis using assms by (auto simp: load_or_create_master_key_def return_io_def)
next
  case False
  then have l: "load_or_create_master_key L J store c = password_store_load L J store c" for c
    by (cases store) (auto simp: load_or_create_master_key_def fun_eq_iff)
  obtain salt where "salt_stored salt t" "cached_key store t = Some (salt, mk)"
    using password_store_load_Inr False assms(1) l by metis
  then show ?thesis
    using assms(2) by (simp add: l password_store_load_def bind_io_def load_salt_quiet get_io_def return_io_def)
qed

section \<open>The key of a session\<close>

text \<open>What selects the store of a session, and what a session does not know: no action changes it.\<close>

definition session_inputs where
  "session_inputs s = (euid s, handoff_key s, use_one_password s, environment_password s, session.more s)"

lemma session_inputs_faults [simp]: "session_inputs (s\<lparr>os_faults := r\<rparr>) = session_inputs s"
  by (simp add: session_inputs_def)

lemma more_fields:
  assumes "disk.more t = disk.more s"
  shows "handoff_key t = handoff_key s" "use_one_password t = use_one_password s" "environment_password t = environment_password s"
    "user_key t = user_key s" "environment_key t = environment_key s" "op_key t = op_key s" "session.more t = session.more s"
  using assms by (cases s; cases t; simp)+

lemma more_inputs: "disk.more t = disk.more s \<Longrightarrow> euid t = euid s \<Longrightarrow> session_inputs t = session_inputs s"
  using more_fields [of t s] by (simp add: session_inputs_def)

lemma more_keys: "disk.more t = disk.more s \<Longrightarrow> active_store t = active_store s \<and> cached_key store t = cached_key store s"
  using more_fields [of t s] by (cases store) (simp_all add: active_store_def cached_key_def)

lemma inputs_store: "session_inputs t = session_inputs s \<Longrightarrow> active_store t = active_store s \<and> handoff_key t = handoff_key s"
  by (auto simp: session_inputs_def active_store_def)

lemma keeps_by_more:
  assumes "\<And>s :: 'z session_scheme. triple (at s (dir s)) m (\<lambda>_ t. disk.more t = disk.more s \<and> euid t = euid s)
    (\<lambda>t. disk.more t = disk.more s \<and> euid t = euid s)"
  shows "keeps (\<lambda>t. session_inputs t = i) m"
  unfolding keeps_def
proof (intro allI impI)
  fix s :: "'z session_scheme" assume "session_inputs s = i"
  then show "session_inputs (snd (m s)) = i"
    by (rule_tac triple_exhaust [OF assms at_self [of s]]) (auto dest: more_inputs)
qed

interpretation inputs_kept: key_actions "\<lambda>t. session_inputs t = i" for i
proof
  show "keeps (\<lambda>t. session_inputs t = i) (read_secret_optional_bounded n limit)" "keeps (\<lambda>t. session_inputs t = i) (random_bytes j)"
    "keeps (\<lambda>t. session_inputs t = i) (create_noclobber KDF_SALT_FILE b)" "keeps (\<lambda>t. session_inputs t = i) (create_noclobber ONE_PASSWORD_LOCATOR_FILE b)"
    "keeps (\<lambda>t. session_inputs t = i) (atomic_replace ONE_PASSWORD_LOCATOR_FILE b)" for n limit j b
    by (rule keeps_by_more, rule triple_conseq [OF read_secret_triple] triple_conseq [OF random_triple] triple_conseq [OF create_noclobber_triple]
        triple_conseq [OF atomic_replace_triple]; auto simp: at_def split: if_splits)+
  show "keeps (\<lambda>t. session_inputs t = i) (syscall (return_io ()))"
    by (auto simp: keeps_def syscall_def return_io_def session_inputs_def split: list.split option.split)
qed (auto simp: keeps_def read_password_def op_run_def Let_def session_inputs_def set_cached_key_def split: list.split sum.split key_store.split)

text \<open>\<open>holds_key mk\<close>: the store of the session has produced \<open>mk\<close>, and produces it again as long as the salt is stored.\<close>

definition holds_key :: "bytes \<Rightarrow> 'z session_scheme \<Rightarrow> bool" where
  "holds_key mk s \<longleftrightarrow> handoff_key s = Some mk \<or>
     handoff_key s = None \<and> (\<exists>salt. salt_stored salt s \<and> cached_key (active_store s) s = Some (salt, mk))"

lemma holds_key_at:
  assumes "holds_key mk s" "at s D t" "D KDF_SALT_FILE = dir s KDF_SALT_FILE"
  shows "holds_key mk t"
proof -
  have "disk.more t = disk.more s" "dir t = D" "euid t = euid s" using assms(2) by (simp_all add: at_def)
  then show ?thesis
    using assms(1,3) more_keys [of t s] more_fields(1) [of t s] by (auto simp: holds_key_def salt_stored_def has_file_def)
qed

lemma holds_key_faults [simp]: "holds_key mk (s\<lparr>os_faults := r\<rparr>) = holds_key mk s"
  using holds_key_at [of mk s "dir s" "s\<lparr>os_faults := r\<rparr>"] holds_key_at [of mk "s\<lparr>os_faults := r\<rparr>" "dir s" s]
  by (auto simp: at_def)

lemma holds_key_same_but:
  assumes "holds_key mk s" "same_but l s t" "l \<noteq> KDF_SALT_FILE"
  shows "holds_key mk t"
  using assms more_keys [of t s] more_fields(1) [of t s]
  by (auto simp: holds_key_def salt_stored_def has_file_def same_but_def)

lemma holds_key_unique: "holds_key mk s \<Longrightarrow> holds_key k s \<Longrightarrow> k = mk"
  by (auto simp: holds_key_def)

lemma stable_holds_key [simp]: "stable (holds_key mk)"
  by (simp add: stable_def)

lemma load_holds:
  assumes "load_or_create_master_key L J (active_store s) create s = (Inr mk, t)"
  shows "holds_key mk t"
proof -
  have i: "session_inputs t = session_inputs s" using keepsD [OF inputs_kept.keeps_master_key refl assms] .
  note st = inputs_store [OF i]
  show ?thesis
  proof (cases "handoff_key s")
    case (Some k)
    then show ?thesis using assms st by (simp add: active_store_def load_or_create_master_key_def return_io_def holds_key_def)
  next
    case None
    then have n: "\<nexists>k. active_store s = HandoffMasterKeyStore k" by (simp add: active_store_def)
    then have "password_store_load L J (active_store s) create s = (Inr mk, t)"
      using assms by (cases "active_store s") (simp_all add: load_or_create_master_key_def)
    then show ?thesis using password_store_load_Inr [OF _ n] None st unfolding holds_key_def by metis
  qed
qed

lemma load_same_key:
  assumes "holds_key mk s" "load_or_create_master_key L J (active_store s) create s = (Inr k, t)"
  shows "k = mk"
proof (cases "handoff_key s")
  case (Some h)
  then show ?thesis using assms by (simp add: active_store_def load_or_create_master_key_def return_io_def holds_key_def)
next
  case None
  then obtain salt f where salt: "dir s KDF_SALT_FILE = Some f" "f_data f = salt" "cached_key (active_store s) s = Some (salt, mk)"
    using assms(1) by (auto simp: holds_key_def salt_stored_def has_file_def)
  have "password_store_load L J (active_store s) create s = (Inr k, t)"
    using assms(2) None by (cases "active_store s") (simp_all add: load_or_create_master_key_def active_store_def split: if_splits)
  then obtain salt' s1 where l: "load_or_create_kdf_salt create s = (Inr salt', s1)"
    and run: "bind_io (get_io (cached_key (active_store s))) (\<lambda>cached.
       if (case cached of Some (known, _) \<Rightarrow> known = salt' | None \<Rightarrow> False) then return_io (snd (the cached))
       else bind_io (store_password J (active_store s) create) (\<lambda>password.
         bind_io (of_result (derive_master_key L password salt')) (\<lambda>mk t.
           (Inr mk, set_cached_key (active_store s) (Some (salt', mk)) t)))) s1 = (Inr k, t)"
    by (auto simp: password_store_load_def bind_io_Inr)
  obtain stored s2 where r: "read_secret_optional_bounded KDF_SALT_FILE KDF_SALT_BYTES s = (Inr stored, s2)"
    using l by (auto simp: load_or_create_kdf_salt_def bind_io_Inr)
  have a: "at s (dir s) s2" "stored = Some salt"
    using triple_Inr [OF read_secret_triple at_self r] salt(1,2) by (auto split: option.splits)
  then have "salt' = salt" "s1 = s2"
    using l r by (auto simp: load_or_create_kdf_salt_def bind_io_def of_result_def parse_kdf_salt_def bind_result_eq_Inr)
  moreover have "cached_key store s2 = cached_key store s" for store
    using a(1) more_keys [of s2 s] by (simp add: at_def)
  ultimately show ?thesis using run salt(3) by (simp add: bind_io_def get_io_def return_io_def)
qed

text \<open>An operation under the key of the session knows that the session holds it.\<close>

lemma with_key_holds_wp:
  assumes P: "key_actions P" "P t" and op: "\<And>mk v. P v \<Longrightarrow> holds_key mk v \<Longrightarrow> (\<And>k. holds_key k t \<Longrightarrow> k = mk) \<Longrightarrow> wp (operation mk) Q E v"
    and E: "\<And>v. P v \<Longrightarrow> E v" and st: "\<And>a. stable (Q a)" "stable E"
  shows "wp (with_master_key_store L J (active_store t) create operation) Q E t" and "wp (with_master_key L J create operation) Q E t"
proof -
  have fin: "wp (try_io m) (\<lambda>r. wp (finish_locked_operation r) Q E) E v" if "wp m Q E v" for m v
    by (rule wp_try, rule triple_wp [where P = "\<lambda>w. w = v" and Q = Q and E = E])
      (use that in \<open>auto simp: triple_def wp_def [of m] intro!: finish_wp st\<close>)
  have load: "wp (load_or_create_master_key L J (active_store t) create) (\<lambda>mk. wp (operation mk) Q E) E (t\<lparr>os_faults := x\<rparr>)"
    if p: "P (t\<lparr>os_faults := x\<rparr>)" for x
  proof -
    let ?t = "t\<lparr>os_faults := x\<rparr>"
    have a: "active_store ?t = active_store t" by (simp add: active_store_def)
    have "P v \<and> (\<forall>mk. r = Inr mk \<longrightarrow> holds_key mk v \<and> (\<forall>k. holds_key k t \<longrightarrow> k = mk))"
      if "load_or_create_master_key L J (active_store t) create ?t = (r, v)" for r v
      using keepsD [OF key_actions.keeps_master_key [OF P(1)] p that] load_holds [of L J ?t create _ v] load_same_key [of _ ?t L J create _ v] that a
      by auto
    then show ?thesis using op E by (auto simp: wp_def [of "load_or_create_master_key L J (active_store t) create"] split: prod.split sum.split)
  qed
  have "wp (syscall (return_io ())) R E t" if "\<And>x. P (t\<lparr>os_faults := x\<rparr>) \<Longrightarrow> R () (t\<lparr>os_faults := x\<rparr>)" for R
    using that that [of "os_faults t"] E keepsD [OF key_actions.calls [OF P(1)] P(2)] P(2)
    by (auto simp: wp_def syscall_def return_io_def split: list.splits option.splits)
  then show one: "wp (with_master_key_store L J (active_store t) create operation) Q E t"
    unfolding with_master_key_store_def wp_combinators(1) using fin [OF load [folded wp_combinators(1)]] by simp
  show "wp (with_master_key L J create operation) Q E t"
    unfolding with_master_key_def wp_simps by (rule one)
qed

section \<open>Runs with a known key\<close>

definition key_ready :: "bytes \<Rightarrow> 'z session_scheme \<Rightarrow> bool" where
  "key_ready mk s \<longleftrightarrow> os_faults s = [] \<and> (handoff_key s = Some mk \<or>
     handoff_key s = None \<and> (\<exists>salt. salt_stored salt s \<and> cached_key (active_store s) s = Some (salt, mk)))"

lemma key_ready_load: "key_ready mk s \<Longrightarrow> load_or_create_master_key L J (active_store s) create s = (Inr mk, s)"
  by (auto simp: key_ready_def active_store_def load_or_create_master_key_def return_io_def password_store_load_def
      bind_io_def load_salt_quiet get_io_def)

lemma key_ready_faults: "key_ready mk s \<Longrightarrow> os_faults s = []"
  by (simp add: key_ready_def)

lemma with_key_quiet:
  assumes "key_ready mk s" and "os_faults (snd (operation mk s)) = []"
  shows "with_master_key_store L J (active_store s) create operation s = operation mk s"
    and "with_master_key L J create operation s = operation mk s"
  using assms key_ready_load [OF assms(1), of L J create] key_ready_faults [OF assms(1)]
  by (cases "operation mk s"; simp add: with_master_key_def with_master_key_store_def finish_locked_operation_def
      bind_io_def get_io_def try_io_def return_io_def of_result_def io_simps)+

lemma active_store_files [simp]:
  "active_store (s\<lparr>dir := D\<rparr>) = active_store s" "active_store (s\<lparr>entropy := e\<rparr>) = active_store s"
  "cached_key store (s\<lparr>dir := D\<rparr>) = cached_key store s" "cached_key store (s\<lparr>entropy := e\<rparr>) = cached_key store s"
  by (cases store; simp add: active_store_def cached_key_def)+

lemma salt_stored_files:
  "D KDF_SALT_FILE = dir s KDF_SALT_FILE \<Longrightarrow> salt_stored salt (s\<lparr>dir := D\<rparr>) = salt_stored salt s"
  "salt_stored salt (s\<lparr>entropy := e\<rparr>) = salt_stored salt s"
  by (simp_all add: salt_stored_def has_file_def)

lemma key_ready_files:
  "key_ready mk s \<Longrightarrow> D KDF_SALT_FILE = dir s KDF_SALT_FILE \<Longrightarrow> key_ready mk (s\<lparr>dir := D\<rparr>)"
  "key_ready mk s \<Longrightarrow> key_ready mk (s\<lparr>entropy := e\<rparr>)"
  by (simp_all add: key_ready_def salt_stored_files)

lemma key_ready_locked: "key_ready mk s \<Longrightarrow> l \<noteq> KDF_SALT_FILE \<Longrightarrow> key_ready mk (locked l s)"
  using key_ready_files(1) [of mk s "(dir s)(l \<mapsto> private_file (euid s) [])"] by (simp add: locked_def)

lemma seal_quiet:
  assumes "local_aead L" and "length mk = 32" and "os_faults s = []" and "12 \<le> length (entropy s)"
    and "length pt \<le> lim" and "lim \<le> 2 ^ 32"
  obtains e where "seal L mk p pt lim s = (Inr e, s\<lparr>entropy := drop 12 (entropy s)\<rparr>)" and "sealed_as L mk p pt e"
proof -
  let ?n = "take 12 (entropy s)"
  have n: "length ?n = 12" using assms(4) by simp
  obtain c where c: "chacha_encrypt L mk ?n (associated_data p) pt = Some c"
    using local_aeadD(1) [OF assms(1,2) n, of pt] assms(5,6) by fastforce
  have "seal L mk p pt lim s = (Inr (LOCAL_MAGIC @ [LOCAL_VERSION] @ ?n @ c), s\<lparr>entropy := drop 12 (entropy s)\<rparr>)"
    using assms c by (simp add: seal_def random_bytes_def bind_io_def ensure_io_def of_result_def return_io_def
        io_simps limit_defs not_less)
  moreover have "sealed_as L mk p pt (LOCAL_MAGIC @ [LOCAL_VERSION] @ ?n @ c)"
    unfolding sealed_as_def using n c by blast
  ultimately show thesis by (rule that)
qed

section \<open>Properties\<close>

text \<open>A cipher with the stated algebra and no secrecy, and a key derivation that pads the password.\<close>

definition sample_local :: local_crypto where
  "sample_local = \<lparr>chacha_encrypt = (\<lambda>mk n a p. Some (p @ replicate 16 0)),
     chacha_decrypt = (\<lambda>mk n a c. if 16 \<le> length c \<and> drop (length c - 16) c = replicate 16 0
       then Some (take (length c - 16) c) else None),
     argon2id = (\<lambda>m i p n password salt. Some (take n (password @ replicate n 0)))\<rparr>"

lemma sample_local_ok: "local_aead sample_local"
  unfolding local_aead_def sample_local_def by (auto, metis append_take_drop_id)

definition sample_session :: session where
  "sample_session = disk.extend (sample_disk\<lparr>entropy := replicate 200 7\<rparr>)
     \<lparr>handoff_key = None, use_one_password = False, item_tag = [], environment_password = NotPresent,
      noninteractive = False, terminal = [Inr [112], Inr [112]], op_answers = [], op_calls = [],
      user_password = None, op_password = None, user_key = None, environment_key = None, op_key = None\<rparr>"

lemmas sample_session_evals = sample_session_def sample_disk_evals disk.defs session.defs limit_defs

text \<open>C30: the opener of local secrets accepts exactly the envelopes that the sealer makes under the same
  key for the same purpose, within the size limit: the text that was sealed is returned, and what was
  not sealed for that purpose, which the associated data names, is refused. Every sealed secret opens.\<close>

theorem local_secret_exact:
  assumes "local_aead L" and "length mk = 32" and "HEADER_BYTES + limit + TAG_BYTES \<le> U64_MAX"
  shows "(open_secret L mk p e limit = Inr pt \<longleftrightarrow> length pt \<le> limit \<and>
      (\<exists>n c. length n = LOCAL_NONCE_BYTES \<and> chacha_encrypt L mk n (associated_data p) pt = Some c
         \<and> e = LOCAL_MAGIC @ [LOCAL_VERSION] @ n @ c))
    \<and> (associated_data p = associated_data q \<longleftrightarrow> p = q)
    \<and> (seal L mk p secret limit s = (Inr env, t) \<longrightarrow> open_secret L mk p env limit = Inr secret)"
  using open_secret_iff [OF assms] seal_sealed [of L mk p secret limit s env t] associated_data_inject
  by (auto simp: sealed_as_def limit_defs)

theorem local_secret_exact_witness:
  "seal sample_local (replicate 32 1) SyncAccount [5, 6] 10 sample_session
      = (Inr (LOCAL_MAGIC @ [LOCAL_VERSION] @ replicate 12 7 @ [5, 6] @ replicate 16 0),
         sample_session\<lparr>entropy := replicate 188 7\<rparr>)
   \<and> open_secret sample_local (replicate 32 1) SyncAccount
       (LOCAL_MAGIC @ [LOCAL_VERSION] @ replicate 12 7 @ [5, 6] @ replicate 16 0) 10 = Inr [5, 6]"
proof -
  have "seal sample_local (replicate 32 1) SyncAccount [5, 6] 10 sample_session
      = (Inr (LOCAL_MAGIC @ [LOCAL_VERSION] @ replicate 12 7 @ [5, 6] @ replicate 16 0),
         sample_session\<lparr>entropy := replicate 188 7\<rparr>)"
    by (simp add: seal_def random_bytes_def syscall_def bind_io_def ensure_io_def of_result_def return_io_def
        sample_local_def sample_session_evals drop_replicate take_replicate)
  then show ?thesis
    using local_secret_exact [OF sample_local_ok, where mk = "replicate 32 1" and limit = 10 and p = SyncAccount
        and secret = "[5, 6]" and s = sample_session] by (simp add: limit_defs)
qed

text \<open>C31: the master key is stable. When a store has produced a key, asking it again, in whatever mode,
  gives the same key, needs no password and changes nothing; and no request, however it ends, changes
  a salt that was already stored.\<close>

theorem master_key_stable:
  assumes "load_or_create_master_key L J store create s = (Inr mk, t)" and "os_faults t = []"
  shows "load_or_create_master_key L J store again t = (Inr mk, t) \<and>
    (dir u KDF_SALT_FILE = None \<or>
     dir (snd (load_or_create_master_key L J store again u)) KDF_SALT_FILE = dir u KDF_SALT_FILE)"
proof -
  have "keeps (has_file KDF_SALT_FILE f uid) (load_or_create_master_key L J store again)" for f uid
    by (rule salt_file.keeps_master_key)
  then show ?thesis
    using master_key_reload [OF assms, of again]
    by (cases "dir u KDF_SALT_FILE") (auto simp: keeps_def has_file_def)
qed

lemma sample_key_created:
  "load_or_create_master_key sample_local (sample_json JNull) UserPasswordStore True sample_session =
    (Inr (112 # replicate 31 0),
     sample_session\<lparr>dir := (dir sample_session)(KDF_SALT_FILE \<mapsto> private_file (euid sample_session) (replicate 16 7)),
       entropy := replicate 184 7, terminal := [], user_password := Some [112],
       user_key := Some (replicate 16 7, 112 # replicate 31 0)\<rparr>)"
proof -
  let ?s = "sample_session\<lparr>entropy := replicate 184 7\<rparr>"
  have "dir sample_session KDF_SALT_FILE = None"
    by (simp add: sample_session_evals KDF_SALT_FILE_def)
  moreover have "os_faults sample_session = []" by (simp add: sample_session_evals)
  ultimately have "load_or_create_kdf_salt True sample_session = (Inr (replicate 16 7),
      ?s\<lparr>dir := (dir ?s)(KDF_SALT_FILE \<mapsto> private_file (euid ?s) (replicate 16 7))\<rparr>)"
    by (simp add: load_or_create_kdf_salt_def bind_io_def read_quiet(1) create_quiet file_names ensure_io_def
        random_bytes_def syscall_def return_io_def)
      (simp add: sample_session_evals drop_replicate take_replicate)
  then show ?thesis
    by (simp add: load_or_create_master_key_def password_store_load_def bind_io_def get_io_def cached_key_def
        store_password_def user_password_provider_def read_password_def validate_password_def of_result_def
        ensure_io_def derive_master_key_def set_cached_key_def sample_local_def)
      (simp add: sample_session_evals bind_io_def get_io_def of_result_def ensure_io_def read_password_def
        validate_password_def)
qed

theorem master_key_stable_witness:
  "\<exists>t. load_or_create_master_key sample_local (sample_json JNull) UserPasswordStore True sample_session
      = (Inr (112 # replicate 31 0), t)
    \<and> load_or_create_master_key sample_local (sample_json JNull) UserPasswordStore False t
      = (Inr (112 # replicate 31 0), t)"
  by (intro exI conjI, rule sample_key_created, rule master_key_stable [OF sample_key_created, THEN conjunct1])
    (simp add: sample_session_evals)

end
