(* ===== verification/Account_State.thy ===== *)
theory Account_State
  imports Local_Encryption
begin

text \<open>
  \<open>cli/src/sync/state.rs\<close>: the account of a machine. The bundle is kept sealed in one file of the state
  directory; installing never replaces another account, importing is idempotent, and loading narrows
  the bundle to the scope a command needs. An owner bundle is refused for publishing. The parameters
  are the crates \<open>K\<close>, the local ciphers \<open>L\<close> and the JSON library \<open>J\<close>.
\<close>

definition ACCOUNT_FILE :: bytes where "ACCOUNT_FILE = ascii ''sync-account.bundle''"
definition ACCOUNT_LOCK :: bytes where "ACCOUNT_LOCK = ascii ''sync-account.lock''"
definition MAX_ACCOUNT_STATE_BYTES :: nat where [limit_defs]: "MAX_ACCOUNT_STATE_BYTES = MAX_BUNDLE_ENCODED_BYTES"
definition MAX_STORED_ACCOUNT_BYTES :: nat where "MAX_STORED_ACCOUNT_BYTES = stored_limit MAX_ACCOUNT_STATE_BYTES"

record AccountCredentials =
  ac_service_origin :: bytes
  ac_account_id :: bytes
  ac_api_key_scope :: ApiKeyScope
  ac_api_token :: bytes
  ac_account_root_key :: bytes
  ac_authorized_consumer_identity :: "bytes option"
  ac_consumer_identity_secret :: "bytes option"

definition from_bundle :: "ScopedAccountBundle \<Rightarrow> AccountCredentials" where
  "from_bundle b = \<lparr>ac_service_origin = sb_service_origin b, ac_account_id = sb_account_id b,
     ac_api_key_scope = sb_api_key_scope b, ac_api_token = sb_api_token b,
     ac_account_root_key = sb_account_root_key b,
     ac_authorized_consumer_identity = sb_authorized_consumer_identity b,
     ac_consumer_identity_secret = sb_consumer_identity_secret b\<rparr>"

definition bearer_value :: "crates \<Rightarrow> AccountCredentials \<Rightarrow> bytes" where
  "bearer_value K a = ascii ''Bearer '' @ token_text (engine K) (ac_api_token a)"

definition into_export_scope :: "crates \<Rightarrow> AccountBundle \<Rightarrow> ApiKeyScope \<Rightarrow> failure + ScopedAccountBundle" where
  "into_export_scope K stored required =
     (let bundle = case stored of Scoped b \<Rightarrow> b | Owner b \<Rightarrow> into_scoped K b required in
      bind_result (ensure (sb_api_key_scope bundle = required) WrongScope) (\<lambda>_. Inr bundle))"

definition into_operational_scope :: "crates \<Rightarrow> AccountBundle \<Rightarrow> ApiKeyScope \<Rightarrow> failure + ScopedAccountBundle" where
  "into_operational_scope K stored required = (case (stored, required) of
     (Owner _, Publish) \<Rightarrow> Inl WrongScope
   | _ \<Rightarrow> into_export_scope K stored required)"

definition parse_bundle :: "crates \<Rightarrow> bytes \<Rightarrow> failure + AccountBundle" where
  "parse_bundle K encoded = (case bundle_parse K encoded of
     None \<Rightarrow> Inl HostPanic | Some (Inl _) \<Rightarrow> Inl InvalidAccount | Some (Inr b) \<Rightarrow> Inr b)"

section \<open>The account file\<close>

definition decrypt_account_with_store ::
  "crates \<Rightarrow> local_crypto \<Rightarrow> json_lib \<Rightarrow> key_store \<Rightarrow> bytes \<Rightarrow> bool \<Rightarrow> ('z session_scheme, bytes) io" where
  "decrypt_account_with_store K L J store encoded migrate_legacy =
     (if is_envelope encoded
      then with_master_key_store L J store False (\<lambda>mk.
        of_result (open_secret L mk SyncAccount encoded MAX_ACCOUNT_STATE_BYTES))
      else
        bind_io (of_result (parse_bundle K encoded)) (\<lambda>_.
        bind_io (if migrate_legacy
          then with_master_key_store L J store True (\<lambda>mk.
            bind_io (seal L mk SyncAccount encoded MAX_ACCOUNT_STATE_BYTES) (\<lambda>encrypted.
              atomic_replace ACCOUNT_FILE encrypted))
          else return_io ()) (\<lambda>_. return_io encoded)))"

definition decrypt_account ::
  "crates \<Rightarrow> local_crypto \<Rightarrow> json_lib \<Rightarrow> bytes \<Rightarrow> bool \<Rightarrow> ('z session_scheme, bytes) io" where
  "decrypt_account K L J encoded migrate_legacy =
     bind_io (get_io active_store) (\<lambda>store. decrypt_account_with_store K L J store encoded migrate_legacy)"

definition ensure_account_slot_available :: "('z session_scheme, unit) io" where
  "ensure_account_slot_available =
     bind_io prepare_private_dir (\<lambda>_.
     with_exclusive_lock ACCOUNT_LOCK (
       bind_io (read_secret_optional_bounded ACCOUNT_FILE MAX_STORED_ACCOUNT_BYTES) (\<lambda>r.
         ensure_io (r = None) AccountExists)))"

definition install_existing ::
  "crates \<Rightarrow> local_crypto \<Rightarrow> json_lib \<Rightarrow> bytes \<Rightarrow> bool \<Rightarrow> bytes \<Rightarrow> ('z session_scheme, unit) io" where
  "install_existing K L J encoded allow_idempotent existing =
     bind_io (decrypt_account K L J existing False) (\<lambda>current.
       if allow_idempotent \<and> current = encoded then
         if \<not> is_envelope existing
         then with_master_key L J True (\<lambda>mk.
           bind_io (seal L mk SyncAccount current MAX_ACCOUNT_STATE_BYTES) (\<lambda>encrypted.
             atomic_replace ACCOUNT_FILE encrypted))
         else return_io ()
       else fail_io AccountExists)"

definition install_new :: "local_crypto \<Rightarrow> json_lib \<Rightarrow> bytes \<Rightarrow> ('z session_scheme, unit) io" where
  "install_new L J encoded =
     bind_io (with_master_key L J True (\<lambda>mk.
       bind_io (seal L mk SyncAccount encoded MAX_ACCOUNT_STATE_BYTES) (\<lambda>encrypted.
         create_noclobber ACCOUNT_FILE encrypted))) (\<lambda>installed.
       ensure_io installed AccountExists)"

definition install_account ::
  "crates \<Rightarrow> local_crypto \<Rightarrow> json_lib \<Rightarrow> bytes \<Rightarrow> bool \<Rightarrow> ('z session_scheme, unit) io" where
  "install_account K L J encoded allow_idempotent =
     bind_io (ensure_io (length encoded \<le> MAX_ACCOUNT_STATE_BYTES) SecretTooLarge) (\<lambda>_.
     bind_io prepare_private_dir (\<lambda>_.
     with_exclusive_lock ACCOUNT_LOCK (
       bind_io (read_secret_optional_bounded ACCOUNT_FILE MAX_STORED_ACCOUNT_BYTES) (\<lambda>r. case r of
         Some existing \<Rightarrow> install_existing K L J encoded allow_idempotent existing
       | None \<Rightarrow> install_new L J encoded))))"

text \<open>The fresh root key of \<open>install_created_account\<close> comes from the operating system.\<close>

definition install_created_account ::
  "crates \<Rightarrow> local_crypto \<Rightarrow> json_lib \<Rightarrow> bytes \<Rightarrow> CreateAccountResponse \<Rightarrow> bytes \<Rightarrow> ('z session_scheme, unit) io" where
  "install_created_account K L J service_origin response consumer_identity_secret =
     bind_io (random_bytes 32) (\<lambda>root_key.
     bind_io (of_result (map_err (\<lambda>_. InvalidAccount) (owner_from_parts K service_origin
       (car_account_id response) (car_publish_api_token response) (car_download_api_token response)
       root_key consumer_identity_secret))) (\<lambda>owner.
     bind_io (of_result (ok_or (bundle_encode K (Owner owner)) HostPanic)) (\<lambda>encoded.
       install_account K L J encoded False)))"

definition import_account :: "crates \<Rightarrow> local_crypto \<Rightarrow> json_lib \<Rightarrow> bytes \<Rightarrow> ('z session_scheme, unit) io" where
  "import_account K L J encoded =
     bind_io (of_result (parse_bundle K encoded)) (\<lambda>bundle.
     bind_io (ensure_io (case bundle of Scoped _ \<Rightarrow> True | _ \<Rightarrow> False) InvalidAccount) (\<lambda>_.
       install_account K L J encoded True))"

definition load_stored_account_with_store ::
  "crates \<Rightarrow> local_crypto \<Rightarrow> json_lib \<Rightarrow> key_store \<Rightarrow> ('z session_scheme, AccountBundle option) io" where
  "load_stored_account_with_store K L J store =
     with_locked_existing ACCOUNT_LOCK (
       bind_io (read_secret_optional_bounded ACCOUNT_FILE MAX_STORED_ACCOUNT_BYTES) (\<lambda>r. case r of
         None \<Rightarrow> return_io None
       | Some stored \<Rightarrow>
           bind_io (decrypt_account_with_store K L J store stored True) (\<lambda>encoded.
           bind_io (of_result (parse_bundle K encoded)) (\<lambda>b. return_io (Some b)))))"

definition load_stored_account ::
  "crates \<Rightarrow> local_crypto \<Rightarrow> json_lib \<Rightarrow> ('z session_scheme, AccountBundle option) io" where
  "load_stored_account K L J = bind_io (get_io active_store) (load_stored_account_with_store K L J)"

definition export_account ::
  "crates \<Rightarrow> local_crypto \<Rightarrow> json_lib \<Rightarrow> ApiKeyScope \<Rightarrow> ('z session_scheme, bytes) io" where
  "export_account K L J scope =
     bind_io (load_stored_account K L J) (\<lambda>r.
     bind_io (of_result (ok_or r AccountMissing)) (\<lambda>stored.
     bind_io (of_result (into_export_scope K stored scope)) (\<lambda>bundle.
       of_result (ok_or (bundle_encode K (Scoped bundle)) HostPanic))))"

definition load_account_optional ::
  "crates \<Rightarrow> local_crypto \<Rightarrow> json_lib \<Rightarrow> ApiKeyScope \<Rightarrow> ('z session_scheme, AccountCredentials option) io" where
  "load_account_optional K L J required =
     bind_io (load_stored_account K L J) (\<lambda>r. case r of
       None \<Rightarrow> return_io None
     | Some stored \<Rightarrow> bind_io (of_result (into_operational_scope K stored required)) (\<lambda>b.
         return_io (Some (from_bundle b))))"

definition load_account_credentials ::
  "crates \<Rightarrow> local_crypto \<Rightarrow> json_lib \<Rightarrow> ApiKeyScope \<Rightarrow> ('z session_scheme, AccountCredentials) io" where
  "load_account_credentials K L J required =
     bind_io (load_account_optional K L J required) (\<lambda>r. of_result (ok_or r AccountMissing))"

definition authorize_consumer ::
  "crates \<Rightarrow> local_crypto \<Rightarrow> json_lib \<Rightarrow> bytes \<Rightarrow> ('z session_scheme, unit) io" where
  "authorize_consumer K L J consumer =
     bind_io (load_account_credentials K L J Publish) (\<lambda>account.
     bind_io (of_result (ok_or (ac_authorized_consumer_identity account) WrongConsumer)) (\<lambda>authorized.
       ensure_io (authorized = consumer) WrongConsumer))"

section \<open>What happens to the account file\<close>

lemma account_names:
  "validate_name ACCOUNT_FILE = Inr ()" "validate_name ACCOUNT_LOCK = Inr ()" "ACCOUNT_FILE \<noteq> ACCOUNT_LOCK"
  "KDF_SALT_FILE \<noteq> ACCOUNT_FILE" "KDF_SALT_FILE \<noteq> ACCOUNT_LOCK" "ONE_PASSWORD_LOCATOR_FILE \<noteq> ACCOUNT_FILE"
  "hd ACCOUNT_FILE \<noteq> 46"
  by (simp_all add: validate_name_def ACCOUNT_FILE_def ACCOUNT_LOCK_def KDF_SALT_FILE_def
      ONE_PASSWORD_LOCATOR_FILE_def path_components_def segment_components_def byte_simps)

interpretation account_entry: key_files "entry_is ACCOUNT_FILE x u" for x u
  by unfold_locales (auto simp: entry_is_def account_names intro!: keeps_entry_creating keeps_entry_replacing)

text \<open>The account file holds \<open>encoded\<close>, sealed under the key that the store of the session produces: in a file that was just written, or
  in the file \<open>f\<close> that was already there.\<close>

definition holds_account :: "local_crypto \<Rightarrow> bytes \<Rightarrow> nat \<Rightarrow> 'z session_scheme \<Rightarrow> bool" where
  "holds_account L encoded u t \<longleftrightarrow> (\<exists>mk e. holds_key mk t \<and> sealed_as L mk SyncAccount encoded e
     \<and> dir t ACCOUNT_FILE = Some (private_file u e))"

definition held_already :: "local_crypto \<Rightarrow> bytes \<Rightarrow> state_file \<Rightarrow> 'z session_scheme \<Rightarrow> bool" where
  "held_already L encoded f t \<longleftrightarrow> dir t ACCOUNT_FILE = Some f
     \<and> (\<exists>mk. holds_key mk t \<and> open_secret L mk SyncAccount (f_data f) MAX_ACCOUNT_STATE_BYTES = Inr encoded)"

text \<open>The effect of an installation that found \<open>x\<close>: nothing, a migration of the same legacy text, or a
  new sealed file in a free slot; a failed creation may leave a partial new file. Success means that the file holds the
  very account that was to be installed.\<close>

definition installed ::
  "local_crypto \<Rightarrow> bytes \<Rightarrow> bool \<Rightarrow> state_file option \<Rightarrow> nat \<Rightarrow> bool \<Rightarrow> 'z session_scheme \<Rightarrow> bool" where
  "installed L encoded idem x u ok t = (case x of
     Some f \<Rightarrow> (dir t ACCOUNT_FILE = Some f \<or> idem \<and> f_data f = encoded \<and> holds_account L encoded u t)
       \<and> (ok \<longrightarrow> idem \<and> (if is_envelope (f_data f) then held_already L encoded f t
            else f_data f = encoded \<and> holds_account L encoded u t))
   | None \<Rightarrow> ok \<longrightarrow> holds_account L encoded u t)"

lemma stable_installed [simp]: "stable (installed L encoded idem x u ok)"
  by (auto simp: stable_def installed_def holds_account_def held_already_def split: option.split)

lemma entry_at: "entry_is ACCOUNT_FILE x u t \<Longrightarrow> at t (dir t) t \<and> euid t = u \<and> dir t ACCOUNT_FILE = x"
  by (simp add: entry_is_def)

lemma holds_key_sealed:
  assumes "holds_key mk t" and "at t ((dir t)(ACCOUNT_FILE \<mapsto> f)) v"
  shows "holds_key mk v"
  by (rule holds_key_at [OF assms]) (use account_names(4) in simp)

lemma holds_account_written:
  assumes "holds_key mk t" and "sealed_as L mk SyncAccount encoded e" and "at t ((dir t)(ACCOUNT_FILE \<mapsto> private_file u e)) v"
  shows "holds_account L encoded u v"
  using assms holds_key_sealed [OF assms(1,3)] at_dir [OF assms(3)] unfolding holds_account_def by auto

lemma replace_account_wp:
  assumes "entry_is ACCOUNT_FILE (Some f) u t" and "holds_key mk t" and "idem" and "f_data f = encoded" and "\<not> is_envelope (f_data f)"
  shows "wp (bind_io (seal L mk SyncAccount encoded lim) (atomic_replace ACCOUNT_FILE))
    (\<lambda>_. installed L encoded idem (Some f) u True) (installed L encoded idem (Some f) u False) t"
  unfolding wp_simps
  by (rule seal_wp [of t "dir t"], simp, rule atomic_replace_triple [THEN triple_wp], assumption)
    (use assms holds_account_written [OF assms(2)] in \<open>auto simp: entry_is_def installed_def account_names(7) dest!: at_dir leftover_kept\<close>)

lemma create_account_wp:
  assumes "entry_is ACCOUNT_FILE None u t" and "holds_key mk t"
  shows "wp (bind_io (seal L mk SyncAccount encoded lim) (create_noclobber ACCOUNT_FILE))
    (\<lambda>b. installed L encoded idem None u b) (installed L encoded idem None u False) t"
  unfolding wp_simps
  by (rule seal_wp [of t "dir t"], simp, rule create_noclobber_triple [THEN triple_wp], assumption)
    (use assms holds_account_written [OF assms(2)] in \<open>auto simp: entry_is_def installed_def split: if_splits\<close>)

lemma decrypt_wp:
  assumes t: "entry_is ACCOUNT_FILE (Some f) u t"
  shows "wp (decrypt_account K L J (f_data f) False) (\<lambda>c v. entry_is ACCOUNT_FILE (Some f) u v
      \<and> (if is_envelope (f_data f) then held_already L c f v else c = f_data f)) (entry_is ACCOUNT_FILE (Some f) u) t"
proof (cases "is_envelope (f_data f)")
  case True
  have "wp (with_master_key_store L J (active_store t) False (\<lambda>mk. of_result (open_secret L mk SyncAccount (f_data f) MAX_ACCOUNT_STATE_BYTES)))
      (\<lambda>c v. entry_is ACCOUNT_FILE (Some f) u v \<and> held_already L c f v) (entry_is ACCOUNT_FILE (Some f) u) t"
    by (rule with_key_holds_wp(1) [OF account_entry.key_actions_axioms t])
      (auto simp: wp_simps held_already_def entry_is_def stable_def split: sum.split)
  then show ?thesis using True by (simp add: decrypt_account_def decrypt_account_with_store_def wp_simps)
next
  case False
  then show ?thesis using t by (auto simp: decrypt_account_def decrypt_account_with_store_def wp_simps split: sum.split)
qed

lemma install_existing_wp:
  assumes t: "entry_is ACCOUNT_FILE (Some f) u t"
  shows "wp (install_existing K L J encoded idem (f_data f))
    (\<lambda>_. installed L encoded idem (Some f) u True) (installed L encoded idem (Some f) u False) t"
proof -
  have E: "installed L encoded idem (Some f) u False v" if "entry_is ACCOUNT_FILE (Some f) u v" for v
    using that by (simp add: installed_def entry_is_def)
  have migrate: "wp (with_master_key L J True (\<lambda>mk. bind_io (seal L mk SyncAccount encoded MAX_ACCOUNT_STATE_BYTES)
      (atomic_replace ACCOUNT_FILE))) (\<lambda>_. installed L encoded idem (Some f) u True)
      (installed L encoded idem (Some f) u False) v"
    if v: "entry_is ACCOUNT_FILE (Some f) u v" and "idem" "f_data f = encoded" "\<not> is_envelope (f_data f)" for v
    by (rule with_key_holds_wp(2) [OF account_entry.key_actions_axioms v]) (use that E in \<open>auto intro!: replace_account_wp\<close>)
  show ?thesis
    unfolding install_existing_def wp_combinators(1)
  proof (rule wp_mono [OF decrypt_wp [OF t]], goal_cases)
    case (1 c v)
    then show ?case
      using E [of v] migrate [of v] by (auto simp: wp_simps(2,3) installed_def held_already_def entry_is_def split: if_splits)
  qed (rule E)
qed

lemma install_new_wp:
  assumes t: "entry_is ACCOUNT_FILE None u t"
  shows "wp (install_new L J encoded) (\<lambda>_. installed L encoded idem None u True) (installed L encoded idem None u False) t"
proof -
  have "wp (with_master_key L J True (\<lambda>mk. bind_io (seal L mk SyncAccount encoded MAX_ACCOUNT_STATE_BYTES)
      (create_noclobber ACCOUNT_FILE))) (\<lambda>b. installed L encoded idem None u b) (installed L encoded idem None u False) t"
    by (rule with_key_holds_wp(2) [OF account_entry.key_actions_axioms t]) (auto simp: installed_def intro!: create_account_wp)
  then show ?thesis
    unfolding install_new_def wp_combinators(1)
    by (rule wp_mono) (auto simp: wp_simps installed_def)
qed

lemma install_account_wp:
  "wp (install_account K L J encoded idem)
     (\<lambda>_. installed L encoded idem (dir s ACCOUNT_FILE) (euid s) True)
     (installed L encoded idem (dir s ACCOUNT_FILE) (euid s) False) s"
proof -
  let ?x = "dir s ACCOUNT_FILE" and ?u = "euid s"
  have E: "installed L encoded idem ?x ?u False v" if "entry_is ACCOUNT_FILE ?x ?u v" for v
    using that by (cases ?x) (simp_all add: installed_def entry_is_def)
  have e: "entry_is ACCOUNT_FILE ?x ?u v" if "same_but ACCOUNT_LOCK w v" "same_but ACCOUNT_LOCK s w" for v w
    using that account_names(3) by (simp add: same_but_def entry_is_def)
  have body: "wp (read_secret_optional_bounded ACCOUNT_FILE MAX_STORED_ACCOUNT_BYTES) (\<lambda>r. wp (case r of
        None \<Rightarrow> install_new L J encoded | Some existing \<Rightarrow> install_existing K L J encoded idem existing)
      (\<lambda>_. installed L encoded idem ?x ?u True) (installed L encoded idem ?x ?u False))
      (installed L encoded idem ?x ?u False) v" if v: "entry_is ACCOUNT_FILE ?x ?u v" for v
    by (rule read_secret_triple [of v "dir v", THEN triple_wp], simp)
      (use v in \<open>auto simp: entry_is_def at_def intro!: install_new_wp install_existing_wp E split: option.splits\<close>)
  have "wp prepare_private_dir (\<lambda>_. wp (with_exclusive_lock ACCOUNT_LOCK
      (bind_io (read_secret_optional_bounded ACCOUNT_FILE MAX_STORED_ACCOUNT_BYTES) (\<lambda>r. case r of
         Some existing \<Rightarrow> install_existing K L J encoded idem existing
       | None \<Rightarrow> install_new L J encoded)))
      (\<lambda>_. installed L encoded idem ?x ?u True) (installed L encoded idem ?x ?u False))
      (installed L encoded idem ?x ?u False) s"
    unfolding prepare_private_dir_def
    by (rule wp_keeps [OF keeps_open_directory [of ACCOUNT_LOCK s]], simp, rule locked_wp(1))
      (auto simp: wp_simps intro!: body E e)
  then show ?thesis
    unfolding install_account_def wp_simps using E [of s] by (simp add: entry_is_def)
qed

section \<open>Installing and loading without faults\<close>

lemma parse_bundle_length: "parse_bundle K encoded = Inr b \<Longrightarrow> length encoded \<le> MAX_ACCOUNT_STATE_BYTES"
  by (auto simp: parse_bundle_def bundle_parse_def limit_defs split: option.splits sum.splits if_splits)

lemma prepare_quiet: "usable l s \<Longrightarrow> prepare_private_dir s = (Inr (), s)"
  unfolding prepare_private_dir_def by (rule open_directory_quiet)

lemma usable_locked: "usable l s \<Longrightarrow> usable l (locked l s) \<and> locked l (locked l s) = locked l s"
  by (auto simp: usable_def locked_def)

text \<open>A machine with the account \<open>encoded\<close>: the lock is free, the key is known, the file holds it sealed.\<close>

definition account_ready :: "local_crypto \<Rightarrow> bytes \<Rightarrow> bytes \<Rightarrow> 'z session_scheme \<Rightarrow> bool" where
  "account_ready L mk encoded s \<longleftrightarrow> usable ACCOUNT_LOCK s \<and> key_ready mk s \<and> locked ACCOUNT_LOCK s = s
     \<and> length encoded \<le> MAX_ACCOUNT_STATE_BYTES
     \<and> (\<exists>e. sealed_as L mk SyncAccount encoded e \<and> dir s ACCOUNT_FILE = Some (private_file (euid s) e))"

lemma install_new_quiet:
  assumes L: "local_aead L" "length mk = 32" and s: "usable ACCOUNT_LOCK s" "key_ready mk s"
    and free: "dir s ACCOUNT_FILE = None" and ent: "12 \<le> length (entropy s)"
    and len: "length encoded \<le> MAX_ACCOUNT_STATE_BYTES"
  obtains t where "install_account K L J encoded idem s = (Inr (), t)" and "account_ready L mk encoded t"
proof -
  let ?s = "locked ACCOUNT_LOCK s"
  have q: "os_faults ?s = []" using s(1) by (simp add: usable_def)
  have k: "key_ready mk ?s" using s(2) account_names(5) by (intro key_ready_locked) auto
  obtain e where e: "seal L mk SyncAccount encoded MAX_ACCOUNT_STATE_BYTES ?s = (Inr e, ?s\<lparr>entropy := drop 12 (entropy s)\<rparr>)"
    "sealed_as L mk SyncAccount encoded e"
    using seal_quiet [OF L q, where pt = encoded and lim = MAX_ACCOUNT_STATE_BYTES] ent len by (auto simp: limit_defs)
  let ?t = "?s\<lparr>entropy := drop 12 (entropy s), dir := (dir ?s)(ACCOUNT_FILE \<mapsto> private_file (euid s) e)\<rparr>"
  have f: "dir ?s ACCOUNT_FILE = None" using free account_names(3) by simp
  have c: "create_noclobber ACCOUNT_FILE e (?s\<lparr>entropy := drop 12 (entropy s)\<rparr>) = (Inr True, ?t)"
    using create_quiet [of "?s\<lparr>entropy := drop 12 (entropy s)\<rparr>" ACCOUNT_FILE e] q f account_names by simp
  have w: "with_master_key L J True (\<lambda>mk. bind_io (seal L mk SyncAccount encoded MAX_ACCOUNT_STATE_BYTES)
      (create_noclobber ACCOUNT_FILE)) ?s = (Inr True, ?t)"
    using with_key_quiet(2) [OF k, of "\<lambda>mk. bind_io (seal L mk SyncAccount encoded MAX_ACCOUNT_STATE_BYTES)
      (create_noclobber ACCOUNT_FILE)" L J True] e(1) c q by (simp add: bind_io_def)
  have "install_account K L J encoded idem s = (Inr (), ?t)"
    using s len q f account_names w prepare_quiet [OF s(1)]
    by (simp add: install_account_def bind_io_def ensure_io_def locked_quiet(1) read_quiet(1) install_new_def)
  moreover have "account_ready L mk encoded ?t"
  proof -
    have "usable ACCOUNT_LOCK ?t" using usable_locked [OF s(1)] account_names(3) by (auto simp: usable_def)
    moreover have "key_ready mk ?t"
      using account_names(4) by (intro key_ready_files k) simp
    moreover have "locked ACCOUNT_LOCK ?t = ?t" using account_names(3) by (auto simp: locked_def)
    ultimately show ?thesis using e(2) len by (auto simp: account_ready_def)
  qed
  ultimately show thesis by (rule that)
qed

lemma account_ready_parts:
  assumes "local_aead L" and "length mk = 32" and "account_ready L mk encoded t"
  obtains e where "read_secret_optional_bounded ACCOUNT_FILE MAX_STORED_ACCOUNT_BYTES t = (Inr (Some e), t)"
    and "is_envelope e" and "open_secret L mk SyncAccount e MAX_ACCOUNT_STATE_BYTES = Inr encoded"
proof -
  obtain e where e: "sealed_as L mk SyncAccount encoded e" "dir t ACCOUNT_FILE = Some (private_file (euid t) e)"
    and q: "os_faults t = []" and len: "length encoded \<le> MAX_ACCOUNT_STATE_BYTES"
    using assms(3) by (auto simp: account_ready_def usable_def)
  have "length e \<le> MAX_STORED_ACCOUNT_BYTES"
    using sealed_length [OF assms(1,2) e(1) len] by (simp add: MAX_STORED_ACCOUNT_BYTES_def)
  then have r: "read_secret_optional_bounded ACCOUNT_FILE MAX_STORED_ACCOUNT_BYTES t = (Inr (Some e), t)"
    using read_quiet(2) [OF q account_names(1) e(2)] by (simp add: private_file_def acceptable_def)
  have "open_secret L mk SyncAccount e MAX_ACCOUNT_STATE_BYTES = Inr encoded"
    using open_secret_iff [OF assms(1,2), of MAX_ACCOUNT_STATE_BYTES] e(1) len by (simp add: limit_defs)
  then show thesis using that [OF r sealed_is_envelope [OF e(1)]] by blast
qed

lemma decrypt_ready:
  assumes "key_ready mk t" and "is_envelope e" and "open_secret L mk SyncAccount e MAX_ACCOUNT_STATE_BYTES = Inr encoded"
  shows "decrypt_account_with_store K L J (active_store t) e migrate t = (Inr encoded, t)"
    and "decrypt_account K L J e migrate t = (Inr encoded, t)"
  using assms with_key_quiet(1) [OF assms(1), of "\<lambda>mk. of_result (open_secret L mk SyncAccount e MAX_ACCOUNT_STATE_BYTES)" L J False]
    key_ready_faults [OF assms(1)]
  by (simp_all add: decrypt_account_def decrypt_account_with_store_def of_result_def bind_io_def get_io_def)

lemma load_ready:
  assumes L: "local_aead L" "length mk = 32" and t: "account_ready L mk encoded t" and b: "parse_bundle K encoded = Inr b"
  shows "load_stored_account K L J t = (Inr (Some b), t)"
proof -
  obtain e where e: "read_secret_optional_bounded ACCOUNT_FILE MAX_STORED_ACCOUNT_BYTES t = (Inr (Some e), t)"
    "is_envelope e" "open_secret L mk SyncAccount e MAX_ACCOUNT_STATE_BYTES = Inr encoded"
    using account_ready_parts [OF L t] by blast
  have k: "key_ready mk t" "usable ACCOUNT_LOCK t" "locked ACCOUNT_LOCK t = t" using t by (auto simp: account_ready_def)
  show ?thesis
    using e(1) b decrypt_ready(1) [OF k(1) e(2,3), of K J True] key_ready_faults [OF k(1)]
    by (simp add: load_stored_account_def load_stored_account_with_store_def bind_io_def get_io_def of_result_def
        return_io_def locked_quiet(2) [OF k(2) account_names(2)] k(3))
qed

lemma reinstall_ready:
  assumes L: "local_aead L" "length mk = 32" and t: "account_ready L mk encoded t"
    and len: "length other \<le> MAX_ACCOUNT_STATE_BYTES"
  shows "install_account K L J other True t = (if other = encoded then Inr () else Inl AccountExists, t)"
proof -
  obtain e where e: "read_secret_optional_bounded ACCOUNT_FILE MAX_STORED_ACCOUNT_BYTES t = (Inr (Some e), t)"
    "is_envelope e" "open_secret L mk SyncAccount e MAX_ACCOUNT_STATE_BYTES = Inr encoded"
    using account_ready_parts [OF L t] by blast
  have k: "key_ready mk t" "usable ACCOUNT_LOCK t" "locked ACCOUNT_LOCK t = t" using t by (auto simp: account_ready_def)
  have "install_existing K L J other True e t = (if other = encoded then Inr () else Inl AccountExists, t)"
    using e(2) decrypt_ready(2) [OF k(1) e(2,3), of K J False]
    by (simp add: install_existing_def bind_io_def return_io_def fail_io_def)
  then show ?thesis
    using e(1) len key_ready_faults [OF k(1)] prepare_quiet [OF k(2)]
    by (simp add: install_account_def bind_io_def ensure_io_def locked_quiet(1) [OF k(2) account_names(2)] k(3))
qed

section \<open>Loaded credentials\<close>

lemma parse_bundle_wf: "account_crates K \<Longrightarrow> parse_bundle K encoded = Inr b \<Longrightarrow> wf_bundle K b"
  using bundle_of_wire_wf [of K]
  by (auto simp: parse_bundle_def bundle_parse_def split: option.splits sum.splits if_splits)

lemma load_stored_parsed:
  assumes "load_stored_account K L J s = (Inr (Some b), t)"
  obtains encoded where "parse_bundle K encoded = Inr b"
proof -
  let ?Q = "\<lambda>r _ :: 'a session_scheme. \<forall>b. r = Some b \<longrightarrow> (\<exists>encoded. parse_bundle K encoded = Inr b)"
  have body: "wp (case r of None \<Rightarrow> return_io None
      | Some stored \<Rightarrow> bind_io (decrypt_account_with_store K L J store stored True) (\<lambda>encoded.
          bind_io (of_result (parse_bundle K encoded)) (\<lambda>b. return_io (Some b)))) ?Q (\<lambda>_. True) v" for r store v
    by (cases r) (auto simp: wp_simps intro!: wp_any split: sum.split)
  have w: "wp (load_stored_account K L J) ?Q (\<lambda>_. True) s"
    unfolding load_stored_account_def load_stored_account_with_store_def wp_simps
    by (rule locked_wp(2)) (auto simp: wp_simps(1) stable_def intro: wp_any body)
  show thesis using wp_Inr [OF w assms] that by blast
qed

lemma operational_scope_Inr:
  assumes "account_crates K" and "wf_bundle K stored" and "into_operational_scope K stored required = Inr b"
  shows "wf_scoped K b \<and> sb_api_key_scope b = required \<and> (required = Publish \<longrightarrow> stored = Scoped b)"
  using assms
  by (cases stored; cases required)
    (auto simp: into_operational_scope_def into_export_scope_def Let_def wf_bundle_def wf_scoped_def wf_owner_def
      into_scoped_def account_crates_def authorized_identity_def)

section \<open>Properties\<close>

definition sample_scoped :: ScopedAccountBundle where
  "sample_scoped = scoped sample_crates sample_owner Publish"

definition sample_account_crates :: crates where
  "sample_account_crates = sample_crates\<lparr>wire_from_slice := (\<lambda>s.
     let w = bundle_wire sample_crates (Scoped sample_scoped) in if s = compact_wire w then Some w else None)\<rparr>"

definition sample_bundle_text :: bytes where
  "sample_bundle_text = the (bundle_encode sample_account_crates (Scoped sample_scoped))"

definition sample_machine :: session where
  "sample_machine = sample_session\<lparr>handoff_key := Some (replicate 32 1)\<rparr>"

lemma sample_bundle_parses:
  "account_crates sample_account_crates" "parse_bundle sample_account_crates sample_bundle_text = Inr (Scoped sample_scoped)"
proof -
  have k: "account_crates sample_account_crates"
    using sample_crates_ok by (simp add: account_crates_def sample_account_crates_def wire_compact_def)
  have "wf_scoped sample_crates sample_scoped"
    using sample_owner_ok sample_crates_ok
    by (auto simp: sample_scoped_def wf_owner_def wf_scoped_def scoped_def authorized_identity_def account_crates_def)
  then have b: "wf_bundle sample_account_crates (Scoped sample_scoped)"
    by (simp add: wf_bundle_def wf_scoped_def sample_account_crates_def)
  have w: "bundle_wire sample_account_crates (Scoped sample_scoped) = bundle_wire sample_crates (Scoped sample_scoped)"
    by (simp add: bundle_wire_def sample_account_crates_def)
  have "wire_roundtrip sample_account_crates (bundle_wire sample_account_crates (Scoped sample_scoped))"
    unfolding w by (simp add: wire_roundtrip_def sample_account_crates_def) (simp add: sample_crates_def)
  then show "parse_bundle sample_account_crates sample_bundle_text = Inr (Scoped sample_scoped)"
    using bundle_parse_encode [OF k b] by (auto simp: sample_bundle_text_def parse_bundle_def)
  show "account_crates sample_account_crates" by (rule k)
qed

lemma sample_scope: "sb_api_key_scope sample_scoped = Publish"
  by (simp add: sample_scoped_def scoped_def)

lemma sample_machine_ready:
  "usable ACCOUNT_LOCK sample_machine" "key_ready (replicate 32 1) sample_machine"
  "dir sample_machine ACCOUNT_FILE = None" "12 \<le> length (entropy sample_machine)"
  by (simp_all add: sample_machine_def usable_def key_ready_def sample_session_evals ACCOUNT_LOCK_def ACCOUNT_FILE_def)

text \<open>C32: installing an account never replaces one, and success means that this account is installed. Whatever system calls fail,
  an account file that was there stays as it was, except that an idempotent import of the very text of an unencrypted legacy
  file may seal it. Success without idempotence means the slot was free. After success the file holds exactly the bundle
  that was to be installed, sealed under the key that the store of the session produces: in a free slot and for a legacy file it is a new
  owner-only file, and a sealed file that was there opens to that very bundle.\<close>

theorem account_never_replaced:
  "case install_account K L J encoded idem s of (r, t) \<Rightarrow>
     (case dir s ACCOUNT_FILE of
        Some f \<Rightarrow> (dir t ACCOUNT_FILE = Some f \<or>
            idem \<and> f_data f = encoded \<and> holds_account L encoded (euid s) t)
          \<and> (r = Inr () \<longrightarrow> idem \<and> (if is_envelope (f_data f) then held_already L encoded f t
               else f_data f = encoded \<and> holds_account L encoded (euid s) t))
      | None \<Rightarrow> r = Inr () \<longrightarrow> holds_account L encoded (euid s) t)"
  using install_account_wp [of K L J encoded idem s]
  by (auto simp: wp_def installed_def split: prod.splits sum.splits option.splits)

theorem account_never_replaced_witness:
  "(case install_account sample_crates sample_local (sample_json JNull) [9] False
      (sample_machine\<lparr>dir := [ACCOUNT_FILE \<mapsto> private_file 1000 [1]]\<rparr>) of (r, t) \<Rightarrow>
     dir t ACCOUNT_FILE = Some (private_file 1000 [1]) \<and> r \<noteq> Inr ())
   \<and> (\<exists>t. install_account sample_account_crates sample_local (sample_json JNull) sample_bundle_text False sample_machine = (Inr (), t)
     \<and> holds_account sample_local sample_bundle_text 1000 t)"
proof -
  obtain t where t: "install_account sample_account_crates sample_local (sample_json JNull) sample_bundle_text False sample_machine = (Inr (), t)"
    using install_new_quiet [OF sample_local_ok _ sample_machine_ready parse_bundle_length [OF sample_bundle_parses(2)],
      where K = sample_account_crates and J = "sample_json JNull" and idem = False] by auto
  have "holds_account sample_local sample_bundle_text 1000 t"
    using account_never_replaced [where K = sample_account_crates and L = sample_local and J = "sample_json JNull"
        and encoded = sample_bundle_text and idem = False and s = sample_machine] t sample_machine_ready(3)
    by (simp add: sample_machine_def sample_session_evals)
  then show ?thesis
    using t account_never_replaced [where K = sample_crates and L = sample_local and J = "sample_json JNull"
        and encoded = "[9]" and idem = False and s = "sample_machine\<lparr>dir := [ACCOUNT_FILE \<mapsto> private_file 1000 [1]]\<rparr>"]
    by (auto split: prod.splits)
qed

text \<open>On a healthy machine with a free slot, importing a scoped bundle succeeds; loading then returns
  exactly its credentials for its own scope and refuses the other one; importing the same text again
  succeeds and changes nothing, and importing a different bundle is refused and changes nothing.\<close>

theorem import_then_load:
  assumes "local_aead L" and "length mk = 32" and "usable ACCOUNT_LOCK s" and "key_ready mk s"
    and "dir s ACCOUNT_FILE = None" and "12 \<le> length (entropy s)" and "parse_bundle K encoded = Inr (Scoped b)"
  shows "\<exists>t. import_account K L J encoded s = (Inr (), t) \<and>
    load_account_optional K L J scope t =
      (if sb_api_key_scope b = scope then Inr (Some (from_bundle b)) else Inl WrongScope, t) \<and>
    import_account K L J encoded t = (Inr (), t) \<and>
    (other \<noteq> encoded \<longrightarrow> (\<exists>e. import_account K L J other t = (Inl e, t)))"
proof -
  obtain t where t: "install_account K L J encoded True s = (Inr (), t)" and r: "account_ready L mk encoded t"
    using install_new_quiet [OF assms(1-6) parse_bundle_length [OF assms(7)]] by blast
  have "import_account K L J encoded s = (Inr (), t)"
    using assms(7) t by (simp add: import_account_def bind_io_def of_result_def ensure_io_def)
  moreover have "load_account_optional K L J scope t =
      (if sb_api_key_scope b = scope then Inr (Some (from_bundle b)) else Inl WrongScope, t)"
    using load_ready [OF assms(1,2) r assms(7)]
    by (simp add: load_account_optional_def bind_io_def of_result_def return_io_def into_operational_scope_def
        into_export_scope_def)
  moreover have "import_account K L J encoded t = (Inr (), t)"
    using assms(7) reinstall_ready [OF assms(1,2) r parse_bundle_length [OF assms(7)]]
    by (simp add: import_account_def bind_io_def of_result_def ensure_io_def)
  moreover have "\<exists>e. import_account K L J other t = (Inl e, t)" if "other \<noteq> encoded"
    using that reinstall_ready [OF assms(1,2) r, of other K J] parse_bundle_length [of K other]
    by (cases "parse_bundle K other") (auto simp: import_account_def bind_io_def of_result_def ensure_io_def)
  ultimately show ?thesis by blast
qed

theorem import_then_load_witness:
  "\<exists>t. import_account sample_account_crates sample_local (sample_json JNull) sample_bundle_text sample_machine = (Inr (), t)
    \<and> load_account_optional sample_account_crates sample_local (sample_json JNull) Publish t
      = (Inr (Some (from_bundle sample_scoped)), t)"
  using import_then_load [OF sample_local_ok _ sample_machine_ready sample_bundle_parses(2), of "sample_json JNull" Publish]
    sample_scope by auto

section \<open>Handing an account to another machine\<close>

text \<open>What a machine of the given scope may know of an owner bundle.\<close>

definition same_view :: "crates \<Rightarrow> ApiKeyScope \<Rightarrow> OwnerAccountBundle \<Rightarrow> OwnerAccountBundle \<Rightarrow> bool" where
  "same_view K scope b c \<longleftrightarrow> ob_service_origin b = ob_service_origin c \<and> ob_account_id b = ob_account_id c
     \<and> ob_account_root_key b = ob_account_root_key c
     \<and> (case scope of
          Publish \<Rightarrow> ob_publish_api_token b = ob_publish_api_token c
            \<and> verifying_key K (ob_consumer_identity_secret b) = verifying_key K (ob_consumer_identity_secret c)
        | Download \<Rightarrow> ob_download_api_token b = ob_download_api_token c
            \<and> ob_consumer_identity_secret b = ob_consumer_identity_secret c)"

lemma same_view_scoped: "same_view K scope b c \<Longrightarrow> into_scoped K b scope = into_scoped K c scope"
  by (cases scope) (simp_all add: same_view_def into_scoped_def authorized_identity_def)

lemma into_scoped_wf: "account_crates K \<Longrightarrow> wf_owner K b \<Longrightarrow> wf_bundle K (Scoped (into_scoped K b scope))"
  by (cases scope)
    (simp_all add: wf_bundle_def wf_owner_def wf_scoped_def into_scoped_def account_crates_def authorized_identity_def)

lemma export_ready:
  assumes "local_aead L" and "length mk = 32" and "account_ready L mk encoded s" and "parse_bundle K encoded = Inr (Owner b)"
    and "bundle_encode K (Scoped (into_scoped K b scope)) = Some bundle_text"
  shows "export_account K L J scope s = (Inr bundle_text, s)"
  using load_ready [OF assms(1-4), of J] assms(5)
  by (simp add: export_account_def bind_io_def of_result_def into_export_scope_def into_scoped_def)

lemma import_owner_refused:
  "parse_bundle K encoded = Inr (Owner b) \<Longrightarrow> import_account K L J encoded s = (Inl InvalidAccount, s)"
  by (simp add: import_account_def bind_io_def of_result_def ensure_io_def)

text \<open>C12: handing an account to another machine transfers the credentials of one scope and nothing else. The owner's
  machine exports for a scope; a second machine with a free slot imports the text. It then loads, for that scope, exactly the
  origin, the account id, the root key, the token of that scope and, for publishing, the public consumer identity without the secret, or,
  for downloading, the owner's consumer secret; the other scope is refused. The exported text depends on nothing else: every owner
  bundle that agrees on these parts exports the same text, whatever its other token (and, for publishing, whatever secret has that public
  identity). The owner's own bundle cannot be imported.\<close>

theorem export_then_import:
  assumes "account_crates K" and "local_aead L" and "length mk = 32" and "length mk' = 32"
    and "account_ready L mk encoded s" and "parse_bundle K encoded = Inr (Owner b)"
    and "wire_roundtrip K (bundle_wire K (Scoped (into_scoped K b scope)))"
    and "usable ACCOUNT_LOCK u" and "key_ready mk' u" and "dir u ACCOUNT_FILE = None" and "12 \<le> length (entropy u)"
  shows "\<exists>bundle_text t. export_account K L J scope s = (Inr bundle_text, s)
    \<and> import_account K L J bundle_text u = (Inr (), t)
    \<and> load_account_optional K L J other t = (if other \<noteq> scope then Inl WrongScope else
        Inr (Some \<lparr>ac_service_origin = ob_service_origin b, ac_account_id = ob_account_id b, ac_api_key_scope = scope,
          ac_api_token = (if scope = Publish then ob_publish_api_token b else ob_download_api_token b),
          ac_account_root_key = ob_account_root_key b,
          ac_authorized_consumer_identity =
            (if scope = Publish then Some (verifying_key K (ob_consumer_identity_secret b)) else None),
          ac_consumer_identity_secret = (if scope = Publish then None else Some (ob_consumer_identity_secret b))\<rparr>), t)
    \<and> (\<forall>mk2 encoded2 s2 c. length mk2 = 32 \<and> account_ready L mk2 encoded2 s2 \<and> parse_bundle K encoded2 = Inr (Owner c)
         \<and> same_view K scope b c \<longrightarrow> export_account K L J scope s2 = (Inr bundle_text, s2))
    \<and> import_account K L J encoded u = (Inl InvalidAccount, u)"
proof -
  let ?sc = "into_scoped K b scope"
  have "wf_bundle K (Scoped ?sc)"
    using into_scoped_wf [OF assms(1)] parse_bundle_wf [OF assms(1,6)] by (simp add: wf_bundle_def)
  then obtain x where x: "bundle_encode K (Scoped ?sc) = Some x" "parse_bundle K x = Inr (Scoped ?sc)"
    using bundle_parse_encode [OF assms(1) _ assms(7)] by (auto simp: parse_bundle_def)
  obtain t where t: "import_account K L J x u = (Inr (), t)"
    "load_account_optional K L J other t =
      (if sb_api_key_scope ?sc = other then Inr (Some (from_bundle ?sc)) else Inl WrongScope, t)"
    using import_then_load [OF assms(2,4,8-11) x(2), where scope = other] by blast
  have "export_account K L J scope s2 = (Inr x, s2)"
    if "length mk2 = 32 \<and> account_ready L mk2 encoded2 s2 \<and> parse_bundle K encoded2 = Inr (Owner c) \<and> same_view K scope b c"
    for mk2 encoded2 s2 c
    using that export_ready [OF assms(2)] x(1) same_view_scoped by metis
  moreover have "export_account K L J scope s = (Inr x, s)" by (rule export_ready [OF assms(2,3,5,6) x(1)])
  ultimately show ?thesis
    using t import_owner_refused [OF assms(6)]
    by (intro exI [of _ x] exI [of _ t], cases scope) (auto simp: into_scoped_def from_bundle_def authorized_identity_def)
qed

text \<open>A JSON library that reads an owner bundle and the download bundle made from it.\<close>

definition sample_transfer_crates :: crates where
  "sample_transfer_crates = sample_crates\<lparr>wire_from_slice := (\<lambda>s.
     let w = bundle_wire sample_crates (Scoped (into_scoped sample_crates sample_owner Download)) in
     if s = compact_wire w then Some w else wire_from_slice sample_crates s)\<rparr>"

lemma sample_transfer_ok:
  "account_crates sample_transfer_crates" "wf_owner sample_transfer_crates sample_owner"
  "wire_roundtrip sample_transfer_crates
     (bundle_wire sample_transfer_crates (Scoped (into_scoped sample_transfer_crates sample_owner Download)))"
  "wire_roundtrip sample_transfer_crates (bundle_wire sample_transfer_crates (Owner sample_owner))"
proof -
  have w: "bundle_wire sample_transfer_crates = bundle_wire sample_crates" "into_scoped sample_transfer_crates = into_scoped sample_crates"
    by (auto simp: bundle_wire_def into_scoped_def authorized_identity_def sample_transfer_crates_def fun_eq_iff split: AccountBundle.split)
  have d: "compact_wire (bundle_wire K (Owner b)) \<noteq> compact_wire (bundle_wire K (Scoped c))" for K b c
    by (simp add: bundle_wire_def compact_wire_def ascii_def)
  have v: "wire_to_vec sample_transfer_crates = compact_wire" "wire_from_slice sample_transfer_crates x = (if
      x = compact_wire (bundle_wire sample_crates (Scoped (into_scoped sample_crates sample_owner Download)))
      then Some (bundle_wire sample_crates (Scoped (into_scoped sample_crates sample_owner Download)))
      else wire_from_slice sample_crates x)" for x
    by (simp_all add: sample_transfer_crates_def) (simp add: sample_crates_def)
  show "account_crates sample_transfer_crates" "wf_owner sample_transfer_crates sample_owner"
    using sample_crates_ok sample_owner_ok by (simp_all add: account_crates_def wf_owner_def sample_transfer_crates_def wire_compact_def)
  show "wire_roundtrip sample_transfer_crates
     (bundle_wire sample_transfer_crates (Scoped (into_scoped sample_transfer_crates sample_owner Download)))"
    by (simp add: wire_roundtrip_def v w)
  show "wire_roundtrip sample_transfer_crates (bundle_wire sample_transfer_crates (Owner sample_owner))"
    using sample_wire_ok d by (simp add: wire_roundtrip_def v w) (simp add: sample_crates_def)
qed

theorem export_then_import_witness:
  "\<exists>bundle_text (s :: session) t. export_account sample_transfer_crates sample_local (sample_json JNull) Download s = (Inr bundle_text, s)
    \<and> import_account sample_transfer_crates sample_local (sample_json JNull) bundle_text sample_machine = (Inr (), t)
    \<and> load_account_optional sample_transfer_crates sample_local (sample_json JNull) Publish t = (Inl WrongScope, t)"
proof -
  let ?K = sample_transfer_crates and ?mk = "replicate 32 1 :: bytes"
  obtain x where "bundle_parse ?K x = Some (Inr (Owner sample_owner))"
    using bundle_parse_encode [OF sample_transfer_ok(1) _ sample_transfer_ok(4)] sample_transfer_ok(2)
    by (auto simp: wf_bundle_def)
  then have x: "parse_bundle ?K x = Inr (Owner sample_owner)" by (simp add: parse_bundle_def)
  have mk: "length ?mk = 32" by simp
  obtain s :: session where s: "account_ready sample_local ?mk x s"
    by (rule install_new_quiet [OF sample_local_ok mk sample_machine_ready parse_bundle_length [OF x],
          where K = ?K and J = "sample_json JNull" and idem = False]) (rule that)
  show ?thesis
    using export_then_import [OF sample_transfer_ok(1) sample_local_ok mk mk s x sample_transfer_ok(3) sample_machine_ready,
        where J = "sample_json JNull" and other = Publish] by auto
qed

text \<open>C34: credentials are never broader than the command needs. Whatever loads, its key has the requested
  scope; publishing credentials carry a consumer's public identity and no consumer secret, and come
  from a bundle that contains nothing else: the owner bundle of the account's creator, which also has
  the download key, is refused.\<close>

theorem loaded_credentials_scoped:
  assumes "account_crates K" and "load_account_optional K L J required s = (Inr (Some a), t)"
  shows "ac_api_key_scope a = required \<and> length (ac_api_token a) = 32 \<and> length (ac_account_root_key a) = 32 \<and>
    (case required of
       Publish \<Rightarrow> ac_consumer_identity_secret a = None \<and>
         (\<exists>i b. ac_authorized_consumer_identity a = Some i \<and> length i = 32
            \<and> load_stored_account K L J s = (Inr (Some (Scoped b)), t) \<and> a = from_bundle b)
     | Download \<Rightarrow> ac_authorized_consumer_identity a = None \<and>
         (\<exists>i. ac_consumer_identity_secret a = Some i \<and> length i = 32))"
proof -
  obtain stored b where st: "load_stored_account K L J s = (Inr (Some stored), t)"
    and b: "into_operational_scope K stored required = Inr b" and a: "a = from_bundle b"
    using assms(2) by (auto simp: load_account_optional_def bind_io_Inr split: option.splits)
  have "wf_bundle K stored" using load_stored_parsed [OF st] parse_bundle_wf [OF assms(1)] by blast
  from operational_scope_Inr [OF assms(1) this b] show ?thesis
    using st by (cases required) (auto simp: a from_bundle_def wf_scoped_def)
qed

theorem loaded_credentials_scoped_witness:
  "\<exists>t :: session. ac_consumer_identity_secret (from_bundle sample_scoped) = None
    \<and> load_stored_account sample_account_crates sample_local (sample_json JNull) t
      = (Inr (Some (Scoped sample_scoped)), t)"
proof -
  have mk: "length (replicate 32 1 :: bytes) = 32" by simp
  obtain t :: session where t: "account_ready sample_local (replicate 32 1) sample_bundle_text t"
    by (rule install_new_quiet [OF sample_local_ok mk sample_machine_ready parse_bundle_length [OF sample_bundle_parses(2)],
          where K = sample_crates and J = "sample_json JNull" and idem = False]) (rule that)
  have l: "load_stored_account sample_account_crates sample_local (sample_json JNull) t
      = (Inr (Some (Scoped sample_scoped)), t)"
    by (rule load_ready [OF sample_local_ok mk t sample_bundle_parses(2)])
  then have "load_account_optional sample_account_crates sample_local (sample_json JNull) Publish t
      = (Inr (Some (from_bundle sample_scoped)), t)"
    by (simp add: load_account_optional_def bind_io_def of_result_def return_io_def into_operational_scope_def
        into_export_scope_def sample_scope)
  from loaded_credentials_scoped [OF sample_bundle_parses(1) this]
  have "ac_consumer_identity_secret (from_bundle sample_scoped) = None" by (simp only: ApiKeyScope.case)
  then show ?thesis using l by blast
qed

end
