(* ===== verification/Endpoint_Registry.thy ===== *)
theory Endpoint_Registry
  imports Local_Encryption
begin

text \<open>
  \<open>cli/src/endpoint_registry.rs\<close>: which endpoints are served on this machine. A serving process holds an
  advisory lock on a marker file of a private directory; \<open>is_active\<close> probes that lock. The record adds to
  the registry's own directory the per-user directory above it and the markers locked by any process;
  a lock goes away with its file handle, on the error paths too.
\<close>

record registry = disk +
  user_root :: disk
  held :: "bytes list"

definition dir_for_temp_root :: "bytes \<Rightarrow> nat \<Rightarrow> failure + bytes" where
  "dir_for_temp_root temp_root effective_uid =
     (let components = path_components temp_root in
      bind_result (ensure (RootDir \<in> set (take 1 components)) InvalidName) (\<lambda>_.
      bind_result (ensure (list_all (\<lambda>c. case c of RootDir \<Rightarrow> True | NormalComponent _ \<Rightarrow> True | _ \<Rightarrow> False) components) InvalidName) (\<lambda>_.
      bind_result (ensure (list_ex (\<lambda>c. case c of NormalComponent _ \<Rightarrow> True | _ \<Rightarrow> False) components) InvalidName) (\<lambda>_.
        Inr (temp_root @ (if last temp_root = 47 then [] else [47]) @ ascii ''attached-'' @ dec_text effective_uid
          @ ascii ''/live-endpoints'')))))"

text \<open>\<open>default_dir\<close>: the canonical temporary directory, or the error of asking for it, is the argument.\<close>

definition default_dir :: "failure + bytes \<Rightarrow> nat \<Rightarrow> failure + bytes" where
  "default_dir temp_root uid = bind_result temp_root (\<lambda>p. dir_for_temp_root p uid)"

definition marker_name :: "bytes \<Rightarrow> bytes" where
  "marker_name identity = hex identity @ ascii ''.lock''"

definition in_user_root :: "(disk, 'a) io \<Rightarrow> ('z registry_scheme, 'a) io" where
  "in_user_root m s = (case m (user_root s) of (r, d) \<Rightarrow> (r, s\<lparr>user_root := d\<rparr>))"

definition has_parent :: "bytes \<Rightarrow> bool" where
  "has_parent p \<longleftrightarrow> path_components p \<noteq> [] \<and> path_components p \<noteq> [RootDir]"

definition open_registry_dir :: "bytes \<Rightarrow> ('z registry_scheme, unit) io" where
  "open_registry_dir registry_dir =
     bind_io (ensure_io (has_parent registry_dir) InvalidName) (\<lambda>_.
     bind_io (in_user_root (open_state_directory True False)) (\<lambda>_.
       open_state_directory True False))"

definition try_lock :: "bytes \<Rightarrow> ('z registry_scheme, bool) io" where
  "try_lock name = syscall (\<lambda>s. if name \<in> set (held s) then (Inr False, s)
     else (Inr True, s\<lparr>held := name # held s\<rparr>))"

definition release :: "bytes \<Rightarrow> ('z registry_scheme, unit) io" where
  "release name s = (Inr (), s\<lparr>held := filter (\<lambda>n. n \<noteq> name) (held s)\<rparr>)"

text \<open>An error after the lock was taken closes the file, which releases the lock.\<close>

definition holding :: "bytes \<Rightarrow> ('z registry_scheme, 'a) io \<Rightarrow> ('z registry_scheme, 'a) io" where
  "holding name m = bind_io (try_io m) (\<lambda>r. case r of
     Inr v \<Rightarrow> return_io v | Inl e \<Rightarrow> bind_io (release name) (\<lambda>_. fail_io e))"

definition register :: "bytes \<Rightarrow> bytes \<Rightarrow> ('z registry_scheme, unit) io" where
  "register registry_dir identity =
     bind_io (open_registry_dir registry_dir) (\<lambda>_.
     let name = marker_name identity in
     bind_io (open_private_lock_file name True) (\<lambda>opened.
     bind_io (of_result (ok_or opened HostPanic)) (\<lambda>_.
     bind_io (try_lock name) (\<lambda>free.
     bind_io (ensure_io free AlreadyExists) (\<lambda>_. holding name (verify_locked_file name))))))"

definition drop_active_endpoint :: "bytes \<Rightarrow> ('z registry_scheme, unit) io" where
  "drop_active_endpoint identity = release (marker_name identity)"

definition is_active :: "bytes \<Rightarrow> bytes \<Rightarrow> ('z registry_scheme, bool) io" where
  "is_active registry_dir identity =
     bind_io (open_registry_dir registry_dir) (\<lambda>_.
     let name = marker_name identity in
     bind_io (open_private_lock_file name False) (\<lambda>opened. case opened of
       None \<Rightarrow> return_io False
     | Some _ \<Rightarrow> bind_io (try_lock name) (\<lambda>free.
         if \<not> free then bind_io (verify_locked_file name) (\<lambda>_. return_io True)
         else holding name (
           bind_io (verify_locked_file name) (\<lambda>_.
           bind_io (syscall (release name)) (\<lambda>_. return_io False))))))"

section \<open>Probing changes no lock\<close>

definition holds_locks :: "bytes list \<Rightarrow> 'z registry_scheme \<Rightarrow> bool" where
  "holds_locks h s \<longleftrightarrow> held s = h"

lemma same_but_held: "same_but l s t \<Longrightarrow> held t = held s" for s t :: "'z registry_scheme"
  by (cases s; cases t) (auto simp: same_but_def)

lemma keeps_same_but_held:
  fixes m :: "('z registry_scheme, 'a) io"
  assumes "\<And>s. keeps (same_but l s) m" shows "keeps (holds_locks h) m"
  unfolding keeps_def
proof (intro allI impI)
  fix s :: "'z registry_scheme" assume h: "holds_locks h s"
  have "same_but l s (snd (m s))" using assms [of s] by (auto simp: keeps_def)
  then show "holds_locks h (snd (m s))" using h by (auto simp: holds_locks_def dest: same_but_held)
qed

lemma keeps_lock_file: "keeps (same_but l s) (open_private_lock_file l c)"
  unfolding open_private_lock_file_def Let_def by (intro keeps_rules)

lemma keeps_verify_locked: "keeps (same_but l s) (verify_locked_file n)"
  unfolding verify_locked_file_def validate_private_dir_def verify_path_identity_def by (intro keeps_rules)

lemma keeps_open_registry: "keeps (holds_locks h) (open_registry_dir p)"
proof -
  have "keeps (holds_locks h) (in_user_root m)" for m :: "(disk, unit) io"
    by (auto simp: keeps_def in_user_root_def holds_locks_def split: prod.split)
  then show ?thesis
    unfolding open_registry_dir_def
    by (intro keeps_rules keeps_same_but_held [OF keeps_open_directory])
qed

lemma keeps_released: "keeps (\<lambda>t. filter (\<lambda>n. n \<noteq> name) (held t) = h) m"
  if "\<And>h. keeps (holds_locks h) m" for m :: "('z registry_scheme, 'a) io"
  using that unfolding keeps_def holds_locks_def by metis

lemma holding_released:
  fixes m :: "('z registry_scheme, 'a) io"
  assumes m: "triple (\<lambda>t. filter (\<lambda>n. n \<noteq> name) (held t) = h) m (\<lambda>_. holds_locks h)
      (\<lambda>t. filter (\<lambda>n. n \<noteq> name) (held t) = h)"
  shows "triple (\<lambda>t. filter (\<lambda>n. n \<noteq> name) (held t) = h) (holding name m) (\<lambda>_. holds_locks h) (holds_locks h)"
proof (rule tripleI)
  fix t :: "'z registry_scheme" assume t: "filter (\<lambda>n. n \<noteq> name) (held t) = h"
  show "wp (holding name m) (\<lambda>_. holds_locks h) (holds_locks h) t"
    unfolding holding_def wp_simps
    by (rule wp_try, rule m [THEN triple_wp], rule t) (auto simp: wp_simps wp_def release_def holds_locks_def)
qed

lemma is_active_keeps_locks: "keeps (holds_locks h) (is_active p identity :: ('a registry_scheme, bool) io)"
proof -
  let ?n = "marker_name identity"
  let ?R = "\<lambda>t :: 'a registry_scheme. filter (\<lambda>n. n \<noteq> ?n) (held t) = h"
  have verify: "keeps (holds_locks g) (verify_locked_file ?n :: ('a registry_scheme, unit) io)" for g
    by (rule keeps_same_but_held [OF keeps_verify_locked])
  have probe: "triple ?R (bind_io (verify_locked_file ?n) (\<lambda>_. bind_io (syscall (release ?n)) (\<lambda>_. return_io False)))
      (\<lambda>_. holds_locks h) ?R"
    by (rule triple_bind [where R = "\<lambda>_. ?R"], use keeps_released [OF verify] in \<open>simp add: keeps_triple\<close>)
      (auto simp: triple_def bind_io_def syscall_def release_def return_io_def holds_locks_def
        split: list.splits option.splits)
  have locked: "triple (holds_locks h) (try_lock ?n)
      (\<lambda>free t. if free then ?R t \<and> ?n \<notin> set h else holds_locks h t) (holds_locks h)"
    by (auto simp: triple_def try_lock_def syscall_def holds_locks_def filter_id_conv split: list.splits option.splits)
  have tail: "keeps (holds_locks h :: 'a registry_scheme \<Rightarrow> bool) (bind_io (try_lock ?n) (\<lambda>free.
      if \<not> free then bind_io (verify_locked_file ?n) (\<lambda>_. return_io True)
      else holding ?n (bind_io (verify_locked_file ?n) (\<lambda>_. bind_io (syscall (release ?n)) (\<lambda>_. return_io False)))))"
    unfolding keeps_triple
    by (rule triple_bind [OF locked])
      (auto intro: triple_conseq [OF holding_released [OF probe]] triple_conseq [OF keeps_bind
          [OF verify keeps_pure(1), unfolded keeps_triple]])
  show ?thesis
    unfolding is_active_def Let_def
    by (rule keeps_bind [OF keeps_open_registry], rule keeps_bind [OF keeps_same_but_held [OF keeps_lock_file]])
      (auto intro: keeps_cases(2) tail keeps_pure)
qed

section \<open>Registered endpoints are seen\<close>

lemma path_segments_plain: "47 \<notin> set n \<Longrightarrow> path_segments acc n = [acc @ n]"
  by (induction acc n rule: path_segments.induct) auto

lemma validate_name_plain:
  "47 \<notin> set n \<Longrightarrow> 0 \<notin> set n \<Longrightarrow> n \<noteq> [] \<Longrightarrow> hd n \<noteq> 46 \<Longrightarrow> validate_name n = Inr ()"
  by (cases n) (auto simp: validate_name_def path_components_def path_segments_plain segment_components_def)

lemma hex_chars: "c \<in> set (hex bs) \<Longrightarrow> c \<noteq> 47 \<and> c \<noteq> 0 \<and> c \<noteq> 46"
proof -
  have "hex_char d \<noteq> 47 \<and> hex_char d \<noteq> 0 \<and> hex_char d \<noteq> 46" if "d < 16" for d
    using hex_char_digit [OF that] by (auto simp: to_digit_def is_ascii_digit_def is_ascii_lowercase_def is_ascii_uppercase_def)
  moreover have "unat x div 16 < 16" for x :: u8 using unat_u8_bound [of x] by simp
  ultimately show "c \<in> set (hex bs) \<Longrightarrow> c \<noteq> 47 \<and> c \<noteq> 0 \<and> c \<noteq> 46"
    by (force simp: hex_def hex_byte_def)
qed

lemma marker_name_valid: "identity \<noteq> [] \<Longrightarrow> validate_name (marker_name identity) = Inr ()"
proof -
  assume "identity \<noteq> []"
  then have "hex identity \<noteq> []" by (cases identity) (simp_all add: hex_def hex_byte_def)
  then have "hd (marker_name identity) \<in> set (hex identity)" "marker_name identity \<noteq> []" by (simp_all add: marker_name_def)
  moreover have "47 \<notin> set (marker_name identity) \<and> 0 \<notin> set (marker_name identity)"
    using hex_chars [of 47] hex_chars [of 0] by (auto simp: marker_name_def byte_simps)
  ultimately show ?thesis using hex_chars by (intro validate_name_plain) blast+
qed

lemma lock_file_quiet:
  assumes "usable l s" and "validate_name l = Inr ()"
  shows "open_private_lock_file l True s = (Inr (Some ()), locked l s)"
    and "dir s l \<noteq> None \<Longrightarrow> open_private_lock_file l False s = (Inr (Some ()), s)"
    and "dir s l = None \<Longrightarrow> open_private_lock_file l False s = (Inr None, s)"
proof -
  have q: "os_faults s = []" using assms(1) by (simp add: usable_def)
  show "open_private_lock_file l True s = (Inr (Some ()), locked l s)"
    using assms q
    by (cases "dir s l") (auto simp: usable_def open_private_lock_file_def create_exclusive_def openat_file_def protect_file_def
        update_file_def sync_all_def bind_io_def try_io_def return_io_def of_result_def io_simps locked_def
        acceptable_def private_file_def)
  show "dir s l \<noteq> None \<Longrightarrow> open_private_lock_file l False s = (Inr (Some ()), s)"
    using assms q by (auto simp: usable_def open_private_lock_file_def openat_file_def bind_io_def try_io_def
        return_io_def of_result_def io_simps acceptable_kind)
  show "dir s l = None \<Longrightarrow> open_private_lock_file l False s = (Inr None, s)"
    using assms q by (auto simp: open_private_lock_file_def openat_file_def bind_io_def try_io_def
        return_io_def of_result_def io_simps)
qed

text \<open>A machine whose registry is private: both directories and the marker are the user's.\<close>

definition registry_ready :: "bytes \<Rightarrow> bytes \<Rightarrow> 'z registry_scheme \<Rightarrow> bool" where
  "registry_ready p identity s \<longleftrightarrow> has_parent p \<and> usable (marker_name identity) s \<and> usable [] (user_root s)"

lemma registry_ready_parts:
  assumes "registry_ready p identity s"
  shows "open_registry_dir p s = (Inr (), s)" "usable (marker_name identity) s" "os_faults s = []"
  using assms open_directory_quiet [of "[]" "user_root s"] open_directory_quiet [of "marker_name identity" s]
  by (auto simp: registry_ready_def open_registry_dir_def in_user_root_def bind_io_def ensure_io_def usable_def)

lemma registry_ready_locks:
  "registry_ready p identity s \<Longrightarrow> registry_ready p identity (locked (marker_name identity) s\<lparr>held := h\<rparr>)"
proof -
  assume s: "registry_ready p identity s"
  let ?l = "locked (marker_name identity) s"
  have "usable (marker_name identity) ?l"
    using s by (cases "dir s (marker_name identity)") (simp_all add: registry_ready_def usable_def locked_def)
  moreover have "usable l (?l\<lparr>held := h\<rparr>) \<longleftrightarrow> usable l ?l" for l by (simp add: usable_def)
  moreover have "user_root ?l = user_root s" by (cases s) (simp add: locked_def)
  ultimately show ?thesis using s by (simp add: registry_ready_def)
qed

lemma registered_endpoint:
  assumes s: "registry_ready p identity s" and i: "identity \<noteq> []" and free: "marker_name identity \<notin> set (held s)"
  shows "\<exists>t. register p identity s = (Inr (), t) \<and> is_active p identity t = (Inr True, t) \<and>
    (\<exists>u. drop_active_endpoint identity t = (Inr (), u) \<and> is_active p identity u = (Inr False, u))"
proof -
  let ?n = "marker_name identity" and ?l = "locked (marker_name identity) s"
  let ?t = "?l\<lparr>held := ?n # held s\<rparr>" and ?u = "?l\<lparr>held := held s\<rparr>"
  have ready: "registry_ready p identity (?l\<lparr>held := h\<rparr>)" for h using s by (rule registry_ready_locks)
  obtain f where f: "dir ?l ?n = Some f" "acceptable (euid s) 0x180 f"
    using registry_ready_parts(2) [OF s] by (cases "dir s ?n") (auto simp: locked_def usable_def)
  have v: "verify_locked_file ?n (?l\<lparr>held := h\<rparr>) = (Inr (), ?l\<lparr>held := h\<rparr>)" for h
    by (rule verify_locked_quiet [OF registry_ready_parts(2) [OF ready]]) (use f in simp_all)
  have q: "os_faults s = []" using registry_ready_parts(3) [OF s] .
  have h: "held ?l = held s" by (cases s) (simp add: locked_def)
  note runs = Let_def bind_io_def return_io_def ensure_io_def of_result_def try_io_def holding_def release_def try_lock_def syscall_def
  have "register p identity s = (Inr (), ?t)"
    using registry_ready_parts [OF s] lock_file_quiet(1) [OF registry_ready_parts(2) [OF s] marker_name_valid [OF i]] free v q h
    by (simp add: register_def runs)
  moreover have "is_active p identity ?t = (Inr True, ?t)"
    using registry_ready_parts [OF ready] lock_file_quiet(2) [OF registry_ready_parts(2) [OF ready] marker_name_valid [OF i]] f v q
    by (simp add: is_active_def runs)
  moreover have "filter (\<lambda>n. n \<noteq> ?n) (held s) = held s" using free by (auto simp: filter_id_conv)
  then have "drop_active_endpoint identity ?t = (Inr (), ?u)" by (simp add: drop_active_endpoint_def release_def)
  moreover have "is_active p identity ?u = (Inr False, ?u)"
    using registry_ready_parts [OF ready] lock_file_quiet(2) [OF registry_ready_parts(2) [OF ready] marker_name_valid [OF i]] f v q free
      \<open>filter (\<lambda>n. n \<noteq> ?n) (held s) = held s\<close>
    by (simp add: is_active_def runs)
  ultimately show ?thesis by blast
qed

end
