(* ===== verification/Btree.thy ===== *)
theory Btree
  imports Main
begin

text \<open>
  \<open>BTreeMap\<close> as the client uses it: an association list in strictly increasing key order. \<open>collect\<close> keeps
  the last value of a repeated key; \<open>into_values\<close> lists the values in key order.
\<close>

fun btree_insert :: "'k::linorder \<Rightarrow> 'v \<Rightarrow> ('k \<times> 'v) list \<Rightarrow> ('k \<times> 'v) list" where
  "btree_insert k v [] = [(k, v)]"
| "btree_insert k v ((j, w) # r) =
     (if k < j then (k, v) # (j, w) # r else if k = j then (k, v) # r else (j, w) # btree_insert k v r)"

definition btree_collect :: "('k::linorder \<times> 'v) list \<Rightarrow> ('k \<times> 'v) list" where
  "btree_collect kvs = fold (\<lambda>(k, v). btree_insert k v) kvs []"

definition btree_remove :: "'k \<Rightarrow> ('k \<times> 'v) list \<Rightarrow> ('k \<times> 'v) list" where
  "btree_remove k m = filter (\<lambda>(j, _). j \<noteq> k) m"

definition btree_ok :: "('k::linorder \<times> 'v) list \<Rightarrow> bool" where
  "btree_ok m \<longleftrightarrow> sorted_wrt (<) (map fst m)"

lemma btree_insert_keys: "fst ` set (btree_insert k v m) = insert k (fst ` set m)"
  by (induction k v m rule: btree_insert.induct) auto

lemma btree_insert_ok: "btree_ok m \<Longrightarrow> btree_ok (btree_insert k v m)"
proof (induction k v m rule: btree_insert.induct)
  case (2 k v j w r)
  have "\<forall>x\<in>fst ` set (btree_insert k v r). j < x" if "j < k"
    using 2 that by (auto simp: btree_insert_keys btree_ok_def)
  then show ?case using 2 by (fastforce simp: btree_ok_def)
qed (simp add: btree_ok_def)

lemma map_of_btree_insert: "btree_ok m \<Longrightarrow> map_of (btree_insert k v m) = (map_of m)(k \<mapsto> v)"
  by (induction k v m rule: btree_insert.induct) (auto simp: btree_ok_def fun_eq_iff)

lemma btree_collect_fold:
  assumes "btree_ok m"
  shows "btree_ok (fold (\<lambda>(k, v). btree_insert k v) kvs m)
    \<and> map_of (fold (\<lambda>(k, v). btree_insert k v) kvs m) = map_of m ++ map_of (rev kvs)"
  using assms
proof (induction kvs arbitrary: m)
  case (Cons kv kvs)
  then show ?case
    using Cons.IH [OF btree_insert_ok [OF Cons.prems, of "fst kv" "snd kv"]]
    by (cases kv) (auto simp: map_of_btree_insert map_add_def fun_eq_iff split: option.splits)
qed simp

lemma btree_collect_ok [simp]: "btree_ok (btree_collect kvs)"
  using btree_collect_fold [of "[]" kvs] by (simp add: btree_collect_def btree_ok_def)

lemma map_of_btree_collect: "distinct (map fst kvs) \<Longrightarrow> map_of (btree_collect kvs) = map_of kvs"
proof -
  assume d: "distinct (map fst kvs)"
  have "map_of (rev kvs) = map_of kvs"
    using d by (intro map_of_inject_set [THEN iffD2]) (simp_all add: rev_map [symmetric])
  then show ?thesis using btree_collect_fold [of "[]" kvs] by (simp add: btree_collect_def btree_ok_def)
qed

lemma btree_distinct: "btree_ok m \<Longrightarrow> distinct (map fst m)"
  by (simp add: btree_ok_def strict_sorted_iff)

lemma btree_entries: "btree_ok m \<Longrightarrow> (k, v) \<in> set m \<longleftrightarrow> map_of m k = Some v"
  by (simp add: btree_distinct)

lemma btree_remove_ok: "btree_ok m \<Longrightarrow> btree_ok (btree_remove k m)"
  by (induction m) (auto simp: btree_ok_def btree_remove_def)

lemma map_of_btree_remove: "map_of (btree_remove k m) = (map_of m)(k := None)"
  by (induction m) (auto simp: btree_remove_def fun_eq_iff)

lemma btree_insert_last: "(\<And>j. j \<in> fst ` set m \<Longrightarrow> j < k) \<Longrightarrow> btree_insert k v m = m @ [(k, v)]"
  by (induction k v m rule: btree_insert.induct) (auto dest: less_asym)

lemma btree_fold_sorted: "btree_ok (m @ kvs) \<Longrightarrow> fold (\<lambda>(k, v). btree_insert k v) kvs m = m @ kvs"
proof (induction kvs arbitrary: m)
  case (Cons kv kvs)
  have "btree_insert (fst kv) (snd kv) m = m @ [kv]"
    using btree_insert_last [of m "fst kv" "snd kv"] Cons.prems by (fastforce simp: btree_ok_def sorted_wrt_append)
  then show ?case using Cons.IH [of "m @ [kv]"] Cons.prems by (simp add: split_beta)
qed simp

lemma btree_collect_id: "btree_ok m \<Longrightarrow> btree_collect m = m"
  using btree_fold_sorted [of "[]" m] by (simp add: btree_collect_def)

lemma btree_collect_subset: "set (btree_collect kvs) \<subseteq> set kvs"
proof -
  have ins: "set (btree_insert k v m) \<subseteq> insert (k, v) (set m)" for k :: 'a and v :: 'b and m
    by (induction k v m rule: btree_insert.induct) auto
  have "set (fold (\<lambda>(k, v). btree_insert k v) kvs m) \<subseteq> set kvs \<union> set m" for m
  proof (induction kvs arbitrary: m)
    case (Cons kv kvs)
    then show ?case using ins [of "fst kv" "snd kv" m] by (fastforce simp: case_prod_beta)
  qed simp
  from this [of "[]"] show ?thesis by (simp add: btree_collect_def)
qed

end
