(* ===== verification/Catalog.thy ===== *)
theory Catalog
  imports Crypto Account_State Endpoint_Registry Btree "HOL-Library.Product_Lexorder"
begin

text \<open>
  \<open>cli/src/sync/state_catalog.rs\<close>: the local catalog of published machines. It is kept sealed in one file;
  a refresh is reconciled with what another process may have saved in the meantime; a machine is
  resolved by its stable endpoint identity or by an unambiguous label. Endpoint identities and tickets
  are code of \<open>iroh\<close>: the parameters \<open>P\<close> and \<open>I\<close>.
\<close>

definition CATALOG_FILE :: bytes where "CATALOG_FILE = ascii ''host-catalog.json''"
definition CATALOG_LOCK :: bytes where "CATALOG_LOCK = ascii ''host-catalog.lock''"
definition MAX_CATALOG_BYTES :: nat where [limit_defs]: "MAX_CATALOG_BYTES = 16 * 1024 * 1024"
definition MAX_STORED_CATALOG_BYTES :: nat where "MAX_STORED_CATALOG_BYTES = stored_limit MAX_CATALOG_BYTES"

record endpoint_ids =
  id_from_str :: "bytes \<Rightarrow> bytes option"
  id_to_string :: "bytes \<Rightarrow> bytes option"

record machine = session +
  endpoints :: registry

section \<open>Data\<close>

record SyncedHost =
  sh_target :: bytes
  sh_host :: bytes
  sh_attached_version :: "u16 list"
  sh_published_at :: "datetime option"

record HostListing =
  hl_hosts :: "SyncedHost list"
  hl_registry_unavailable :: bool

record HostConnection =
  hc_record_id :: bytes
  hc_service_revision :: nat
  hc_endpoint_ticket :: bytes
  hc_endpoint_identity :: bytes
  hc_attach_capability :: bytes
  hc_attached_version :: "u16 list"
  hc_expires_at :: datetime
  hc_ssh_enabled :: bool

record CatalogRecord =
  ct_record_id :: bytes
  ct_service_revision :: nat
  ct_host_label :: bytes
  ct_published_at :: "datetime option"
  ct_expires_at :: datetime
  ct_endpoint_ticket :: bytes
  ct_endpoint_identity :: bytes
  ct_attach_capability :: bytes
  ct_attached_version :: "u16 list"
  ct_ssh_enabled :: bool

record Catalog =
  cat_account_id :: bytes
  cat_service_origin :: bytes
  cat_generation :: nat
  cat_records :: "CatalogRecord list"

definition catalog_empty :: "AccountCredentials \<Rightarrow> Catalog" where
  "catalog_empty account = \<lparr>cat_account_id = ac_account_id account, cat_service_origin = ac_service_origin account,
     cat_generation = 0, cat_records = []\<rparr>"

definition is_expired_at :: "CatalogRecord \<Rightarrow> datetime \<Rightarrow> bool" where
  "is_expired_at r t \<longleftrightarrow> nanos_of (ct_expires_at r) \<le> nanos_of t"

definition ssh_attachment :: "CatalogRecord \<Rightarrow> HostConnection" where
  "ssh_attachment r = \<lparr>hc_record_id = ct_record_id r, hc_service_revision = ct_service_revision r,
     hc_endpoint_ticket = ct_endpoint_ticket r, hc_endpoint_identity = ct_endpoint_identity r,
     hc_attach_capability = ct_attach_capability r, hc_attached_version = ct_attached_version r,
     hc_expires_at = ct_expires_at r, hc_ssh_enabled = ct_ssh_enabled r\<rparr>"

text \<open>\<open>None\<close> is the panic of \<open>endpoint_identity\<close>, which a validated descriptor excludes.\<close>

definition from_opened ::
  "'ticket platform \<Rightarrow> bytes \<Rightarrow> nat \<Rightarrow> HostAccessDescriptor \<Rightarrow> CatalogRecord option" where
  "from_opened P rid revision d = map_option (\<lambda>identity.
     \<lparr>ct_record_id = rid, ct_service_revision = revision, ct_host_label = host_label d,
      ct_published_at = Some (issued_at d), ct_expires_at = expires_at d, ct_endpoint_ticket = endpoint_ticket d,
      ct_endpoint_identity = identity, ct_attach_capability = attach_capability d,
      ct_attached_version = [major (attached_version d), minor (attached_version d), patch (attached_version d)],
      ct_ssh_enabled = ssh_enabled d\<rparr>) (endpoint_identity P d)"

section \<open>Stored form\<close>

definition timestamp_json :: "datetime \<Rightarrow> json" where
  "timestamp_json t = (if secs t < 0 then JNegative (nat (- secs t)) else JNumber (nat (secs t)))"

definition timestamp_read :: "'ticket platform \<Rightarrow> json \<Rightarrow> datetime option" where
  "timestamp_read P j =
     (let at_seconds = (\<lambda>v. if representable P v then Some \<lparr>secs = v, nanos = 0\<rparr> else None) in
      case j of
        JNumber n \<Rightarrow> if n \<le> I64_MAX then at_seconds (int n) else None
      | JNegative n \<Rightarrow> at_seconds (- int n)
      | _ \<Rightarrow> None)"

definition optional_timestamp_read :: "'ticket platform \<Rightarrow> json option \<Rightarrow> datetime option option" where
  "optional_timestamp_read P v = (case v of
     None \<Rightarrow> Some None
   | Some JNull \<Rightarrow> Some None
   | Some j \<Rightarrow> map_option Some (timestamp_read P j))"

definition array_json :: "'a::len word list \<Rightarrow> json" where
  "array_json ws = JArray (map (\<lambda>w. JNumber (unat w)) ws)"

definition array_read :: "nat \<Rightarrow> json \<Rightarrow> 'a::len word list option" where
  "array_read n j = (case j of
     JArray js \<Rightarrow> if length js = n \<and> list_all (\<lambda>j. json_uint (2 ^ LENGTH('a) - 1) j \<noteq> None) js
       then Some (map (\<lambda>j. word_of_nat (the (json_uint (2 ^ LENGTH('a) - 1) j))) js) else None
   | _ \<Rightarrow> None)"

definition json_bool :: "json \<Rightarrow> bool option" where
  "json_bool j = (case j of JBool b \<Rightarrow> Some b | _ \<Rightarrow> None)"

text \<open>A derived reader with \<open>deny_unknown_fields\<close> in which the fields of \<open>defaults\<close> may be absent.\<close>

definition defaulted_struct :: "bytes list \<Rightarrow> bytes list \<Rightarrow> json \<Rightarrow> json option list option" where
  "defaulted_struct names defaults j = (case j of
     JObject kvs \<Rightarrow>
       if distinct (map fst kvs) \<and> list_all (\<lambda>(k, _). k \<in> set names) kvs
          \<and> list_all (\<lambda>k. k \<in> set defaults \<or> map_of kvs k \<noteq> None) names
       then Some (map (map_of kvs) names) else None
   | JArray vs \<Rightarrow> if length vs = length names then Some (map Some vs) else None
   | _ \<Rightarrow> None)"

definition record_fields :: "bytes list" where
  "record_fields = [ascii ''record_id'', ascii ''service_revision'', ascii ''host_label'', ascii ''published_at'',
     ascii ''expires_at'', ascii ''endpoint_ticket'', ascii ''endpoint_identity'', ascii ''attach_capability'',
     ascii ''attached_version'', ascii ''ssh_enabled'']"

definition catalog_record_json :: "crates \<Rightarrow> CatalogRecord \<Rightarrow> json" where
  "catalog_record_json K r = JObject (zip record_fields
     [JString (record_id_text (engine K) (ct_record_id r)) False, JNumber (ct_service_revision r),
      JString (ct_host_label r) False,
      (case ct_published_at r of None \<Rightarrow> JNull | Some t \<Rightarrow> timestamp_json t), timestamp_json (ct_expires_at r),
      JString (ct_endpoint_ticket r) False, array_json (ct_endpoint_identity r), array_json (ct_attach_capability r),
      array_json (ct_attached_version r), JBool (ct_ssh_enabled r)])"

definition catalog_record_read :: "crates \<Rightarrow> 'ticket platform \<Rightarrow> json \<Rightarrow> CatalogRecord option" where
  "catalog_record_read K P j = (case defaulted_struct record_fields [ascii ''published_at''] j of
     Some [Some i, Some r, Some h, p, Some x, Some t, Some e, Some c, Some v, Some b] \<Rightarrow>
       Option.bind (Option.bind (json_str i) (\<lambda>i. result_ok (parse_record_id (engine K) i))) (\<lambda>rid.
       Option.bind (json_uint U64_MAX r) (\<lambda>revision.
       Option.bind (json_string_owned h) (\<lambda>label.
       Option.bind (optional_timestamp_read P p) (\<lambda>published.
       Option.bind (timestamp_read P x) (\<lambda>expires.
       Option.bind (json_string_owned t) (\<lambda>ticket.
       Option.bind (array_read 32 e) (\<lambda>identity.
       Option.bind (array_read 32 c) (\<lambda>capability.
       Option.bind (array_read 3 v) (\<lambda>version.
       Option.bind (json_bool b) (\<lambda>ssh.
         Some \<lparr>ct_record_id = rid, ct_service_revision = revision, ct_host_label = label, ct_published_at = published,
           ct_expires_at = expires, ct_endpoint_ticket = ticket, ct_endpoint_identity = identity,
           ct_attach_capability = capability, ct_attached_version = version, ct_ssh_enabled = ssh\<rparr>))))))))))
   | _ \<Rightarrow> None)"

definition catalog_fields :: "bytes list" where
  "catalog_fields = [ascii ''account_id'', ascii ''service_origin'', ascii ''generation'', ascii ''records'']"

definition catalog_json :: "crates \<Rightarrow> Catalog \<Rightarrow> json" where
  "catalog_json K c = JObject (zip catalog_fields
     [JString (account_id_text (uuids K) (cat_account_id c)) False, JString (cat_service_origin c) False,
      JNumber (cat_generation c), JArray (map (catalog_record_json K) (cat_records c))])"

fun read_all :: "('a \<Rightarrow> 'b option) \<Rightarrow> 'a list \<Rightarrow> 'b list option" where
  "read_all rd [] = Some []"
| "read_all rd (j # js) = Option.bind (rd j) (\<lambda>v. map_option ((#) v) (read_all rd js))"

definition catalog_read :: "crates \<Rightarrow> 'ticket platform \<Rightarrow> json \<Rightarrow> Catalog option" where
  "catalog_read K P j = (case defaulted_struct catalog_fields [ascii ''generation''] j of
     Some [Some a, Some s, g, Some (JArray js)] \<Rightarrow>
       Option.bind (Option.bind (json_str a) (\<lambda>a. result_ok (parse_account_id (uuids K) a))) (\<lambda>aid.
       Option.bind (json_string_owned s) (\<lambda>origin.
       Option.bind (case g of None \<Rightarrow> Some 0 | Some n \<Rightarrow> json_uint U64_MAX n) (\<lambda>generation.
       Option.bind (read_all (catalog_record_read K P) js) (\<lambda>records.
         Some \<lparr>cat_account_id = aid, cat_service_origin = origin, cat_generation = generation, cat_records = records\<rparr>))))
   | _ \<Rightarrow> None)"

section \<open>Validation\<close>

definition validate_record :: "'ticket platform \<Rightarrow> CatalogRecord \<Rightarrow> failure + unit" where
  "validate_record P r =
     bind_result (ensure (ct_service_revision r > 0) InvalidCatalog) (\<lambda>_.
     bind_result (ensure (validate_host_label (ct_host_label r)) InvalidCatalog) (\<lambda>_.
     bind_result (ensure (secs (ct_expires_at r) \<ge> 0 \<and> nanos (ct_expires_at r) = 0) InvalidCatalog) (\<lambda>_.
     bind_result (ensure (case ct_published_at r of None \<Rightarrow> True | Some t \<Rightarrow>
         secs t \<ge> 0 \<and> nanos t = 0 \<and> nanos_of t \<le> nanos_of (ct_expires_at r)) InvalidCatalog) (\<lambda>_.
     bind_result (ensure (ct_endpoint_ticket r \<noteq> [] \<and> length (ct_endpoint_ticket r) \<le> MAX_ENDPOINT_TICKET_BYTES
         \<and> is_ascii (ct_endpoint_ticket r)) InvalidCatalog) (\<lambda>_.
     bind_result (ok_or (ticket_from_str P (ct_endpoint_ticket r)) InvalidCatalog) (\<lambda>endpoint.
       ensure (ticket_to_string P endpoint = ct_endpoint_ticket r
         \<and> ticket_id P endpoint = ct_endpoint_identity r) InvalidCatalog))))))"

fun validate_records :: "'ticket platform \<Rightarrow> bytes list \<Rightarrow> CatalogRecord list \<Rightarrow> failure + unit" where
  "validate_records P seen [] = Inr ()"
| "validate_records P seen (r # rs) =
     bind_result (ensure (ct_record_id r \<notin> set seen) InvalidCatalog) (\<lambda>_.
     bind_result (validate_record P r) (\<lambda>_. validate_records P (ct_record_id r # seen) rs))"

definition catalog_validate :: "'ticket platform \<Rightarrow> Catalog \<Rightarrow> AccountCredentials \<Rightarrow> failure + unit" where
  "catalog_validate P c account =
     bind_result (ensure (cat_account_id c = ac_account_id account) InvalidCatalog) (\<lambda>_.
     bind_result (ensure (cat_service_origin c = ac_service_origin account) InvalidCatalog) (\<lambda>_.
     bind_result (ensure (length (cat_records c) \<le> MAX_LIVE_RECORDS) InvalidCatalog) (\<lambda>_.
       validate_records P [] (cat_records c))))"

section \<open>The catalog file\<close>

definition encode_catalog :: "crates \<Rightarrow> json_lib \<Rightarrow> Catalog \<Rightarrow> failure + bytes" where
  "encode_catalog K J c =
     (let encoded = json_to_vec J (catalog_json K c) in
      bind_result (ensure (length encoded \<le> MAX_CATALOG_BYTES) InvalidCatalog) (\<lambda>_. Inr encoded))"

definition write_catalog ::
  "crates \<Rightarrow> local_crypto \<Rightarrow> json_lib \<Rightarrow> Catalog \<Rightarrow> bool \<Rightarrow> ('z session_scheme, unit) io" where
  "write_catalog K L J c replace =
     bind_io (of_result (encode_catalog K J c)) (\<lambda>plaintext.
     with_master_key L J True (\<lambda>mk.
       bind_io (seal L mk SyncCatalog plaintext MAX_CATALOG_BYTES) (\<lambda>encrypted.
         if replace then atomic_replace CATALOG_FILE encrypted
         else bind_io (create_noclobber CATALOG_FILE encrypted) (\<lambda>created.
           if created then return_io () else fail_io CatalogConflict))))"

definition read_catalog_with_store ::
  "crates \<Rightarrow> local_crypto \<Rightarrow> json_lib \<Rightarrow> 'ticket platform \<Rightarrow> AccountCredentials \<Rightarrow> bool \<Rightarrow> key_store
     \<Rightarrow> ('z session_scheme, Catalog option) io" where
  "read_catalog_with_store K L J P account migrate_legacy store =
     bind_io (read_secret_optional_bounded CATALOG_FILE MAX_STORED_CATALOG_BYTES) (\<lambda>r. case r of
       None \<Rightarrow> return_io None
     | Some stored \<Rightarrow>
         let legacy = \<not> is_envelope stored in
         bind_io (if \<not> legacy
           then with_master_key_store L J store False (\<lambda>mk.
             of_result (open_secret L mk SyncCatalog stored MAX_CATALOG_BYTES))
           else return_io stored) (\<lambda>plaintext.
         bind_io (of_result (ok_or (Option.bind (json_from_slice J plaintext) (catalog_read K P)) InvalidCatalog)) (\<lambda>catalog.
         bind_io (of_result (catalog_validate P catalog account)) (\<lambda>_.
         bind_io (if migrate_legacy \<and> legacy
           then with_master_key_store L J store True (\<lambda>mk.
             bind_io (seal L mk SyncCatalog plaintext MAX_CATALOG_BYTES) (atomic_replace CATALOG_FILE))
           else return_io ()) (\<lambda>_. return_io (Some catalog))))))"

definition read_catalog ::
  "crates \<Rightarrow> local_crypto \<Rightarrow> json_lib \<Rightarrow> 'ticket platform \<Rightarrow> AccountCredentials \<Rightarrow> bool
     \<Rightarrow> ('z session_scheme, Catalog option) io" where
  "read_catalog K L J P account migrate_legacy =
     bind_io (get_io active_store) (read_catalog_with_store K L J P account migrate_legacy)"

definition catalog_load ::
  "crates \<Rightarrow> local_crypto \<Rightarrow> json_lib \<Rightarrow> 'ticket platform \<Rightarrow> AccountCredentials \<Rightarrow> ('z session_scheme, Catalog) io" where
  "catalog_load K L J P account =
     with_locked_existing CATALOG_LOCK (
       bind_io (read_catalog K L J P account True) (\<lambda>r.
         return_io (case r of Some c \<Rightarrow> c | None \<Rightarrow> catalog_empty account)))"

definition has_corrupt_legacy_catalog :: "crates \<Rightarrow> json_lib \<Rightarrow> 'ticket platform \<Rightarrow> ('z session_scheme, bool) io" where
  "has_corrupt_legacy_catalog K J P =
     bind_io (read_secret_optional_bounded CATALOG_FILE MAX_STORED_CATALOG_BYTES) (\<lambda>r. return_io (case r of
       None \<Rightarrow> False
     | Some stored \<Rightarrow> \<not> has_envelope_shape stored \<and> Option.bind (json_from_slice J stored) (catalog_read K P) = None))"

section \<open>Saving a refresh\<close>

text \<open>The loop over the refreshed records; \<open>moved\<close> says that another refresh completed in between.\<close>

fun reconcile_records ::
  "bool \<Rightarrow> (bytes \<times> CatalogRecord) list \<Rightarrow> CatalogRecord list \<Rightarrow> CatalogRecord list \<times> (bytes \<times> CatalogRecord) list" where
  "reconcile_records moved current [] = ([], current)"
| "reconcile_records moved current (candidate # rs) =
     (if moved \<and> map_of current (ct_record_id candidate) = None then reconcile_records moved current rs
      else
        let selected = (case map_of current (ct_record_id candidate) of
              Some c \<Rightarrow> if ct_service_revision c > ct_service_revision candidate then c else candidate
            | None \<Rightarrow> candidate);
            (selection, remaining) = reconcile_records moved (btree_remove (ct_record_id candidate) current) rs
        in (selected # selection, remaining))"

definition by_record_id :: "CatalogRecord list \<Rightarrow> (bytes \<times> CatalogRecord) list" where
  "by_record_id rs = btree_collect (map (\<lambda>r. (ct_record_id r, r)) rs)"

definition reconcile :: "AccountCredentials \<Rightarrow> (bytes \<times> nat) set \<Rightarrow> Catalog \<Rightarrow> Catalog \<Rightarrow> failure + Catalog" where
  "reconcile account baseline current refreshed =
     (let (selection, remaining) = reconcile_records (cat_generation current \<noteq> cat_generation refreshed)
            (by_record_id (cat_records current)) (cat_records refreshed);
          kept = filter (\<lambda>r. (ct_record_id r, ct_service_revision r) \<notin> baseline) (map snd remaining)
      in bind_result (ensure (cat_generation current + 1 \<le> U64_MAX) GenerationExhausted) (\<lambda>_.
        Inr ((catalog_empty account)\<lparr>cat_generation := cat_generation current + 1,
          cat_records := sort_key ct_record_id (selection @ kept)\<rparr>)))"

definition save_refresh ::
  "crates \<Rightarrow> local_crypto \<Rightarrow> json_lib \<Rightarrow> 'ticket platform \<Rightarrow> AccountCredentials \<Rightarrow> (bytes \<times> nat) set \<Rightarrow> Catalog
     \<Rightarrow> ('z session_scheme, unit) io" where
  "save_refresh K L J P account baseline refreshed =
     bind_io (of_result (catalog_validate P refreshed account)) (\<lambda>_.
     with_exclusive_lock CATALOG_LOCK (
       bind_io (try_io (read_catalog K L J P account False)) (\<lambda>r.
       bind_io (case r of
           Inr current \<Rightarrow> return_io (current, current \<noteq> None)
         | Inl e \<Rightarrow> bind_io (has_corrupt_legacy_catalog K J P) (\<lambda>corrupt.
             if corrupt then return_io (None, True) else fail_io e)) (\<lambda>found.
       let current = (case fst found of Some c \<Rightarrow> c | None \<Rightarrow> catalog_empty account) in
       bind_io (of_result (reconcile account baseline current refreshed)) (\<lambda>reconciled.
       bind_io (of_result (catalog_validate P reconciled account)) (\<lambda>_.
         write_catalog K L J reconciled (snd found)))))))"

section \<open>Finding machines\<close>

definition selects :: "endpoint_ids \<Rightarrow> bytes \<Rightarrow> datetime \<Rightarrow> CatalogRecord \<Rightarrow> bool" where
  "selects I target t r \<longleftrightarrow> \<not> is_expired_at r t \<and> (case id_from_str I target of
     Some identity \<Rightarrow> ct_endpoint_identity r = identity
   | None \<Rightarrow> ct_host_label r = target)"

definition host ::
  "crates \<Rightarrow> local_crypto \<Rightarrow> json_lib \<Rightarrow> 'ticket platform \<Rightarrow> endpoint_ids \<Rightarrow> AccountCredentials \<Rightarrow> bytes \<Rightarrow> datetime
     \<Rightarrow> ('z session_scheme, HostConnection) io" where
  "host K L J P I account target t =
     bind_io (catalog_load K L J P account) (\<lambda>catalog.
     case filter (selects I target t) (cat_records catalog) of
       [] \<Rightarrow> fail_io HostNotFound
     | [r] \<Rightarrow> return_io (ssh_attachment r)
     | _ \<Rightarrow> fail_io HostAmbiguous)"

text \<open>The filter closure may act and carries what it captures.\<close>

fun listed_hosts ::
  "endpoint_ids \<Rightarrow> datetime \<Rightarrow> (CatalogRecord \<Rightarrow> 'f \<Rightarrow> ('s, bool \<times> 'f) io) \<Rightarrow> 'f \<Rightarrow> CatalogRecord list
     \<Rightarrow> ('s, SyncedHost list \<times> 'f) io" where
  "listed_hosts I t suppress f [] = return_io ([], f)"
| "listed_hosts I t suppress f (r # rs) =
     (if \<not> (ct_ssh_enabled r \<and> nanos_of t < nanos_of (ct_expires_at r)) then listed_hosts I t suppress f rs
      else bind_io (suppress r f) (\<lambda>(hidden, f1).
        if hidden then listed_hosts I t suppress f1 rs
        else bind_io (of_result (ok_or (id_to_string I (ct_endpoint_identity r)) HostPanic)) (\<lambda>target.
          bind_io (listed_hosts I t suppress f1 rs) (\<lambda>(hosts, f2).
            return_io (\<lparr>sh_target = target, sh_host = ct_host_label r, sh_attached_version = ct_attached_version r,
              sh_published_at = ct_published_at r\<rparr> # hosts, f2)))))"

definition hosts_with_filter ::
  "crates \<Rightarrow> local_crypto \<Rightarrow> json_lib \<Rightarrow> 'ticket platform \<Rightarrow> endpoint_ids \<Rightarrow> AccountCredentials \<Rightarrow> datetime
     \<Rightarrow> (CatalogRecord \<Rightarrow> 'f \<Rightarrow> ('z session_scheme, bool \<times> 'f) io) \<Rightarrow> 'f \<Rightarrow> ('z session_scheme, SyncedHost list \<times> 'f) io" where
  "hosts_with_filter K L J P I account t suppress f =
     bind_io (catalog_load K L J P account) (\<lambda>catalog.
     bind_io (listed_hosts I t suppress f (cat_records catalog)) (\<lambda>(hosts, f1).
       return_io (sort_key (\<lambda>h. (sh_host h, sh_target h)) hosts, f1)))"

definition all_ssh_hosts ::
  "crates \<Rightarrow> local_crypto \<Rightarrow> json_lib \<Rightarrow> 'ticket platform \<Rightarrow> endpoint_ids \<Rightarrow> AccountCredentials \<Rightarrow> datetime
     \<Rightarrow> ('z session_scheme, SyncedHost list) io" where
  "all_ssh_hosts K L J P I account t =
     bind_io (hosts_with_filter K L J P I account t (\<lambda>_ f. return_io (False, f)) ()) (\<lambda>(hosts, _). return_io hosts)"

definition in_registry :: "(registry, 'a) io \<Rightarrow> ('z machine_scheme, 'a) io" where
  "in_registry m s = (case m (endpoints s) of (r, g) \<Rightarrow> (r, s\<lparr>endpoints := g\<rparr>))"

definition hosts_excluding_local_endpoints ::
  "crates \<Rightarrow> local_crypto \<Rightarrow> json_lib \<Rightarrow> 'ticket platform \<Rightarrow> endpoint_ids \<Rightarrow> AccountCredentials \<Rightarrow> datetime \<Rightarrow> bytes
     \<Rightarrow> ('z machine_scheme, HostListing) io" where
  "hosts_excluding_local_endpoints K L J P I account t registry_dir =
     bind_io (hosts_with_filter K L J P I account t (\<lambda>r unavailable.
         bind_io (try_io (in_registry (is_active registry_dir (ct_endpoint_identity r)))) (\<lambda>a. case a of
           Inr active \<Rightarrow> return_io (active, unavailable)
         | Inl _ \<Rightarrow> return_io (False, True))) False) (\<lambda>(hosts, unavailable).
       return_io \<lparr>hl_hosts = hosts, hl_registry_unavailable = unavailable\<rparr>)"

section \<open>What reconciliation computes\<close>

definition record_at :: "CatalogRecord list \<Rightarrow> bytes \<rightharpoonup> CatalogRecord" where
  "record_at rs = map_of (map (\<lambda>r. (ct_record_id r, r)) rs)"

text \<open>The reference: per record identifier, from the refreshed and the current record.\<close>

definition merged ::
  "bool \<Rightarrow> (bytes \<times> nat) set \<Rightarrow> CatalogRecord option \<Rightarrow> CatalogRecord option \<Rightarrow> CatalogRecord option" where
  "merged moved baseline current candidate = (case (candidate, current) of
     (None, None) \<Rightarrow> None
   | (None, Some k) \<Rightarrow> if (ct_record_id k, ct_service_revision k) \<in> baseline then None else Some k
   | (Some c, None) \<Rightarrow> if moved then None else Some c
   | (Some c, Some k) \<Rightarrow> Some (if ct_service_revision k > ct_service_revision c then k else c))"

lemma record_at_iff:
  "distinct (map ct_record_id rs) \<Longrightarrow> record_at rs rid = Some r \<longleftrightarrow> r \<in> set rs \<and> ct_record_id r = rid"
  by (auto simp: record_at_def comp_def)

lemma record_at_None: "record_at rs rid = None \<longleftrightarrow> rid \<notin> ct_record_id ` set rs"
  by (simp add: record_at_def map_of_eq_None_iff image_image)

lemma record_at_id: "record_at rs rid = Some r \<Longrightarrow> ct_record_id r = rid"
  by (auto simp: record_at_def dest: map_of_SomeD)

lemma by_record_id_map: "distinct (map ct_record_id rs) \<Longrightarrow> map_of (by_record_id rs) = record_at rs"
  by (simp add: by_record_id_def record_at_def map_of_btree_collect comp_def)

lemma by_record_id_ok [simp]: "btree_ok (by_record_id rs)"
  by (simp add: by_record_id_def)

definition selected :: "(bytes \<rightharpoonup> CatalogRecord) \<Rightarrow> CatalogRecord \<Rightarrow> CatalogRecord" where
  "selected current candidate = (case current (ct_record_id candidate) of
     Some c \<Rightarrow> if ct_service_revision c > ct_service_revision candidate then c else candidate
   | None \<Rightarrow> candidate)"

lemma reconcile_records_spec:
  assumes "distinct (map ct_record_id rs)" and "btree_ok current"
  shows "btree_ok (snd (reconcile_records moved current rs))
    \<and> map_of (snd (reconcile_records moved current rs)) = (map_of current) |` (- ct_record_id ` set rs)
    \<and> fst (reconcile_records moved current rs) = map (selected (map_of current))
        (filter (\<lambda>c. \<not> (moved \<and> map_of current (ct_record_id c) = None)) rs)"
  using assms
proof (induction moved current rs rule: reconcile_records.induct)
  case (2 moved current c rs)
  let ?cur = "btree_remove (ct_record_id c) current"
  have ids: "ct_record_id x \<noteq> ct_record_id c" if "x \<in> set rs" for x using "2.prems"(1) that by (auto simp: image_iff)
  have sel: "map (selected ((map_of current)(ct_record_id c := None)))
      (filter (\<lambda>x. \<not> (moved \<and> ((map_of current)(ct_record_id c := None)) (ct_record_id x) = None)) rs)
    = map (selected (map_of current)) (filter (\<lambda>x. \<not> (moved \<and> map_of current (ct_record_id x) = None)) rs)"
    using ids by (intro map_cong filter_cong) (auto simp: selected_def)
  show ?case
  proof (cases "moved \<and> map_of current (ct_record_id c) = None")
    case True
    then show ?thesis using 2 by (auto simp: restrict_map_def fun_eq_iff)
  next
    case False
    then have IH: "btree_ok (snd (reconcile_records moved ?cur rs))"
      "map_of (snd (reconcile_records moved ?cur rs)) = map_of ?cur |` (- ct_record_id ` set rs)"
      "fst (reconcile_records moved ?cur rs) = map (selected (map_of ?cur))
        (filter (\<lambda>x. \<not> (moved \<and> map_of ?cur (ct_record_id x) = None)) rs)"
      using "2.IH"(2) [OF False refl] "2.prems" btree_remove_ok by auto
    show ?thesis
      using False IH sel
      by (auto simp: Let_def split_beta map_of_btree_remove restrict_map_def fun_eq_iff selected_def)
  qed
qed (simp add: restrict_map_def)

lemma validate_records_iff:
  "validate_records P seen rs = Inr () \<longleftrightarrow> distinct (map ct_record_id rs)
     \<and> set seen \<inter> ct_record_id ` set rs = {} \<and> (\<forall>r\<in>set rs. validate_record P r = Inr ())"
  by (induction P seen rs rule: validate_records.induct) (auto simp: bind_result_eq_Inr)

lemma catalog_validate_iff:
  "catalog_validate P c account = Inr () \<longleftrightarrow> cat_account_id c = ac_account_id account
     \<and> cat_service_origin c = ac_service_origin account \<and> length (cat_records c) \<le> MAX_LIVE_RECORDS
     \<and> distinct (map ct_record_id (cat_records c)) \<and> (\<forall>r\<in>set (cat_records c). validate_record P r = Inr ())"
  by (auto simp: catalog_validate_def validate_records_iff)

lemma selected_id: "(\<And>k r. current k = Some r \<Longrightarrow> ct_record_id r = k) \<Longrightarrow> ct_record_id (selected current c) = ct_record_id c"
  by (auto simp: selected_def split: option.splits)

lemma reconcile_Inr:
  assumes "distinct (map ct_record_id (cat_records current))" and "distinct (map ct_record_id (cat_records refreshed))"
    and "reconcile account baseline current refreshed = Inr c"
  obtains moved selection kept where "moved \<longleftrightarrow> cat_generation current \<noteq> cat_generation refreshed"
    and "c = (catalog_empty account)\<lparr>cat_generation := cat_generation current + 1,
      cat_records := sort_key ct_record_id (selection @ kept)\<rparr>"
    and "selection = map (selected (record_at (cat_records current)))
      (filter (\<lambda>c. \<not> (moved \<and> record_at (cat_records current) (ct_record_id c) = None)) (cat_records refreshed))"
    and "\<And>r. r \<in> set kept \<longleftrightarrow> record_at (cat_records current) (ct_record_id r) = Some r
      \<and> ct_record_id r \<notin> ct_record_id ` set (cat_records refreshed) \<and> (ct_record_id r, ct_service_revision r) \<notin> baseline"
    and "distinct (map ct_record_id kept)"
proof -
  let ?cur = "record_at (cat_records current)" and ?moved = "cat_generation current \<noteq> cat_generation refreshed"
  obtain selection remaining where run:
    "reconcile_records ?moved (by_record_id (cat_records current)) (cat_records refreshed) = (selection, remaining)"
    by (cases "reconcile_records ?moved (by_record_id (cat_records current)) (cat_records refreshed)")
  let ?kept = "filter (\<lambda>r. (ct_record_id r, ct_service_revision r) \<notin> baseline) (map snd remaining)"
  have spec: "btree_ok remaining" "map_of remaining = ?cur |` (- ct_record_id ` set (cat_records refreshed))"
    "selection = map (selected ?cur) (filter (\<lambda>c. \<not> (?moved \<and> ?cur (ct_record_id c) = None)) (cat_records refreshed))"
    using reconcile_records_spec [OF assms(2) by_record_id_ok, of ?moved "cat_records current"]
    by (simp_all only: by_record_id_map [OF assms(1)] run fst_conv snd_conv)
  have entries: "(k, r) \<in> set remaining \<longleftrightarrow> ?cur k = Some r \<and> k \<notin> ct_record_id ` set (cat_records refreshed)" for k r
    unfolding btree_entries [OF spec(1)] spec(2) by (auto simp: restrict_map_def)
  have keys: "k = ct_record_id r" if "(k, r) \<in> set remaining" for k r
    using that by (auto simp: entries dest: record_at_id)
  have entry: "r \<in> set (map snd remaining) \<longleftrightarrow> ?cur (ct_record_id r) = Some r
      \<and> ct_record_id r \<notin> ct_record_id ` set (cat_records refreshed)" for r
  proof -
    have "r \<in> set (map snd remaining) \<longleftrightarrow> (\<exists>k. (k, r) \<in> set remaining)" by force
    also have "\<dots> \<longleftrightarrow> (ct_record_id r, r) \<in> set remaining" using keys by blast
    finally show ?thesis unfolding entries .
  qed
  have "map ct_record_id (map snd remaining) = map fst remaining" using keys by auto
  then have "distinct (map ct_record_id (map snd remaining))" using btree_distinct [OF spec(1)] by argo
  then have "distinct (map ct_record_id ?kept)" by (rule distinct_map_filter)
  moreover have "c = (catalog_empty account)\<lparr>cat_generation := cat_generation current + 1,
      cat_records := sort_key ct_record_id (selection @ ?kept)\<rparr>"
    using assms(3) by (auto simp: reconcile_def Let_def run)
  ultimately show thesis using that [OF refl _ spec(3), of ?kept] entry by simp
qed

lemma record_at_set:
  assumes "set xs = set ys" and "distinct (map ct_record_id xs)" and "distinct (map ct_record_id ys)"
  shows "record_at xs = record_at ys"
proof
  fix rid show "record_at xs rid = record_at ys rid"
    using record_at_iff [OF assms(2), of rid] record_at_iff [OF assms(3), of rid] assms(1)
    by (cases "record_at ys rid"; cases "record_at xs rid") (auto, metis option.distinct(1))
qed

lemma record_at_append: "record_at (xs @ ys) rid = (case record_at xs rid of Some r \<Rightarrow> Some r | None \<Rightarrow> record_at ys rid)"
  by (auto simp: record_at_def map_add_def split: option.splits)

lemma record_at_selection:
  assumes ids: "\<And>k r. current k = Some r \<Longrightarrow> ct_record_id r = k" and "distinct (map ct_record_id rs)"
  shows "record_at (map (selected current) (filter (\<lambda>c. \<not> (moved \<and> current (ct_record_id c) = None)) rs)) rid
    = (case record_at rs rid of None \<Rightarrow> None | Some c \<Rightarrow> merged moved baseline (current rid) (Some c))"
  using assms(2)
proof (induction rs)
  case (Cons c rs)
  have i: "ct_record_id (selected current c) = ct_record_id c" by (rule selected_id [OF ids])
  have r: "record_at (x # xs) rid = (if ct_record_id x = rid then Some x else record_at xs rid)" for x xs
    by (simp add: record_at_def)
  have "record_at rs rid = None" if "ct_record_id c = rid" using Cons.prems that by (auto simp: record_at_None)
  then show ?case
    using Cons i by (auto simp: r merged_def selected_def split: option.splits)
qed (simp add: record_at_def)

lemma distinct_selection:
  assumes "\<And>k r. current k = Some r \<Longrightarrow> ct_record_id r = k" and "distinct (map ct_record_id rs)"
  shows "distinct (map ct_record_id (map (selected current) (filter f rs)))"
proof -
  have "map ct_record_id (map (selected current) (filter f rs)) = map ct_record_id (filter f rs)"
    using selected_id [OF assms(1)] by simp
  then show ?thesis using distinct_map_filter [OF assms(2), of f] by argo
qed

lemma record_at_kept:
  assumes kept: "\<And>r. r \<in> set kept \<longleftrightarrow> record_at (cat_records current) (ct_record_id r) = Some r
      \<and> ct_record_id r \<notin> ct_record_id ` set (cat_records refreshed) \<and> (ct_record_id r, ct_service_revision r) \<notin> baseline"
    and dk: "distinct (map ct_record_id kept)"
  shows "record_at kept rid = (case record_at (cat_records refreshed) rid of
      None \<Rightarrow> merged moved baseline (record_at (cat_records current) rid) None | Some _ \<Rightarrow> None)"
proof (cases "record_at (cat_records refreshed) rid")
  case None
  then have out: "rid \<notin> ct_record_id ` set (cat_records refreshed)" using record_at_None by blast
  have k: "r \<in> set kept \<and> ct_record_id r = rid \<longleftrightarrow>
      record_at (cat_records current) rid = Some r \<and> (ct_record_id r, ct_service_revision r) \<notin> baseline" for r
    using kept [of r] out record_at_id [of "cat_records current" rid r] by blast
  have "record_at kept rid = Some r \<longleftrightarrow> merged moved baseline (record_at (cat_records current) rid) None = Some r" for r
    unfolding record_at_iff [OF dk] k by (cases "record_at (cat_records current) rid") (auto simp: merged_def)
  then show ?thesis using None by (metis not_None_eq option.case(1))
next
  case (Some x)
  then have "rid \<in> ct_record_id ` set (cat_records refreshed)" using record_at_None by (metis option.distinct(1))
  then have "rid \<notin> ct_record_id ` set kept" using kept by blast
  then have "record_at kept rid = None" using record_at_None by blast
  then show ?thesis using Some by simp
qed

lemma reconcile_spec:
  assumes cur: "distinct (map ct_record_id (cat_records current))" and new: "distinct (map ct_record_id (cat_records refreshed))"
    and c: "reconcile account baseline current refreshed = Inr c"
  shows "distinct (map ct_record_id (cat_records c))" and "sorted (map ct_record_id (cat_records c))"
    and "record_at (cat_records c) rid = merged (cat_generation current \<noteq> cat_generation refreshed) baseline
      (record_at (cat_records current) rid) (record_at (cat_records refreshed) rid)"
    and "cat_generation c = cat_generation current + 1" and "cat_generation c \<le> U64_MAX"
    and "cat_account_id c = ac_account_id account" and "cat_service_origin c = ac_service_origin account"
proof -
  obtain moved selection kept where m: "moved \<longleftrightarrow> cat_generation current \<noteq> cat_generation refreshed"
    and c': "c = (catalog_empty account)\<lparr>cat_generation := cat_generation current + 1,
      cat_records := sort_key ct_record_id (selection @ kept)\<rparr>"
    and sel: "selection = map (selected (record_at (cat_records current)))
      (filter (\<lambda>c. \<not> (moved \<and> record_at (cat_records current) (ct_record_id c) = None)) (cat_records refreshed))"
    and kept: "\<And>r. r \<in> set kept \<longleftrightarrow> record_at (cat_records current) (ct_record_id r) = Some r
      \<and> ct_record_id r \<notin> ct_record_id ` set (cat_records refreshed) \<and> (ct_record_id r, ct_service_revision r) \<notin> baseline"
    and dk: "distinct (map ct_record_id kept)"
    by (rule reconcile_Inr [OF cur new c], rule that) assumption+
  note ids = record_at_id [of "cat_records current"]
  have ds: "distinct (map ct_record_id selection)" unfolding sel by (rule distinct_selection [OF ids new])
  have "ct_record_id ` set selection \<subseteq> ct_record_id ` set (cat_records refreshed)"
    using selected_id [OF ids] by (auto simp: sel)
  moreover have "ct_record_id ` set kept \<inter> ct_record_id ` set (cat_records refreshed) = {}" using kept by blast
  ultimately have d: "distinct (map ct_record_id (selection @ kept))" using ds dk by (simp add: disjoint_iff subset_iff) blast
  show dc: "distinct (map ct_record_id (cat_records c))"
    using d [unfolded distinct_map] by (simp add: c' distinct_map)
  show "sorted (map ct_record_id (cat_records c))" by (simp add: c')
  have "record_at (cat_records c) = record_at (selection @ kept)"
    by (rule record_at_set [OF _ dc d]) (simp add: c')
  then show "record_at (cat_records c) rid = merged (cat_generation current \<noteq> cat_generation refreshed) baseline
      (record_at (cat_records current) rid) (record_at (cat_records refreshed) rid)"
    using record_at_selection [OF ids new, where moved = moved and rid = rid and baseline = baseline]
      record_at_kept [OF kept dk, of rid moved]
    by (auto simp: record_at_append sel m [symmetric] merged_def split: option.splits)
qed (use c in \<open>auto simp: reconcile_def Let_def catalog_empty_def split_beta\<close>)

section \<open>The stored form reads back\<close>

lemma map_of_zip_names: "distinct ks \<Longrightarrow> length vs = length ks \<Longrightarrow> map (map_of (zip ks vs)) ks = map Some vs"
  by (intro nth_equalityI) (simp_all add: map_of_zip_nth)

lemma defaulted_struct_zip:
  assumes "distinct ks" and "length vs = length ks"
  shows "defaulted_struct ks ds (JObject (zip ks vs)) = Some (map Some vs)"
proof -
  have "map_of (zip ks vs) k \<noteq> None" if "k \<in> set ks" for k
    using that assms map_of_zip_is_None [of ks vs k] by auto
  then show ?thesis
    using assms map_of_zip_names [OF assms] by (auto simp: defaulted_struct_def list_all_iff dest: set_zip_leftD)
qed

lemma array_roundtrip: "array_read (length ws) (array_json ws) = Some (ws :: 'a::len word list)"
proof -
  have "unat w \<le> 2 ^ LENGTH('a) - 1" for w :: "'a word"
    using unsigned_less [of w, where 'a = nat] by linarith
  then show ?thesis by (simp add: array_read_def array_json_def json_uint_def list_all_iff map_idI)
qed

definition typed_time :: "'ticket platform \<Rightarrow> datetime \<Rightarrow> bool" where
  "typed_time P t \<longleftrightarrow> secs t \<le> int I64_MAX \<and> representable P (secs t)"

definition typed_record :: "'ticket platform \<Rightarrow> CatalogRecord \<Rightarrow> bool" where
  "typed_record P r \<longleftrightarrow> length (ct_record_id r) = 16 \<and> ct_service_revision r \<le> U64_MAX
     \<and> length (ct_endpoint_identity r) = 32 \<and> length (ct_attach_capability r) = 32 \<and> length (ct_attached_version r) = 3
     \<and> typed_time P (ct_expires_at r) \<and> (\<forall>t. ct_published_at r = Some t \<longrightarrow> typed_time P t)"

lemma timestamp_roundtrip:
  "typed_time P t \<Longrightarrow> 0 \<le> secs t \<Longrightarrow> nanos t = 0 \<Longrightarrow> timestamp_read P (timestamp_json t) = Some t"
  by (simp add: timestamp_read_def timestamp_json_def typed_time_def nat_le_iff)

lemma optional_timestamp_roundtrip:
  assumes "typed_time P t" and "0 \<le> secs t" and "nanos t = 0"
  shows "optional_timestamp_read P (Some (timestamp_json t)) = Some (Some t)"
proof -
  have "timestamp_json t \<noteq> JNull" by (simp add: timestamp_json_def)
  then show ?thesis using timestamp_roundtrip [OF assms] by (cases "timestamp_json t") (simp_all add: optional_timestamp_read_def)
qed

lemma record_fields_ok: "distinct record_fields" "length record_fields = 10"
  by (simp_all add: record_fields_def byte_simps)

lemma catalog_fields_ok: "distinct catalog_fields" "length catalog_fields = 4"
  by (simp_all add: catalog_fields_def byte_simps)

lemma catalog_record_roundtrip:
  assumes K: "base64_engine (engine K)" and r: "typed_record P r" "validate_record P r = Inr ()"
  shows "catalog_record_read K P (catalog_record_json K r) = Some r"
proof -
  have times: "timestamp_read P (timestamp_json (ct_expires_at r)) = Some (ct_expires_at r)"
    "optional_timestamp_read P (Some (case ct_published_at r of None \<Rightarrow> JNull | Some t \<Rightarrow> timestamp_json t)) = Some (ct_published_at r)"
    using r by (auto simp: typed_record_def validate_record_def optional_timestamp_roundtrip timestamp_roundtrip
        split: option.splits) (simp add: optional_timestamp_read_def)
  have arrays: "array_read 32 (array_json (ct_endpoint_identity r)) = Some (ct_endpoint_identity r)"
    "array_read 32 (array_json (ct_attach_capability r)) = Some (ct_attach_capability r)"
    "array_read 3 (array_json (ct_attached_version r)) = Some (ct_attached_version r)"
    using r(1) array_roundtrip by (metis typed_record_def)+
  have "parse_record_id (engine K) (record_id_text (engine K) (ct_record_id r)) = Inr (ct_record_id r)"
    using base64_engine.parse_record_id_iff [OF K] r(1) by (simp add: typed_record_def)
  then show ?thesis
    unfolding catalog_record_read_def catalog_record_json_def
    by (subst defaulted_struct_zip) (use r(1) times arrays in \<open>simp_all add: record_fields_ok json_str_def json_uint_def
        json_string_owned_def json_bool_def result_ok_def typed_record_def\<close>)
qed

lemma read_all_map: "(\<And>x. x \<in> set xs \<Longrightarrow> rd (f x) = Some x) \<Longrightarrow> read_all rd (map f xs) = Some xs"
  by (induction xs) auto

definition typed_catalog :: "crates \<Rightarrow> 'ticket platform \<Rightarrow> Catalog \<Rightarrow> bool" where
  "typed_catalog K P c \<longleftrightarrow> length (cat_account_id c) = 16 \<and> is_uuid_v7 (uuids K) (cat_account_id c)
     \<and> cat_generation c \<le> U64_MAX \<and> (\<forall>r\<in>set (cat_records c). typed_record P r)"

lemma catalog_roundtrip:
  assumes K: "account_crates K" and c: "typed_catalog K P c" "catalog_validate P c account = Inr ()"
  shows "catalog_read K P (catalog_json K c) = Some c"
proof -
  have e: "base64_engine (engine K)" "uuid_library (uuids K)" using K by (simp_all add: account_crates_def)
  have "parse_account_id (uuids K) (account_id_text (uuids K) (cat_account_id c)) = Inr (cat_account_id c)"
    using uuid_library.parse_account_id_iff [OF e(2)] c(1) by (auto simp: typed_catalog_def)
  moreover have "read_all (catalog_record_read K P) (map (catalog_record_json K) (cat_records c)) = Some (cat_records c)"
    using c by (intro read_all_map catalog_record_roundtrip [OF e(1)]) (auto simp: typed_catalog_def catalog_validate_iff)
  ultimately show ?thesis
    unfolding catalog_read_def catalog_json_def
    by (subst defaulted_struct_zip) (use c(1) in \<open>simp_all add: catalog_fields_ok json_str_def json_uint_def
        json_string_owned_def result_ok_def typed_catalog_def\<close>)
qed

section \<open>A validated catalog fits its limit\<close>

lemma length_array: "length (json_compact (array_json (ws :: 'a::len word list))) \<le> 2 + length ws * (Suc k + 1)"
  if "2 ^ LENGTH('a) \<le> (10 :: nat) ^ Suc k"
proof -
  have "length (dec_text (unat w)) \<le> Suc k" for w :: "'a word"
    using unsigned_less [of w, where 'a = nat] that by (intro length_dec_text) linarith
  then show ?thesis
    using length_joined [of "map json_compact (map (\<lambda>w. JNumber (unat w)) ws)" "Suc k" 0]
    by (fastforce simp: array_json_def)
qed

lemma length_timestamp: "typed_time P t \<Longrightarrow> 0 \<le> secs t \<Longrightarrow> length (json_compact (timestamp_json t)) \<le> 20"
  using length_dec_text [of "nat (secs t)" 19]
  by (simp add: timestamp_json_def typed_time_def limit_defs nat_less_iff)

lemma record_compact_length:
  assumes K: "base64_engine (engine K)" and r: "typed_record P r" "validate_record P r = Inr ()"
  shows "length (json_compact (catalog_record_json K r)) \<le> 6000"
proof -
  have "length (json_compact (array_json (ct_endpoint_identity r))) \<le> 130"
    "length (json_compact (array_json (ct_attach_capability r))) \<le> 130"
    "length (json_compact (array_json (ct_attached_version r))) \<le> 20"
    using r(1) length_array [of 2 "ct_endpoint_identity r"] length_array [of 2 "ct_attach_capability r"]
      length_array [of 4 "ct_attached_version r"] by (simp_all add: typed_record_def)
  moreover have "length (json_compact (timestamp_json (ct_expires_at r))) \<le> 20"
    "length (json_compact (case ct_published_at r of None \<Rightarrow> JNull | Some t \<Rightarrow> timestamp_json t)) \<le> 20"
    using r length_timestamp [of P] by (auto simp: typed_record_def validate_record_def split: option.splits)
  moreover have "length (dec_text (ct_service_revision r)) \<le> 20"
    using r(1) length_dec_text [of "ct_service_revision r" 19] by (simp add: typed_record_def limit_defs)
  moreover have "length (record_id_text (engine K) (ct_record_id r)) = 22"
    using r(1) by (simp add: record_id_text_def typed_record_def base64_engine.length_encode_16 [OF K])
  moreover have "length (ct_endpoint_ticket r) \<le> 4096" "length (ct_host_label r) \<le> 64"
    using r(2) by (auto simp: validate_record_def limit_defs validate_host_label_def)
  ultimately show ?thesis by (simp add: catalog_record_json_def record_fields_def)
qed

lemma catalog_compact_length:
  assumes K: "account_crates K" and c: "typed_catalog K P c" "catalog_validate P c account = Inr ()"
    and o: "length (cat_service_origin c) \<le> MAX_BUNDLE_BYTES"
  shows "length (json_compact (catalog_json K c)) \<le> MAX_CATALOG_BYTES"
proof -
  have e: "base64_engine (engine K)" "uuid_library (uuids K)" using K by (simp_all add: account_crates_def)
  have rs: "length (cat_records c) \<le> 128" "\<And>r. r \<in> set (cat_records c) \<Longrightarrow> typed_record P r \<and> validate_record P r = Inr ()"
    using c by (auto simp: catalog_validate_iff typed_catalog_def limit_defs)
  have "length (concat (map (\<lambda>(i, s). (if i = 0 then [] else [44]) @ s)
      (List.enumerate 0 (map json_compact (map (catalog_record_json K) (cat_records c)))))) \<le> length (cat_records c) * (6000 + 1)"
    using length_joined [of "map json_compact (map (catalog_record_json K) (cat_records c))" 6000 0]
      record_compact_length [OF e(1)] rs(2) by fastforce
  moreover have "length (account_id_text (uuids K) (cat_account_id c)) = 36"
    using uuid_library.length_hyphenated [OF e(2)] c(1) by (simp add: account_id_text_def typed_catalog_def)
  moreover have "length (dec_text (cat_generation c)) \<le> 20"
    using c(1) length_dec_text [of "cat_generation c" 19] by (simp add: typed_catalog_def limit_defs)
  ultimately show ?thesis using o rs(1) by (simp add: catalog_json_def catalog_fields_def limit_defs)
qed

section \<open>Runs without faults\<close>

lemma catalog_names:
  "validate_name CATALOG_FILE = Inr ()" "validate_name CATALOG_LOCK = Inr ()" "CATALOG_FILE \<noteq> CATALOG_LOCK"
  "KDF_SALT_FILE \<noteq> CATALOG_FILE" "KDF_SALT_FILE \<noteq> CATALOG_LOCK" "ONE_PASSWORD_LOCATOR_FILE \<noteq> CATALOG_FILE"
  "hd CATALOG_FILE \<noteq> 46" "hd CATALOG_LOCK \<noteq> 46" "hd KDF_SALT_FILE \<noteq> 46"
  by (simp_all add: validate_name_def CATALOG_FILE_def CATALOG_LOCK_def KDF_SALT_FILE_def
      ONE_PASSWORD_LOCATOR_FILE_def path_components_def segment_components_def byte_simps)

text \<open>The catalog file holds \<open>c\<close>, sealed under \<open>mk\<close>; \<open>catalog_state\<close> adds that it is a catalog the code writes.\<close>

definition stored_catalog :: "crates \<Rightarrow> local_crypto \<Rightarrow> json_lib \<Rightarrow> bytes \<Rightarrow> Catalog \<Rightarrow> 'z disk_scheme \<Rightarrow> bool" where
  "stored_catalog K L J mk c t \<longleftrightarrow> (\<exists>pt e. encode_catalog K J c = Inr pt \<and> sealed_as L mk SyncCatalog pt e
     \<and> dir t CATALOG_FILE = Some (private_file (euid t) e))"

definition storable :: "crates \<Rightarrow> json_lib \<Rightarrow> 'ticket platform \<Rightarrow> AccountCredentials \<Rightarrow> Catalog \<Rightarrow> bool" where
  "storable K J P account c \<longleftrightarrow> typed_catalog K P c \<and> catalog_validate P c account = Inr ()
     \<and> json_faithful J (catalog_json K c) \<and> length (cat_service_origin c) \<le> MAX_BUNDLE_BYTES"

definition catalog_state ::
  "crates \<Rightarrow> local_crypto \<Rightarrow> json_lib \<Rightarrow> 'ticket platform \<Rightarrow> AccountCredentials \<Rightarrow> bytes \<Rightarrow> Catalog option \<Rightarrow> 'z disk_scheme \<Rightarrow> bool" where
  "catalog_state K L J P account mk found t = (case found of
     None \<Rightarrow> dir t CATALOG_FILE = None
   | Some c \<Rightarrow> stored_catalog K L J mk c t \<and> storable K J P account c)"

definition current_catalog :: "AccountCredentials \<Rightarrow> Catalog option \<Rightarrow> Catalog" where
  "current_catalog account found = (case found of Some c \<Rightarrow> c | None \<Rightarrow> catalog_empty account)"

lemma storable_length:
  "account_crates K \<Longrightarrow> storable K J P account c \<Longrightarrow> length (json_compact (catalog_json K c)) \<le> MAX_CATALOG_BYTES"
  using catalog_compact_length [of K P c account] by (simp add: storable_def)

lemma storable_encode:
  "account_crates K \<Longrightarrow> storable K J P account c \<Longrightarrow> encode_catalog K J c = Inr (json_compact (catalog_json K c))"
  using storable_length [of K J P account c] by (simp add: storable_def json_faithful_def encode_catalog_def)

lemma storable_read:
  "account_crates K \<Longrightarrow> storable K J P account c \<Longrightarrow>
     Option.bind (json_from_slice J (json_compact (catalog_json K c))) (catalog_read K P) = Some c"
  using catalog_roundtrip [of K P c account] by (simp add: storable_def json_faithful_def)

lemma read_catalog_quiet:
  assumes K: "account_crates K" and L: "local_aead L" "length mk = 32" and t: "key_ready mk t"
    and c: "catalog_state K L J P account mk found t"
  shows "read_catalog K L J P account migrate t = (Inr found, t)"
proof (cases found)
  case None
  then show ?thesis
    using c read_quiet(1) [OF key_ready_faults [OF t] catalog_names(1)]
    by (simp add: read_catalog_def read_catalog_with_store_def catalog_state_def bind_io_def get_io_def return_io_def)
next
  case (Some c')
  let ?pt = "json_compact (catalog_json K c')"
  have st: "storable K J P account c'" using c Some by (simp add: catalog_state_def)
  obtain e where e: "sealed_as L mk SyncCatalog ?pt e"
    "dir t CATALOG_FILE = Some (private_file (euid t) e)"
    using c Some storable_encode [OF K st] by (auto simp: catalog_state_def stored_catalog_def)
  have len: "length ?pt \<le> MAX_CATALOG_BYTES" by (rule storable_length [OF K st])
  then have "length e \<le> MAX_STORED_CATALOG_BYTES"
    using sealed_length [OF L e(1)] by (simp add: MAX_STORED_CATALOG_BYTES_def)
  then have r: "read_secret_optional_bounded CATALOG_FILE MAX_STORED_CATALOG_BYTES t = (Inr (Some e), t)"
    using read_quiet(2) [OF key_ready_faults [OF t] catalog_names(1) e(2)] by (simp add: private_file_def acceptable_def)
  have "open_secret L mk SyncCatalog e MAX_CATALOG_BYTES = Inr ?pt"
    using open_secret_iff [OF L, of MAX_CATALOG_BYTES] e(1) len by (simp add: limit_defs)
  then have "with_master_key_store L J (active_store t) False
      (\<lambda>mk. of_result (open_secret L mk SyncCatalog e MAX_CATALOG_BYTES)) t = (Inr ?pt, t)"
    using with_key_quiet(1) [OF t, of "\<lambda>mk. of_result (open_secret L mk SyncCatalog e MAX_CATALOG_BYTES)"]
      key_ready_faults [OF t] by (simp add: of_result_def)
  then show ?thesis
    using r sealed_is_envelope [OF e(1)] storable_read [OF K st] st Some
    by (simp add: read_catalog_def read_catalog_with_store_def bind_io_def get_io_def return_io_def of_result_def
        storable_def)
qed

lemma catalog_state_locked: "catalog_state K L J P account mk found s \<Longrightarrow> catalog_state K L J P account mk found (locked CATALOG_LOCK s)"
  using catalog_names(3) by (auto simp: catalog_state_def stored_catalog_def split: option.splits)

lemma catalog_load_quiet:
  assumes K: "account_crates K" and L: "local_aead L" "length mk = 32" and t: "key_ready mk t" "usable CATALOG_LOCK t"
    and c: "catalog_state K L J P account mk found t"
  shows "catalog_load K L J P account t = (Inr (current_catalog account found), locked CATALOG_LOCK t)"
proof -
  have k: "key_ready mk (locked CATALOG_LOCK t)" using key_ready_locked [OF t(1)] catalog_names(5) by metis
  show ?thesis
    using read_catalog_quiet [OF K L k catalog_state_locked [OF c], of True] key_ready_faults [OF k]
    unfolding catalog_load_def
    by (subst locked_quiet(2) [OF t(2) catalog_names(2)])
      (simp_all add: bind_io_def return_io_def current_catalog_def split: option.split)
qed

definition no_temporaries :: "bytes \<Rightarrow> 'z disk_scheme \<Rightarrow> bool" where
  "no_temporaries n t \<longleftrightarrow> (\<forall>x. temporary_for n x \<longrightarrow> dir t x = None)"

lemma store_quiet:
  assumes q: "os_faults t = []" "16 \<le> length (entropy t)" and free: "no_temporaries CATALOG_FILE t"
    and ok: "\<And>f. dir t CATALOG_FILE = Some f \<Longrightarrow> acceptable (euid t) 0x180 f"
    and r: "replace \<longleftrightarrow> dir t CATALOG_FILE \<noteq> None"
  obtains E where "(if replace then atomic_replace CATALOG_FILE e
      else bind_io (create_noclobber CATALOG_FILE e) (\<lambda>created. if created then return_io () else fail_io CatalogConflict)) t
    = (Inr (), t\<lparr>dir := (dir t)(CATALOG_FILE \<mapsto> private_file (euid t) e), entropy := E\<rparr>)"
proof (cases "dir t CATALOG_FILE")
  case None
  then show thesis
    using create_quiet [OF q(1) catalog_names(1) None, of e] r that [of "entropy t"]
    by (simp add: bind_io_def return_io_def)
next
  case (Some f)
  have "dir t ([46] @ CATALOG_FILE @ ascii ''.tmp.'' @ hex (take 16 (entropy t))) = None"
    using free q(2) unfolding no_temporaries_def temporary_for_def by (metis length_take min.absorb2)
  then show thesis
    using replace_quiet [OF q catalog_names(1) ok, of e] r Some that [of "drop 16 (entropy t)"] by simp
qed

lemma write_catalog_quiet:
  assumes K: "account_crates K" and L: "local_aead L" "length mk = 32" and t: "key_ready mk t" "28 \<le> length (entropy t)"
    and c: "storable K J P account c" and free: "no_temporaries CATALOG_FILE t"
    and ok: "\<And>f. dir t CATALOG_FILE = Some f \<Longrightarrow> acceptable (euid t) 0x180 f"
    and r: "replace \<longleftrightarrow> dir t CATALOG_FILE \<noteq> None"
  obtains e E where "sealed_as L mk SyncCatalog (json_compact (catalog_json K c)) e"
    and "write_catalog K L J c replace t =
      (Inr (), t\<lparr>dir := (dir t)(CATALOG_FILE \<mapsto> private_file (euid t) e), entropy := E\<rparr>)"
proof -
  let ?pt = "json_compact (catalog_json K c)" and ?t = "t\<lparr>entropy := drop 12 (entropy t)\<rparr>"
  have q: "os_faults t = []" using key_ready_faults [OF t(1)] .
  have len: "length ?pt \<le> MAX_CATALOG_BYTES" by (rule storable_length [OF K c])
  obtain e where e: "seal L mk SyncCatalog ?pt MAX_CATALOG_BYTES t = (Inr e, ?t)" "sealed_as L mk SyncCatalog ?pt e"
    by (rule seal_quiet [OF L q _ len, of SyncCatalog]) (use t(2) in \<open>simp_all add: limit_defs\<close>)
  obtain E where E: "(if replace then atomic_replace CATALOG_FILE e
      else bind_io (create_noclobber CATALOG_FILE e) (\<lambda>created. if created then return_io () else fail_io CatalogConflict)) ?t
    = (Inr (), ?t\<lparr>dir := (dir ?t)(CATALOG_FILE \<mapsto> private_file (euid ?t) e), entropy := E\<rparr>)"
    by (rule store_quiet [of ?t replace e]) (use q t(2) free ok r in \<open>auto simp: no_temporaries_def\<close>)
  let ?op = "\<lambda>mk. bind_io (seal L mk SyncCatalog ?pt MAX_CATALOG_BYTES) (\<lambda>encrypted.
      if replace then atomic_replace CATALOG_FILE encrypted
      else bind_io (create_noclobber CATALOG_FILE encrypted) (\<lambda>created. if created then return_io () else fail_io CatalogConflict))"
  let ?u = "t\<lparr>dir := (dir t)(CATALOG_FILE \<mapsto> private_file (euid t) e), entropy := E\<rparr>"
  have "?op mk t = (Inr (), ?u)" using e(1) E by (simp add: bind_io_def [of "seal L mk SyncCatalog ?pt MAX_CATALOG_BYTES"])
  then have "with_master_key L J True ?op t = (Inr (), ?u)"
    using with_key_quiet(2) [OF t(1), of ?op] q by simp
  then have "write_catalog K L J c replace t = (Inr (), ?u)"
    using storable_encode [OF K c] by (simp add: write_catalog_def bind_io_def [of "of_result _"] of_result_def)
  then show thesis using that e(2) by blast
qed

lemma save_refresh_quiet:
  assumes K: "account_crates K" and L: "local_aead L" "length mk = 32"
    and s: "key_ready mk s" "usable CATALOG_LOCK s" "28 \<le> length (entropy s)" "no_temporaries CATALOG_FILE s"
    and cur: "catalog_state K L J P account mk found s" and new: "catalog_validate P refreshed account = Inr ()"
    and c: "reconcile account baseline (current_catalog account found) refreshed = Inr c" and st: "storable K J P account c"
  obtains t where "save_refresh K L J P account baseline refreshed s = (Inr (), t)"
    and "key_ready mk t" and "usable CATALOG_LOCK t" and "catalog_state K L J P account mk (Some c) t"
    and "locked CATALOG_LOCK t = t"
proof -
  let ?s = "locked CATALOG_LOCK s"
  have k: "key_ready mk ?s" using key_ready_locked [OF s(1)] catalog_names(5) by metis
  have cur': "catalog_state K L J P account mk found ?s" using cur by (rule catalog_state_locked)
  have ok: "acceptable (euid ?s) 0x180 f" if "dir ?s CATALOG_FILE = Some f" for f
    using that cur' by (auto simp: catalog_state_def stored_catalog_def private_file_def acceptable_def split: option.splits)
  have ex: "found \<noteq> None \<longleftrightarrow> dir ?s CATALOG_FILE \<noteq> None"
    using cur' by (auto simp: catalog_state_def stored_catalog_def split: option.splits)
  have "\<not> temporary_for CATALOG_FILE CATALOG_LOCK"
    using catalog_names(8) by (metis temporary_for_def append_Cons list.sel(1))
  then have free: "no_temporaries CATALOG_FILE ?s" using s(4) by (auto simp: no_temporaries_def locked_def)
  have ent: "28 \<le> length (entropy ?s)" using s(3) by simp
  obtain e E where e: "sealed_as L mk SyncCatalog (json_compact (catalog_json K c)) e"
    and w: "write_catalog K L J c (found \<noteq> None) ?s =
      (Inr (), ?s\<lparr>dir := (dir ?s)(CATALOG_FILE \<mapsto> private_file (euid ?s) e), entropy := E\<rparr>)"
    by (rule write_catalog_quiet [OF K L k ent st free ok ex])
  let ?t = "?s\<lparr>dir := (dir ?s)(CATALOG_FILE \<mapsto> private_file (euid ?s) e), entropy := E\<rparr>"
  have v: "catalog_validate P c account = Inr ()" using st by (simp add: storable_def)
  have q: "os_faults s = []" using key_ready_faults [OF s(1)] .
  have v0: "of_result (catalog_validate P refreshed account) s = (Inr (), s)" using new by (simp add: of_result_def)
  have "save_refresh K L J P account baseline refreshed s = (Inr (), ?t)"
    unfolding save_refresh_def
    by (rule trans [OF run_bind(2) [where s = s and m = "of_result (catalog_validate P refreshed account)", OF v0]], rule trans [OF locked_quiet(1) [OF s(2) catalog_names(2)]])
      (use read_catalog_quiet [OF K L k cur', of False] c v w q in \<open>simp_all add: bind_io_def try_io_def of_result_def
        return_io_def current_catalog_def split: option.split\<close>)
  moreover have "key_ready mk ?t"
    using key_ready_files(1) [OF k, of "(dir ?s)(CATALOG_FILE \<mapsto> private_file (euid ?s) e)"] key_ready_files(2) catalog_names(4)
    by (metis fun_upd_other)
  moreover have "usable CATALOG_LOCK ?t" "locked CATALOG_LOCK ?t = ?t"
    using s(2) catalog_names(3) by (auto simp: usable_def locked_def)
  moreover have "catalog_state K L J P account mk (Some c) ?t"
    using e st storable_encode [OF K st] by (auto simp: catalog_state_def stored_catalog_def)
  ultimately show thesis using that [of ?t] by blast
qed

section \<open>Saving under faults\<close>

interpretation catalog_entry: key_files "entry_is CATALOG_FILE x u" for x u
  by unfold_locales (auto simp: entry_is_def catalog_names intro!: keeps_entry_creating keeps_entry_replacing)

text \<open>The catalog that a file holds, as text of an older version or sealed.\<close>

definition file_holds :: "crates \<Rightarrow> local_crypto \<Rightarrow> json_lib \<Rightarrow> 'ticket platform \<Rightarrow> bytes \<Rightarrow> Catalog \<Rightarrow> bool" where
  "file_holds K L J P b c \<longleftrightarrow> (\<exists>pt. (if is_envelope b then \<exists>mk. open_secret L mk SyncCatalog b MAX_CATALOG_BYTES = Inr pt else pt = b)
     \<and> Option.bind (json_from_slice J pt) (catalog_read K P) = Some c)"

definition found_in ::
  "crates \<Rightarrow> local_crypto \<Rightarrow> json_lib \<Rightarrow> 'ticket platform \<Rightarrow> AccountCredentials \<Rightarrow> state_file option \<Rightarrow> Catalog option \<Rightarrow> bool" where
  "found_in K L J P account x r = (case r of
     None \<Rightarrow> x = None
   | Some c \<Rightarrow> \<exists>f. x = Some f \<and> file_holds K L J P (f_data f) c \<and> catalog_validate P c account = Inr ())"

lemma stable_entry [simp]: "stable (entry_is k x u)"
  by (simp add: stable_def entry_is_def)

lemma stable_conj: "stable I \<Longrightarrow> stable (\<lambda>t. c \<and> I t)"
  by (simp add: stable_def)

lemma read_entry_wp:
  assumes "entry_is n x u t" and "\<And>r v. entry_is n x u v \<Longrightarrow> r = map_option f_data x \<Longrightarrow> Q r v"
    and "\<And>v. entry_is n x u v \<Longrightarrow> E v"
  shows "wp (read_secret_optional_bounded n limit) Q E t"
  by (rule read_secret_triple [of t "dir t", THEN triple_wp])
    (use assms in \<open>auto simp: at_def entry_is_def split: option.splits\<close>)

text \<open>What the key \<open>mk\<close> reads in the file, and what a run that read it from \<open>t\<close> to \<open>v\<close> knows: any key that agrees with
  the one the session then holds reads the same, and a sealed file was opened with the key that the session holds.\<close>

definition is_sealed :: "state_file option \<Rightarrow> bool" where
  "is_sealed x = (case x of None \<Rightarrow> False | Some f \<Rightarrow> is_envelope (f_data f))"

definition opens_to ::
  "crates \<Rightarrow> local_crypto \<Rightarrow> json_lib \<Rightarrow> 'ticket platform \<Rightarrow> AccountCredentials \<Rightarrow> bytes \<Rightarrow> state_file option \<Rightarrow> Catalog option \<Rightarrow> bool" where
  "opens_to K L J P account mk x r = (case r of
     None \<Rightarrow> x = None
   | Some c \<Rightarrow> \<exists>f pt. x = Some f \<and> (if is_envelope (f_data f) then open_secret L mk SyncCatalog (f_data f) MAX_CATALOG_BYTES = Inr pt
         else pt = f_data f)
       \<and> Option.bind (json_from_slice J pt) (catalog_read K P) = Some c \<and> catalog_validate P c account = Inr ())"

definition read_under ::
  "crates \<Rightarrow> local_crypto \<Rightarrow> json_lib \<Rightarrow> 'ticket platform \<Rightarrow> AccountCredentials \<Rightarrow> state_file option \<Rightarrow> Catalog option
     \<Rightarrow> 'z session_scheme \<Rightarrow> 'z session_scheme \<Rightarrow> bool" where
  "read_under K L J P account x r t v \<longleftrightarrow> (\<forall>mk. (\<forall>k. holds_key k v \<longrightarrow> k = mk) \<longrightarrow> opens_to K L J P account mk x r)
     \<and> (is_sealed x \<longrightarrow> (\<exists>mk. holds_key mk v \<and> (\<forall>k. holds_key k t \<longrightarrow> k = mk)))"

lemma opens_to_found: "opens_to K L J P account mk x r \<Longrightarrow> found_in K L J P account x r"
  by (auto simp: opens_to_def found_in_def file_holds_def split: option.splits if_splits)

lemma opens_to_same: "opens_to K L J P account mk x r \<Longrightarrow> opens_to K L J P account mk x r' \<Longrightarrow> r' = r"
  by (auto simp: opens_to_def split: option.splits if_splits)

lemma read_under_opens:
  assumes "read_under K L J P account x r t v"
  obtains mk where "opens_to K L J P account mk x r" and "is_sealed x \<longrightarrow> holds_key mk v \<and> (\<forall>k. holds_key k t \<longrightarrow> k = mk)"
proof -
  obtain mk where "\<forall>k. holds_key k v \<longrightarrow> k = mk" using holds_key_unique [of _ v] by metis
  then show thesis using assms that [of mk] unfolding read_under_def by blast
qed

lemma read_catalog_wp:
  fixes t :: "'z session_scheme"
  assumes t: "entry_is CATALOG_FILE x u t" and m: "migrate \<Longrightarrow> x = None \<or> is_sealed x"
    and Q: "\<And>r v. entry_is CATALOG_FILE x u v \<Longrightarrow> read_under K L J P account x r t v \<Longrightarrow> Q r v"
    and E: "\<And>v. entry_is CATALOG_FILE x u v \<Longrightarrow> E v"
  shows "wp (read_catalog K L J P account migrate) Q E t"
proof -
  let ?I = "entry_is CATALOG_FILE x u"
  let ?O = "\<lambda>b pt v. if is_envelope b then \<exists>mk. holds_key mk v \<and> (\<forall>k. holds_key k t \<longrightarrow> k = mk)
      \<and> open_secret L mk SyncCatalog b MAX_CATALOG_BYTES = Inr pt else pt = b"
  have opened: "wp (if \<not> \<not> is_envelope b then with_master_key_store L J (active_store t) False
        (\<lambda>mk. of_result (open_secret L mk SyncCatalog b MAX_CATALOG_BYTES)) else return_io b)
      (\<lambda>pt v. ?O b pt v \<and> ?I v) ?I v" if a: "at t (dir t) v" for b v
  proof (cases "is_envelope b")
    case True
    have v: "?I v" and st: "active_store v = active_store t" and hk: "\<And>k. holds_key k t \<Longrightarrow> holds_key k v"
      using a t more_keys [of v t] holds_key_at [OF _ a] by (auto simp: at_def entry_is_def)
    show ?thesis
      using True with_key_holds_wp(1) [OF catalog_entry.key_actions_axioms v,
          where operation = "\<lambda>mk. of_result (open_secret L mk SyncCatalog b MAX_CATALOG_BYTES)"
          and Q = "\<lambda>pt v. ?O b pt v \<and> ?I v" and E = ?I and create = False and L = L and J = J]
      by (fastforce simp: st wp_simps stable_def entry_is_def intro: hk split: sum.split)
  qed (use a t in \<open>auto simp: wp_simps at_def entry_is_def\<close>)
  have "wp (case r of None \<Rightarrow> return_io None
       | Some stored \<Rightarrow> let legacy = \<not> is_envelope stored in
           bind_io (if \<not> legacy then with_master_key_store L J (active_store t) False
               (\<lambda>mk. of_result (open_secret L mk SyncCatalog stored MAX_CATALOG_BYTES)) else return_io stored) (\<lambda>plaintext.
           bind_io (of_result (ok_or (Option.bind (json_from_slice J plaintext) (catalog_read K P)) InvalidCatalog)) (\<lambda>catalog.
           bind_io (of_result (catalog_validate P catalog account)) (\<lambda>_.
           bind_io (if migrate \<and> legacy then with_master_key_store L J (active_store t) True (\<lambda>mk.
               bind_io (seal L mk SyncCatalog plaintext MAX_CATALOG_BYTES) (atomic_replace CATALOG_FILE))
             else return_io ()) (\<lambda>_. return_io (Some catalog)))))) Q E v"
    if a: "at t (dir t) v" and r: "r = map_option f_data x" for r v
  proof (cases r)
    case None
    then show ?thesis using Q [of v None] a t r
      by (simp add: wp_simps read_under_def opens_to_def is_sealed_def at_def entry_is_def)
  next
    case (Some b)
    then obtain f where x: "x = Some f" "b = f_data f" using r by auto
    have nomig: "\<not> (migrate \<and> \<not> is_envelope b)" using m x by (auto simp: is_sealed_def)
    have "wp (return_io (Some c)) Q E w"
      if "?I w" "?O b pt w" "Option.bind (json_from_slice J pt) (catalog_read K P) = Some c"
        "catalog_validate P c account = Inr ()" for pt c w
      unfolding wp_simps by (rule Q [OF that(1)])
        (use that x in \<open>auto simp: read_under_def opens_to_def is_sealed_def split: if_splits\<close>)
    then show ?thesis
      using Some E nomig
      by (simp only: option.case Let_def wp_simps if_False)
        (rule wp_mono [OF opened [OF a]], auto simp: wp_simps split: sum.splits)
  qed
  then have "wp (read_catalog_with_store K L J P account migrate (active_store t)) Q E t"
    unfolding read_catalog_with_store_def wp_simps
    by (intro read_secret_triple [of t "dir t", THEN triple_wp])
      (use t E in \<open>auto simp: at_def entry_is_def split: option.splits\<close>)
  then show ?thesis by (simp add: read_catalog_def wp_simps)
qed

text \<open>The catalog that saving starts from: the one in the file, or an empty one for a file that is absent or
  is unreadable text of an older version. \<open>starts_under\<close> says with which key a sealed file was opened.\<close>

definition starts_from ::
  "crates \<Rightarrow> local_crypto \<Rightarrow> json_lib \<Rightarrow> 'ticket platform \<Rightarrow> AccountCredentials \<Rightarrow> state_file option \<Rightarrow> Catalog \<Rightarrow> bool" where
  "starts_from K L J P account x current \<longleftrightarrow>
     (\<exists>found. found_in K L J P account x found \<and> current = current_catalog account found)
     \<or> (\<exists>f. x = Some f \<and> \<not> has_envelope_shape (f_data f)
          \<and> Option.bind (json_from_slice J (f_data f)) (catalog_read K P) = None \<and> current = catalog_empty account)"

definition starts_under ::
  "crates \<Rightarrow> local_crypto \<Rightarrow> json_lib \<Rightarrow> 'ticket platform \<Rightarrow> AccountCredentials \<Rightarrow> bytes \<Rightarrow> state_file option \<Rightarrow> Catalog \<Rightarrow> bool" where
  "starts_under K L J P account mk x current \<longleftrightarrow>
     (\<exists>found. opens_to K L J P account mk x found \<and> current = current_catalog account found)
     \<or> (\<exists>f. x = Some f \<and> \<not> has_envelope_shape (f_data f)
          \<and> Option.bind (json_from_slice J (f_data f)) (catalog_read K P) = None \<and> current = catalog_empty account)"

lemma starts_under_from: "starts_under K L J P account mk x current \<Longrightarrow> starts_from K L J P account x current"
  unfolding starts_under_def starts_from_def by (blast dest: opens_to_found)

definition saved ::
  "crates \<Rightarrow> local_crypto \<Rightarrow> json_lib \<Rightarrow> 'ticket platform \<Rightarrow> AccountCredentials \<Rightarrow> (bytes \<times> nat) set \<Rightarrow> Catalog
     \<Rightarrow> state_file option \<Rightarrow> nat \<Rightarrow> 'z session_scheme \<Rightarrow> 'z session_scheme \<Rightarrow> bool" where
  "saved K L J P account baseline refreshed x u s t \<longleftrightarrow> (\<exists>current c mk pt e. starts_under K L J P account mk x current
     \<and> (is_sealed x \<longrightarrow> (\<forall>k. holds_key k s \<longrightarrow> k = mk))
     \<and> reconcile account baseline current refreshed = Inr c \<and> catalog_validate P c account = Inr ()
     \<and> encode_catalog K J c = Inr pt \<and> sealed_as L mk SyncCatalog pt e \<and> holds_key mk t
     \<and> dir t CATALOG_FILE = Some (private_file u e))"

definition untouched :: "state_file option \<Rightarrow> 'z disk_scheme \<Rightarrow> bool" where
  "untouched x t \<longleftrightarrow> (x \<noteq> None \<longrightarrow> dir t CATALOG_FILE = x)"

lemma stable_saved [simp]: "stable (saved K L J P account baseline refreshed x u s)" "stable (untouched x)"
  by (simp_all add: stable_def saved_def untouched_def)

lemma write_catalog_wp:
  fixes v :: "'z session_scheme"
  assumes v: "entry_is CATALOG_FILE x u v" and r: "replace \<longleftrightarrow> x \<noteq> None"
    and c: "\<And>mk. (\<forall>k. holds_key k v \<longrightarrow> k = mk) \<Longrightarrow> starts_under K L J P account mk x current \<and> (is_sealed x \<longrightarrow> (\<forall>k. holds_key k s \<longrightarrow> k = mk))"
      "reconcile account baseline current refreshed = Inr c" "catalog_validate P c account = Inr ()"
  shows "wp (write_catalog K L J c replace) (\<lambda>_. saved K L J P account baseline refreshed x u s) (untouched x) v"
proof (cases "encode_catalog K J c")
  case (Inl e)
  then show ?thesis using v by (simp add: write_catalog_def wp_simps entry_is_def untouched_def)
next
  case (Inr pt)
  let ?S = "saved K L J P account baseline refreshed x u s"
  have op: "wp (bind_io (seal L mk SyncCatalog pt MAX_CATALOG_BYTES) (\<lambda>encrypted.
      if replace then atomic_replace CATALOG_FILE encrypted
      else bind_io (create_noclobber CATALOG_FILE encrypted) (\<lambda>created. if created then return_io () else fail_io CatalogConflict)))
      (\<lambda>_. ?S) (untouched x) w"
    if w: "entry_is CATALOG_FILE x u w" and k: "holds_key mk w" "\<And>k. holds_key k v \<Longrightarrow> k = mk" for mk and w :: "'z session_scheme"
    unfolding wp_simps
  proof (rule seal_wp [of w "dir w"])
    fix e and t :: "'z session_scheme" assume t: "at w (dir w) t" and e: "sealed_as L mk SyncCatalog pt e"
    have fin: "?S y" if "at w ((dir w)(CATALOG_FILE \<mapsto> private_file (euid w) e)) y" for y :: "'z session_scheme"
    proof -
      have "holds_key mk y" by (rule holds_key_at [OF k(1) that]) (use catalog_names(4) in simp)
      then show ?thesis using at_dir [OF that] w e c(1) [of mk] c(2,3) Inr k(2) unfolding saved_def entry_is_def by fastforce
    qed
    have "wp (atomic_replace CATALOG_FILE e) (\<lambda>_. ?S) (untouched x) t"
      by (rule atomic_replace_triple [THEN triple_wp, OF t])
        (use w fin in \<open>auto simp: entry_is_def untouched_def dest!: at_dir leftover_kept\<close>)
    moreover have "wp (bind_io (create_noclobber CATALOG_FILE e) (\<lambda>created. if created then return_io () else fail_io CatalogConflict))
        (\<lambda>_. ?S) (untouched x) t" if "x = None"
      unfolding wp_simps
      by (rule create_noclobber_triple [THEN triple_wp, OF t])
        (use w fin that in \<open>auto simp: entry_is_def untouched_def wp_simps\<close>)
    ultimately show "wp (if replace then atomic_replace CATALOG_FILE e
      else bind_io (create_noclobber CATALOG_FILE e) (\<lambda>created. if created then return_io () else fail_io CatalogConflict))
        (\<lambda>_. ?S) (untouched x) t" using r by auto
  qed (use w in \<open>auto simp: entry_is_def at_def untouched_def\<close>)
  show ?thesis
    unfolding write_catalog_def wp_simps Inr sum.case
    by (rule with_key_holds_wp(2) [OF catalog_entry.key_actions_axioms v op]) (simp_all add: untouched_def entry_is_def)
qed

lemma save_refresh_wp:
  fixes s :: "'a session_scheme"
  shows "wp (save_refresh K L J P account baseline refreshed)
     (\<lambda>_. saved K L J P account baseline refreshed (dir s CATALOG_FILE) (euid s) s) (untouched (dir s CATALOG_FILE)) s"
proof (cases "catalog_validate P refreshed account")
  case (Inl e)
  then show ?thesis by (simp add: save_refresh_def wp_simps untouched_def)
next
  case (Inr w)
  let ?x = "dir s CATALOG_FILE" and ?u = "euid s"
  let ?I = "entry_is CATALOG_FILE ?x ?u" and ?S = "saved K L J P account baseline refreshed (dir s CATALOG_FILE) (euid s) s"
  define after where "after = (\<lambda>found. let current = (case fst found of Some c \<Rightarrow> c | None \<Rightarrow> catalog_empty account) in
       bind_io (of_result (reconcile account baseline current refreshed)) (\<lambda>reconciled.
       bind_io (of_result (catalog_validate P reconciled account)) (\<lambda>_. write_catalog K L J reconciled (snd found))) :: ('a session_scheme, unit) io)"
  have E: "untouched ?x t" if "?I t" for t :: "'a session_scheme" using that by (simp add: untouched_def entry_is_def)
  have rest: "wp (after (found, replace)) (\<lambda>_. ?S) (untouched ?x) t"
    if "?I t" "\<And>mk. (\<forall>k. holds_key k t \<longrightarrow> k = mk) \<Longrightarrow> starts_under K L J P account mk ?x (current_catalog account found)
        \<and> (is_sealed ?x \<longrightarrow> (\<forall>k. holds_key k s \<longrightarrow> k = mk))" "replace \<longleftrightarrow> ?x \<noteq> None" for found replace t
    using that(1) E write_catalog_wp [OF that(1,3,2)]
    by (auto simp: after_def wp_simps Let_def current_catalog_def split: sum.split)
  have corrupt: "wp (has_corrupt_legacy_catalog K J P) (\<lambda>corrupt. wp (if corrupt then return_io (None, True) else fail_io e)
      (\<lambda>found. wp (after found) (\<lambda>_. ?S) (untouched ?x)) (untouched ?x)) (untouched ?x) t" if t: "?I t" for e t
    unfolding has_corrupt_legacy_catalog_def wp_simps
  proof (rule read_entry_wp [OF t])
    fix r and v :: "'a session_scheme" assume v: "?I v" and r: "r = map_option f_data ?x"
    let ?corrupt = "case r of None \<Rightarrow> False | Some stored \<Rightarrow>
      \<not> has_envelope_shape stored \<and> Option.bind (json_from_slice J stored) (catalog_read K P) = None"
    have "wp (after (None, True)) (\<lambda>_. ?S) (untouched ?x) v" if ?corrupt
      by (rule rest [OF v])
        (use that r in \<open>auto simp: starts_under_def current_catalog_def is_sealed_def has_envelope_shape_def split: option.splits\<close>)
    then show "wp (if ?corrupt then return_io (None, True) else fail_io e)
        (\<lambda>found. wp (after found) (\<lambda>_. ?S) (untouched ?x)) (untouched ?x) v"
      using E [OF v] by (simp add: wp_simps)
  qed (rule E)
  have read: "wp (after (r, r \<noteq> None)) (\<lambda>_. ?S) (untouched ?x) v"
    if t: "same_but CATALOG_LOCK s t" and v: "?I v" and u: "read_under K L J P account ?x r t v" for r v t
  proof (rule rest [OF v])
    fix mk assume k: "\<forall>k. holds_key k v \<longrightarrow> k = mk"
    have "holds_key k t" if "holds_key k s" for k using holds_key_same_but [OF that t] catalog_names(5) by simp
    then show "starts_under K L J P account mk ?x (current_catalog account r) \<and> (is_sealed ?x \<longrightarrow> (\<forall>k. holds_key k s \<longrightarrow> k = mk))"
      using u k unfolding read_under_def starts_under_def by blast
  next
    show "(r \<noteq> None) = (?x \<noteq> None)" by (rule read_under_opens [OF u]) (auto simp: opens_to_def split: option.splits)
  qed
  have body: "wp (bind_io (try_io (read_catalog K L J P account False)) (\<lambda>r.
       bind_io (case r of Inr current \<Rightarrow> return_io (current, current \<noteq> None)
         | Inl e \<Rightarrow> bind_io (has_corrupt_legacy_catalog K J P) (\<lambda>corrupt.
             if corrupt then return_io (None, True) else fail_io e)) after)) (\<lambda>_. ?S) (untouched ?x) t" if t: "same_but CATALOG_LOCK s t" for t
  proof -
    have "?I t" using t catalog_names(3) by (simp add: same_but_def entry_is_def)
    then show ?thesis
      unfolding wp_simps using read [OF t] corrupt by (intro wp_try read_catalog_wp [of ?x ?u]) (simp_all add: wp_simps)
  qed
  show ?thesis
    unfolding save_refresh_def wp_simps Inr sum.case after_def [symmetric]
    by (rule locked_wp(1)) (use catalog_names(3) in \<open>auto simp: same_but_def untouched_def intro!: body\<close>)
qed

section \<open>Loading a catalog\<close>

text \<open>A load that succeeds on an absent or a sealed file leaves it and returns what the key of the session reads in it.\<close>

lemma catalog_load_reads:
  assumes "catalog_load K L J P account s = (Inr c, t)" and x: "dir s CATALOG_FILE = None \<or> is_sealed (dir s CATALOG_FILE)"
  obtains r mk where "c = current_catalog account r" and "dir t CATALOG_FILE = dir s CATALOG_FILE"
    and "opens_to K L J P account mk (dir s CATALOG_FILE) r"
    and "is_sealed (dir s CATALOG_FILE) \<longrightarrow> holds_key mk t \<and> (\<forall>k. holds_key k s \<longrightarrow> k = mk)"
proof -
  let ?x = "dir s CATALOG_FILE"
  let ?Q = "\<lambda>c v. dir v CATALOG_FILE = ?x \<and> (\<exists>r mk. c = current_catalog account r \<and> opens_to K L J P account mk ?x r
      \<and> (is_sealed ?x \<longrightarrow> holds_key mk v \<and> (\<forall>k. holds_key k s \<longrightarrow> k = mk)))"
  have "wp (read_catalog K L J P account True) (\<lambda>r. ?Q (case r of Some c \<Rightarrow> c | None \<Rightarrow> catalog_empty account)) (\<lambda>_. True) v"
    if v: "same_but CATALOG_LOCK s v" for v
  proof (rule read_catalog_wp [of ?x "euid s"])
    show "entry_is CATALOG_FILE ?x (euid s) v" using v catalog_names(3) by (simp add: same_but_def entry_is_def)
    fix r w assume w: "entry_is CATALOG_FILE ?x (euid s) w" "read_under K L J P account ?x r v w"
    have "holds_key k v" if "holds_key k s" for k using holds_key_same_but [OF that v] catalog_names(5) by simp
    moreover obtain mk where "opens_to K L J P account mk ?x r" "is_sealed ?x \<longrightarrow> holds_key mk w \<and> (\<forall>k. holds_key k v \<longrightarrow> k = mk)"
      using w(2) by (rule read_under_opens)
    ultimately show "?Q (case r of Some c \<Rightarrow> c | None \<Rightarrow> catalog_empty account) w"
      using w(1) by (intro conjI exI [of _ r] exI [of _ mk]) (auto simp: entry_is_def current_catalog_def)
  qed (use x in simp_all)
  then have "wp (catalog_load K L J P account) ?Q (\<lambda>_. True) s"
    unfolding catalog_load_def by (intro locked_wp(2)) (simp_all add: wp_simps stable_def)
  from wp_Inr [OF this assms(1)] that show thesis by blast
qed

lemma catalog_load_inputs: "session_inputs (snd (catalog_load K L J P account s)) = session_inputs s"
proof -
  let ?I = "\<lambda>t. session_inputs t = session_inputs s"
  have replaced: "keeps ?I (atomic_replace CATALOG_FILE b)" for b
    by (rule keeps_by_more, rule triple_conseq [OF atomic_replace_triple]) (auto simp: at_def)
  have "keeps ?I (read_catalog_with_store K L J P account True store)" for store
    unfolding read_catalog_with_store_def Let_def seal_def
    by (intro inputs_kept.key_rules inputs_kept.keeps_with_master_key replaced)
  then have read: "keeps ?I (bind_io (read_catalog K L J P account True) (\<lambda>r. return_io (f r)))" for f
    unfolding read_catalog_def by (intro keeps_rules)
  have "wp (catalog_load K L J P account) (\<lambda>_. ?I) ?I s"
    unfolding catalog_load_def
    by (rule locked_wp(2)) (auto simp: stable_def same_but_def intro!: wp_keeps [OF read] more_inputs)
  then show ?thesis by (auto simp: wp_def split: prod.splits sum.splits)
qed

section \<open>Loaded catalogs are valid\<close>

lemma empty_catalog_valid: "catalog_validate P (catalog_empty account) account = Inr ()"
  by (simp add: catalog_validate_iff catalog_empty_def)

lemma catalog_load_valid:
  assumes "catalog_load K L J P account s = (Inr c, t)"
  shows "catalog_validate P c account = Inr ()"
proof -
  let ?Q = "\<lambda>r _. \<forall>c. r = Some c \<longrightarrow> catalog_validate P c account = Inr ()"
  have last: "wp (of_result (catalog_validate P c account)) (\<lambda>_. wp (m :: ('a session_scheme, unit) io)
      (\<lambda>_. wp (return_io (Some c)) ?Q (\<lambda>_. True)) (\<lambda>_. True)) (\<lambda>_. True) v" for c m v
    by (auto simp: wp_simps split: sum.split intro: wp_any)
  have body: "wp (read_catalog K L J P account True) ?Q (\<lambda>_. True) v" for v :: "'a session_scheme"
    unfolding read_catalog_def read_catalog_with_store_def wp_simps Let_def
  proof (rule wp_any)
    fix r and w :: "'a session_scheme"
    show "wp (case r of None \<Rightarrow> return_io None | Some stored \<Rightarrow>
        bind_io (if \<not> \<not> is_envelope stored then with_master_key_store L J (active_store v) False
            (\<lambda>mk. of_result (open_secret L mk SyncCatalog stored MAX_CATALOG_BYTES)) else return_io stored) (\<lambda>plaintext.
        bind_io (of_result (ok_or (Option.bind (json_from_slice J plaintext) (catalog_read K P)) InvalidCatalog)) (\<lambda>catalog.
        bind_io (of_result (catalog_validate P catalog account)) (\<lambda>_.
        bind_io (if True \<and> \<not> is_envelope stored then with_master_key_store L J (active_store v) True (\<lambda>mk.
            bind_io (seal L mk SyncCatalog plaintext MAX_CATALOG_BYTES) (atomic_replace CATALOG_FILE)) else return_io ())
          (\<lambda>_. return_io (Some catalog)))))) ?Q (\<lambda>_. True) w"
      by (cases r, simp add: wp_simps) (simp only: option.case wp_simps(1), intro wp_any last)
  qed
  have "wp (catalog_load K L J P account) (\<lambda>c _. catalog_validate P c account = Inr ()) (\<lambda>_. True) s"
    unfolding catalog_load_def
    by (rule locked_wp(2), unfold wp_simps, rule wp_mono [OF body])
      (auto simp: stable_def empty_catalog_valid split: option.split)
  then show ?thesis using assms by (rule wp_Inr)
qed

lemma validate_record_ticket:
  "validate_record P r = Inr () \<Longrightarrow> \<exists>k. ticket_from_str P (ct_endpoint_ticket r) = Some k
     \<and> ticket_to_string P k = ct_endpoint_ticket r \<and> ticket_id P k = ct_endpoint_identity r"
  by (auto simp: validate_record_def)

lemma merged_monotone:
  "merged moved baseline (Some k) candidate = Some r \<Longrightarrow> ct_service_revision k \<le> ct_service_revision r"
  by (auto simp: merged_def split: option.splits if_splits)

lemma starts_from_valid: "starts_from K L J P account x current \<Longrightarrow> catalog_validate P current account = Inr ()"
  by (auto simp: starts_from_def found_in_def current_catalog_def empty_catalog_valid split: option.splits)

lemma merged_from: "merged moved baseline current candidate = Some r \<Longrightarrow> current = Some r \<or> candidate = Some r"
  by (auto simp: merged_def split: option.splits if_splits)

lemma reconciled_record:
  assumes "distinct (map ct_record_id (cat_records current))" and "distinct (map ct_record_id (cat_records refreshed))"
    and "reconcile account baseline current refreshed = Inr c"
  shows "x \<in> set (cat_records c) \<Longrightarrow> x \<in> set (cat_records refreshed) \<or> x \<in> set (cat_records current)
      \<and> ((ct_record_id x, ct_service_revision x) \<notin> baseline
        \<or> (\<exists>y \<in> set (cat_records refreshed). ct_record_id y = ct_record_id x \<and> ct_service_revision y < ct_service_revision x))"
    and "y \<in> set (cat_records refreshed) \<Longrightarrow> cat_generation current = cat_generation refreshed
      \<Longrightarrow> \<exists>x \<in> set (cat_records c). ct_record_id x = ct_record_id y"
proof -
  note d = reconcile_spec(1) [OF assms] and m = reconcile_spec(3) [OF assms]
  note at = record_at_iff [OF d] record_at_iff [OF assms(1)] record_at_iff [OF assms(2)]
  show "x \<in> set (cat_records refreshed) \<or> x \<in> set (cat_records current)
      \<and> ((ct_record_id x, ct_service_revision x) \<notin> baseline
        \<or> (\<exists>y \<in> set (cat_records refreshed). ct_record_id y = ct_record_id x \<and> ct_service_revision y < ct_service_revision x))"
    if "x \<in> set (cat_records c)"
  proof -
    have "merged (cat_generation current \<noteq> cat_generation refreshed) baseline (record_at (cat_records current) (ct_record_id x))
        (record_at (cat_records refreshed) (ct_record_id x)) = Some x"
      using m [of "ct_record_id x"] that at(1) by metis
    then show ?thesis using at(2,3) by (auto simp: merged_def split: option.splits if_splits)
  qed
  show "\<exists>x \<in> set (cat_records c). ct_record_id x = ct_record_id y"
    if y: "y \<in> set (cat_records refreshed)" and g: "cat_generation current = cat_generation refreshed"
  proof -
    have "record_at (cat_records refreshed) (ct_record_id y) = Some y" using y at(3) by blast
    then obtain x where "record_at (cat_records c) (ct_record_id y) = Some x"
      using m [of "ct_record_id y"] g by (cases "record_at (cat_records current) (ct_record_id y)") (simp_all add: merged_def)
    then show ?thesis using at(1) by blast
  qed
qed

lemma reconcile_storable:
  assumes cur: "typed_catalog K P current" "catalog_validate P current account = Inr ()"
    and new: "typed_catalog K P refreshed" "catalog_validate P refreshed account = Inr ()"
    and c: "reconcile account baseline current refreshed = Inr c" "length (cat_records c) \<le> MAX_LIVE_RECORDS"
    and J: "json_faithful J (catalog_json K c)" and o: "length (ac_service_origin account) \<le> MAX_BUNDLE_BYTES"
  shows "storable K J P account c"
proof -
  have d: "distinct (map ct_record_id (cat_records current))" "distinct (map ct_record_id (cat_records refreshed))"
    using cur new by (simp_all add: catalog_validate_iff)
  note spec = reconcile_spec [OF d c(1)]
  have either: "r \<in> set (cat_records current) \<or> r \<in> set (cat_records refreshed)" if "r \<in> set (cat_records c)" for r
    using that merged_from spec(3) [of "ct_record_id r"] record_at_iff [OF spec(1), of "ct_record_id r" r]
      record_at_iff [OF d(1), of "ct_record_id r" r] record_at_iff [OF d(2), of "ct_record_id r" r] by metis
  have "typed_catalog K P c"
    using either cur new spec(5,6) by (auto simp: typed_catalog_def catalog_validate_iff)
  moreover have "catalog_validate P c account = Inr ()"
    using either cur(2) new(2) spec(1,6,7) c(2) by (auto simp: catalog_validate_iff)
  ultimately show ?thesis using J o spec(7) by (simp add: storable_def)
qed

lemma empty_catalog_typed:
  "length (ac_account_id account) = 16 \<Longrightarrow> is_uuid_v7 (uuids K) (ac_account_id account) \<Longrightarrow> typed_catalog K P (catalog_empty account)"
  by (simp add: typed_catalog_def catalog_empty_def limit_defs)

section \<open>Properties\<close>

definition sample_reader :: AccountCredentials where
  "sample_reader = from_bundle (scoped sample_crates sample_owner Download)"

definition sample_record :: CatalogRecord where
  "sample_record = the (from_opened sample_platform (replicate 16 2) 1 sample_descriptor)"

definition sample_refreshed :: Catalog where
  "sample_refreshed = (catalog_empty sample_reader)\<lparr>cat_records := [sample_record]\<rparr>"

definition sample_saved :: Catalog where
  "sample_saved = sample_refreshed\<lparr>cat_generation := 1\<rparr>"

lemma sample_record_ok:
  "validate_record sample_platform sample_record = Inr ()" "typed_record sample_platform sample_record"
  "ct_record_id sample_record = replicate 16 2" "ct_host_label sample_record = ascii ''office''"
  "ct_expires_at sample_record = \<lparr>secs = 1700000090, nanos = 0\<rparr>" "ct_endpoint_identity sample_record = replicate 32 97"
  by (simp_all add: sample_record_def from_opened_def endpoint_identity_def validate_record_def typed_record_def
      typed_time_def sample_evals)

lemma sample_reader_ok:
  "length (ac_account_id sample_reader) = 16" "is_uuid_v7 (uuids sample_crates) (ac_account_id sample_reader)"
  "length (ac_service_origin sample_reader) \<le> MAX_BUNDLE_BYTES"
  using sample_owner_ok
  by (simp_all add: sample_reader_def from_bundle_def scoped_def wf_owner_def) (simp add: sample_owner_def limit_defs)

lemma sample_catalogs_ok:
  "catalog_validate sample_platform sample_refreshed sample_reader = Inr ()"
  "typed_catalog sample_crates sample_platform sample_refreshed"
  "reconcile sample_reader {} (current_catalog sample_reader None) sample_refreshed = Inr sample_saved"
  using sample_record_ok sample_reader_ok(1,2)
  by (simp_all add: sample_refreshed_def sample_saved_def catalog_validate_iff catalog_empty_def typed_catalog_def
      reconcile_def current_catalog_def by_record_id_def btree_collect_def btree_remove_def limit_defs)

lemma sample_machine_catalog:
  "usable CATALOG_LOCK sample_machine" "28 \<le> length (entropy sample_machine)" "no_temporaries CATALOG_FILE sample_machine"
  "catalog_state sample_crates sample_local J sample_platform sample_reader mk None sample_machine"
  by (auto simp: sample_machine_def usable_def no_temporaries_def temporary_for_def catalog_state_def sample_session_evals
      CATALOG_LOCK_def CATALOG_FILE_def)

text \<open>C35: saving a refresh is equivalent to the reference merge, record by record. On a healthy machine it
  succeeds and the catalog that is then loaded has, for every record identifier, exactly the merge of
  the stored and the refreshed record: the newer revision wins, a record that a completed refresh
  removed is not resurrected, and one that another process added is kept. The records are strictly
  ordered and the generation advances by one.\<close>

theorem save_refresh_reconciles:
  assumes "account_crates K" and "local_aead L" and "length mk = 32"
    and "key_ready mk s" and "usable CATALOG_LOCK s" and "28 \<le> length (entropy s)" and "no_temporaries CATALOG_FILE s"
    and "catalog_state K L J P account mk found s" and "typed_catalog K P (current_catalog account found)"
    and "typed_catalog K P refreshed" and "catalog_validate P refreshed account = Inr ()"
    and "reconcile account baseline (current_catalog account found) refreshed = Inr c"
    and "length (cat_records c) \<le> MAX_LIVE_RECORDS" and "json_faithful J (catalog_json K c)"
    and "length (ac_service_origin account) \<le> MAX_BUNDLE_BYTES"
  shows "\<exists>t. save_refresh K L J P account baseline refreshed s = (Inr (), t) \<and>
    catalog_load K L J P account t = (Inr c, t) \<and>
    cat_generation c = cat_generation (current_catalog account found) + 1 \<and>
    sorted_wrt (<) (map ct_record_id (cat_records c)) \<and>
    (\<forall>rid. record_at (cat_records c) rid =
       merged (cat_generation (current_catalog account found) \<noteq> cat_generation refreshed) baseline
         (record_at (cat_records (current_catalog account found)) rid) (record_at (cat_records refreshed) rid))"
proof -
  let ?cur = "current_catalog account found"
  have cur: "catalog_validate P ?cur account = Inr ()"
    using assms(8) by (auto simp: catalog_state_def storable_def current_catalog_def empty_catalog_valid split: option.splits)
  have d: "distinct (map ct_record_id (cat_records ?cur))" "distinct (map ct_record_id (cat_records refreshed))"
    using cur assms(11) by (simp_all add: catalog_validate_iff)
  have st: "storable K J P account c"
    by (rule reconcile_storable [OF assms(9) cur assms(10,11,12,13,14,15)])
  obtain t where t: "save_refresh K L J P account baseline refreshed s = (Inr (), t)" "key_ready mk t" "usable CATALOG_LOCK t"
    "catalog_state K L J P account mk (Some c) t" "locked CATALOG_LOCK t = t"
    by (rule save_refresh_quiet [OF assms(1-8,11,12) st])
  have "catalog_load K L J P account t = (Inr c, t)"
    using catalog_load_quiet [OF assms(1-3) t(2,3,4)] t(5) by (simp add: current_catalog_def)
  then show ?thesis
    using t(1) reconcile_spec [OF d assms(12)] by (simp add: strict_sorted_iff)
qed

theorem save_refresh_reconciles_witness:
  "\<exists>t. save_refresh sample_crates sample_local (sample_json (catalog_json sample_crates sample_saved)) sample_platform
      sample_reader {} sample_refreshed sample_machine = (Inr (), t)
    \<and> catalog_load sample_crates sample_local (sample_json (catalog_json sample_crates sample_saved)) sample_platform
      sample_reader t = (Inr sample_saved, t)"
  using save_refresh_reconciles [OF sample_crates_ok sample_local_ok _ sample_machine_ready(2) sample_machine_catalog
      _ sample_catalogs_ok(2,1,3) _ sample_json_faithful sample_reader_ok(3)]
    empty_catalog_typed [OF sample_reader_ok(1,2)]
  by (fastforce simp: current_catalog_def sample_saved_def sample_refreshed_def limit_defs)

text \<open>C36: a saved catalog is never corrupt and never goes back. Whatever system calls fail: an error leaves
  an existing catalog file as it was, and success means that the file holds, sealed under the key of the session and owner-only, a
  catalog that validates, that is the reconciliation of the refresh with the catalog of the file (or with
  an empty one, for an absent file or unreadable text of an older version), and in which no record
  has a lower revision than before.\<close>

theorem catalog_survives_faults:
  "case save_refresh K L J P account baseline refreshed s of
     (Inl _, t) \<Rightarrow> dir s CATALOG_FILE \<noteq> None \<longrightarrow> dir t CATALOG_FILE = dir s CATALOG_FILE
   | (Inr _, t) \<Rightarrow> \<exists>current c mk pt e. starts_from K L J P account (dir s CATALOG_FILE) current
       \<and> reconcile account baseline current refreshed = Inr c \<and> catalog_validate P c account = Inr ()
       \<and> encode_catalog K J c = Inr pt \<and> sealed_as L mk SyncCatalog pt e \<and> holds_key mk t
       \<and> dir t CATALOG_FILE = Some (private_file (euid s) e)
       \<and> (\<forall>rid k r. record_at (cat_records current) rid = Some k \<and> record_at (cat_records c) rid = Some r
            \<longrightarrow> ct_service_revision k \<le> ct_service_revision r)"
proof (cases "save_refresh K L J P account baseline refreshed s")
  case (Pair r t)
  note w = save_refresh_wp [of K L J P account baseline refreshed s, unfolded wp_def Pair prod.case]
  show ?thesis
  proof (cases r)
    case (Inl e)
    then show ?thesis using w Pair by (simp add: untouched_def)
  next
    case (Inr v)
    then have new: "catalog_validate P refreshed account = Inr ()"
      using Pair by (auto simp: save_refresh_def bind_io_Inr)
    obtain current c mk pt e where c: "starts_from K L J P account (dir s CATALOG_FILE) current"
      "reconcile account baseline current refreshed = Inr c" "catalog_validate P c account = Inr ()"
      "encode_catalog K J c = Inr pt" "sealed_as L mk SyncCatalog pt e" "dir t CATALOG_FILE = Some (private_file (euid s) e)" "holds_key mk t"
      using w [unfolded Inr sum.case saved_def] starts_under_from by blast
    have "ct_service_revision k \<le> ct_service_revision x"
      if "record_at (cat_records current) rid = Some k" "record_at (cat_records c) rid = Some x" for rid k x
      using that reconcile_spec(3) [OF _ _ c(2), of rid] starts_from_valid [OF c(1)] new merged_monotone
      by (metis catalog_validate_iff)
    then show ?thesis using c Pair Inr by auto blast
  qed
qed

theorem catalog_survives_faults_witness:
  "dir (snd (save_refresh sample_crates sample_local (sample_json JNull) sample_platform sample_reader {} sample_refreshed
      (sample_machine\<lparr>dir := [CATALOG_FILE \<mapsto> private_file 1000 LOCAL_MAGIC]\<rparr>))) CATALOG_FILE
    = Some (private_file 1000 LOCAL_MAGIC)
   \<or> fst (save_refresh sample_crates sample_local (sample_json JNull) sample_platform sample_reader {} sample_refreshed
      (sample_machine\<lparr>dir := [CATALOG_FILE \<mapsto> private_file 1000 LOCAL_MAGIC]\<rparr>)) = Inr ()"
  using catalog_survives_faults [where K = sample_crates and L = sample_local and J = "sample_json JNull"
      and P = sample_platform and account = sample_reader and baseline = "{}" and refreshed = sample_refreshed
      and s = "sample_machine\<lparr>dir := [CATALOG_FILE \<mapsto> private_file 1000 LOCAL_MAGIC]\<rparr>"]
  by (auto split: prod.splits sum.splits)

text \<open>C37: resolving a machine is unambiguous and identity-safe. The result is the only unexpired record
  that the target selects; a target that is an endpoint identity never falls back to a label, and the
  ticket that is dialled belongs to the selected identity.\<close>

theorem host_resolution:
  assumes "host K L J P I account target now_at s = (Inr h, t)"
  shows "\<exists>c r k. catalog_load K L J P account s = (Inr c, t) \<and> h = ssh_attachment r \<and>
    {x \<in> set (cat_records c). selects I target now_at x} = {r} \<and> nanos_of now_at < nanos_of (hc_expires_at h) \<and>
    (case id_from_str I target of Some identity \<Rightarrow> hc_endpoint_identity h = identity | None \<Rightarrow> ct_host_label r = target) \<and>
    ticket_from_str P (hc_endpoint_ticket h) = Some k \<and> ticket_id P k = hc_endpoint_identity h"
proof -
  obtain c v where l: "catalog_load K L J P account s = (Inr c, v)"
    and run: "(case filter (selects I target now_at) (cat_records c) of
       [] \<Rightarrow> fail_io HostNotFound | [r] \<Rightarrow> return_io (ssh_attachment r) | _ \<Rightarrow> fail_io HostAmbiguous) v = (Inr h, t)"
    using assms by (auto simp: host_def bind_io_Inr)
  obtain r where r: "filter (selects I target now_at) (cat_records c) = [r]" and h: "h = ssh_attachment r" and v: "v = t"
    using run by (cases "filter (selects I target now_at) (cat_records c)";
        cases "tl (filter (selects I target now_at) (cat_records c))") auto
  have c: "catalog_load K L J P account s = (Inr c, t)" using l v by simp
  have only: "{x \<in> set (cat_records c). selects I target now_at x} = {r}" using arg_cong [OF r, of set] by simp
  then have "r \<in> set (cat_records c)" and sel: "selects I target now_at r" by auto
  then obtain k where "ticket_from_str P (ct_endpoint_ticket r) = Some k" "ticket_id P k = ct_endpoint_identity r"
    using catalog_load_valid [OF c] validate_record_ticket [of P r] by (auto simp: catalog_validate_iff)
  moreover have "(case id_from_str I target of Some identity \<Rightarrow> ct_endpoint_identity r = identity | None \<Rightarrow> ct_host_label r = target)"
    using sel by (auto simp: selects_def split: option.splits)
  moreover have "nanos_of now_at < nanos_of (ct_expires_at r)" using sel by (simp add: selects_def is_expired_at_def)
  moreover have "hc_endpoint_identity h = ct_endpoint_identity r" "hc_endpoint_ticket h = ct_endpoint_ticket r"
    "hc_expires_at h = ct_expires_at r" by (simp_all add: h ssh_attachment_def)
  ultimately show ?thesis using c only h by (cases "id_from_str I target") auto
qed

definition sample_ids :: endpoint_ids where
  "sample_ids = \<lparr>id_from_str = (\<lambda>s. if length s = 1 then Some (replicate 32 (hd s)) else None),
     id_to_string = (\<lambda>i. Some (take 1 i))\<rparr>"

abbreviation sample_catalog_lib :: json_lib where
  "sample_catalog_lib \<equiv> sample_json (catalog_json sample_crates sample_saved)"

lemma sample_catalog_loaded:
  "\<exists>t :: session. catalog_load sample_crates sample_local sample_catalog_lib sample_platform sample_reader t = (Inr sample_saved, t)"
proof -
  have l: "length (replicate 32 1 :: bytes) = 32" by simp
  have "storable sample_crates sample_catalog_lib sample_platform sample_reader sample_saved"
    by (rule reconcile_storable [OF empty_catalog_typed [OF sample_reader_ok(1,2)] empty_catalog_valid sample_catalogs_ok(2,1)])
      (use sample_catalogs_ok(3) sample_json_faithful sample_reader_ok(3) in
        \<open>simp_all add: current_catalog_def sample_saved_def sample_refreshed_def limit_defs\<close>)
  then obtain t :: session where t: "key_ready (replicate 32 1) t" "usable CATALOG_LOCK t" "locked CATALOG_LOCK t = t"
    "catalog_state sample_crates sample_local sample_catalog_lib sample_platform sample_reader (replicate 32 1) (Some sample_saved) t"
    using save_refresh_quiet [OF sample_crates_ok sample_local_ok l sample_machine_ready(2) sample_machine_catalog
        sample_catalogs_ok(1,3), where J = sample_catalog_lib] by blast
  show ?thesis
    using catalog_load_quiet [OF sample_crates_ok sample_local_ok l t(1,2,4)] t(3) by (auto simp: current_catalog_def)
qed

theorem host_resolution_witness:
  "\<exists>t :: session. host sample_crates sample_local sample_catalog_lib sample_platform sample_ids sample_reader (ascii ''office'')
      \<lparr>secs = 1700000030, nanos = 0\<rparr> t = (Inr (ssh_attachment sample_record), t)
    \<and> ct_host_label sample_record = ascii ''office''"
proof -
  obtain t :: session where t: "catalog_load sample_crates sample_local sample_catalog_lib sample_platform sample_reader t = (Inr sample_saved, t)"
    using sample_catalog_loaded by blast
  have sel: "selects sample_ids (ascii ''office'') \<lparr>secs = 1700000030, nanos = 0\<rparr> sample_record"
    using sample_record_ok(4,5) by (simp add: selects_def is_expired_at_def sample_ids_def nanos_of_def)
  then have h: "host sample_crates sample_local sample_catalog_lib sample_platform sample_ids sample_reader (ascii ''office'')
      \<lparr>secs = 1700000030, nanos = 0\<rparr> t = (Inr (ssh_attachment sample_record), t)"
    using t by (simp add: host_def bind_io_def return_io_def sample_saved_def sample_refreshed_def)
  from host_resolution [OF h] have "ct_host_label sample_record = ascii ''office''"
    using sel sample_record_ok(4) by (auto simp: sample_ids_def)
  then show ?thesis using h by blast
qed

end
