(* ===== verification/Sync_Http.thy ===== *)
theory Sync_Http
  imports Account_State Worker_Public
begin

text \<open>
  \<open>cli/src/sync/http.rs\<close>: the client of the synchronisation service. The HTTP library is the parameter
  \<open>T\<close>, which answers a request with a response whose body arrives in chunks, or fails, and carries the
  state of whatever is behind it. Responses are checked for status, content type, size and canonical
  entity tags before they are used.
\<close>

datatype verb = GetVerb | PutVerb | PostVerb

record client_request =
  cq_verb :: verb
  cq_url :: bytes
  cq_headers :: "bytes \<rightharpoonup> bytes"
  cq_body :: bytes

record client_response =
  cr_status :: nat
  cr_headers :: "bytes \<rightharpoonup> bytes"
  cr_content_length :: "nat option"
  cr_chunks :: "(unit + bytes) list"

type_synonym 'n transport = "client_request \<Rightarrow> 'n \<Rightarrow> (unit + client_response) \<times> 'n"

definition MAX_ERROR_BODY_BYTES :: nat where [limit_defs]: "MAX_ERROR_BODY_BYTES = 4096"

record FetchedRecord =
  fr_envelope :: ApiEnvelope
  fr_revision :: nat

section \<open>Headers and bodies\<close>

text \<open>\<open>HeaderValue::to_str\<close>: visible ASCII and tabs.\<close>

definition header_to_str :: "bytes \<Rightarrow> bytes option" where
  "header_to_str v = (if list_all (\<lambda>b. 32 \<le> b \<and> b < 127 \<or> b = 9) v then Some v else None)"

definition strip_quotes :: "bytes \<Rightarrow> bytes option" where
  "strip_quotes v = (case v of
     [] \<Rightarrow> None
   | q # r \<Rightarrow> if q = 34 \<and> r \<noteq> [] \<and> last r = 34 then Some (butlast r) else None)"

definition etag_revision :: "bytes \<Rightarrow> failure + nat" where
  "etag_revision raw =
     bind_result (ok_or (header_to_str raw) HttpResponse) (\<lambda>value.
     bind_result (ok_or (strip_quotes value) HttpResponse) (\<lambda>digits.
     bind_result (ensure (digits \<noteq> [] \<and> digits \<noteq> ascii ''0''
         \<and> \<not> (length digits > 1 \<and> hd digits = 48) \<and> list_all is_ascii_digit digits) HttpResponse) (\<lambda>_.
     bind_result (ok_or (parse_uint U64_MAX digits) HttpResponse) (\<lambda>revision.
     bind_result (ensure (revision \<le> I64_MAX) HttpResponse) (\<lambda>_. Inr revision)))))"

definition response_revision :: "client_response \<Rightarrow> failure + nat" where
  "response_revision response =
     bind_result (ok_or (cr_headers response (ascii ''etag'')) HttpResponse) etag_revision"

definition is_ascii_whitespace :: "u8 \<Rightarrow> bool" where
  "is_ascii_whitespace b \<longleftrightarrow> 9 \<le> b \<and> b \<le> 13 \<or> b = 32"

definition trim :: "bytes \<Rightarrow> bytes" where
  "trim s = rev (dropWhile is_ascii_whitespace (rev (dropWhile is_ascii_whitespace s)))"

definition to_ascii_lowercase :: "u8 \<Rightarrow> u8" where
  "to_ascii_lowercase b = (if is_ascii_uppercase b then b + 32 else b)"

definition is_json_content_type :: "bytes \<Rightarrow> bool" where
  "is_json_content_type v = (case header_to_str v of
     None \<Rightarrow> False
   | Some value \<Rightarrow> map to_ascii_lowercase (trim (takeWhile (\<lambda>b. b \<noteq> 59) value)) = ascii ''application/json'')"

definition has_json :: "client_response \<Rightarrow> bool" where
  "has_json response = (case cr_headers response (ascii ''content-type'') of
     None \<Rightarrow> False | Some v \<Rightarrow> is_json_content_type v)"

definition ensure_json :: "client_response \<Rightarrow> failure + unit" where
  "ensure_json response = ensure (has_json response) HttpResponse"

fun bounded_chunks :: "nat \<Rightarrow> bytes \<Rightarrow> (unit + bytes) list \<Rightarrow> failure + bytes" where
  "bounded_chunks limit out [] = Inr out"
| "bounded_chunks limit out (Inl _ # r) = Inl HttpResponse"
| "bounded_chunks limit out (Inr chunk # r) =
     (if length out + length chunk > U64_MAX then Inl HttpResponse
      else if length out + length chunk \<le> limit then bounded_chunks limit (out @ chunk) r
      else Inl HttpResponse)"

definition bounded_response :: "client_response \<Rightarrow> nat \<Rightarrow> failure + bytes" where
  "bounded_response response limit =
     (if (case cr_content_length response of None \<Rightarrow> False | Some n \<Rightarrow> n > limit) then Inl HttpResponse
      else bounded_chunks limit [] (cr_chunks response))"

definition error_code_read :: "json \<Rightarrow> bytes option" where
  "error_code_read j = (case derived_struct [ascii ''code''] j of
     Some [c] \<Rightarrow> (case json_string_owned c of
       Some t \<Rightarrow> if t \<in> set (map error_code_text [CodeInvalidRequest, CodeUnauthorized, CodeTooLarge,
         CodeQuotaExceeded, CodeRateLimited, CodeUnavailable]) then Some t else None
     | None \<Rightarrow> None)
   | _ \<Rightarrow> None)"

definition service_error :: "json_lib \<Rightarrow> client_response \<Rightarrow> failure" where
  "service_error J response = HttpStatus (cr_status response)
     (if has_json response
      then Option.bind (result_ok (bounded_response response MAX_ERROR_BODY_BYTES))
        (\<lambda>body. Option.bind (json_from_slice J body) error_code_read)
      else None)"

section \<open>Requests\<close>

definition authorization :: "crates \<Rightarrow> AccountCredentials \<Rightarrow> failure + bytes" where
  "authorization K account =
     (let value = bearer_value K account in
      if list_all (\<lambda>b. 32 \<le> b \<and> b \<noteq> 127 \<or> b = 9) value then Inr value else Inl InvalidAccount)"

definition send :: "'n transport \<Rightarrow> client_request \<Rightarrow> ('n, client_response) io" where
  "send T rq n = (case T rq n of (r, n') \<Rightarrow> (map_err (\<lambda>_. Io) r, n'))"

definition index_url :: "crates \<Rightarrow> AccountCredentials \<Rightarrow> bytes" where
  "index_url K account = ac_service_origin account @ ascii ''/v1/accounts/''
     @ account_id_text (uuids K) (ac_account_id account) @ ascii ''/records''"

definition record_url :: "crates \<Rightarrow> AccountCredentials \<Rightarrow> bytes \<Rightarrow> bytes" where
  "record_url K account rid = index_url K account @ ascii ''/'' @ record_id_text (engine K) rid"

definition http_create_account ::
  "crates \<Rightarrow> json_lib \<Rightarrow> 'n transport \<Rightarrow> bytes \<Rightarrow> ('n, CreateAccountResponse) io" where
  "http_create_account K J T service_origin =
     bind_io (send T \<lparr>cq_verb = PostVerb, cq_url = service_origin @ ascii ''/v1/accounts'', cq_headers = Map.empty,
       cq_body = []\<rparr>) (\<lambda>response.
     if cr_status response \<noteq> 201 then fail_io (service_error J response)
     else
       bind_io (of_result (ensure_json response)) (\<lambda>_.
       bind_io (ensure_io (cr_headers response (ascii ''cache-control'') = Some (ascii ''no-store'')) HttpResponse) (\<lambda>_.
       bind_io (of_result (bounded_response response MAX_API_BODY_BYTES)) (\<lambda>body.
         of_result (map_err (\<lambda>_. HttpResponse) (create_account_response_parse K J body))))))"

definition http_list_records ::
  "crates \<Rightarrow> json_lib \<Rightarrow> 'n transport \<Rightarrow> AccountCredentials \<Rightarrow> ('n, LiveRecordIndex) io" where
  "http_list_records K J T account =
     bind_io (ensure_io (ac_api_key_scope account = Download) WrongScope) (\<lambda>_.
     bind_io (of_result (authorization K account)) (\<lambda>auth.
     bind_io (send T \<lparr>cq_verb = GetVerb, cq_url = index_url K account,
       cq_headers = [ascii ''authorization'' \<mapsto> auth], cq_body = []\<rparr>) (\<lambda>response.
     if cr_status response \<noteq> 200 then fail_io (service_error J response)
     else
       bind_io (of_result (ensure_json response)) (\<lambda>_.
       bind_io (of_result (bounded_response response MAX_API_BODY_BYTES)) (\<lambda>body.
         of_result (map_err (\<lambda>_. HttpResponse) (parse_live_record_index (engine K) J body)))))))"

definition http_get_record ::
  "crates \<Rightarrow> json_lib \<Rightarrow> 'n transport \<Rightarrow> AccountCredentials \<Rightarrow> bytes \<Rightarrow> ('n, FetchedRecord option) io" where
  "http_get_record K J T account rid =
     bind_io (ensure_io (ac_api_key_scope account = Download) WrongScope) (\<lambda>_.
     bind_io (of_result (authorization K account)) (\<lambda>auth.
     bind_io (send T \<lparr>cq_verb = GetVerb, cq_url = record_url K account rid,
       cq_headers = [ascii ''authorization'' \<mapsto> auth], cq_body = []\<rparr>) (\<lambda>response.
     if cr_status response = 404 then return_io None
     else if cr_status response \<noteq> 200 then fail_io (service_error J response)
     else
       bind_io (of_result (ensure_json response)) (\<lambda>_.
       bind_io (of_result (response_revision response)) (\<lambda>revision.
       bind_io (of_result (bounded_response response MAX_API_BODY_BYTES)) (\<lambda>body.
       bind_io (of_result (map_err (\<lambda>_. HttpResponse) (envelope_parse_json (engine K) J body))) (\<lambda>envelope.
         return_io (Some \<lparr>fr_envelope = envelope, fr_revision = revision\<rparr>))))))))"

definition http_put_record ::
  "crates \<Rightarrow> json_lib \<Rightarrow> 'n transport \<Rightarrow> AccountCredentials \<Rightarrow> bytes \<Rightarrow> ApiEnvelope \<Rightarrow> ('n, nat) io" where
  "http_put_record K J T account rid envelope =
     bind_io (ensure_io (ac_api_key_scope account = Publish) WrongScope) (\<lambda>_.
     let body = json_to_vec J (envelope_json (engine K) envelope) in
     bind_io (of_result (authorization K account)) (\<lambda>auth.
     bind_io (send T \<lparr>cq_verb = PutVerb, cq_url = record_url K account rid,
       cq_headers = [ascii ''authorization'' \<mapsto> auth, ascii ''content-type'' \<mapsto> ascii ''application/json''],
       cq_body = body\<rparr>) (\<lambda>response.
     if cr_status response \<noteq> 201 \<and> cr_status response \<noteq> 204 then fail_io (HttpStatus (cr_status response) None)
     else of_result (response_revision response))))"

section \<open>Entity tags and bodies\<close>

lemma strip_quotes_Some: "strip_quotes v = Some d \<longleftrightarrow> v = [34] @ d @ [34]"
proof -
  have "r \<noteq> [] \<and> last r = 34 \<and> butlast r = d \<longleftrightarrow> r = d @ [34]" for r :: bytes
    by (cases r rule: rev_cases) auto
  then show ?thesis by (cases v) (auto simp: strip_quotes_def)
qed

lemma dec_text_header: "header_to_str ([34] @ dec_text n @ [34]) = Some ([34] @ dec_text n @ [34])"
proof -
  have "32 \<le> b \<and> b < 127" if "b \<in> set (dec_text n)" for b
    using dec_text_digits [OF that] by (simp add: is_ascii_digit_def word_le_nat_alt word_less_nat_alt)
  then show ?thesis by (auto simp: header_to_str_def list_all_iff)
qed

lemma dec_text_zero: "dec_text 0 = ascii ''0''"
  by (simp add: dec_text.simps [of 0] byte_simps)

lemma dec_text_leading: "length (dec_text n) > 1 \<Longrightarrow> hd (dec_text n) \<noteq> 48"
proof (induction n rule: dec_text.induct)
  case (1 n)
  then have n: "\<not> n < 10" by (auto simp: dec_text.simps [of n] split: if_splits)
  then have h: "hd (dec_text n) = hd (dec_text (n div 10))" by (simp add: dec_text.simps [of n])
  show ?case
  proof (cases "length (dec_text (n div 10)) > 1")
    case True
    then show ?thesis using 1 n h by simp
  next
    case False
    then have s: "n div 10 < 10"
      using dec_text_nonempty [of "n div 10 div 10"] by (cases "n div 10 < 10") (simp_all add: dec_text.simps [of "n div 10"])
    have "unat (48 + word_of_nat (n div 10) :: u8) = 48 + n div 10" using s by (rule digit_word)
    then have "48 + word_of_nat (n div 10) \<noteq> (48 :: u8)" using n by (auto dest: arg_cong [of _ _ unat])
    then show ?thesis using h s by (simp add: dec_text.simps [of "n div 10"])
  qed
qed

interpretation revision_tag: canonical_codec
  "\<lambda>n. Inr ([34] @ dec_text n @ [34]) :: unit + bytes" etag_revision "\<lambda>n. 0 < n \<and> n \<le> I64_MAX"
proof unfold_locales
  fix b n
  show "etag_revision b = Inr n \<longleftrightarrow> (0 < n \<and> n \<le> I64_MAX) \<and> (Inr ([34] @ dec_text n @ [34]) :: unit + bytes) = Inr b"
  proof
    assume "etag_revision b = Inr n"
    then obtain ds where b: "b = [34] @ ds @ [34]" and ds: "ds \<noteq> []" "ds \<noteq> ascii ''0''" "list_all is_ascii_digit ds"
        "\<not> (length ds > 1 \<and> hd ds = 48)" and n: "parse_uint U64_MAX ds = Some n" "n \<le> I64_MAX"
      by (auto simp: etag_revision_def strip_quotes_Some header_to_str_def split: if_splits)
    have "hd ds \<noteq> 43" using ds(1,3) by (cases ds) (auto simp: is_ascii_digit_def)
    then have "parse_digits U64_MAX 0 ds = Some n" using n(1) ds(1) by (cases ds) (auto simp: parse_uint_def simp del: parse_digits.simps)
    then have "dec_text n = ds" using ds(1,4) by (rule dec_text_of_digits)
    then show "(0 < n \<and> n \<le> I64_MAX) \<and> (Inr ([34] @ dec_text n @ [34]) :: unit + bytes) = Inr b"
      using b n(2) ds(2) dec_text_zero by (cases n) auto
  next
    assume a: "(0 < n \<and> n \<le> I64_MAX) \<and> (Inr ([34] @ dec_text n @ [34]) :: unit + bytes) = Inr b"
    have z: "dec_text n \<noteq> ascii ''0''" using a dec_text_inject [of n 0] by (simp add: dec_text_zero)
    have "parse_uint U64_MAX (dec_text n) = Some n"
      using a by (intro parse_uint_dec_text) (simp add: limit_defs)
    moreover have "list_all is_ascii_digit (dec_text n)" using dec_text_digits by (auto simp: list_all_iff)
    moreover have "\<not> (Suc 0 < length (dec_text n) \<and> hd (dec_text n) = 48)" using dec_text_leading [of n] by simp
    ultimately show "etag_revision b = Inr n"
      using a z dec_text_header [of n] strip_quotes_Some [of "34 # dec_text n @ [34]" "dec_text n"]
      by (auto simp: etag_revision_def)
  qed
qed

lemma response_revision_iff:
  "response_revision response = Inr n \<longleftrightarrow>
     0 < n \<and> n \<le> I64_MAX \<and> cr_headers response (ascii ''etag'') = Some ([34] @ dec_text n @ [34])"
  by (auto simp: response_revision_def revision_tag.decode_iff)

lemma bounded_chunks_Inr:
  "length out \<le> limit \<Longrightarrow> limit \<le> U64_MAX \<Longrightarrow> bounded_chunks limit out cs = Inr b \<longleftrightarrow>
     list_all is_ok cs \<and> b = out @ chunk_bytes cs \<and> length b \<le> limit"
proof (induction limit out cs rule: bounded_chunks.induct)
  case (3 limit out chunk r)
  then show ?case by (auto simp: is_ok_def)
qed (auto simp: chunk_bytes_def is_ok_def)

lemma bounded_response_Inr:
  assumes "limit \<le> U64_MAX"
  shows "bounded_response response limit = Inr b \<longleftrightarrow>
    (\<forall>n. cr_content_length response = Some n \<longrightarrow> n \<le> limit) \<and> list_all is_ok (cr_chunks response)
    \<and> b = chunk_bytes (cr_chunks response) \<and> length b \<le> limit"
  using bounded_chunks_Inr [of "[]" limit "cr_chunks response" b] assms
  by (auto simp: bounded_response_def split: option.splits)

section \<open>Requests that are delivered\<close>

text \<open>The client's view of a service response that arrives unchanged.\<close>

definition delivered :: "response \<Rightarrow> client_response" where
  "delivered r = \<lparr>cr_status = rs_status r, cr_headers = rs_headers r,
     cr_content_length = Some (length (rs_body r)), cr_chunks = [Inr (rs_body r)]\<rparr>"

definition list_request :: "crates \<Rightarrow> AccountCredentials \<Rightarrow> client_request" where
  "list_request K account = \<lparr>cq_verb = GetVerb, cq_url = index_url K account,
     cq_headers = [ascii ''authorization'' \<mapsto> bearer_value K account], cq_body = []\<rparr>"

definition get_request :: "crates \<Rightarrow> AccountCredentials \<Rightarrow> bytes \<Rightarrow> client_request" where
  "get_request K account rid = \<lparr>cq_verb = GetVerb, cq_url = record_url K account rid,
     cq_headers = [ascii ''authorization'' \<mapsto> bearer_value K account], cq_body = []\<rparr>"

definition put_request :: "crates \<Rightarrow> json_lib \<Rightarrow> AccountCredentials \<Rightarrow> bytes \<Rightarrow> ApiEnvelope \<Rightarrow> client_request" where
  "put_request K J account rid v = \<lparr>cq_verb = PutVerb, cq_url = record_url K account rid,
     cq_headers = [ascii ''authorization'' \<mapsto> bearer_value K account, ascii ''content-type'' \<mapsto> ascii ''application/json''],
     cq_body = json_to_vec J (envelope_json (engine K) v)\<rparr>"

lemma json_delivered:
  assumes "length (json_to_vec J j) \<le> MAX_API_BODY_BYTES"
  shows "bounded_response (delivered (etag_response (json_response J st j) n)) MAX_API_BODY_BYTES = Inr (json_to_vec J j)"
    and "bounded_response (delivered (json_response J st j)) MAX_API_BODY_BYTES = Inr (json_to_vec J j)"
    and "has_json (delivered (etag_response (json_response J st j) n))" and "has_json (delivered (json_response J st j))"
proof -
  have ct: "is_json_content_type (ascii ''application/json'')"
    by (simp add: is_json_content_type_def header_to_str_def trim_def is_ascii_whitespace_def to_ascii_lowercase_def
        is_ascii_uppercase_def byte_simps)
  have l: "MAX_API_BODY_BYTES \<le> U64_MAX" by (simp add: limit_defs)
  show "has_json (delivered (etag_response (json_response J st j) n))" "has_json (delivered (json_response J st j))"
    using ct by (simp_all add: has_json_def delivered_def etag_response_def json_response_def no_store_def set_header_def byte_simps)
  show "bounded_response (delivered (etag_response (json_response J st j) n)) MAX_API_BODY_BYTES = Inr (json_to_vec J j)"
    "bounded_response (delivered (json_response J st j)) MAX_API_BODY_BYTES = Inr (json_to_vec J j)"
    using assms by (simp_all add: bounded_response_Inr [OF l] delivered_def etag_response_def json_response_def
        no_store_def set_header_def is_ok_def)
qed

lemma revision_delivered:
  "0 < n \<Longrightarrow> n \<le> I64_MAX \<Longrightarrow> response_revision (delivered (etag_response r n)) = Inr n"
  by (simp add: response_revision_iff delivered_def etag_response_def set_header_def)

lemma list_delivered:
  assumes "ac_api_key_scope account = Download" and "authorization K account = Inr (bearer_value K account)"
    and "T (list_request K account) n = (Inr (delivered (json_response J STATUS_OK (index_json (engine K) ix))), n')"
    and "base64_engine (engine K)" and "index_validate ix = Inr ()" and "\<forall>r \<in> set ix. wf_entry r"
    and "json_faithful J (index_json (engine K) ix)"
  shows "http_list_records K J T account n = (Inr ix, n')"
proof -
  have "length (json_to_vec J (index_json (engine K) ix)) \<le> MAX_API_BODY_BYTES"
    using index_compact_length [OF assms(4,6)] assms(5,7) by (simp add: index_validate_Inr json_faithful_def)
  then show ?thesis
    using assms json_delivered [of J "index_json (engine K) ix"] index_json_roundtrip [OF assms(4,6,5,7)]
    by (simp add: http_list_records_def list_request_def bind_io_def ensure_io_def of_result_def send_def ensure_json_def
        ensure_def) (simp add: delivered_def limit_defs)
qed

lemma get_delivered:
  assumes "ac_api_key_scope account = Download" and "authorization K account = Inr (bearer_value K account)"
    and "T (get_request K account rid) n =
      (Inr (delivered (etag_response (json_response J STATUS_OK (envelope_json (engine K) v)) k)), n')"
    and "base64_engine (engine K)" and "wf_envelope v" and "json_faithful J (envelope_json (engine K) v)"
    and "0 < k" and "k \<le> I64_MAX"
  shows "http_get_record K J T account rid n = (Inr (Some \<lparr>fr_envelope = v, fr_revision = k\<rparr>), n')"
proof -
  have "length (json_to_vec J (envelope_json (engine K) v)) \<le> MAX_API_BODY_BYTES"
    using envelope_compact_length [OF assms(4,5)] assms(6) by (simp add: json_faithful_def)
  then show ?thesis
    using assms json_delivered [of J "envelope_json (engine K) v"] envelope_json_roundtrip [OF assms(4-6)]
      revision_delivered [OF assms(7,8)]
    by (simp add: http_get_record_def get_request_def bind_io_def ensure_io_def of_result_def return_io_def send_def
        ensure_json_def ensure_def) (simp add: delivered_def limit_defs)
qed

lemma put_delivered:
  assumes "ac_api_key_scope account = Publish" and "authorization K account = Inr (bearer_value K account)"
    and "T (put_request K J account rid v) n = (Inr (delivered (mutation_success_response outcome)), n')"
    and "0 < outcome_revision outcome" and "outcome_revision outcome \<le> I64_MAX"
  shows "http_put_record K J T account rid v n = (Inr (outcome_revision outcome), n')"
proof -
  have r: "response_revision (delivered (mutation_success_response outcome)) = Inr (outcome_revision outcome)"
    using assms(4,5) by (simp add: response_revision_iff delivered_def etag_value)
  have "rs_status (mutation_success_response outcome) = 201 \<or> rs_status (mutation_success_response outcome) = 204"
    by (cases outcome) (simp_all add: mutation_success_response_def limit_defs)
  then show ?thesis
    using assms(1-3) r
    by (auto simp: http_put_record_def put_request_def bind_io_def ensure_io_def of_result_def send_def Let_def
        delivered_def)
qed

lemma authorization_ok:
  assumes "base64_engine (engine K)"
  shows "authorization K account = Inr (bearer_value K account)"
proof -
  have "32 \<le> b \<and> b \<noteq> 127" if "b \<in> set (token_text (engine K) x)" for b x
  proof -
    have "b64_alphabet b" using that base64_engine.encode_alphabet [OF assms] by (simp add: token_text_def encode_base64_def)
    then show ?thesis
      by (auto simp: b64_alphabet_def is_ascii_alphanumeric_def is_ascii_digit_def is_ascii_lowercase_def
          is_ascii_uppercase_def word_le_nat_alt)
  qed
  then show ?thesis by (auto simp: authorization_def bearer_value_def list_all_iff byte_simps)
qed

end
