(* ===== verification/Refresh.thy ===== *)
theory Refresh
  imports Catalog Sync_Http
begin

text \<open>
  \<open>cli/src/sync/refresh.rs\<close>: discovering the machines of an account. A refresh lists the service's records,
  keeps the unchanged ones, fetches and opens the changed ones and saves the reconciled catalog;
  an SSH broker refreshes its one machine without the catalog. The network is the transport \<open>T\<close> with
  its state; readings of the clock are a list of the \<open>world\<close>. The code may have up to eight fetches in
  progress; here they run one after the other, which a transport that answers arbitrarily covers.
  A client that cannot be built is a transport that fails.
\<close>

record 'n world = machine +
  network :: 'n
  clock :: "datetime list"

definition in_network :: "('n, 'a) io \<Rightarrow> (('n, 'z) world_scheme, 'a) io" where
  "in_network m s = (case m (network s) of (r, n) \<Rightarrow> (r, s\<lparr>network := n\<rparr>))"

text \<open>\<open>utc_now_seconds\<close>: the next reading of the clock, in whole seconds.\<close>

definition utc_now_seconds :: "(('n, 'z) world_scheme, datetime) io" where
  "utc_now_seconds s = (case clock s of
     [] \<Rightarrow> (Inl HostPanic, s)
   | t # r \<Rightarrow> (Inr (t\<lparr>nanos := 0\<rparr>), s\<lparr>clock := r\<rparr>))"

definition RECORD_FETCH_CONCURRENCY :: nat where [limit_defs]: "RECORD_FETCH_CONCURRENCY = 8"
definition MAX_RECORD_FETCH_ATTEMPTS :: nat where [limit_defs]: "MAX_RECORD_FETCH_ATTEMPTS = 3"

datatype RefreshWarning =
    CatalogRebuilt failure
  | RecordDiscarded bytes failure
  | RecordUnavailable bytes failure
  | EndpointRegistryUnavailable

record RefreshResult =
  rr_hosts :: "SyncedHost list"
  rr_warnings :: "RefreshWarning list"

definition is_verbose_only :: "RefreshWarning \<Rightarrow> bool" where
  "is_verbose_only w = (case w of RecordDiscarded _ _ \<Rightarrow> True | _ \<Rightarrow> False)"

definition push_registry_warning :: "RefreshWarning list \<Rightarrow> RefreshWarning list" where
  "push_registry_warning ws = (if EndpointRegistryUnavailable \<in> set ws then ws else ws @ [EndpointRegistryUnavailable])"

definition finish_refresh :: "HostListing \<Rightarrow> RefreshWarning list \<Rightarrow> RefreshResult" where
  "finish_refresh listing ws = \<lparr>rr_hosts = hl_hosts listing,
     rr_warnings = (if hl_registry_unavailable listing then push_registry_warning ws else ws)\<rparr>"

section \<open>Fetching a consistent record\<close>

fun fetch_attempts ::
  "crates \<Rightarrow> json_lib \<Rightarrow> 'n transport \<Rightarrow> AccountCredentials \<Rightarrow> nat \<Rightarrow> LiveRecordIndexEntry \<Rightarrow> ('n, FetchedRecord option) io" where
  "fetch_attempts K J T account 0 indexed = fail_io RecordUnstable"
| "fetch_attempts K J T account (Suc attempts) indexed =
     bind_io (http_get_record K J T account (entry_record_id indexed)) (\<lambda>r. case r of
       None \<Rightarrow> return_io None
     | Some fetched \<Rightarrow>
         bind_io (ensure_io (fr_revision fetched \<ge> entry_revision indexed) RevisionRegressed) (\<lambda>_.
         if fr_revision fetched = entry_revision indexed then return_io (Some fetched)
         else
           bind_io (http_list_records K J T account) (\<lambda>index.
           case find (\<lambda>entry. entry_record_id entry = entry_record_id indexed) index of
             None \<Rightarrow> return_io None
           | Some current \<Rightarrow>
               bind_io (ensure_io (entry_revision current \<ge> fr_revision fetched) RevisionRegressed) (\<lambda>_.
               if entry_revision current = fr_revision fetched then return_io (Some fetched)
               else fetch_attempts K J T account attempts current))))"

definition fetch_consistent_record ::
  "crates \<Rightarrow> json_lib \<Rightarrow> 'n transport \<Rightarrow> AccountCredentials \<Rightarrow> LiveRecordIndexEntry \<Rightarrow> ('n, FetchedRecord option) io" where
  "fetch_consistent_record K J T account indexed = fetch_attempts K J T account MAX_RECORD_FETCH_ATTEMPTS indexed"

fun fetch_changed_records ::
  "crates \<Rightarrow> json_lib \<Rightarrow> 'n transport \<Rightarrow> AccountCredentials \<Rightarrow> LiveRecordIndexEntry list
     \<Rightarrow> ('n, (LiveRecordIndexEntry \<times> (failure + FetchedRecord option)) list) io" where
  "fetch_changed_records K J T account [] = return_io []"
| "fetch_changed_records K J T account (indexed # rs) =
     bind_io (try_io (fetch_consistent_record K J T account indexed)) (\<lambda>fetched.
     bind_io (fetch_changed_records K J T account rs) (\<lambda>others. return_io ((indexed, fetched) # others)))"

section \<open>Refreshing the catalog\<close>

text \<open>The loop over the index: unchanged records are kept or, when expired, discarded.\<close>

fun sort_index ::
  "datetime \<Rightarrow> (bytes \<times> CatalogRecord) list \<Rightarrow> LiveRecordIndexEntry list
     \<Rightarrow> CatalogRecord list \<times> LiveRecordIndexEntry list \<times> RefreshWarning list" where
  "sort_index t existing [] = ([], [], [])"
| "sort_index t existing (indexed # rs) =
     (let previous = map_of existing (entry_record_id indexed);
          (accepted, changed, ws) = sort_index t (btree_remove (entry_record_id indexed) existing) rs
      in case previous of
           Some p \<Rightarrow>
             if ct_service_revision p = entry_revision indexed then
               if is_expired_at p t
               then (accepted, changed, RecordDiscarded (entry_record_id indexed) DescriptorExpired # ws)
               else (p # accepted, changed, ws)
             else (accepted, indexed # changed, ws)
         | None \<Rightarrow> (accepted, indexed # changed, ws))"

text \<open>The loop over the fetched records.\<close>

definition open_fetched ::
  "'ticket platform \<Rightarrow> primitives \<Rightarrow> AccountCredentials \<Rightarrow> bytes \<Rightarrow> datetime \<Rightarrow> Envelope \<Rightarrow> HostAccessError + HostAccessDescriptor" where
  "open_fetched P C account rid t envelope = open_host_access_descriptor P C envelope (ac_account_root_key account)
     \<lparr>account_id = ac_account_id account, record_id = rid, now = t\<rparr>"

fun accept_fetched ::
  "'ticket platform \<Rightarrow> primitives \<Rightarrow> AccountCredentials \<Rightarrow> datetime
     \<Rightarrow> (LiveRecordIndexEntry \<times> (failure + FetchedRecord option)) list \<Rightarrow> failure + CatalogRecord list \<times> RefreshWarning list" where
  "accept_fetched P C account t [] = Inr ([], [])"
| "accept_fetched P C account t ((indexed, fetched) # rs) =
     (let rid = entry_record_id indexed; continue_with = (\<lambda>records ws.
            bind_result (accept_fetched P C account t rs) (\<lambda>(accepted, warnings). Inr (records @ accepted, ws @ warnings)))
      in case fetched of
           Inl e \<Rightarrow> continue_with [] [RecordUnavailable rid e]
         | Inr None \<Rightarrow> continue_with [] [RecordUnavailable rid RecordRemoved]
         | Inr (Some f) \<Rightarrow>
             bind_result (map_err (\<lambda>_. InvalidDescriptor) (new_envelope (env_nonce (fr_envelope f)) (env_ciphertext (fr_envelope f))))
               (\<lambda>envelope. case open_fetched P C account rid t envelope of
                  Inl _ \<Rightarrow> continue_with [] [RecordDiscarded rid InvalidDescriptor]
                | Inr opened \<Rightarrow> bind_result (ok_or (from_opened P rid (fr_revision f) opened) HostPanic) (\<lambda>r.
                    continue_with [r] [])))"

definition refresh_unlocked_at ::
  "crates \<Rightarrow> local_crypto \<Rightarrow> json_lib \<Rightarrow> 'ticket platform \<Rightarrow> primitives \<Rightarrow> endpoint_ids \<Rightarrow> 'n transport \<Rightarrow> bytes
     \<Rightarrow> AccountCredentials \<Rightarrow> datetime \<Rightarrow> (('n, 'z) world_scheme, RefreshResult) io" where
  "refresh_unlocked_at K L J P C I T registry_dir account t =
     bind_io (try_io (catalog_load K L J P account)) (\<lambda>loaded.
     let (catalog, rebuilt) = (case loaded of
           Inr c \<Rightarrow> (c, []) | Inl e \<Rightarrow> (catalog_empty account, [CatalogRebuilt e])) in
     bind_io (in_network (http_list_records K J T account)) (\<lambda>index.
     let baseline = set (map (\<lambda>r. (ct_record_id r, ct_service_revision r)) (cat_records catalog));
         (unchanged, changed, expired) = sort_index t (by_record_id (cat_records catalog)) index in
     bind_io (in_network (fetch_changed_records K J T account changed)) (\<lambda>fetched.
     bind_io (of_result (accept_fetched P C account t fetched)) (\<lambda>(opened, ws).
     let refreshed = catalog\<lparr>cat_records := sort_key ct_record_id (unchanged @ opened)\<rparr> in
     bind_io (save_refresh K L J P account baseline refreshed) (\<lambda>_.
     bind_io (hosts_excluding_local_endpoints K L J P I account t registry_dir) (\<lambda>listing.
       return_io (finish_refresh listing (rebuilt @ expired @ ws))))))))"

definition refresh_hosts_with_registry_at ::
  "crates \<Rightarrow> local_crypto \<Rightarrow> json_lib \<Rightarrow> 'ticket platform \<Rightarrow> primitives \<Rightarrow> endpoint_ids \<Rightarrow> 'n transport \<Rightarrow> bytes
     \<Rightarrow> datetime \<Rightarrow> (('n, 'z) world_scheme, RefreshResult) io" where
  "refresh_hosts_with_registry_at K L J P C I T registry_dir t =
     bind_io (load_account_optional K L J Download) (\<lambda>a. case a of
       None \<Rightarrow> return_io \<lparr>rr_hosts = [], rr_warnings = []\<rparr>
     | Some account \<Rightarrow> refresh_unlocked_at K L J P C I T registry_dir account t)"

definition refresh_hosts_with_registry ::
  "crates \<Rightarrow> local_crypto \<Rightarrow> json_lib \<Rightarrow> 'ticket platform \<Rightarrow> primitives \<Rightarrow> endpoint_ids \<Rightarrow> 'n transport \<Rightarrow> bytes
     \<Rightarrow> (('n, 'z) world_scheme, RefreshResult) io" where
  "refresh_hosts_with_registry K L J P C I T registry_dir =
     bind_io utc_now_seconds (refresh_hosts_with_registry_at K L J P C I T registry_dir)"

definition refresh_hosts ::
  "crates \<Rightarrow> local_crypto \<Rightarrow> json_lib \<Rightarrow> 'ticket platform \<Rightarrow> primitives \<Rightarrow> endpoint_ids \<Rightarrow> 'n transport \<Rightarrow> failure + bytes
     \<Rightarrow> (('n, 'z) world_scheme, RefreshResult) io" where
  "refresh_hosts K L J P C I T temp_root =
     bind_io (get_io euid) (\<lambda>uid. case default_dir temp_root uid of
       Inr registry_dir \<Rightarrow> refresh_hosts_with_registry K L J P C I T registry_dir
     | Inl _ \<Rightarrow> bind_io (refresh_hosts_with_registry K L J P C I T []) (\<lambda>result.
         return_io (result\<lparr>rr_warnings := push_registry_warning (rr_warnings result)\<rparr>)))"

definition refresh_hosts_unlocked ::
  "crates \<Rightarrow> local_crypto \<Rightarrow> json_lib \<Rightarrow> 'ticket platform \<Rightarrow> primitives \<Rightarrow> endpoint_ids \<Rightarrow> 'n transport \<Rightarrow> failure + bytes
     \<Rightarrow> AccountCredentials \<Rightarrow> (('n, 'z) world_scheme, RefreshResult) io" where
  "refresh_hosts_unlocked K L J P C I T temp_root account =
     bind_io (get_io euid) (\<lambda>uid.
     let registry = default_dir temp_root uid in
     bind_io utc_now_seconds (\<lambda>t.
     bind_io (refresh_unlocked_at K L J P C I T (case registry of Inr p \<Rightarrow> p | Inl _ \<Rightarrow> []) account t) (\<lambda>result.
       return_io (if is_ok registry then result
         else result\<lparr>rr_warnings := push_registry_warning (rr_warnings result)\<rparr>))))"

section \<open>One machine for SSH\<close>

definition ssh_host ::
  "crates \<Rightarrow> local_crypto \<Rightarrow> json_lib \<Rightarrow> 'ticket platform \<Rightarrow> primitives \<Rightarrow> endpoint_ids \<Rightarrow> 'n transport \<Rightarrow> failure + bytes
     \<Rightarrow> AccountCredentials \<Rightarrow> bytes \<Rightarrow> bool \<Rightarrow> (('n, 'z) world_scheme, HostConnection) io" where
  "ssh_host K L J P C I T temp_root account target no_cache =
     bind_io (if no_cache then return_io (Inl HostNotFound)
       else bind_io utc_now_seconds (\<lambda>t. try_io (host K L J P I account target t))) (\<lambda>cached.
     if (case cached of Inr h \<Rightarrow> hc_ssh_enabled h | Inl _ \<Rightarrow> False)
     then of_result cached
     else
       bind_io (refresh_hosts K L J P C I T temp_root) (\<lambda>_.
       bind_io utc_now_seconds (\<lambda>t.
       bind_io (host K L J P I account target t) (\<lambda>h.
       bind_io (ensure_io (hc_ssh_enabled h) SshDisabled) (\<lambda>_. return_io h)))))"

definition refresh_ssh_attachment ::
  "crates \<Rightarrow> json_lib \<Rightarrow> 'ticket platform \<Rightarrow> primitives \<Rightarrow> 'n transport \<Rightarrow> AccountCredentials \<Rightarrow> HostConnection
     \<Rightarrow> (('n, 'z) world_scheme, HostConnection) io" where
  "refresh_ssh_attachment K J P C T account previous =
     bind_io (in_network (http_list_records K J T account)) (\<lambda>index.
     bind_io (of_result (ok_or (find (\<lambda>entry. entry_record_id entry = hc_record_id previous) index) HostNotFound)) (\<lambda>indexed.
     bind_io (ensure_io (entry_revision indexed \<ge> hc_service_revision previous) RevisionRegressed) (\<lambda>_.
     bind_io (in_network (fetch_consistent_record K J T account indexed)) (\<lambda>r.
     bind_io (of_result (ok_or r HostNotFound)) (\<lambda>fetched.
     bind_io (of_result (map_err (\<lambda>_. InvalidDescriptor)
         (new_envelope (env_nonce (fr_envelope fetched)) (env_ciphertext (fr_envelope fetched))))) (\<lambda>envelope.
     bind_io utc_now_seconds (\<lambda>t.
     bind_io (of_result (map_err (\<lambda>_. InvalidDescriptor) (open_fetched P C account (hc_record_id previous) t envelope))) (\<lambda>opened.
     bind_io (of_result (ok_or (from_opened P (hc_record_id previous) (fr_revision fetched) opened) HostPanic)) (\<lambda>r.
     let attachment = ssh_attachment r in
     bind_io (ensure_io (hc_ssh_enabled attachment) SshDisabled) (\<lambda>_.
     bind_io (ensure_io (hc_endpoint_identity attachment = hc_endpoint_identity previous) IdentityChanged) (\<lambda>_.
       return_io attachment)))))))))))"

section \<open>Requests that were made\<close>

text \<open>A meter of the network counts its requests.\<close>

definition metered :: "('n \<Rightarrow> nat) \<Rightarrow> 'n transport \<Rightarrow> bool" where
  "metered count T \<longleftrightarrow> (\<forall>rq n. count (snd (T rq n)) = Suc (count n))"

definition costs :: "('n \<Rightarrow> nat) \<Rightarrow> nat \<Rightarrow> ('n, 'a) io \<Rightarrow> bool" where
  "costs count k m \<longleftrightarrow> (\<forall>n. count n \<le> count (snd (m n)) \<and> count (snd (m n)) \<le> count n + k)"

named_theorems cost_rules "how many requests an action makes"

lemma costs_bind [cost_rules]:
  assumes "costs count j m" and "\<And>a. costs count k (f a)"
  shows "costs count (j + k) (bind_io m f)"
  unfolding costs_def
proof
  fix n
  show "count n \<le> count (snd (bind_io m f n)) \<and> count (snd (bind_io m f n)) \<le> count n + (j + k)"
    using assms(1) [unfolded costs_def, rule_format, of n]
      assms(2) [of "projr (fst (m n))", unfolded costs_def, rule_format, of "snd (m n)"]
    by (cases "m n"; cases "fst (m n)") (auto simp: bind_io_def)
qed

lemma costs_none:
  "costs count 0 (return_io a)" "costs count 0 (fail_io e)" "costs count 0 (ensure_io c e)" "costs count 0 (of_result r)"
  by (simp_all add: costs_def return_io_def fail_io_def ensure_io_def of_result_def)

lemma costs_mono: "costs count j m \<Longrightarrow> j \<le> k \<Longrightarrow> costs count k m"
  unfolding costs_def by (meson add_left_mono le_trans)

lemma costs_pure [cost_rules]:
  "costs count k (return_io a)" "costs count k (fail_io e)" "costs count k (ensure_io c e)" "costs count k (of_result r)"
  by (rule costs_mono [OF _ le0], rule costs_none)+

lemma costs_cases [cost_rules]:
  "(c \<Longrightarrow> costs count k a) \<Longrightarrow> (\<not> c \<Longrightarrow> costs count k b) \<Longrightarrow> costs count k (if c then a else b)"
  "(x = None \<Longrightarrow> costs count k a) \<Longrightarrow> (\<And>y. x = Some y \<Longrightarrow> costs count k (d y)) \<Longrightarrow> costs count k (case x of None \<Rightarrow> a | Some y \<Rightarrow> d y)"
  by (simp_all split: option.split)

lemma costs_after_pure [cost_rules]:
  "costs count k f \<Longrightarrow> costs count k (bind_io (ensure_io c e) (\<lambda>_. f))"
  "(\<And>a. costs count k (g a)) \<Longrightarrow> costs count k (bind_io (of_result r) g)"
  using costs_bind [OF costs_none(3), of count k "\<lambda>_. f" c e] costs_bind [OF costs_none(4), of count k g r] by simp_all

lemma costs_requests:
  assumes "metered count T"
  shows "costs count 1 (http_get_record K J T account rid)" and "costs count 1 (http_list_records K J T account)"
proof -
  have send: "costs count 1 (send T rq)" for rq
    unfolding costs_def send_def using assms [unfolded metered_def, rule_format, of rq] by (simp add: case_prod_beta)
  have sent: "costs count 1 (bind_io (send T rq) f)" if "\<And>a. costs count 0 (f a)" for rq and f :: "client_response \<Rightarrow> ('a, 'b) io"
    using costs_bind [OF send that] by simp
  show "costs count 1 (http_get_record K J T account rid)" and "costs count 1 (http_list_records K J T account)"
    unfolding http_get_record_def http_list_records_def
    by (intro costs_after_pure sent cost_rules)+
qed

lemma costs_attempts:
  assumes "metered count T"
  shows "costs count (2 * k) (fetch_attempts K J T account k indexed)"
proof (induction k arbitrary: indexed)
  case 0
  then show ?case by (simp add: cost_rules)
next
  case (Suc k)
  note get = costs_bind [OF costs_requests(1) [OF assms], of "1 + 2 * k"]
    and lst = costs_bind [OF costs_requests(2) [OF assms], of "2 * k"]
  have "costs count (1 + (1 + 2 * k)) (fetch_attempts K J T account (Suc k) indexed)"
    unfolding fetch_attempts.simps by (intro get lst costs_after_pure costs_cases costs_pure Suc)
  then show ?case by simp
qed

section \<open>What a fetch returns\<close>

text \<open>\<open>confirmed\<close>: the record is the answer to a request, at least as new as the indexed revision, and of a
  revision that an index listed. \<open>gone\<close>: a request or a listing lacked the record.\<close>

definition listed :: "crates \<Rightarrow> json_lib \<Rightarrow> 'n transport \<Rightarrow> AccountCredentials \<Rightarrow> bytes \<Rightarrow> nat \<Rightarrow> bool" where
  "listed K J T account rid revision \<longleftrightarrow> (\<exists>n m index e. http_list_records K J T account n = (Inr index, m)
     \<and> find (\<lambda>e. entry_record_id e = rid) index = Some e \<and> entry_revision e = revision)"

definition confirmed ::
  "crates \<Rightarrow> json_lib \<Rightarrow> 'n transport \<Rightarrow> AccountCredentials \<Rightarrow> LiveRecordIndexEntry \<Rightarrow> FetchedRecord \<Rightarrow> bool" where
  "confirmed K J T account indexed f \<longleftrightarrow> entry_revision indexed \<le> fr_revision f
     \<and> (\<exists>n m. http_get_record K J T account (entry_record_id indexed) n = (Inr (Some f), m))
     \<and> (fr_revision f = entry_revision indexed \<or> listed K J T account (entry_record_id indexed) (fr_revision f))"

definition gone :: "crates \<Rightarrow> json_lib \<Rightarrow> 'n transport \<Rightarrow> AccountCredentials \<Rightarrow> bytes \<Rightarrow> bool" where
  "gone K J T account rid \<longleftrightarrow> (\<exists>n m. http_get_record K J T account rid n = (Inr None, m)
     \<or> (\<exists>index. http_list_records K J T account n = (Inr index, m)
          \<and> find (\<lambda>e. entry_record_id e = rid) index = None))"

lemma fetch_attempts_cases:
  assumes "fetch_attempts K J T account (Suc k) indexed n = (Inr r, n')"
  obtains "r = None" "gone K J T account (entry_record_id indexed)"
  | f where "r = Some f" "confirmed K J T account indexed f"
  | current l where "fetch_attempts K J T account k current l = (Inr r, n')"
      "entry_record_id current = entry_record_id indexed" "entry_revision indexed \<le> entry_revision current"
      "listed K J T account (entry_record_id indexed) (entry_revision current)"
proof -
  let ?rid = "entry_record_id indexed"
  obtain g m where g: "http_get_record K J T account ?rid n = (Inr g, m)"
    using assms by (auto simp: bind_io_Inr)
  consider "g = None" "r = None" | f where "g = Some f" "r = Some f" "fr_revision f = entry_revision indexed"
    | f index l where "g = Some f" "entry_revision indexed \<le> fr_revision f" "fr_revision f \<noteq> entry_revision indexed"
        "http_list_records K J T account m = (Inr index, l)"
    using assms g by (cases g) (auto simp: bind_io_Inr split: if_splits)
  then show thesis
  proof cases
    case (3 f index l)
    show ?thesis
    proof (cases "find (\<lambda>e. entry_record_id e = ?rid) index")
      case None
      then show ?thesis using that(1) assms g 3 by (auto simp: bind_io_Inr gone_def)
    next
      case (Some current)
      have "listed K J T account ?rid (entry_revision current)" unfolding listed_def using 3(4) Some by blast
      moreover have "entry_record_id current = ?rid" using Some by (auto simp: find_Some_iff)
      moreover have "fr_revision f = entry_revision current \<and> r = Some f \<or>
          fr_revision f \<le> entry_revision current \<and> fetch_attempts K J T account k current l = (Inr r, n')"
        using assms g 3 Some by (auto simp: bind_io_Inr split: if_splits)
      ultimately show ?thesis using that(2,3) g 3 by (fastforce simp: confirmed_def)
    qed
  qed (use that(1,2) g in \<open>auto simp: gone_def confirmed_def\<close>)
qed

lemma fetch_attempts_Inr:
  "fetch_attempts K J T account k indexed n = (Inr r, n') \<Longrightarrow>
     (case r of None \<Rightarrow> gone K J T account (entry_record_id indexed) | Some f \<Rightarrow> confirmed K J T account indexed f)"
proof (induction k arbitrary: indexed n)
  case (Suc k)
  from Suc.prems show ?case
  proof (cases rule: fetch_attempts_cases)
    case (3 current l)
    then show ?thesis using Suc.IH [OF 3(1)] by (auto simp: confirmed_def split: option.splits)
  qed simp_all
qed simp

section \<open>The attachment that is returned\<close>

lemma in_network_Inr: "in_network m s = (Inr a, t) \<longleftrightarrow> (\<exists>n. m (network s) = (Inr a, n) \<and> t = s\<lparr>network := n\<rparr>)"
  by (auto simp: in_network_def split: prod.splits)

lemma utc_now_Inr: "utc_now_seconds s = (Inr t, u) \<longleftrightarrow> (\<exists>c r. clock s = c # r \<and> t = c\<lparr>nanos := 0\<rparr> \<and> u = s\<lparr>clock := r\<rparr>)"
  by (auto simp: utc_now_seconds_def split: list.splits)

lemma refresh_ssh_attachment_Inr:
  assumes "refresh_ssh_attachment K J P C T account previous s = (Inr a, t)"
  obtains indexed f env c r d x n where
    "new_envelope (env_nonce (fr_envelope f)) (env_ciphertext (fr_envelope f)) = Inr env"
    "entry_record_id indexed = hc_record_id previous" "hc_service_revision previous \<le> entry_revision indexed"
    "confirmed K J T account indexed f" "clock s = c # r" "t = s\<lparr>network := n, clock := r\<rparr>"
    "open_fetched P C account (hc_record_id previous) (c\<lparr>nanos := 0\<rparr>) env = Inr d"
    "from_opened P (hc_record_id previous) (fr_revision f) d = Some x" "a = ssh_attachment x"
    "hc_ssh_enabled a" "hc_endpoint_identity a = hc_endpoint_identity previous"
proof -
  obtain indexed f env c r d x n n0 n1 where s:
    "hc_service_revision previous \<le> entry_revision indexed"
    "fetch_consistent_record K J T account indexed n0 = (Inr (Some f), n)" "clock s = c # r" "t = s\<lparr>network := n, clock := r\<rparr>"
    "open_fetched P C account (hc_record_id previous) (c\<lparr>nanos := 0\<rparr>) env = Inr d"
    "from_opened P (hc_record_id previous) (fr_revision f) d = Some x" "a = ssh_attachment x"
    "hc_ssh_enabled a" "hc_endpoint_identity a = hc_endpoint_identity previous"
    "find (\<lambda>entry. entry_record_id entry = hc_record_id previous) n1 = Some indexed"
    "new_envelope (env_nonce (fr_envelope f)) (env_ciphertext (fr_envelope f)) = Inr env"
    using assms
    by (auto simp: refresh_ssh_attachment_def bind_io_Inr in_network_Inr utc_now_Inr Let_def)
  have "entry_record_id indexed = hc_record_id previous" using s(10) by (auto simp: find_Some_iff)
  moreover have "confirmed K J T account indexed f"
    using fetch_attempts_Inr [OF s(2) [unfolded fetch_consistent_record_def]] by simp
  ultimately show thesis using s(1,3-9,11) by (intro that)
qed

lemma refresh_ssh_attachment_run:
  assumes "http_list_records K J T account (network s) = (Inr index, n1)"
    and "find (\<lambda>entry. entry_record_id entry = hc_record_id previous) index = Some indexed"
    and "hc_service_revision previous \<le> entry_revision indexed"
    and "http_get_record K J T account (hc_record_id previous) n1 = (Inr (Some f), n2)" and "fr_revision f = entry_revision indexed"
    and "new_envelope (env_nonce (fr_envelope f)) (env_ciphertext (fr_envelope f)) = Inr env" and "clock s = c # r"
    and "open_fetched P C account (hc_record_id previous) (c\<lparr>nanos := 0\<rparr>) env = Inr d"
    and "from_opened P (hc_record_id previous) (fr_revision f) d = Some x"
    and "ct_ssh_enabled x" and "ct_endpoint_identity x = hc_endpoint_identity previous"
  shows "refresh_ssh_attachment K J P C T account previous s = (Inr (ssh_attachment x), s\<lparr>network := n2, clock := r\<rparr>)"
proof -
  have id: "entry_record_id indexed = hc_record_id previous" using assms(2) by (auto simp: find_Some_iff)
  have k: "fetch_consistent_record K J T account indexed n1 = (Inr (Some f), n2)"
    using assms(4,5) id
    by (simp add: fetch_consistent_record_def MAX_RECORD_FETCH_ATTEMPTS_def numeral_eq_Suc bind_io_def ensure_io_def return_io_def)
  show ?thesis
    using assms k
    by (simp add: refresh_ssh_attachment_def bind_io_def in_network_def of_result_def ensure_io_def utc_now_seconds_def
        return_io_def ssh_attachment_def)
qed

section \<open>What a refresh saves\<close>









text \<open>Fields that a session does not know play no part in its key.\<close>

lemma world_files [simp]:
  "dir (s\<lparr>network := n\<rparr>) = dir s" "euid (s\<lparr>network := n\<rparr>) = euid s"
  "dir (v\<lparr>endpoints := g\<rparr>) = dir v" "euid (v\<lparr>endpoints := g\<rparr>) = euid v"
  by (cases s, simp, cases s, simp, cases v, simp, cases v, simp)

lemma holds_key_world [simp]:
  "holds_key mk (s\<lparr>network := n\<rparr>) = holds_key mk s" "holds_key mk (v\<lparr>endpoints := g\<rparr>) = holds_key mk v"
proof -
  have "cached_key store (s\<lparr>network := n\<rparr>) = cached_key store s" "cached_key store (v\<lparr>endpoints := g\<rparr>) = cached_key store v" for store
    by (cases store; simp add: cached_key_def)+
  then show "holds_key mk (s\<lparr>network := n\<rparr>) = holds_key mk s" "holds_key mk (v\<lparr>endpoints := g\<rparr>) = holds_key mk v"
    by (simp_all add: holds_key_def active_store_def salt_stored_def has_file_def)
qed




section \<open>Properties\<close>

text \<open>A descriptor's connection, as the broker uses it.\<close>

definition connects_to :: "'ticket platform \<Rightarrow> HostAccessDescriptor \<Rightarrow> HostConnection \<Rightarrow> bool" where
  "connects_to P d a \<longleftrightarrow> hc_endpoint_ticket a = endpoint_ticket d \<and> endpoint_identity P d = Some (hc_endpoint_identity a)
     \<and> hc_attach_capability a = attach_capability d \<and> hc_expires_at a = expires_at d \<and> hc_ssh_enabled a = ssh_enabled d
     \<and> hc_attached_version a = [major (attached_version d), minor (attached_version d), patch (attached_version d)]"

lemma connects_from_opened:
  "from_opened P rid revision d = Some x \<Longrightarrow> connects_to P d (ssh_attachment x) \<and> hc_record_id (ssh_attachment x) = rid
     \<and> hc_service_revision (ssh_attachment x) = revision"
  by (auto simp: from_opened_def connects_to_def ssh_attachment_def)

text \<open>C2: what an SSH broker reconnects to is authentic. Whatever the service answers, a renewed attachment
  is for the same record and the same endpoint identity as before, its revision did not go back, SSH is
  enabled, and, as long as the served envelopes are not forgeries, it is the connection of a descriptor
  that a publisher of the account sealed for this record and that is fresh when the requests have
  completed. Nothing but the network and the clock was used: no file changed.\<close>

theorem ssh_attachment_authentic:
  assumes "refresh_ssh_attachment K J P C T account previous s = (Inr a, t)"
    and "\<And>n f m now_at. http_get_record K J T account (hc_record_id previous) n = (Inr (Some f), m) \<Longrightarrow>
      no_forgery C (ac_account_root_key account)
        \<lparr>account_id = ac_account_id account, record_id = hc_record_id previous, now = now_at\<rparr>
        \<lparr>nonce = env_nonce (fr_envelope f), ciphertext = env_ciphertext (fr_envelope f)\<rparr>
        (aead_log P C (ac_account_root_key account) (ac_account_id account) seals)"
    and "\<forall>(d, rid, n) \<in> seals. typed_descriptor P d"
  shows "hc_record_id a = hc_record_id previous \<and> hc_endpoint_identity a = hc_endpoint_identity previous
    \<and> hc_service_revision previous \<le> hc_service_revision a \<and> hc_ssh_enabled a
    \<and> (\<exists>d n c r. (d, hc_record_id previous, n) \<in> seals \<and> connects_to P d a
         \<and> clock s = c # r \<and> fresh P d (c\<lparr>nanos := 0\<rparr>) \<and> t = s\<lparr>network := network t, clock := r\<rparr>)"
proof -
  obtain indexed f env c r d x n where f: "new_envelope (env_nonce (fr_envelope f)) (env_ciphertext (fr_envelope f)) = Inr env"
    "entry_record_id indexed = hc_record_id previous" "hc_service_revision previous \<le> entry_revision indexed"
    "confirmed K J T account indexed f" "clock s = c # r" "t = s\<lparr>network := n, clock := r\<rparr>"
    "open_fetched P C account (hc_record_id previous) (c\<lparr>nanos := 0\<rparr>) env = Inr d"
    "from_opened P (hc_record_id previous) (fr_revision f) d = Some x" "a = ssh_attachment x"
    "hc_ssh_enabled a" "hc_endpoint_identity a = hc_endpoint_identity previous"
    using assms(1) by (rule refresh_ssh_attachment_Inr)
  let ?ctx = "\<lparr>account_id = ac_account_id account, record_id = hc_record_id previous, now = c\<lparr>nanos := 0\<rparr>\<rparr>"
  have "env = \<lparr>nonce = env_nonce (fr_envelope f), ciphertext = env_ciphertext (fr_envelope f)\<rparr>"
    using f(1) by (simp add: new_envelope_Inr)
  moreover obtain m m' where "http_get_record K J T account (hc_record_id previous) m = (Inr (Some f), m')"
    using f(2,4) by (auto simp: confirmed_def)
  ultimately have "no_forgery C (ac_account_root_key account) ?ctx env
      (aead_log P C (ac_account_root_key account) (account_id ?ctx) seals)"
    using assms(2) by simp
  from opened_origin [OF f(7) [unfolded open_fetched_def] this assms(3)]
  obtain k where "(d, hc_record_id previous, k) \<in> seals" "fresh P d (c\<lparr>nanos := 0\<rparr>)" by auto
  moreover have "entry_revision indexed \<le> fr_revision f" using f(4) by (simp add: confirmed_def)
  ultimately show ?thesis using connects_from_opened [OF f(8)] f(3,5,6,9-11) by auto
qed





text \<open>C40: fetching a record that keeps being republished ends. Whatever the service answers, at most three
  records and three indexes are requested; a record that is returned is at least as new as the index
  that led to it and has a revision that an index listed, and \<open>None\<close> means that a request or an index
  lacked the record.\<close>

theorem fetch_ends_confirmed:
  assumes "metered count T" and "fetch_consistent_record K J T account indexed n = (r, n')"
  shows "count n' \<le> count n + 6 \<and> (case r of
      Inr (Some f) \<Rightarrow> confirmed K J T account indexed f
    | Inr None \<Rightarrow> gone K J T account (entry_record_id indexed)
    | Inl _ \<Rightarrow> True)"
proof -
  have "count n' \<le> count n + 6"
    using costs_attempts [OF assms(1), of MAX_RECORD_FETCH_ATTEMPTS K J account indexed] assms(2)
    by (auto simp: costs_def fetch_consistent_record_def MAX_RECORD_FETCH_ATTEMPTS_def dest: spec [of _ n])
  moreover have "case r of Inr (Some f) \<Rightarrow> confirmed K J T account indexed f
      | Inr None \<Rightarrow> gone K J T account (entry_record_id indexed) | Inl _ \<Rightarrow> True"
    using fetch_attempts_Inr [of K J T account MAX_RECORD_FETCH_ATTEMPTS indexed n] assms(2)
    by (cases r) (simp_all add: fetch_consistent_record_def)
  ultimately show ?thesis by blast
qed

text \<open>A service that always lists and serves the sample record at revision 2, and counts requests.\<close>

definition sample_seals :: "(HostAccessDescriptor \<times> bytes \<times> bytes) set" where
  "sample_seals = {(sample_descriptor, replicate 16 2, replicate 24 9)}"

definition sample_sealed :: ApiEnvelope where
  "sample_sealed = (case seal_host_access_descriptor_with_nonce sample_platform sample_primitives sample_descriptor
       (ac_account_root_key sample_reader) (ac_account_id sample_reader) (replicate 16 2) (replicate 24 9) of
     Inr e \<Rightarrow> \<lparr>envelope_version = 1, env_nonce = nonce e, env_ciphertext = ciphertext e\<rparr> | Inl _ \<Rightarrow> sample_envelope)"

definition sample_listing :: LiveRecordIndex where
  "sample_listing = [\<lparr>entry_record_id = replicate 16 2, entry_revision = 2\<rparr>]"

definition sample_discovered :: Catalog where
  "sample_discovered = sample_saved\<lparr>cat_records := [sample_record\<lparr>ct_service_revision := 2\<rparr>]\<rparr>"

definition sample_messages :: json_lib where
  "sample_messages = \<lparr>json_from_slice = (\<lambda>s. if take 3 s = ascii ''{\"r'' then Some (index_json url_safe_no_pad sample_listing)
       else if take 3 s = ascii ''{\"e'' then Some (envelope_json url_safe_no_pad sample_sealed)
       else Some (catalog_json sample_crates sample_discovered)), json_to_vec = json_compact\<rparr>"

definition sample_service :: "nat transport" where
  "sample_service rq n = (Inr (delivered (if cq_url rq = index_url sample_crates sample_reader
     then json_response sample_messages STATUS_OK (index_json url_safe_no_pad sample_listing)
     else etag_response (json_response sample_messages STATUS_OK (envelope_json url_safe_no_pad sample_sealed)) 2)), Suc n)"

lemma sample_messages_faithful:
  "json_faithful sample_messages (index_json url_safe_no_pad sample_listing)"
  "json_faithful sample_messages (envelope_json url_safe_no_pad sample_sealed)"
  "json_faithful sample_messages (catalog_json sample_crates sample_discovered)"
  by (simp_all add: json_faithful_def sample_messages_def index_json_def envelope_json_def catalog_json_def catalog_fields_def
      json_string_def byte_simps)

lemma sample_sealed_ok:
  obtains bs where "encode_host_access_descriptor sample_platform sample_descriptor = Inr bs"
    and "sample_sealed = \<lparr>envelope_version = 1, env_nonce = replicate 24 9, env_ciphertext = bs @ replicate 16 0\<rparr>"
    and "new_envelope (env_nonce sample_sealed) (env_ciphertext sample_sealed)
      = Inr \<lparr>nonce = replicate 24 9, ciphertext = bs @ replicate 16 0\<rparr>"
    and "open_fetched sample_platform sample_primitives sample_reader (replicate 16 2) \<lparr>secs = 1700000030, nanos = 0\<rparr>
      \<lparr>nonce = replicate 24 9, ciphertext = bs @ replicate 16 0\<rparr> = Inr sample_descriptor"
    and "wf_envelope sample_sealed"
proof -
  have cap: "length (attach_capability sample_descriptor) = 32" by (simp add: sample_descriptor_def)
  obtain env where env: "seal_host_access_descriptor_with_nonce sample_platform sample_primitives sample_descriptor
      (ac_account_root_key sample_reader) (ac_account_id sample_reader) (replicate 16 2) (replicate 24 9) = Inr env"
    using seal_succeeds [OF sample_primitives_ok sample_valid(1) cap, of "replicate 24 9"] by force
  obtain bs where bs: "encode_host_access_descriptor sample_platform sample_descriptor = Inr bs"
    and e: "env = \<lparr>nonce = replicate 24 9, ciphertext = bs @ replicate 16 0\<rparr>" "length (bs @ replicate 16 0) \<le> MAX_CIPHERTEXT_BYTES"
    using env by (rule seal_Inr) (auto simp: sample_primitives_def)
  have v: "sample_sealed = \<lparr>envelope_version = 1, env_nonce = replicate 24 9, env_ciphertext = bs @ replicate 16 0\<rparr>"
    by (simp add: sample_sealed_def env e(1))
  have "open_fetched sample_platform sample_primitives sample_reader (replicate 16 2) \<lparr>secs = 1700000030, nanos = 0\<rparr> env = Inr sample_descriptor"
    using seal_then_open [OF sample_primitives_ok(2,1) sample_valid(2) _ env] sample_fresh
    by (simp add: open_fetched_def sample_context_def)
  with bs v e show thesis by (intro that) (simp_all add: v new_envelope_def wf_envelope_def limit_defs)
qed

lemma sample_service_answers:
  "http_list_records sample_crates sample_messages sample_service sample_reader n = (Inr sample_listing, Suc n)"
  "http_get_record sample_crates sample_messages sample_service sample_reader rid n
     = (Inr (Some \<lparr>fr_envelope = sample_sealed, fr_revision = 2\<rparr>), Suc n)"
proof -
  have scope: "ac_api_key_scope sample_reader = Download" by (simp add: sample_reader_def from_bundle_def scoped_def)
  have e: "engine sample_crates = url_safe_no_pad" by (simp add: sample_crates_def)
  have b: "base64_engine (engine sample_crates)" by (simp add: e url_safe.base64_engine_axioms)
  have wf: "wf_envelope sample_sealed" by (rule sample_sealed_ok)
  show "http_list_records sample_crates sample_messages sample_service sample_reader n = (Inr sample_listing, Suc n)"
    by (rule list_delivered [OF scope authorization_ok [OF b] _ b])
      (use sample_messages_faithful(1) in \<open>simp_all add: sample_service_def list_request_def e index_validate_Inr sample_listing_def wf_entry_def limit_defs\<close>)
  show "http_get_record sample_crates sample_messages sample_service sample_reader rid n
     = (Inr (Some \<lparr>fr_envelope = sample_sealed, fr_revision = 2\<rparr>), Suc n)"
    by (rule get_delivered [OF scope authorization_ok [OF b] _ b wf])
      (use sample_messages_faithful(2) in \<open>simp_all add: sample_service_def get_request_def record_url_def e limit_defs byte_simps\<close>)
qed

definition sample_world :: "nat world" where
  "sample_world = machine.extend
     (session.extend sample_machine (machine.fields (disk.extend sample_disk (registry.fields sample_disk []))))
     (world.fields 0 [\<lparr>secs = 1700000030, nanos = 5\<rparr>])"

lemma sample_world_clock: "clock sample_world = [\<lparr>secs = 1700000030, nanos = 5\<rparr>]"
  by (simp add: sample_world_def machine.defs session.defs disk.defs world.defs)

definition sample_connection :: HostConnection where
  "sample_connection = (ssh_attachment sample_record)\<lparr>hc_service_revision := 1\<rparr>"

lemma sample_renewal_runs:
  assumes "clock s = \<lparr>secs = 1700000030, nanos = 5\<rparr> # r"
  shows "refresh_ssh_attachment sample_crates sample_messages sample_platform sample_primitives sample_service sample_reader
      sample_connection s = (Inr (sample_connection\<lparr>hc_service_revision := 2\<rparr>), s\<lparr>network := Suc (Suc (network s)), clock := r\<rparr>)"
proof -
  let ?x = "sample_record\<lparr>ct_service_revision := 2\<rparr>"
  obtain bs where bs: "new_envelope (env_nonce sample_sealed) (env_ciphertext sample_sealed) = Inr \<lparr>nonce = replicate 24 9, ciphertext = bs @ replicate 16 0\<rparr>"
    "open_fetched sample_platform sample_primitives sample_reader (replicate 16 2) \<lparr>secs = 1700000030, nanos = 0\<rparr>
      \<lparr>nonce = replicate 24 9, ciphertext = bs @ replicate 16 0\<rparr> = Inr sample_descriptor"
    by (rule sample_sealed_ok)
  have rid: "hc_record_id sample_connection = replicate 16 2"
    using sample_record_ok(3) by (simp add: sample_connection_def ssh_attachment_def)
  have x: "from_opened sample_platform (replicate 16 2) 2 sample_descriptor = Some ?x" "ct_ssh_enabled ?x"
    by (simp_all add: sample_record_def from_opened_def endpoint_identity_def sample_evals)
  have "refresh_ssh_attachment sample_crates sample_messages sample_platform sample_primitives sample_service sample_reader
      sample_connection s = (Inr (ssh_attachment ?x), s\<lparr>network := Suc (Suc (network s)), clock := r\<rparr>)"
    by (rule refresh_ssh_attachment_run [where c = "\<lparr>secs = 1700000030, nanos = 5\<rparr>" and d = sample_descriptor
          and indexed = "\<lparr>entry_record_id = replicate 16 2, entry_revision = 2\<rparr>",
          OF sample_service_answers(1) _ _ sample_service_answers(2)])
      (use bs x rid assms in \<open>simp_all add: sample_listing_def sample_connection_def ssh_attachment_def\<close>)
  then show ?thesis by (simp add: sample_connection_def ssh_attachment_def)
qed

theorem ssh_attachment_authentic_witness:
  "\<exists>a t. refresh_ssh_attachment sample_crates sample_messages sample_platform sample_primitives sample_service sample_reader
      sample_connection sample_world = (Inr a, t)
    \<and> hc_service_revision a = 2 \<and> hc_endpoint_identity a = hc_endpoint_identity sample_connection
    \<and> connects_to sample_platform sample_descriptor a"
proof -
  let ?x = "sample_record\<lparr>ct_service_revision := 2\<rparr>"
  obtain bs where bs: "encode_host_access_descriptor sample_platform sample_descriptor = Inr bs"
    "sample_sealed = \<lparr>envelope_version = 1, env_nonce = replicate 24 9, env_ciphertext = bs @ replicate 16 0\<rparr>"
    "new_envelope (env_nonce sample_sealed) (env_ciphertext sample_sealed) = Inr \<lparr>nonce = replicate 24 9, ciphertext = bs @ replicate 16 0\<rparr>"
    "open_fetched sample_platform sample_primitives sample_reader (replicate 16 2) \<lparr>secs = 1700000030, nanos = 0\<rparr>
      \<lparr>nonce = replicate 24 9, ciphertext = bs @ replicate 16 0\<rparr> = Inr sample_descriptor"
    by (rule sample_sealed_ok)
  have rid: "hc_record_id sample_connection = replicate 16 2"
    using sample_record_ok(3) by (simp add: sample_connection_def ssh_attachment_def)
  have x: "ssh_attachment ?x = sample_connection\<lparr>hc_service_revision := 2\<rparr>" by (simp add: sample_connection_def ssh_attachment_def)
  have run: "refresh_ssh_attachment sample_crates sample_messages sample_platform sample_primitives sample_service sample_reader
      sample_connection sample_world = (Inr (ssh_attachment ?x), sample_world\<lparr>network := Suc (Suc (network sample_world)), clock := []\<rparr>)"
    unfolding x by (rule sample_renewal_runs [OF sample_world_clock])
  have unforged: "no_forgery sample_primitives (ac_account_root_key sample_reader)
      \<lparr>account_id = ac_account_id sample_reader, record_id = hc_record_id sample_connection, now = now_at\<rparr>
      \<lparr>nonce = env_nonce (fr_envelope f), ciphertext = env_ciphertext (fr_envelope f)\<rparr>
      (aead_log sample_platform sample_primitives (ac_account_root_key sample_reader) (ac_account_id sample_reader) sample_seals)"
    if "http_get_record sample_crates sample_messages sample_service sample_reader (hc_record_id sample_connection) n = (Inr (Some f), m)"
    for n f m now_at
  proof -
    have "fr_envelope f = sample_sealed" using that by (auto simp: sample_service_answers(2))
    then show ?thesis using bs(1)
      by (simp add: no_forgery_def aead_log_def sample_primitives_def bs(2) rid sample_seals_def)
  qed
  have typed: "\<forall>(d, rid, n) \<in> sample_seals. typed_descriptor sample_platform d" using sample_valid(2) by (simp add: sample_seals_def)
  have "connects_to sample_platform sample_descriptor (ssh_attachment ?x)"
  proof -
    obtain d n where "(d, hc_record_id sample_connection, n) \<in> sample_seals"
      and "connects_to sample_platform d (ssh_attachment ?x)"
      using ssh_attachment_authentic [OF run _ typed] unforged by blast
    then show ?thesis by (simp add: sample_seals_def)
  qed
  moreover have "hc_service_revision (ssh_attachment ?x) = 2"
    "hc_endpoint_identity (ssh_attachment ?x) = hc_endpoint_identity sample_connection"
    by (simp_all add: sample_connection_def ssh_attachment_def)
  ultimately show ?thesis using run by blast
qed

theorem fetch_ends_confirmed_witness:
  "case fetch_consistent_record sample_crates sample_messages sample_service sample_reader
      \<lparr>entry_record_id = replicate 16 2, entry_revision = 1\<rparr> 0 of
     (r, n) \<Rightarrow> n \<le> 6 \<and> r = Inr (Some \<lparr>fr_envelope = sample_sealed, fr_revision = 2\<rparr>)
       \<and> confirmed sample_crates sample_messages sample_service sample_reader
           \<lparr>entry_record_id = replicate 16 2, entry_revision = 1\<rparr> \<lparr>fr_envelope = sample_sealed, fr_revision = 2\<rparr>"
proof -
  have m: "metered id sample_service" by (simp add: metered_def sample_service_def)
  have r: "fetch_consistent_record sample_crates sample_messages sample_service sample_reader
      \<lparr>entry_record_id = replicate 16 2, entry_revision = 1\<rparr> 0 = (Inr (Some \<lparr>fr_envelope = sample_sealed, fr_revision = 2\<rparr>), 2)"
    by (simp add: fetch_consistent_record_def MAX_RECORD_FETCH_ATTEMPTS_def numeral_eq_Suc bind_io_def ensure_io_def
        return_io_def sample_service_answers sample_listing_def)
  from fetch_ends_confirmed [OF m r] show ?thesis unfolding r by simp
qed









end
