(* ===== verification/Service.thy ===== *)
theory Service
  imports Refresh
begin

text \<open>
  The client of \<open>Sync_Http\<close> and the Worker of \<open>Worker_Public\<close> composed. \<open>over_http\<close> delivers every request of
  the client to the Worker and every response back, unchanged; the two routers of the platform are the
  parameters \<open>P\<close> and \<open>R\<close>, of which \<open>routes_records\<close> names what the code registers. The locale
  \<open>record_service\<close> is the contract a client relies on (put, get, list of one account); it is interpreted
  on the composition for a healthy account object.
\<close>

section \<open>Delivery\<close>

definition verb_method :: "verb \<Rightarrow> http_method" where
  "verb_method v = (case v of GetVerb \<Rightarrow> GET | PutVerb \<Rightarrow> PUT | PostVerb \<Rightarrow> POST)"

definition wire_request :: "bytes \<Rightarrow> client_request \<Rightarrow> request" where
  "wire_request origin rq = \<lparr>rq_method = verb_method (cq_verb rq), rq_path = drop (length origin) (cq_url rq),
     rq_header = (\<lambda>name. Inr (if name = ascii ''content-length''
       then (if cq_body rq = [] then None else Some (dec_text (length (cq_body rq)))) else cq_headers rq name)),
     rq_body = (if cq_body rq = [] then None else Some [Inr (cq_body rq)]), rq_cancel = Inr ()\<rparr>"

definition over_http :: "(request \<Rightarrow> 'w \<Rightarrow> (response \<times> 'w) option) \<Rightarrow> bytes \<Rightarrow> 'w transport" where
  "over_http serve origin rq w = (case serve (wire_request origin rq) w of
     None \<Rightarrow> (Inl (), w)
   | Some (r, w') \<Rightarrow> (Inr (delivered r), w'))"

definition records_path :: "crates \<Rightarrow> bytes \<Rightarrow> bytes" where
  "records_path K aid = ascii ''/v1/accounts/'' @ account_id_text (uuids K) aid @ ascii ''/records''"

definition routes_records :: "crates \<Rightarrow> bytes \<Rightarrow> (http_method \<Rightarrow> bytes \<Rightarrow> route) \<Rightarrow> bool" where
  "routes_records K aid Rt \<longleftrightarrow> (\<forall>m. Rt m (records_path K aid) = RouteIndex (account_id_text (uuids K) aid)
     \<and> (\<forall>rid. length rid = 16 \<longrightarrow> Rt m (records_path K aid @ ascii ''/'' @ record_id_text (engine K) rid)
          = RouteRecord (account_id_text (uuids K) aid) (record_id_text (engine K) rid)))"

section \<open>A healthy account object\<close>

text \<open>The object of the account holds it, with the hashes of the two credentials' tokens, and no fault is pending.\<close>

definition healthy :: "crates \<Rightarrow> AccountCredentials \<Rightarrow> AccountCredentials \<Rightarrow> storage \<Rightarrow> bool" where
  "healthy K pub reader s \<longleftrightarrow> ready_store (uuids K) s \<and> faults s = []
     \<and> account_of (db s) = Some \<lparr>sa_account_id = ac_account_id reader,
         sa_publish_hash = service_hash (sha256 K) (ac_api_token pub),
         sa_download_hash = service_hash (sha256 K) (ac_api_token reader)\<rparr>"

definition credentials_pair :: "crates \<Rightarrow> AccountCredentials \<Rightarrow> AccountCredentials \<Rightarrow> bool" where
  "credentials_pair K pub reader \<longleftrightarrow> ac_api_key_scope pub = Publish \<and> ac_api_key_scope reader = Download
     \<and> ac_account_id pub = ac_account_id reader \<and> ac_service_origin pub = ac_service_origin reader
     \<and> ac_account_root_key pub = ac_account_root_key reader
     \<and> length (ac_account_id reader) = 16 \<and> is_uuid_v7 (uuids K) (ac_account_id reader)
     \<and> length (ac_api_token pub) = 32 \<and> length (ac_api_token reader) = 32"

lemma healthy_reads:
  assumes "healthy K pub reader s"
  shows "load_account (uuids K) s = (Inr (account_of (db s)), s)"
    and "load_record rid s = (Inr (map_option record_of (contents (db s) rid)), s)"
    and "load_index s = (Inr (index_of (db s)), s)"
proof -
  have s: "wf_db (uuids K) (db s)" "schema_ready (db s)" "faults s = []"
    using assms by (auto simp: healthy_def ready_store_def wf_db_def)
  show "load_account (uuids K) s = (Inr (account_of (db s)), s)"
    "load_record rid s = (Inr (map_option record_of (contents (db s) rid)), s)"
    "load_index s = (Inr (index_of (db s)), s)"
    using reads_load_account [OF s(1)] reads_load_record [OF s(1,2)] reads_load_index [OF s(1,2)] s(3)
    by (simp_all add: reads_def)
qed

lemma healthy_authenticates:
  assumes K: "account_crates K" and s: "healthy K pub reader s" and c: "credentials_pair K pub reader"
    and h: "h (ascii ''authorization'') = Inr (Some (bearer_value K account))"
    and sc: "account = pub \<and> sc = Publish \<or> account = reader \<and> sc = Download"
  shows "authenticate_request K h (ac_account_id reader) sc s = (Inr (), s)"
proof -
  have "length (ac_api_token account) = 32" using c sc by (auto simp: credentials_pair_def)
  then have "parse_authorization (engine K) [bearer_value K account] = Inr (ac_api_token account)"
    using base64_engine.parse_authorization_iff K by (simp add: account_crates_def bearer_value_def)
  then show ?thesis
    using h healthy_reads(1) [OF s] s sc by (auto simp: authenticate_request_def healthy_def account_authenticate_def)
qed

lemma object_runs:
  assumes K: "account_crates K" and s: "healthy K pub reader s" and c: "credentials_pair K pub reader"
    and h: "rq_header rq (ascii ''authorization'') = Inr (Some (bearer_value K account))"
    and op: "account_operation K (rq_method rq) rp = Inr op" and cancel: "rq_cancel rq = Inr ()"
    and sc: "account = pub \<and> operation_scope op = Publish \<or> account = reader \<and> operation_scope op = Download"
  shows "route_account_request K J rq (account_id_text (uuids K) (ac_account_id reader)) rp s = run_operation K J rq op s"
proof -
  have a: "parse_account_id (uuids K) (account_id_text (uuids K) (ac_account_id reader)) = Inr (ac_account_id reader)"
    using K c uuid_library.parse_account_id_iff by (simp add: account_crates_def credentials_pair_def)
  have "account_id_text (uuids K) (ac_account_id reader) \<noteq> []"
    using K c uuid_library.length_hyphenated [of "uuids K" "ac_account_id reader"]
    by (auto simp: account_crates_def credentials_pair_def account_id_text_def)
  moreover have "cancel_request_body rq = Inr ()" using cancel by (simp add: cancel_request_body_def split: option.split)
  ultimately show ?thesis
    using a op healthy_authenticates [where h = "rq_header rq", OF K s c h sc] by (simp add: route_account_request_def)
qed

text \<open>The forwarded request carries the credential, the path and, for a publication, the whole body.\<close>

lemma wire_forwarded:
  assumes "cq_headers rq (ascii ''authorization'') = Some v"
  shows "verb_method (cq_verb rq) = GET \<Longrightarrow> forwarded_get_request (wire_request origin rq) = Inr
      \<lparr>rq_method = GET, rq_path = drop (length origin) (cq_url rq),
       rq_header = (\<lambda>n. Inr ([ascii ''authorization'' \<mapsto> v] n)), rq_body = None, rq_cancel = Inr ()\<rparr>"
    and "cq_body rq \<noteq> [] \<Longrightarrow> length (cq_body rq) \<le> MAX_API_BODY_BYTES \<Longrightarrow> buffered_put_request (wire_request origin rq) = Inr
      \<lparr>rq_method = PUT, rq_path = drop (length origin) (cq_url rq),
       rq_header = (\<lambda>n. Inr ([ascii ''authorization'' \<mapsto> v] n)), rq_body = Some [Inr (cq_body rq)], rq_cancel = Inr ()\<rparr>"
proof -
  have ne: "ascii ''authorization'' \<noteq> ascii ''content-length''" by (simp add: byte_simps)
  have h: "selected_headers (wire_request origin rq) [ascii ''authorization''] = Inr [ascii ''authorization'' \<mapsto> v]"
    using assms ne by (simp add: selected_headers_def wire_request_def)
  show "verb_method (cq_verb rq) = GET \<Longrightarrow> forwarded_get_request (wire_request origin rq) = Inr
      \<lparr>rq_method = GET, rq_path = drop (length origin) (cq_url rq),
       rq_header = (\<lambda>n. Inr ([ascii ''authorization'' \<mapsto> v] n)), rq_body = None, rq_cancel = Inr ()\<rparr>"
    by (simp add: forwarded_get_request_def h) (simp add: wire_request_def)
  assume b: "cq_body rq \<noteq> []" "length (cq_body rq) \<le> MAX_API_BODY_BYTES"
  have l: "MAX_API_BODY_BYTES \<le> U64_MAX" by (simp add: limit_defs)
  have "parse_uint U64_MAX (dec_text (length (cq_body rq))) = Some (length (cq_body rq))"
    using b(2) l by (intro parse_uint_dec_text) simp
  then have "read_bounded_body (wire_request origin rq) MAX_API_BODY_BYTES = Inr (cq_body rq)"
    using b read_chunks_exact [OF l, of "[]" False "[Inr (cq_body rq)]"] by (simp add: read_bounded_body_def wire_request_def is_ok_def)
  then show "buffered_put_request (wire_request origin rq) = Inr
      \<lparr>rq_method = PUT, rq_path = drop (length origin) (cq_url rq),
       rq_header = (\<lambda>n. Inr ([ascii ''authorization'' \<mapsto> v] n)), rq_body = Some [Inr (cq_body rq)], rq_cancel = Inr ()\<rparr>"
    by (simp add: buffered_put_request_def h Let_def) (simp add: wire_request_def)
qed

definition worker_http ::
  "crates \<Rightarrow> json_lib \<Rightarrow> (http_method \<Rightarrow> bytes \<Rightarrow> route) \<Rightarrow> (http_method \<Rightarrow> bytes \<Rightarrow> route) \<Rightarrow> (bytes \<Rightarrow> unit + bool)
     \<Rightarrow> attempt list \<Rightarrow> bytes \<Rightarrow> objects transport" where
  "worker_http K J P R limiter ats origin = over_http (worker_fetch K J P R limiter ats CallAnswered) origin"

definition account_object :: "crates \<Rightarrow> AccountCredentials \<Rightarrow> objects \<Rightarrow> storage" where
  "account_object K account w = w (account_id_text (uuids K) (ac_account_id account))"

lemma worker_forwards:
  assumes K: "account_crates K" and c: "credentials_pair K pub reader"
    and P: "P (verb_method (cq_verb rq)) (drop (length origin) (cq_url rq)) =
      (case rp of None \<Rightarrow> RouteIndex (account_id_text (uuids K) (ac_account_id reader))
       | Some r \<Rightarrow> RouteRecord (account_id_text (uuids K) (ac_account_id reader)) r)"
    and m: "verb_method (cq_verb rq) = GET \<or> verb_method (cq_verb rq) = PUT \<and> rp \<noteq> None"
    and r: "\<And>r. rp = Some r \<Longrightarrow> is_ok (parse_record_id (engine K) r)"
    and f: "(if verb_method (cq_verb rq) = GET then forwarded_get_request (wire_request origin rq)
      else buffered_put_request (wire_request origin rq)) = Inr rq'"
    and s: "account_object_fetch K J R rq' (account_object K reader w) = (resp, s')"
  shows "worker_http K J P R limiter ats origin rq w
    = (Inr (delivered resp), w(account_id_text (uuids K) (ac_account_id reader) := s'))"
proof -
  let ?n = "account_id_text (uuids K) (ac_account_id reader)"
  have a: "parse_account_id (uuids K) ?n = Inr (ac_account_id reader)"
    using K c uuid_library.parse_account_id_iff by (simp add: account_crates_def credentials_pair_def)
  have ne: "?n \<noteq> []"
    using K c uuid_library.length_hyphenated [of "uuids K" "ac_account_id reader"]
    by (auto simp: account_crates_def credentials_pair_def account_id_text_def)
  have w: "rq_method (wire_request origin rq) = verb_method (cq_verb rq)"
    "rq_path (wire_request origin rq) = drop (length origin) (cq_url rq)" by (simp_all add: wire_request_def)
  have "forward_account_request K J R CallAnswered (wire_request origin rq) (ac_account_id reader) w = (Inr resp, w(?n := s'))"
    using f s by (simp add: forward_account_request_def w account_object_def)
  then have "route_public_account_request K J R CallAnswered (wire_request origin rq) ?n rp w = (Inr resp, w(?n := s'))"
    using ne a m r by (auto simp: route_public_account_request_def w split: option.split)
  then show ?thesis
    using P by (cases rp) (simp_all add: worker_http_def over_http_def worker_fetch_def handle_public_request_def w)
qed

lemma object_fetches:
  assumes K: "account_crates K" and s: "healthy K pub reader s" and c: "credentials_pair K pub reader"
    and R: "R (rq_method rq) (rq_path rq) = (case rp of None \<Rightarrow> RouteIndex (account_id_text (uuids K) (ac_account_id reader))
       | Some r \<Rightarrow> RouteRecord (account_id_text (uuids K) (ac_account_id reader)) r)"
    and h: "rq_header rq (ascii ''authorization'') = Inr (Some (bearer_value K account))"
    and op: "account_operation K (rq_method rq) rp = Inr op" and cancel: "rq_cancel rq = Inr ()"
    and sc: "account = pub \<and> operation_scope op = Publish \<or> account = reader \<and> operation_scope op = Download"
    and run: "run_operation K J rq op s = (Inr resp, s')"
  shows "account_object_fetch K J R rq s = (resp, s')"
  using object_runs [where J = J, OF K s c h op cancel sc] R run
  by (cases rp) (simp_all add: account_object_fetch_def handle_account_request_def)

section \<open>What the composition answers\<close>

definition following_revision :: "(bytes \<rightharpoonup> nat \<times> 'x) \<Rightarrow> bytes \<Rightarrow> nat" where
  "following_revision m rid = Suc (case m rid of None \<Rightarrow> 0 | Some (r, _) \<Rightarrow> r)"

definition has_room :: "(bytes \<rightharpoonup> nat \<times> 'x) \<Rightarrow> bytes \<Rightarrow> bool" where
  "has_room m rid \<longleftrightarrow> (case m rid of None \<Rightarrow> card (dom m) < MAX_LIVE_RECORDS | Some (r, _) \<Rightarrow> r < I64_MAX)"

definition live_index :: "(bytes \<rightharpoonup> nat \<times> 'x) \<Rightarrow> LiveRecordIndex" where
  "live_index m = map (\<lambda>k. \<lparr>entry_record_id = k, entry_revision = fst (the (m k))\<rparr>) (sorted_list_of_set (dom m))"

definition api_envelope :: "bytes \<Rightarrow> bytes \<Rightarrow> ApiEnvelope" where
  "api_envelope n c = \<lparr>envelope_version = 1, env_nonce = n, env_ciphertext = c\<rparr>"

lemma find_live_index:
  assumes "finite (dom m)"
  shows "find (\<lambda>e. entry_record_id e = rid) (live_index m)
    = map_option (\<lambda>(r, _). \<lparr>entry_record_id = rid, entry_revision = r\<rparr>) (m rid)"
proof -
  have "find (\<lambda>e. entry_record_id e = rid) (map (\<lambda>k. \<lparr>entry_record_id = k, entry_revision = f k\<rparr>) ks)
      = (if rid \<in> set ks then Some \<lparr>entry_record_id = rid, entry_revision = f rid\<rparr> else None)" for f :: "bytes \<Rightarrow> nat" and ks
    by (induction ks) auto
  then show ?thesis using assms by (auto simp: live_index_def split: option.split)
qed

lemma live_index_payload: "live_index (m(rid \<mapsto> (k, x))) = live_index (m(rid \<mapsto> (k, y)))"
  by (simp add: live_index_def)

lemma request_paths:
  "drop (length (ac_service_origin account)) (index_url K account) = records_path K (ac_account_id account)"
  "drop (length (ac_service_origin account)) (record_url K account rid)
     = records_path K (ac_account_id account) @ ascii ''/'' @ record_id_text (engine K) rid"
  by (simp_all add: index_url_def record_url_def records_path_def)

lemma record_parses:
  assumes "account_crates K" and "length rid = 16"
  shows "parse_record_id (engine K) (record_id_text (engine K) rid) = Inr rid"
  using assms base64_engine.parse_record_id_iff by (simp add: account_crates_def)

lemma list_served:
  assumes K: "account_crates K" and c: "credentials_pair K pub reader" and s: "healthy K pub reader (account_object K reader w)"
    and P: "routes_records K (ac_account_id reader) P" and R: "routes_records K (ac_account_id reader) R"
  shows "worker_http K J P R limiter ats (ac_service_origin reader) (list_request K reader) w =
    (Inr (delivered (json_response J STATUS_OK (index_json (engine K) (index_of (db (account_object K reader w)))))), w)"
proof -
  have auth: "cq_headers (list_request K reader) (ascii ''authorization'') = Some (bearer_value K reader)"
    and g: "verb_method (cq_verb (list_request K reader)) = GET"
    and u: "drop (length (ac_service_origin reader)) (cq_url (list_request K reader)) = records_path K (ac_account_id reader)"
    by (simp_all add: list_request_def verb_method_def request_paths)
  note fw = wire_forwarded(1) [OF auth g, of "ac_service_origin reader", unfolded u]
  have run: "run_operation K J rq ListRecords (account_object K reader w) =
      (Inr (json_response J STATUS_OK (index_json (engine K) (index_of (db (account_object K reader w))))), account_object K reader w)" for rq
    by (simp add: run_operation_def list_records_def healthy_reads(3) [OF s])
  have "account_object_fetch K J R \<lparr>rq_method = GET, rq_path = records_path K (ac_account_id reader),
       rq_header = (\<lambda>n. Inr ([ascii ''authorization'' \<mapsto> bearer_value K reader] n)), rq_body = None, rq_cancel = Inr ()\<rparr> (account_object K reader w)
      = (json_response J STATUS_OK (index_json (engine K) (index_of (db (account_object K reader w)))), account_object K reader w)"
    by (rule object_fetches [where rp = None and account = reader, OF K s c _ _ _ _ _ run])
      (use R in \<open>simp_all add: routes_records_def account_operation_def operation_scope_def\<close>)
  from worker_forwards [where rp = None, OF K c _ _ _ _ this] P g u fw
  show ?thesis by (simp add: routes_records_def account_object_def)
qed

lemma get_served:
  assumes K: "account_crates K" and c: "credentials_pair K pub reader" and s: "healthy K pub reader (account_object K reader w)"
    and P: "routes_records K (ac_account_id reader) P" and R: "routes_records K (ac_account_id reader) R"
    and rid: "length rid = 16" and v: "contents (db (account_object K reader w)) rid = Some (r, n, e)"
  shows "worker_http K J P R limiter ats (ac_service_origin reader) (get_request K reader rid) w =
    (Inr (delivered (etag_response (json_response J STATUS_OK (envelope_json (engine K) (api_envelope n e))) r)), w)"
proof -
  let ?p = "records_path K (ac_account_id reader) @ ascii ''/'' @ record_id_text (engine K) rid"
  let ?resp = "etag_response (json_response J STATUS_OK (envelope_json (engine K) (api_envelope n e))) r"
  have auth: "cq_headers (get_request K reader rid) (ascii ''authorization'') = Some (bearer_value K reader)"
    and g: "verb_method (cq_verb (get_request K reader rid)) = GET"
    and u: "drop (length (ac_service_origin reader)) (cq_url (get_request K reader rid)) = ?p"
    by (simp_all add: get_request_def verb_method_def request_paths)
  note fw = wire_forwarded(1) [OF auth g, of "ac_service_origin reader", unfolded u]
  have run: "run_operation K J rq (GetRecord rid) (account_object K reader w) = (Inr ?resp, account_object K reader w)" for rq
    by (simp add: run_operation_def get_record_def healthy_reads(2) [OF s] v record_of_def into_envelope_def api_envelope_def)
  have "account_object_fetch K J R \<lparr>rq_method = GET, rq_path = ?p,
       rq_header = (\<lambda>n. Inr ([ascii ''authorization'' \<mapsto> bearer_value K reader] n)), rq_body = None, rq_cancel = Inr ()\<rparr> (account_object K reader w)
      = (?resp, account_object K reader w)"
    by (rule object_fetches [where rp = "Some (record_id_text (engine K) rid)" and account = reader, OF K s c _ _ _ _ _ run])
      (use R rid record_parses [OF K rid] in \<open>simp_all add: routes_records_def account_operation_def operation_scope_def\<close>)
  from worker_forwards [where rp = "Some (record_id_text (engine K) rid)", OF K c _ _ _ _ this] P g u fw rid record_parses [OF K rid]
  show ?thesis by (simp add: routes_records_def account_object_def is_ok_def)
qed

lemma json_nonempty: "json_faithful J (envelope_json e v) \<Longrightarrow> json_to_vec J (envelope_json e v) \<noteq> []"
  by (simp add: json_faithful_def envelope_json_def)

lemma put_healthy:
  assumes s: "healthy K pub reader s" and rid: "length rid = 16" and v: "wf_envelope v" and room: "has_room (contents (db s)) rid"
  obtains outcome s' where "put_record rid v s = (Inr outcome, s')" and "outcome_revision outcome = following_revision (contents (db s)) rid"
    and "healthy K pub reader s'"
    and "contents (db s') = (contents (db s))(rid \<mapsto> (following_revision (contents (db s)) rid, env_nonce v, env_ciphertext v))"
proof -
  have r: "ready_store (uuids K) s" "faults s = []" using s by (simp_all add: healthy_def)
  obtain outcome m where sp: "spec_put rid v (contents (db s)) = (Inr outcome, m)"
    and o: "outcome_revision outcome = following_revision (contents (db s)) rid"
      "m = (contents (db s))(rid \<mapsto> (following_revision (contents (db s)) rid, env_nonce v, env_ciphertext v))"
    using room by (cases "contents (db s) rid") (auto simp: spec_put_def has_room_def following_revision_def)
  obtain q s' where p: "put_record rid v s = (q, s')" by (cases "put_record rid v s")
  have q: "q = Inr outcome" "contents (db s') = m" using put_record_spec [OF r(1) rid v p sp] r(2) by auto
  have wf: "wf_db (uuids K) (db s)" "account_row (db s) \<noteq> None" using r(1) by (simp_all add: ready_store_def)
  have "faults s' = []" using put_record_result [OF wf rid v] p q(1) r(2) by (auto simp: put_result_def Let_def)
  moreover have "account_of (db s') = account_of (db s)"
    using put_record_account [OF r(1) rid v] p by (simp add: account_of_def)
  moreover have "ready_store (uuids K) s'" using put_record_effect [OF r(1) rid v] p by simp
  ultimately have "healthy K pub reader s'" using s by (simp add: healthy_def)
  then show thesis using that p q o by simp
qed

lemma put_served:
  assumes K: "account_crates K" and c: "credentials_pair K pub reader" and s: "healthy K pub reader (account_object K reader w)"
    and P: "routes_records K (ac_account_id reader) P" and R: "routes_records K (ac_account_id reader) R"
    and rid: "length rid = 16" and v: "wf_envelope v" "json_faithful J (envelope_json (engine K) v)"
    and put: "put_record rid v (account_object K reader w) = (Inr outcome, s')"
  shows "worker_http K J P R limiter ats (ac_service_origin reader) (put_request K J pub rid v) w =
    (Inr (delivered (mutation_success_response outcome)), w(account_id_text (uuids K) (ac_account_id reader) := s'))"
proof -
  let ?p = "records_path K (ac_account_id reader) @ ascii ''/'' @ record_id_text (engine K) rid"
  let ?b = "json_to_vec J (envelope_json (engine K) v)"
  let ?rq = "\<lparr>rq_method = PUT, rq_path = ?p, rq_header = (\<lambda>n. Inr ([ascii ''authorization'' \<mapsto> bearer_value K pub] n)),
    rq_body = Some [Inr ?b], rq_cancel = Inr ()\<rparr>"
  have e: "base64_engine (engine K)" using K by (simp add: account_crates_def)
  have l: "length ?b \<le> MAX_API_BODY_BYTES" "MAX_API_BODY_BYTES \<le> U64_MAX"
    using envelope_compact_length [OF e v(1)] v(2) by (simp_all add: json_faithful_def limit_defs)
  have auth: "cq_headers (put_request K J pub rid v) (ascii ''authorization'') = Some (bearer_value K pub)"
    and g: "verb_method (cq_verb (put_request K J pub rid v)) = PUT" and b: "cq_body (put_request K J pub rid v) = ?b"
    and u: "drop (length (ac_service_origin reader)) (cq_url (put_request K J pub rid v)) = ?p"
    using c request_paths(2) [of pub K rid] by (simp_all add: put_request_def verb_method_def credentials_pair_def byte_simps)
  note fw = wire_forwarded(2) [OF auth, unfolded b, OF json_nonempty [OF v(2)] l(1), of "ac_service_origin reader", unfolded u]
  have names: "ascii ''authorization'' \<noteq> INTERNAL_OVERSIZED_BODY_HEADER" "ascii ''authorization'' \<noteq> ascii ''content-length''"
    by (simp_all add: INTERNAL_OVERSIZED_BODY_HEADER_def byte_simps)
  have body: "read_bounded_body ?rq MAX_API_BODY_BYTES = Inr ?b"
    using names(2) l read_chunks_exact [OF l(2), of "[]" False "[Inr ?b]"] by (simp add: read_bounded_body_def is_ok_def)
  have run: "run_operation K J ?rq (PutRecord rid) (account_object K reader w) = (Inr (mutation_success_response outcome), s')"
    using names(1) envelope_json_roundtrip [OF e v] put body
    by (simp add: run_operation_def put_record_request_def put_response_def)
  have "account_object_fetch K J R ?rq (account_object K reader w) = (mutation_success_response outcome, s')"
    by (rule object_fetches [where rp = "Some (record_id_text (engine K) rid)" and account = pub, OF K s c _ _ _ _ _ run])
      (use R rid record_parses [OF K rid] in \<open>simp_all add: routes_records_def account_operation_def operation_scope_def\<close>)
  from worker_forwards [where rp = "Some (record_id_text (engine K) rid)", OF K c _ _ _ _ this] P g u fw rid record_parses [OF K rid]
  show ?thesis by (simp add: routes_records_def is_ok_def)
qed

section \<open>The contract of a record service\<close>

text \<open>What a client of one account relies on: the service lists and returns exactly what it stores, and a
  publication that has room is stored under the next revision.\<close>

locale record_service =
  fixes K :: crates and J :: json_lib and T :: "'n transport"
    and pub :: AccountCredentials and reader :: AccountCredentials
    and ready :: "'n \<Rightarrow> bool"
    and stored :: "'n \<Rightarrow> bytes \<Rightarrow> (nat \<times> bytes \<times> bytes) option"
  assumes bounded: "ready n \<Longrightarrow> finite (dom (stored n))"
    and lists: "ready n \<Longrightarrow> json_faithful J (index_json (engine K) (live_index (stored n))) \<Longrightarrow>
      http_list_records K J T reader n = (Inr (live_index (stored n)), n)"
    and gets: "ready n \<Longrightarrow> length rid = 16 \<Longrightarrow> stored n rid = Some (r, nc, c) \<Longrightarrow>
      json_faithful J (envelope_json (engine K) (api_envelope nc c)) \<Longrightarrow>
      http_get_record K J T reader rid n = (Inr (Some \<lparr>fr_envelope = api_envelope nc c, fr_revision = r\<rparr>), n)"
    and puts: "ready n \<Longrightarrow> length rid = 16 \<Longrightarrow> wf_envelope v \<Longrightarrow> json_faithful J (envelope_json (engine K) v) \<Longrightarrow>
      has_room (stored n) rid \<Longrightarrow> \<exists>n'. http_put_record K J T pub rid v n = (Inr (following_revision (stored n) rid), n')
        \<and> ready n' \<and> stored n' = (stored n)(rid \<mapsto> (following_revision (stored n) rid, env_nonce v, env_ciphertext v))"
begin

lemma put_then_attach:
  assumes n: "ready n" and rid: "length rid = 16" and room: "has_room (stored n) rid"
    and v: "wf_envelope v" "json_faithful J (envelope_json (engine K) v)"
    and put: "http_put_record K J T pub rid v n = (Inr k, n')"
    and J: "json_faithful J (index_json (engine K) (live_index ((stored n)(rid \<mapsto> (k, env_nonce v, env_ciphertext v)))))"
    and s: "network s = n'" "clock s = c # r"
    and prev: "hc_record_id previous = rid" "hc_service_revision previous \<le> k"
    and opened: "open_fetched P C reader rid (c\<lparr>nanos := 0\<rparr>) \<lparr>nonce = env_nonce v, ciphertext = env_ciphertext v\<rparr> = Inr d"
    and x: "from_opened P rid k d = Some x" "ct_ssh_enabled x" "ct_endpoint_identity x = hc_endpoint_identity previous"
  shows "refresh_ssh_attachment K J P C T reader previous s = (Inr (ssh_attachment x), s\<lparr>network := n', clock := r\<rparr>)"
proof -
  have k: "k = following_revision (stored n) rid" and n': "ready n'"
    and all: "stored n' = (stored n)(rid \<mapsto> (k, env_nonce v, env_ciphertext v))"
    using puts [OF n rid v room] put by auto
  then have st: "stored n' rid = Some (k, env_nonce v, env_ciphertext v)" by simp
  have av: "api_envelope (env_nonce v) (env_ciphertext v) = v" using v(1) by (cases v) (simp add: api_envelope_def wf_envelope_def)
  have new: "new_envelope (env_nonce v) (env_ciphertext v) = Inr \<lparr>nonce = env_nonce v, ciphertext = env_ciphertext v\<rparr>"
    using v(1) by (simp add: new_envelope_def wf_envelope_def)
  have get: "http_get_record K J T reader (hc_record_id previous) n' = (Inr (Some \<lparr>fr_envelope = v, fr_revision = k\<rparr>), n')"
    using gets [OF n' rid st] v(2) av prev(1) by simp
  show ?thesis
    by (rule refresh_ssh_attachment_run [where indexed = "\<lparr>entry_record_id = rid, entry_revision = k\<rparr>" and d = d and c = c
          and env = "\<lparr>nonce = env_nonce v, ciphertext = env_ciphertext v\<rparr>", OF lists [OF n' J [folded all], folded s(1)] _ _ get [folded s(1)], unfolded s(1)])
      (use find_live_index [OF bounded [OF n'], of rid] st new opened x prev s(2) in simp_all)
qed

end

section \<open>The Worker is a record service\<close>

definition service_ready ::
  "crates \<Rightarrow> (http_method \<Rightarrow> bytes \<Rightarrow> route) \<Rightarrow> (http_method \<Rightarrow> bytes \<Rightarrow> route) \<Rightarrow> AccountCredentials \<Rightarrow> AccountCredentials
     \<Rightarrow> objects \<Rightarrow> bool" where
  "service_ready K P R pub reader w \<longleftrightarrow> account_crates K \<and> credentials_pair K pub reader
     \<and> routes_records K (ac_account_id reader) P \<and> routes_records K (ac_account_id reader) R
     \<and> healthy K pub reader (account_object K reader w)"

lemma index_of_live:
  assumes "wf_db u d"
  shows "index_of d = live_index (contents d)"
proof -
  let ?xs = "sort_key fst (record_rows d)"
  have d: "distinct (map fst (record_rows d))" using assms by (simp add: wf_db_def)
  then have s: "sorted_wrt (<) (map fst ?xs)" by (simp add: strict_sorted_iff sorted_sort_key distinct_map)
  have "set (map fst ?xs) = dom (contents d)" by (simp add: contents_def dom_map_of_conv_image_fst)
  then have keys: "sorted_list_of_set (dom (contents d)) = map fst ?xs"
    using s by (metis sorted_list_of_set.idem_if_sorted_distinct strict_sorted_iff)
  have "(case x of (i, r, _) \<Rightarrow> \<lparr>entry_record_id = i, entry_revision = r\<rparr>) = \<lparr>entry_record_id = fst x, entry_revision = fst (the (contents d (fst x)))\<rparr>"
    if "x \<in> set ?xs" for x
  proof -
    obtain i r y where x: "x = (i, r, y)" by (cases x)
    then have "map_of (record_rows d) i = Some (r, y)" using that by (intro map_of_is_SomeI [OF d]) simp
    then show ?thesis by (simp add: x contents_def)
  qed
  then show ?thesis unfolding index_of_def live_index_def keys by simp
qed

interpretation worker_service: record_service K J "worker_http K J P R limiter ats (ac_service_origin reader)" pub reader
    "service_ready K P R pub reader" "\<lambda>w. contents (db (account_object K reader w))"
  for K J P R limiter ats pub reader
proof
  fix n assume n: "service_ready K P R pub reader n"
  then have K: "account_crates K" and c: "credentials_pair K pub reader" and P: "routes_records K (ac_account_id reader) P"
    and R: "routes_records K (ac_account_id reader) R" and s: "healthy K pub reader (account_object K reader n)"
    by (simp_all add: service_ready_def)
  have e: "base64_engine (engine K)" using K by (simp add: account_crates_def)
  have sc: "ac_api_key_scope reader = Download" "ac_api_key_scope pub = Publish" using c by (simp_all add: credentials_pair_def)
  have wf: "wf_db (uuids K) (db (account_object K reader n))" using s by (simp add: healthy_def ready_store_def)
  note live = index_of_live [OF wf]
  show "finite (dom (contents (db (account_object K reader n))))" by (simp add: contents_def finite_dom_map_of)
  show "http_list_records K J (worker_http K J P R limiter ats (ac_service_origin reader)) reader n
      = (Inr (live_index (contents (db (account_object K reader n)))), n)"
    if "json_faithful J (index_json (engine K) (live_index (contents (db (account_object K reader n)))))"
    unfolding live [symmetric]
    by (rule list_delivered [where T = "worker_http K J P R limiter ats (ac_service_origin reader)" and n = n, OF sc(1) authorization_ok [OF e] list_served [OF K c s P R] e index_of_valid [OF wf] that [folded live]])
  show "http_get_record K J (worker_http K J P R limiter ats (ac_service_origin reader)) reader rid n
      = (Inr (Some \<lparr>fr_envelope = api_envelope nc ct, fr_revision = r\<rparr>), n)"
    if "length rid = 16" "contents (db (account_object K reader n)) rid = Some (r, nc, ct)"
      "json_faithful J (envelope_json (engine K) (api_envelope nc ct))" for rid r nc ct
  proof -
    have "record_checks rid r nc ct \<and> r \<le> I64_MAX" using wf that(2) by (auto simp: wf_db_def contents_def dest: map_of_SomeD)
    then have "wf_envelope (api_envelope nc ct)" "0 < r" "r \<le> I64_MAX" by (auto simp: record_checks_def wf_envelope_def api_envelope_def limit_defs)
    then show ?thesis
      by (intro get_delivered [where T = "worker_http K J P R limiter ats (ac_service_origin reader)" and n = n, OF sc(1) authorization_ok [OF e] get_served [OF K c s P R that(1,2)] e _ that(3)])
  qed
  show "\<exists>n'. http_put_record K J (worker_http K J P R limiter ats (ac_service_origin reader)) pub rid v n
        = (Inr (following_revision (contents (db (account_object K reader n))) rid), n')
      \<and> service_ready K P R pub reader n' \<and> contents (db (account_object K reader n')) = (contents (db (account_object K reader n)))
          (rid \<mapsto> (following_revision (contents (db (account_object K reader n))) rid, env_nonce v, env_ciphertext v))"
    if rid: "length rid = 16" and v: "wf_envelope v" "json_faithful J (envelope_json (engine K) v)"
      and room: "has_room (contents (db (account_object K reader n))) rid" for rid v
  proof -
    obtain outcome s' where p: "put_record rid v (account_object K reader n) = (Inr outcome, s')"
      "outcome_revision outcome = following_revision (contents (db (account_object K reader n))) rid" "healthy K pub reader s'"
      "contents (db s') = (contents (db (account_object K reader n)))
          (rid \<mapsto> (following_revision (contents (db (account_object K reader n))) rid, env_nonce v, env_ciphertext v))"
      by (rule put_healthy [OF s rid v(1) room])
    have "0 < outcome_revision outcome" "outcome_revision outcome \<le> I64_MAX"
      using room p(2) by (auto simp: has_room_def following_revision_def limit_defs split: option.splits)
    from put_delivered [where T = "worker_http K J P R limiter ats (ac_service_origin reader)" and n = n, OF sc(2) authorization_ok [OF e] put_served [OF K c s P R rid v p(1)] this] p n
    show ?thesis by (auto simp: service_ready_def account_object_def)
  qed
qed

end
