(* ===== verification/Tunnel.thy ===== *)
theory Tunnel
  imports Prelude
begin

text \<open>
  \<open>tunnel-protocol/src/lib.rs\<close> and \<open>tcp_forward.rs\<close>: the frames of the update protocol and of TCP
  forwarding. A reader is the byte string the peer sent before it closed its side; a writer returns
  the bytes it sends. Every framed reader is shown to be a canonical codec: it accepts exactly what
  the writer produces under the same capability, so it refuses foreign capabilities, trailing bytes,
  unknown operations and over-long messages.
\<close>

datatype FrameError =
    UnexpectedEof | InvalidMagic | UnsupportedVersion | AuthenticationDenied | UnknownOperation
  | UnknownStatus | TrailingBytes | MessageTooLong | NotUtf8 | ZeroPort | InvalidMarker

type_synonym 'a frame_reader = "bytes \<Rightarrow> FrameError + 'a \<times> bytes"

definition bind_read :: "'a frame_reader \<Rightarrow> ('a \<Rightarrow> 'b frame_reader) \<Rightarrow> 'b frame_reader" where
  "bind_read m f s = (case m s of Inl e \<Rightarrow> Inl e | Inr (a, r) \<Rightarrow> f a r)"

definition return_frame :: "'a \<Rightarrow> 'a frame_reader" where
  "return_frame a s = Inr (a, s)"

definition ensure_read :: "bool \<Rightarrow> FrameError \<Rightarrow> unit frame_reader" where
  "ensure_read c e s = (if c then Inr ((), s) else Inl e)"

definition read_exact :: "nat \<Rightarrow> bytes frame_reader" where
  "read_exact n s = (if length s < n then Inl UnexpectedEof else Inr (take n s, drop n s))"

definition read_int :: "'a::len word frame_reader" where
  "read_int = bind_read (read_exact (LENGTH('a) div 8)) (\<lambda>b. return_frame (from_be_bytes b))"

definition ensure_frame_end :: "unit frame_reader" where
  "ensure_frame_end s = (if s = [] then Inr ((), s) else Inl TrailingBytes)"

definition run_reader :: "'a frame_reader \<Rightarrow> bytes \<Rightarrow> FrameError + 'a" where
  "run_reader m s = (case m s of Inl e \<Rightarrow> Inl e | Inr (a, _) \<Rightarrow> Inr a)"

section \<open>The update protocol\<close>

text \<open>A writer that fails returns its error; the prefix it may have sent before is never a whole frame.\<close>

definition ATTACHED_UPDATE_MAGIC :: bytes where "ATTACHED_UPDATE_MAGIC = ascii ''ATUP''"
definition ATTACHED_UPDATE_PROTOCOL_VERSION :: u8 where "ATTACHED_UPDATE_PROTOCOL_VERSION = 2"
definition MAX_ATTACHED_UPDATE_MESSAGE_LEN :: nat where [limit_defs]: "MAX_ATTACHED_UPDATE_MESSAGE_LEN = 512"
definition UPDATE_OPERATION_ID_BYTES :: nat where [limit_defs]: "UPDATE_OPERATION_ID_BYTES = 16"

record UpdateVersion =
  uv_major :: u32
  uv_minor :: u32
  uv_patch :: u32

datatype AttachedUpdateRequest = Start | Confirm (operation_id: bytes) (observed_version: UpdateVersion)

datatype AttachedUpdateResponse =
  Restarting bytes UpdateVersion u16 | Committed UpdateVersion | Current UpdateVersion | Failed bytes | Busy | Waiting

definition write_attached_version :: "UpdateVersion \<Rightarrow> bytes" where
  "write_attached_version v = to_be_bytes (uv_major v) @ to_be_bytes (uv_minor v) @ to_be_bytes (uv_patch v)"

definition read_attached_version :: "UpdateVersion frame_reader" where
  "read_attached_version =
     bind_read read_int (\<lambda>a. bind_read read_int (\<lambda>b. bind_read read_int (\<lambda>c.
       return_frame \<lparr>uv_major = a, uv_minor = b, uv_patch = c\<rparr>)))"

definition write_attached_update_request_prefix :: "u8 \<Rightarrow> bytes \<Rightarrow> bytes" where
  "write_attached_update_request_prefix operation secret =
     ATTACHED_UPDATE_MAGIC @ [ATTACHED_UPDATE_PROTOCOL_VERSION] @ [operation] @ secret"

definition write_attached_update_start_request :: "bytes \<Rightarrow> bytes" where
  "write_attached_update_start_request secret = write_attached_update_request_prefix 0 secret"

definition write_attached_update_confirm_request :: "bytes \<Rightarrow> bytes \<Rightarrow> UpdateVersion \<Rightarrow> bytes" where
  "write_attached_update_confirm_request secret oid v =
     write_attached_update_request_prefix 1 secret @ oid @ write_attached_version v"

definition read_attached_update_request :: "bytes \<Rightarrow> AttachedUpdateRequest frame_reader" where
  "read_attached_update_request expected_secret =
     bind_read (read_exact 4) (\<lambda>magic.
     bind_read (ensure_read (magic = ATTACHED_UPDATE_MAGIC) InvalidMagic) (\<lambda>_.
     bind_read read_int (\<lambda>version.
     bind_read (ensure_read (version = ATTACHED_UPDATE_PROTOCOL_VERSION) UnsupportedVersion) (\<lambda>_.
     bind_read read_int (\<lambda>operation.
     bind_read (read_exact 32) (\<lambda>supplied.
     bind_read (ensure_read (expected_secret = supplied) AuthenticationDenied) (\<lambda>_.
     bind_read
       (if (operation :: u8) = 0 then return_frame Start
        else if operation = 1 then
          bind_read (read_exact UPDATE_OPERATION_ID_BYTES) (\<lambda>oid.
          bind_read read_attached_version (\<lambda>v. return_frame (Confirm oid v)))
        else (\<lambda>_. Inl UnknownOperation)) (\<lambda>request.
     bind_read ensure_frame_end (\<lambda>_. return_frame request)))))))))"

definition write_attached_update_response :: "AttachedUpdateResponse \<Rightarrow> FrameError + bytes" where
  "write_attached_update_response response =
     bind_result (case response of
         Restarting oid v timeout \<Rightarrow> Inr ([0] @ oid @ write_attached_version v @ to_be_bytes timeout)
       | Committed v \<Rightarrow> Inr ([1] @ write_attached_version v)
       | Current v \<Rightarrow> Inr ([2] @ write_attached_version v)
       | Failed message \<Rightarrow>
           if length message \<le> MAX_ATTACHED_UPDATE_MESSAGE_LEN
           then Inr ([3] @ to_be_bytes (word_of_nat (length message) :: u16) @ message) else Inl MessageTooLong
       | Busy \<Rightarrow> Inr [4]
       | Waiting \<Rightarrow> Inr [5])
       (\<lambda>body. Inr (ATTACHED_UPDATE_MAGIC @ [ATTACHED_UPDATE_PROTOCOL_VERSION] @ body))"

definition read_response_body :: "u8 \<Rightarrow> AttachedUpdateResponse frame_reader" where
  "read_response_body status =
     (if status = 0 then
        bind_read (read_exact UPDATE_OPERATION_ID_BYTES) (\<lambda>oid. bind_read read_attached_version (\<lambda>v.
        bind_read read_int (\<lambda>timeout. return_frame (Restarting oid v timeout))))
      else if status = 1 then bind_read read_attached_version (\<lambda>v. return_frame (Committed v))
      else if status = 2 then bind_read read_attached_version (\<lambda>v. return_frame (Current v))
      else if status = 3 then
        bind_read read_int (\<lambda>w :: u16. bind_read (ensure_read (unat w \<le> MAX_ATTACHED_UPDATE_MESSAGE_LEN) MessageTooLong) (\<lambda>_.
        bind_read (read_exact (unat w)) (\<lambda>message. bind_read (ensure_read (utf8_valid message) NotUtf8) (\<lambda>_.
        return_frame (Failed message)))))
      else if status = 4 then return_frame Busy
      else if status = 5 then return_frame Waiting
      else (\<lambda>_. Inl UnknownStatus))"

definition read_attached_update_response :: "AttachedUpdateResponse frame_reader" where
  "read_attached_update_response =
     bind_read (read_exact 4) (\<lambda>magic.
     bind_read (ensure_read (magic = ATTACHED_UPDATE_MAGIC) InvalidMagic) (\<lambda>_.
     bind_read read_int (\<lambda>version.
     bind_read (ensure_read (version = ATTACHED_UPDATE_PROTOCOL_VERSION) UnsupportedVersion) (\<lambda>_.
     bind_read read_int (\<lambda>status.
     bind_read (read_response_body status) (\<lambda>response.
     bind_read ensure_frame_end (\<lambda>_. return_frame response)))))))"

section \<open>TCP forwarding\<close>

definition write_tcp_forward_request :: "bytes \<Rightarrow> u16 \<Rightarrow> FrameError + bytes" where
  "write_tcp_forward_request capability remote_port =
     (if remote_port = 0 then Inl ZeroPort else Inr (capability @ to_be_bytes remote_port))"

definition read_tcp_forward_request :: "bytes \<Rightarrow> u16 frame_reader" where
  "read_tcp_forward_request expected =
     bind_read (read_exact 32) (\<lambda>supplied.
     bind_read (ensure_read (expected = supplied) AuthenticationDenied) (\<lambda>_.
     bind_read read_int (\<lambda>port.
     bind_read (ensure_read (port \<noteq> 0) ZeroPort) (\<lambda>_.
     bind_read ensure_frame_end (\<lambda>_. return_frame port)))))"

datatype TcpForwardStatus = Ready | ConnectionFailed

definition write_tcp_forward_status :: "TcpForwardStatus \<Rightarrow> bytes" where
  "write_tcp_forward_status s = [case s of Ready \<Rightarrow> 0 | ConnectionFailed \<Rightarrow> 1]"

definition read_tcp_forward_status :: "TcpForwardStatus frame_reader" where
  "read_tcp_forward_status = bind_read read_int (\<lambda>b.
     if (b :: u8) = 0 then return_frame Ready
     else if b = 1 then return_frame ConnectionFailed else (\<lambda>_. Inl UnknownStatus))"

definition write_tcp_forward_open :: bytes where
  "write_tcp_forward_open = [0]"

definition read_tcp_forward_open :: "unit frame_reader" where
  "read_tcp_forward_open = bind_read read_int (\<lambda>b. ensure_read ((b :: u8) = 0) InvalidMarker)"

section \<open>Readers described by what they consume\<close>

named_theorems read_iff "what a reader accepts, as the shape of its input"

lemma bind_read_iff [read_iff]:
  "bind_read m f s = Inr (b, r) \<longleftrightarrow> (\<exists>a q. m s = Inr (a, q) \<and> f a q = Inr (b, r))"
  by (auto simp: bind_read_def split: sum.splits)

lemma return_frame_iff [read_iff]: "return_frame a s = Inr (b, r) \<longleftrightarrow> b = a \<and> r = s"
  by (auto simp: return_frame_def)

lemma ensure_read_iff [read_iff]: "ensure_read c e s = Inr (u, r) \<longleftrightarrow> c \<and> r = s"
  by (auto simp: ensure_read_def)

lemma read_exact_iff [read_iff]: "read_exact n s = Inr (x, r) \<longleftrightarrow> s = x @ r \<and> length x = n"
  by (auto simp: read_exact_def not_less)

lemma ensure_frame_end_iff [read_iff]: "ensure_frame_end s = Inr (u, r) \<longleftrightarrow> s = [] \<and> r = []"
  by (auto simp: ensure_frame_end_def)

lemma read_int_iff:
  assumes "8 dvd LENGTH('a)"
  shows "read_int s = Inr (w :: 'a::len word, r) \<longleftrightarrow> s = to_be_bytes w @ r"
proof
  assume "read_int s = Inr (w, r)"
  then obtain x where "s = x @ r" "length x = LENGTH('a) div 8" "w = from_be_bytes x"
    by (auto simp: read_int_def read_iff)
  then show "s = to_be_bytes w @ r" using to_from_be_bytes [OF assms, of x] by simp
next
  assume "s = to_be_bytes w @ r"
  then show "read_int s = Inr (w, r)"
    using from_to_be_bytes [OF assms, of w] by (auto simp: read_int_def read_iff)
qed

lemma read_u8_iff [read_iff]: "read_int s = Inr (w :: u8, r) \<longleftrightarrow> s = w # r"
  using read_int_iff [of s w r] by (simp add: to_be_bytes_def)

lemma read_u16_iff [read_iff]: "read_int s = Inr (w :: u16, r) \<longleftrightarrow> s = to_be_bytes w @ r"
  by (rule read_int_iff) simp

lemma read_u32_iff [read_iff]: "read_int s = Inr (w :: u32, r) \<longleftrightarrow> s = to_be_bytes w @ r"
  by (rule read_int_iff) simp

lemma read_version_iff [read_iff]:
  "read_attached_version s = Inr (v, r) \<longleftrightarrow> s = write_attached_version v @ r"
  by (cases v) (auto simp: read_attached_version_def write_attached_version_def read_iff)

lemma run_reader_iff: "run_reader m s = Inr a \<longleftrightarrow> (\<exists>r. m s = Inr (a, r))"
  by (auto simp: run_reader_def split: sum.splits)

section \<open>The frames are canonical\<close>

definition write_request :: "bytes \<Rightarrow> AttachedUpdateRequest \<Rightarrow> FrameError + bytes" where
  "write_request secret r = Inr (case r of
     Start \<Rightarrow> write_attached_update_start_request secret
   | Confirm oid v \<Rightarrow> write_attached_update_confirm_request secret oid v)"

definition wf_request :: "bytes \<Rightarrow> AttachedUpdateRequest \<Rightarrow> bool" where
  "wf_request secret r \<longleftrightarrow> length secret = 32 \<and>
     (case r of Start \<Rightarrow> True | Confirm oid v \<Rightarrow> length oid = UPDATE_OPERATION_ID_BYTES)"

definition wf_response :: "AttachedUpdateResponse \<Rightarrow> bool" where
  "wf_response r = (case r of Restarting oid _ _ \<Rightarrow> length oid = UPDATE_OPERATION_ID_BYTES
     | Failed m \<Rightarrow> utf8_valid m \<and> length m \<le> MAX_ATTACHED_UPDATE_MESSAGE_LEN | _ \<Rightarrow> True)"

lemma magic_length [simp]: "length ATTACHED_UPDATE_MAGIC = 4"
  by (simp add: ATTACHED_UPDATE_MAGIC_def)

lemma read_request_iff:
  "run_reader (read_attached_update_request secret) s = Inr r \<longleftrightarrow>
     wf_request secret r \<and> write_request secret r = Inr s"
  unfolding run_reader_iff read_attached_update_request_def read_iff
  by (cases r) (auto simp: read_iff wf_request_def write_request_def write_attached_update_start_request_def
      write_attached_update_confirm_request_def write_attached_update_request_prefix_def split: if_splits,
      intro exI [of _ "[]"] exI [of _ 0], simp)

lemma message_length_word: "length m \<le> MAX_ATTACHED_UPDATE_MESSAGE_LEN \<Longrightarrow> unat (word_of_nat (length m) :: u16) = length m"
  by (simp add: unat_of_nat limit_defs)

definition response_body :: "AttachedUpdateResponse \<Rightarrow> bytes" where
  "response_body r = (case r of
     Restarting oid v timeout \<Rightarrow> [0] @ oid @ write_attached_version v @ to_be_bytes timeout
   | Committed v \<Rightarrow> [1] @ write_attached_version v
   | Current v \<Rightarrow> [2] @ write_attached_version v
   | Failed m \<Rightarrow> [3] @ to_be_bytes (word_of_nat (length m) :: u16) @ m
   | Busy \<Rightarrow> [4] | Waiting \<Rightarrow> [5])"

lemma write_response_wf:
  "wf_response r \<Longrightarrow> write_attached_update_response r =
     Inr (ATTACHED_UPDATE_MAGIC @ [ATTACHED_UPDATE_PROTOCOL_VERSION] @ response_body r)"
  by (cases r) (simp_all add: write_attached_update_response_def wf_response_def response_body_def)

lemma status_cases:
  "(st :: u8) = 0 \<or> st = 1 \<or> st = 2 \<or> st = 3 \<or> st = 4 \<or> st = 5 \<or> st \<notin> {0, 1, 2, 3, 4, 5}"
  by blast

lemma read_body_sound:
  "read_response_body st q = Inr (r, t) \<Longrightarrow> wf_response r \<and> st # q = response_body r @ t"
  using status_cases [of st]
  by (elim disjE) (auto simp: read_response_body_def read_iff wf_response_def response_body_def)

lemma read_body_complete:
  "wf_response r \<Longrightarrow> read_response_body (hd (response_body r)) (tl (response_body r)) = Inr (r, [])"
  by (cases r) (auto simp: read_response_body_def read_iff wf_response_def response_body_def message_length_word)

lemma read_response_iff:
  "run_reader read_attached_update_response s = Inr r \<longleftrightarrow>
     wf_response r \<and> write_attached_update_response r = Inr s"
proof
  assume "run_reader read_attached_update_response s = Inr r"
  then obtain st q where s: "s = ATTACHED_UPDATE_MAGIC @ [ATTACHED_UPDATE_PROTOCOL_VERSION] @ st # q"
    and b: "read_response_body st q = Inr (r, [])"
    by (auto simp: run_reader_iff read_attached_update_response_def read_iff)
  show "wf_response r \<and> write_attached_update_response r = Inr s"
    using read_body_sound [OF b] s write_response_wf by simp
next
  assume a: "wf_response r \<and> write_attached_update_response r = Inr s"
  obtain st q where b: "response_body r = st # q" by (cases r) (auto simp: response_body_def)
  then have "read_response_body st q = Inr (r, [])" using read_body_complete [of r] a by simp
  moreover have "s = ATTACHED_UPDATE_MAGIC @ [ATTACHED_UPDATE_PROTOCOL_VERSION] @ st # q"
    using a b write_response_wf [of r] by simp
  ultimately show "run_reader read_attached_update_response s = Inr r"
    by (auto simp: run_reader_iff read_attached_update_response_def read_iff)
qed

lemma read_tcp_request_iff:
  "run_reader (read_tcp_forward_request cap) s = Inr port \<longleftrightarrow>
     length cap = 32 \<and> write_tcp_forward_request cap port = Inr s"
  by (auto simp: run_reader_iff read_tcp_forward_request_def write_tcp_forward_request_def read_iff)

interpretation update_request: canonical_codec "write_request secret"
    "run_reader (read_attached_update_request secret)" "wf_request secret" for secret
  by unfold_locales (rule read_request_iff)

interpretation update_response: canonical_codec write_attached_update_response
    "run_reader read_attached_update_response" wf_response
  by unfold_locales (rule read_response_iff)

interpretation tcp_request: canonical_codec "write_tcp_forward_request cap"
    "run_reader (read_tcp_forward_request cap)" "\<lambda>_. length cap = 32" for cap
  by unfold_locales (auto simp: read_tcp_request_iff)

section \<open>Properties\<close>

text \<open>C26: the update request reader accepts exactly the frames the writer sends under the same 32-byte
  capability, and the update response reader exactly the frames of well-formed responses; so a frame
  has one meaning, and truncated frames, trailing bytes, a foreign capability, unknown operations and
  over-long or non-UTF-8 messages are refused.\<close>

theorem update_frames_canonical:
  "(run_reader (read_attached_update_request secret) s = Inr request \<longleftrightarrow>
      wf_request secret request \<and> write_request secret request = Inr s) \<and>
   (run_reader read_attached_update_response s = Inr response \<longleftrightarrow>
      wf_response response \<and> write_attached_update_response response = Inr s)"
  using update_request.decode_iff update_response.decode_iff by blast

text \<open>C27: a forwarding connection is opened only for the holder of the capability and to a nonzero port.
  The reader accepts exactly the frame the writer sends, a frame made with another capability is
  refused as such, and every stream status is read back.\<close>

theorem tcp_forward_frames:
  "(run_reader (read_tcp_forward_request cap) s = Inr port \<longleftrightarrow>
      length cap = 32 \<and> port \<noteq> 0 \<and> s = cap @ to_be_bytes port) \<and>
   (length other = 32 \<and> other \<noteq> cap \<longrightarrow>
      run_reader (read_tcp_forward_request cap) (other @ t) = Inl AuthenticationDenied) \<and>
   run_reader read_tcp_forward_status (write_tcp_forward_status st @ t) = Inr st"
proof -
  have "run_reader (read_tcp_forward_request cap) s = Inr port \<longleftrightarrow>
      length cap = 32 \<and> port \<noteq> 0 \<and> s = cap @ to_be_bytes port"
    by (auto simp: read_tcp_request_iff write_tcp_forward_request_def)
  moreover have "run_reader (read_tcp_forward_request cap) (other @ t) = Inl AuthenticationDenied"
    if "length other = 32" "other \<noteq> cap"
    using that by (simp add: run_reader_def read_tcp_forward_request_def bind_read_def read_exact_def ensure_read_def)
  moreover have "run_reader read_tcp_forward_status (write_tcp_forward_status st @ t) = Inr st"
    by (cases st) (auto simp: run_reader_iff read_tcp_forward_status_def write_tcp_forward_status_def read_iff)
  ultimately show ?thesis by blast
qed

theorem tcp_forward_frames_witness:
  "run_reader (read_tcp_forward_request (replicate 32 1)) (replicate 32 2 @ [0, 22]) = Inl AuthenticationDenied"
  using tcp_forward_frames [of "replicate 32 1" "[]" 1 "replicate 32 2" "[0, 22]" Ready] by simp

end
