(* ===== verification/Ssh_State.thy ===== *)
theory Ssh_State
  imports Catalog
begin

text \<open>
  \<open>cli/src/ssh/state.rs\<close> and \<open>cli/src/ssh/account.rs\<close>: who may use SSH on a publisher, the publisher's
  persistent host key, and the consumer's pins of host keys. The output of the operating system's
  account lookup is an input; deriving a key pair from a seed is the parameter \<open>S\<close>. Proved: the host key
  does not change, and a pinned identity is replaced only on explicit request.
\<close>

section \<open>Operating system accounts\<close>

record Account =
  os_uid :: nat
  os_username :: bytes
  os_home :: bytes
  os_shell :: bytes

definition is_absolute :: "bytes \<Rightarrow> bool" where
  "is_absolute p \<longleftrightarrow> p \<noteq> [] \<and> hd p = 47"

definition U32_MAX :: nat where [limit_defs]: "U32_MAX = 4294967295"

definition os_account :: "bytes \<Rightarrow> bytes \<Rightarrow> bytes \<Rightarrow> bytes \<Rightarrow> nat \<Rightarrow> failure + Account" where
  "os_account uid username home shell expected =
     bind_result (ok_or (if utf8_valid uid then parse_uint U32_MAX uid else None) InvalidOsAccount) (\<lambda>u.
     bind_result (ensure (u = expected) InvalidOsAccount) (\<lambda>_.
     bind_result (ensure (utf8_valid username) InvalidOsAccount) (\<lambda>_.
     bind_result (ensure (username \<noteq> [] \<and> list_all (\<lambda>b. is_ascii_alphanumeric b \<or> b = 95 \<or> b = 45 \<or> b = 46) username)
       InvalidOsAccount) (\<lambda>_.
     bind_result (ensure (0 \<notin> set home \<and> 0 \<notin> set shell) InvalidOsAccount) (\<lambda>_.
     bind_result (ensure (is_absolute home \<and> is_absolute shell) InvalidOsAccount) (\<lambda>_.
       Inr \<lparr>os_uid = u, os_username = username, os_home = home, os_shell = shell\<rparr>))))))"

fun split_byte :: "u8 \<Rightarrow> bytes \<Rightarrow> bytes list" where
  "split_byte c [] = [[]]"
| "split_byte c (b # bs) = (if b = c then [] # split_byte c bs
     else case split_byte c bs of [] \<Rightarrow> [[b]] | p # ps \<Rightarrow> (b # p) # ps)"

definition strip_newline :: "bytes \<Rightarrow> bytes" where
  "strip_newline bs = (if bs \<noteq> [] \<and> last bs = 10 then butlast bs else bs)"

definition parse_passwd :: "bytes \<Rightarrow> nat \<Rightarrow> failure + Account" where
  "parse_passwd output uid =
     (let bs = strip_newline output; fields = split_byte 58 bs in
      bind_result (ensure (10 \<notin> set bs) InvalidOsAccount) (\<lambda>_.
      bind_result (ensure (length fields = 7) InvalidOsAccount) (\<lambda>_.
        os_account (fields ! 2) (fields ! 0) (fields ! 5) (fields ! 6) uid)))"

text \<open>One line \<open>key: value\<close> of \<open>dscacheutil\<close>, split at the first separator.\<close>

fun split_field :: "bytes \<Rightarrow> (bytes \<times> bytes) option" where
  "split_field (a # b # r) = (if a = 58 \<and> b = 32 then Some ([], r)
     else map_option (\<lambda>(k, v). (a # k, v)) (split_field (b # r)))"
| "split_field _ = None"

fun directory_fields :: "(bytes \<times> bytes) list \<Rightarrow> bytes list \<Rightarrow> failure + (bytes \<times> bytes) list" where
  "directory_fields found [] = Inr found"
| "directory_fields found (line # r) =
     bind_result (ok_or (split_field line) InvalidOsAccount) (\<lambda>(k, v).
     bind_result (ensure (map_of found k = None) InvalidOsAccount) (\<lambda>_. directory_fields ((k, v) # found) r))"

definition parse_directory :: "bytes \<Rightarrow> nat \<Rightarrow> failure + Account" where
  "parse_directory output uid =
     bind_result (directory_fields [] (filter (\<lambda>line. line \<noteq> []) (split_byte 10 output))) (\<lambda>fields.
     bind_result (ok_or (map_of fields (ascii ''uid'')) InvalidOsAccount) (\<lambda>u.
     bind_result (ok_or (map_of fields (ascii ''name'')) InvalidOsAccount) (\<lambda>n.
     bind_result (ok_or (map_of fields (ascii ''dir'')) InvalidOsAccount) (\<lambda>d.
     bind_result (ok_or (map_of fields (ascii ''shell'')) InvalidOsAccount) (\<lambda>s. os_account u n d s uid)))))"

text \<open>The lookup on Linux: \<open>getent passwd\<close>, given the outcome of running it.\<close>

definition lookup :: "failure + bool \<times> bytes \<Rightarrow> nat \<Rightarrow> failure + Account" where
  "lookup getent uid =
     bind_result getent (\<lambda>(succeeded, out).
     bind_result (ensure succeeded InvalidOsAccount) (\<lambda>_. parse_passwd out uid))"

section \<open>Authorization\<close>

record Policy =
  po_consumer :: bytes
  po_uid :: nat
  po_username :: bytes
  po_home :: bytes
  po_shell :: bytes

definition authorize :: "crates \<Rightarrow> local_crypto \<Rightarrow> json_lib \<Rightarrow> bytes \<Rightarrow> ('z session_scheme, unit) io" where
  "authorize K L J consumer = authorize_consumer K L J consumer"

definition policy ::
  "crates \<Rightarrow> local_crypto \<Rightarrow> json_lib \<Rightarrow> (nat \<Rightarrow> failure + bool \<times> bytes) \<Rightarrow> bytes \<Rightarrow> ('z session_scheme, Policy) io" where
  "policy K L J getent consumer =
     bind_io (authorize K L J consumer) (\<lambda>_.
     bind_io (get_io euid) (\<lambda>uid.
     bind_io (of_result (lookup (getent uid) uid)) (\<lambda>user.
       return_io \<lparr>po_consumer = consumer, po_uid = os_uid user, po_username = os_username user,
         po_home = os_home user, po_shell = os_shell user\<rparr>)))"

definition access_enabled ::
  "crates \<Rightarrow> local_crypto \<Rightarrow> json_lib \<Rightarrow> (nat \<Rightarrow> failure + bool \<times> bytes) \<Rightarrow> bytes \<Rightarrow> ('z session_scheme, bool) io" where
  "access_enabled K L J getent consumer =
     bind_io (try_io (policy K L J getent consumer)) (\<lambda>r. return_io (is_ok r))"

section \<open>The host key\<close>

definition HOST_KEY :: bytes where "HOST_KEY = ascii ''ssh-host.key''"
definition HOST_KEY_LOCK :: bytes where "HOST_KEY_LOCK = ascii ''ssh-host.lock''"

definition host_key ::
  "local_crypto \<Rightarrow> (bytes \<Rightarrow> failure + 'k) \<Rightarrow> bool list \<Rightarrow> bytes \<Rightarrow> ('z disk_scheme, 'k) io" where
  "host_key L S polls master =
     with_exclusive_lock_until polls HOST_KEY_LOCK (
       bind_io (read_secret_optional_bounded HOST_KEY (stored_limit 32)) (\<lambda>stored.
       bind_io (case stored of
           Some bs \<Rightarrow> of_result (open_secret L master SshHost bs 32)
         | None \<Rightarrow> bind_io (random_bytes 32) (\<lambda>seed.
             bind_io (seal L master SshHost seed 32) (\<lambda>sealed.
             bind_io (atomic_replace HOST_KEY sealed) (\<lambda>_. return_io seed)))) (\<lambda>seed.
       bind_io (ensure_io (length seed = 32) SecretFormat) (\<lambda>_. of_result (S seed)))))"

section \<open>Pins\<close>

definition PINS_FILE :: bytes where "PINS_FILE = ascii ''ssh-pins.json''"
definition PINS_LOCK :: bytes where "PINS_LOCK = ascii ''ssh-pins.lock''"
definition MAX_PINS_BYTES :: nat where [limit_defs]: "MAX_PINS_BYTES = 1024 * 1024"

type_synonym pins = "(bytes \<times> bytes \<times> bytes) list"

definition pin_read :: "json \<Rightarrow> (bytes \<times> bytes) option" where
  "pin_read j = (case j of
     JArray [u, h] \<Rightarrow> (case (json_string_owned u, json_string_owned h) of
       (Some user, Some hk) \<Rightarrow> Some (user, hk) | _ \<Rightarrow> None)
   | _ \<Rightarrow> None)"

definition pins_read :: "json \<Rightarrow> pins option" where
  "pins_read j = (case j of
     JObject kvs \<Rightarrow> map_option btree_collect (read_all (\<lambda>(k, v). map_option (Pair k) (pin_read v)) kvs)
   | _ \<Rightarrow> None)"

definition pins_json :: "pins \<Rightarrow> json" where
  "pins_json pins = JObject (map (\<lambda>(k, u, h). (k, JArray [JString u False, JString h False])) pins)"

definition read_pins :: "json_lib \<Rightarrow> ('z disk_scheme, pins option) io" where
  "read_pins J =
     bind_io (read_secret_optional_bounded PINS_FILE MAX_PINS_BYTES) (\<lambda>r. case r of
       None \<Rightarrow> return_io None
     | Some bs \<Rightarrow> bind_io (of_result (ok_or (Option.bind (json_from_slice J bs) pins_read) PinStorage)) (\<lambda>p. return_io (Some p)))"

definition check_host_pin :: "json_lib \<Rightarrow> bytes \<Rightarrow> bytes \<Rightarrow> bytes \<Rightarrow> ('z disk_scheme, bool) io" where
  "check_host_pin J peer username hk =
     with_locked_existing PINS_LOCK (
       bind_io (read_pins J) (\<lambda>r. return_io (case r of
         None \<Rightarrow> True
       | Some pins \<Rightarrow> (case map_of pins peer of Some previous \<Rightarrow> previous = (username, hk) | None \<Rightarrow> True))))"

definition pin_host :: "json_lib \<Rightarrow> bytes \<Rightarrow> bytes \<Rightarrow> bytes \<Rightarrow> bool \<Rightarrow> ('z disk_scheme, unit) io" where
  "pin_host J peer username hk trust_new_host_key =
     (let pin = (username, hk) in
      with_exclusive_lock PINS_LOCK (
        bind_io (read_pins J) (\<lambda>r.
        let pins = (case r of Some p \<Rightarrow> p | None \<Rightarrow> []); previous = map_of pins peer in
        bind_io (ensure_io (previous = None \<or> previous = Some pin \<or> trust_new_host_key) HostKeyChanged) (\<lambda>_.
        if previous = Some pin then return_io ()
        else
          let bs = json_to_vec J (pins_json (btree_insert peer pin pins)) in
          bind_io (ensure_io (length bs \<le> MAX_PINS_BYTES) PinStorage) (\<lambda>_.
            atomic_replace PINS_FILE bs)))))"

section \<open>Accounts\<close>

lemma os_account_Inr:
  assumes "os_account uid username home shell expected = Inr a"
  shows "os_uid a = expected \<and> os_username a = username \<and> username \<noteq> [] \<and> 47 \<notin> set username
     \<and> 0 \<notin> set (os_home a) \<and> 0 \<notin> set (os_shell a) \<and> is_absolute (os_home a) \<and> is_absolute (os_shell a)"
proof -
  have "\<not> (is_ascii_alphanumeric 47 \<or> (47 :: u8) = 95 \<or> (47 :: u8) = 45 \<or> (47 :: u8) = 46)"
    by (simp add: is_ascii_alphanumeric_def is_ascii_digit_def is_ascii_lowercase_def is_ascii_uppercase_def byte_simps)
  then have "47 \<notin> set username" if "list_all (\<lambda>b. is_ascii_alphanumeric b \<or> b = 95 \<or> b = 45 \<or> b = 46) username"
    using that unfolding list_all_iff by blast
  then show ?thesis using assms by (auto simp: os_account_def)
qed

lemma policy_uid:
  assumes "policy K L J getent consumer s = (Inr p, t)"
  shows "po_consumer p = consumer \<and> po_uid p = euid t"
  using assms os_account_Inr
  by (fastforce simp: policy_def bind_io_Inr lookup_def parse_passwd_def Let_def split: sum.splits)

section \<open>Pins read back\<close>

lemma pins_roundtrip:
  assumes "btree_ok pins" shows "pins_read (pins_json pins) = Some pins"
proof -
  have "read_all (\<lambda>(k, v). map_option (Pair k) (pin_read v))
      (map (\<lambda>(k, u, h). (k, JArray [JString u False, JString h False])) pins) = Some pins"
    by (rule read_all_map) (auto simp: pin_read_def json_string_owned_def)
  then show ?thesis using btree_collect_id [OF assms] by (simp add: pins_read_def pins_json_def)
qed

lemma pins_read_ok: "pins_read j = Some pins \<Longrightarrow> btree_ok pins"
  by (auto simp: pins_read_def split: json.splits)

definition stored_pins :: "json_lib \<Rightarrow> state_file option \<Rightarrow> pins option" where
  "stored_pins J x = (case x of None \<Rightarrow> Some [] | Some f \<Rightarrow> Option.bind (json_from_slice J (f_data f)) pins_read)"

lemma stored_pins_ok: "stored_pins J x = Some pins \<Longrightarrow> btree_ok pins"
  by (auto simp: stored_pins_def btree_ok_def dest: pins_read_ok split: option.splits bind_splits)

lemma ssh_names:
  "validate_name PINS_FILE = Inr ()" "validate_name PINS_LOCK = Inr ()" "PINS_FILE \<noteq> PINS_LOCK"
  "validate_name HOST_KEY = Inr ()" "validate_name HOST_KEY_LOCK = Inr ()" "HOST_KEY \<noteq> HOST_KEY_LOCK" "hd HOST_KEY_LOCK \<noteq> 46"
  by (simp_all add: validate_name_def PINS_FILE_def PINS_LOCK_def HOST_KEY_def HOST_KEY_LOCK_def path_components_def
      segment_components_def byte_simps)

lemma read_pins_wp:
  fixes t :: "'z disk_scheme"
  assumes t: "entry_is PINS_FILE x u t"
    and Q: "\<And>r v. entry_is PINS_FILE x u v \<Longrightarrow> stored_pins J x = Some (case r of Some p \<Rightarrow> p | None \<Rightarrow> []) \<Longrightarrow> Q r v"
    and E: "\<And>v. entry_is PINS_FILE x u v \<Longrightarrow> E v"
  shows "wp (read_pins J) Q E t"
  unfolding read_pins_def wp_simps
proof (rule read_entry_wp [OF t])
  fix r and v :: "'z disk_scheme" assume v: "entry_is PINS_FILE x u v" and r: "r = map_option f_data x"
  show "wp (case r of None \<Rightarrow> return_io None
      | Some bs \<Rightarrow> bind_io (of_result (ok_or (Option.bind (json_from_slice J bs) pins_read) PinStorage)) (\<lambda>p. return_io (Some p))) Q E v"
    using r Q [OF v] E [OF v] by (cases x) (auto simp: wp_simps stored_pins_def split: sum.splits)
qed (rule E)

definition pinned :: "json_lib \<Rightarrow> bytes \<Rightarrow> bytes \<times> bytes \<Rightarrow> bool \<Rightarrow> state_file option \<Rightarrow> nat \<Rightarrow> bool \<Rightarrow> 'z disk_scheme \<Rightarrow> bool" where
  "pinned J peer pin trust x u ok t \<longleftrightarrow>
     dir t PINS_FILE = x \<and> (ok \<longrightarrow> (\<exists>pins. stored_pins J x = Some pins \<and> map_of pins peer = Some pin))
     \<or> ok \<and> (\<exists>pins. stored_pins J x = Some pins \<and> (map_of pins peer = None \<or> trust)
         \<and> dir t PINS_FILE = Some (private_file u (json_to_vec J (pins_json (btree_insert peer pin pins)))))"

lemma stable_pinned [simp]: "stable (pinned J peer pin trust x u ok)"
  by (simp add: stable_def pinned_def)

lemma pin_host_wp:
  "wp (pin_host J peer username hk trust) (\<lambda>_. pinned J peer (username, hk) trust (dir s PINS_FILE) (euid s) True)
     (pinned J peer (username, hk) trust (dir s PINS_FILE) (euid s) False) s"
proof -
  let ?x = "dir s PINS_FILE" and ?u = "euid s"
  let ?P = "pinned J peer (username, hk) trust ?x ?u" and ?I = "entry_is PINS_FILE ?x ?u"
  have E: "?P False v" if "?I v" for v :: "'a disk_scheme" using that by (simp add: pinned_def entry_is_def)
  have replaced: "wp (atomic_replace PINS_FILE (json_to_vec J (pins_json (btree_insert peer (username, hk) pins)))) (\<lambda>_. ?P True) (?P False) v"
    if "?I v" "stored_pins J ?x = Some pins" "map_of pins peer = None \<or> trust" for pins and v :: "'a disk_scheme"
    by (rule atomic_replace_triple [of v "dir v", THEN triple_wp])
      (use that in \<open>auto simp: at_def entry_is_def pinned_def dest!: leftover_kept\<close>)
  have same: "?P True v" if "?I v" "stored_pins J ?x = Some pins" "map_of pins peer = Some (username, hk)" for pins and v :: "'a disk_scheme"
    using that by (auto simp: pinned_def entry_is_def)
  have body: "wp (bind_io (read_pins J) (\<lambda>r.
        let pins = (case r of Some p \<Rightarrow> p | None \<Rightarrow> []); previous = map_of pins peer in
        bind_io (ensure_io (previous = None \<or> previous = Some (username, hk) \<or> trust) HostKeyChanged) (\<lambda>_.
        if previous = Some (username, hk) then return_io ()
        else let bs = json_to_vec J (pins_json (btree_insert peer (username, hk) pins)) in
          bind_io (ensure_io (length bs \<le> MAX_PINS_BYTES) PinStorage) (\<lambda>_. atomic_replace PINS_FILE bs))))
      (\<lambda>_. ?P True) (?P False) v" if v: "?I v" for v :: "'a disk_scheme"
    unfolding wp_simps
  proof (rule read_pins_wp [OF v])
    fix r :: "pins option" and w :: "'a disk_scheme"
    let ?pins = "case r of Some p \<Rightarrow> p | None \<Rightarrow> []"
    assume w: "?I w" "stored_pins J ?x = Some ?pins"
    show "wp (let pins = ?pins; previous = map_of pins peer in
        bind_io (ensure_io (previous = None \<or> previous = Some (username, hk) \<or> trust) HostKeyChanged) (\<lambda>_.
        if previous = Some (username, hk) then return_io ()
        else let bs = json_to_vec J (pins_json (btree_insert peer (username, hk) pins)) in
          bind_io (ensure_io (length bs \<le> MAX_PINS_BYTES) PinStorage) (\<lambda>_. atomic_replace PINS_FILE bs)))
      (\<lambda>_. ?P True) (?P False) w"
      using E [OF w(1)] same [OF w] replaced [OF w] unfolding Let_def wp_simps
      by (cases "map_of ?pins peer = Some (username, hk)"; cases "map_of ?pins peer"; cases trust; simp add: wp_simps)
  qed (rule E)
  show ?thesis
    unfolding pin_host_def Let_def [of "(username, hk)"]
    by (rule locked_wp(1)) (use ssh_names(3) in \<open>auto simp: same_but_def entry_is_def pinned_def intro!: body\<close>)
qed

lemma check_host_pin_wp:
  "wp (check_host_pin J peer username hk)
     (\<lambda>ok t. dir t PINS_FILE = dir s PINS_FILE \<and> (\<forall>pins. stored_pins J (dir s PINS_FILE) = Some pins
        \<longrightarrow> (ok \<longleftrightarrow> map_of pins peer = None \<or> map_of pins peer = Some (username, hk))))
     (\<lambda>t. dir t PINS_FILE = dir s PINS_FILE) s"
  unfolding check_host_pin_def
proof (rule locked_wp(2))
  fix t assume "same_but PINS_LOCK s t"
  then have t: "entry_is PINS_FILE (dir s PINS_FILE) (euid s) t" using ssh_names(3) by (simp add: same_but_def entry_is_def)
  show "wp (bind_io (read_pins J) (\<lambda>r. return_io (case r of None \<Rightarrow> True
       | Some pins \<Rightarrow> (case map_of pins peer of Some previous \<Rightarrow> previous = (username, hk) | None \<Rightarrow> True))))
     (\<lambda>ok t. dir t PINS_FILE = dir s PINS_FILE \<and> (\<forall>pins. stored_pins J (dir s PINS_FILE) = Some pins
        \<longrightarrow> (ok \<longleftrightarrow> map_of pins peer = None \<or> map_of pins peer = Some (username, hk))))
     (\<lambda>t. dir t PINS_FILE = dir s PINS_FILE) t"
    unfolding wp_simps by (rule read_pins_wp [OF t]) (auto simp: entry_is_def split: option.splits)
  show "dir t PINS_FILE = dir s PINS_FILE" using t by (simp add: entry_is_def)
qed (simp_all add: stable_def)

section \<open>The host key read back\<close>

definition keyed :: "local_crypto \<Rightarrow> (bytes \<Rightarrow> failure + 'k) \<Rightarrow> bytes \<Rightarrow> state_file option \<Rightarrow> nat \<Rightarrow> 'k \<Rightarrow> state_file option \<Rightarrow> bool" where
  "keyed L S mk x u k y \<longleftrightarrow> (\<exists>seed f. y = Some f \<and> (x = None \<longrightarrow> f_owner f = u \<and> f_mode f = 0x180) \<and> (\<forall>g. x = Some g \<longrightarrow> f = g)
     \<and> sealed_as L mk SshHost seed (f_data f) \<and> length seed = 32 \<and> S seed = Inr k)"

lemma host_key_wp:
  assumes L: "local_aead L" "length mk = 32"
  shows "wp (host_key L S polls mk) (\<lambda>k t. keyed L S mk (dir s HOST_KEY) (euid s) k (dir t HOST_KEY))
     (\<lambda>t. dir s HOST_KEY \<noteq> None \<longrightarrow> dir t HOST_KEY = dir s HOST_KEY) s"
proof -
  let ?x = "dir s HOST_KEY" and ?u = "euid s"
  let ?E = "\<lambda>t :: 'a disk_scheme. ?x \<noteq> None \<longrightarrow> dir t HOST_KEY = ?x"
  let ?Q = "\<lambda>k (t :: 'a disk_scheme). keyed L S mk ?x ?u k (dir t HOST_KEY)"
  have fits: "HEADER_BYTES + 32 + TAG_BYTES \<le> U64_MAX" by (simp add: limit_defs)
  define generate :: "('a disk_scheme, bytes) io" where "generate = bind_io (random_bytes 32) (\<lambda>seed.
    bind_io (seal L mk SshHost seed 32) (\<lambda>sealed. bind_io (atomic_replace HOST_KEY sealed) (\<lambda>_. return_io seed)))"
  define derive :: "bytes \<Rightarrow> ('a disk_scheme, 'b) io" where
    "derive = (\<lambda>seed. bind_io (ensure_io (length seed = 32) SecretFormat) (\<lambda>_. of_result (S seed)))"
  have fresh_seed: "wp generate (\<lambda>seed. wp (derive seed) ?Q ?E) ?E v"
    if x: "?x = None" and v: "euid v = ?u" for v :: "'a disk_scheme"
    unfolding generate_def derive_def wp_simps using x
    by (auto simp: at_def private_file_def keyed_def v split: sum.splits
        intro!: random_triple [of v "dir v", THEN triple_wp] seal_wp [of v "dir v"] atomic_replace_triple [of v "dir v", THEN triple_wp])
  have body: "wp (bind_io (read_secret_optional_bounded HOST_KEY (stored_limit 32)) (\<lambda>stored.
      bind_io (case stored of Some bs \<Rightarrow> of_result (open_secret L mk SshHost bs 32) | None \<Rightarrow> generate) derive)) ?Q ?E t"
    if t: "entry_is HOST_KEY ?x ?u t" for t :: "'a disk_scheme"
    unfolding wp_combinators(1)
  proof (rule read_entry_wp [OF t])
    fix r and v :: "'a disk_scheme" assume v: "entry_is HOST_KEY ?x ?u v" and r: "r = map_option f_data ?x"
    show "wp (case r of Some bs \<Rightarrow> of_result (open_secret L mk SshHost bs 32) | None \<Rightarrow> generate)
        (\<lambda>seed. wp (derive seed) ?Q ?E) ?E v"
    proof (cases ?x)
      case None
      then show ?thesis using fresh_seed [of v] v r by (simp add: entry_is_def)
    next
      case (Some f)
      then show ?thesis using v r
        by (auto simp: wp_simps derive_def entry_is_def keyed_def open_secret_iff [OF L fits] split: sum.splits)
    qed
  qed (simp add: entry_is_def)
  show ?thesis
    unfolding host_key_def
  proof (rule locked_wp(3), fold generate_def derive_def)
    fix t assume "same_but HOST_KEY_LOCK s t"
    then have "entry_is HOST_KEY ?x ?u t" using ssh_names(6) by (simp add: same_but_def entry_is_def)
    then show "?E t" and "wp (bind_io (read_secret_optional_bounded HOST_KEY (stored_limit 32)) (\<lambda>stored.
      bind_io (case stored of Some bs \<Rightarrow> of_result (open_secret L mk SshHost bs 32) | None \<Rightarrow> generate) derive)) ?Q ?E t"
      by (simp add: entry_is_def, intro body)
  qed (simp_all add: stable_def)
qed

section \<open>Properties\<close>

text \<open>C38: a pinned identity changes only on request. Whatever system calls fail, an error of \<open>pin_host\<close>
  leaves the pins as they were; success means that the peer had no pin or the same one, or that the
  caller asked to trust the new key, and the stored pins differ from the earlier ones for this peer only.
  A later \<open>check_host_pin\<close> that answers says, for every peer, whether the identity agrees with those pins.\<close>

theorem pin_changes_on_request_only:
  assumes "\<And>pins. stored_pins J (dir s PINS_FILE) = Some pins \<Longrightarrow> json_faithful J (pins_json (btree_insert peer (username, hk) pins))"
  shows "case pin_host J peer username hk trust s of
      (Inl _, t) \<Rightarrow> dir t PINS_FILE = dir s PINS_FILE
    | (Inr _, t) \<Rightarrow> \<exists>before after. stored_pins J (dir s PINS_FILE) = Some before \<and> stored_pins J (dir t PINS_FILE) = Some after
        \<and> map_of after = (map_of before)(peer \<mapsto> (username, hk))
        \<and> (trust \<or> map_of before peer \<in> {None, Some (username, hk)})
        \<and> (\<forall>p u h ok v. check_host_pin J p u h t = (Inr ok, v)
             \<longrightarrow> (ok \<longleftrightarrow> map_of after p \<in> {None, Some (u, h)}) \<and> dir v PINS_FILE = dir t PINS_FILE)"
proof (cases "pin_host J peer username hk trust s")
  case (Pair r t)
  note w = pin_host_wp [of J peer username hk trust s, unfolded wp_def Pair prod.case]
  show ?thesis
  proof (cases r)
    case (Inl e)
    then show ?thesis using w Pair by (simp add: pinned_def)
  next
    case (Inr a)
    then obtain before after where b: "stored_pins J (dir s PINS_FILE) = Some before"
      "stored_pins J (dir t PINS_FILE) = Some after" "map_of after = (map_of before)(peer \<mapsto> (username, hk))"
      "trust \<or> map_of before peer \<in> {None, Some (username, hk)}"
      using w assms by (auto simp: pinned_def stored_pins_def private_file_def json_faithful_def pins_roundtrip
          btree_insert_ok map_of_btree_insert stored_pins_ok fun_upd_idem)
    moreover have "(ok \<longleftrightarrow> map_of after p \<in> {None, Some (u, h)}) \<and> dir v PINS_FILE = dir t PINS_FILE"
      if "check_host_pin J p u h t = (Inr ok, v)" for p u h ok v
      using wp_Inr [OF check_host_pin_wp that] b(2) by auto
    ultimately show ?thesis unfolding Pair Inr prod.case sum.case by blast
  qed
qed

definition sample_pins :: pins where
  "sample_pins = [(ascii ''peer'', ascii ''account'', ascii ''key-one'')]"

definition sample_pins_json :: json_lib where
  "sample_pins_json = \<lparr>json_from_slice = (\<lambda>bs.
     if bs = [1] then Some (pins_json sample_pins)
     else if bs = json_compact (pins_json (btree_insert (ascii ''peer'') (ascii ''account'', ascii ''key-two'') sample_pins))
       then Some (pins_json (btree_insert (ascii ''peer'') (ascii ''account'', ascii ''key-two'') sample_pins)) else None),
     json_to_vec = json_compact\<rparr>"

theorem pin_changes_on_request_only_witness:
  "case pin_host sample_pins_json (ascii ''peer'') (ascii ''account'') (ascii ''key-two'') False
      (sample_disk\<lparr>dir := [PINS_FILE \<mapsto> private_file 1000 [1]]\<rparr>) of
     (r, t) \<Rightarrow> r \<noteq> Inr () \<and> dir t PINS_FILE = Some (private_file 1000 [1])"
proof -
  let ?s = "sample_disk\<lparr>dir := [PINS_FILE \<mapsto> private_file 1000 [1]]\<rparr>"
  have stored: "stored_pins sample_pins_json (dir ?s PINS_FILE) = Some sample_pins"
    using pins_roundtrip [of sample_pins]
    by (simp add: stored_pins_def sample_pins_json_def private_file_def btree_ok_def sample_pins_def)
  have old: "map_of sample_pins (ascii ''peer'') = Some (ascii ''account'', ascii ''key-one'')"
    "ascii ''key-two'' \<noteq> ascii ''key-one''" by (simp_all add: sample_pins_def byte_simps)
  have faithful: "json_faithful sample_pins_json
      (pins_json (btree_insert (ascii ''peer'') (ascii ''account'', ascii ''key-two'') sample_pins))"
    by (simp add: json_faithful_def sample_pins_json_def pins_json_def sample_pins_def byte_simps)
  show ?thesis
    using pin_changes_on_request_only [where J = sample_pins_json and s = ?s and peer = "ascii ''peer''"
        and username = "ascii ''account''" and hk = "ascii ''key-two''" and trust = False] stored old faithful
    by (auto split: prod.splits sum.splits)
qed

text \<open>C39: the publisher's SSH identity persists. A host key that was returned is the one that every later
  successful call with the same master key returns, whatever failed in between and as long as nothing
  else writes the key file; and no call, however it ends, replaces a key file that exists.\<close>

theorem host_key_persists:
  fixes s :: "'z disk_scheme"
  assumes "local_aead L" and "length mk = 32" and "host_key L S polls mk s = (Inr k, t)"
  shows "(\<exists>g. dir t HOST_KEY = Some g)
    \<and> (\<forall>polls' (v :: 'z disk_scheme) g r w. dir v HOST_KEY = Some g \<longrightarrow> host_key L S polls' mk v = (r, w) \<longrightarrow> dir w HOST_KEY = Some g)
    \<and> (\<forall>polls' (v :: 'z disk_scheme) k' w. dir v HOST_KEY = dir t HOST_KEY \<longrightarrow> host_key L S polls' mk v = (Inr k', w) \<longrightarrow> k' = k)"
proof -
  note wp = host_key_wp [OF assms(1,2)]
  have unique: "p = q" if "sealed_as L mk SshHost p e" "sealed_as L mk SshHost q e" "length p = 32" "length q = 32" for p q e
    using that open_secret_iff [OF assms(1,2), of 32 SshHost e] by (simp add: limit_defs) (metis sum.inject(2) order_refl)
  have first: "keyed L S mk (dir s HOST_KEY) (euid s) k (dir t HOST_KEY)" using wp_Inr [OF wp assms(3)] .
  have kept: "dir w HOST_KEY = Some g" if "dir v HOST_KEY = Some g" "host_key L S polls' mk v = (r, w)"
    for polls' g r and v w :: "'z disk_scheme"
    using that wp [of S polls' v] by (cases r) (auto simp: wp_def keyed_def)
  have same: "k' = k" if "dir v HOST_KEY = dir t HOST_KEY" "host_key L S polls' mk v = (Inr k', w)"
    for polls' k' and v w :: "'z disk_scheme"
  proof -
    note v = that
    obtain p f where p: "dir t HOST_KEY = Some f" "sealed_as L mk SshHost p (f_data f)" "length p = 32" "S p = Inr k"
      using first by (auto simp: keyed_def)
    obtain q where q: "sealed_as L mk SshHost q (f_data f)" "length q = 32" "S q = Inr k'"
      using wp_Inr [OF wp v(2)] p(1) v(1) by (auto simp: keyed_def)
    show ?thesis using unique [OF p(2) q(1) p(3) q(2)] p(4) q(3) by simp
  qed
  have "\<exists>g. dir t HOST_KEY = Some g" using first by (auto simp: keyed_def)
  then show ?thesis using kept same by blast
qed

theorem host_key_persists_witness:
  "case host_key sample_local Inr [False] (replicate 32 1) (sample_disk\<lparr>dir := [HOST_KEY \<mapsto> private_file 1000
      (LOCAL_MAGIC @ LOCAL_VERSION # replicate 12 7 @ replicate 32 5 @ replicate 16 0)]\<rparr>) of
     (r, t) \<Rightarrow> r = Inr (replicate 32 5) \<and> (\<forall>k u. host_key sample_local Inr [True, False] (replicate 32 1) t = (Inr k, u) \<longrightarrow> k = replicate 32 5)"
proof -
  let ?e = "LOCAL_MAGIC @ LOCAL_VERSION # replicate 12 7 @ replicate 32 5 @ replicate 16 (0 :: u8)"
  let ?s = "sample_disk\<lparr>dir := [HOST_KEY \<mapsto> private_file 1000 ?e]\<rparr>"
  let ?m = "bind_io (read_secret_optional_bounded HOST_KEY (stored_limit 32)) (\<lambda>stored.
       bind_io (case stored of
           Some bs \<Rightarrow> of_result (open_secret sample_local (replicate 32 1) SshHost bs 32)
         | None \<Rightarrow> bind_io (random_bytes 32) (\<lambda>seed.
             bind_io (seal sample_local (replicate 32 1) SshHost seed 32) (\<lambda>sealed.
             bind_io (atomic_replace HOST_KEY sealed) (\<lambda>_. return_io seed)))) (\<lambda>seed.
       bind_io (ensure_io (length seed = 32) SecretFormat) (\<lambda>_. of_result (Inr seed)))) :: (disk, bytes) io"
  have u: "usable HOST_KEY_LOCK ?s" using ssh_names(6) by (simp add: usable_def sample_disk_def)
  have opened: "open_secret sample_local (replicate 32 1) SshHost ?e 32 = Inr (replicate 32 5)"
    using open_secret_iff [OF sample_local_ok, of "replicate 32 1" 32 SshHost ?e "replicate 32 5"]
    by (simp add: sealed_as_def sample_local_def limit_defs)
  have read: "read_secret_optional_bounded HOST_KEY (stored_limit 32) (locked HOST_KEY_LOCK ?s) = (Inr (Some ?e), locked HOST_KEY_LOCK ?s)"
    using read_quiet(2) [of "locked HOST_KEY_LOCK ?s" HOST_KEY "private_file 1000 ?e" "stored_limit 32"] ssh_names(4,6)
    by (simp add: sample_disk_def stored_limit_def limit_defs acceptable_def private_file_def)
  have run: "?m (locked HOST_KEY_LOCK ?s) = (Inr (replicate 32 5), locked HOST_KEY_LOCK ?s)"
    by (subst run_bind(2) [where m = "read_secret_optional_bounded HOST_KEY (stored_limit 32)" and s = "locked HOST_KEY_LOCK ?s", OF read])
      (simp add: bind_io_def opened of_result_def ensure_io_def)
  have quiet: "os_faults (snd (?m (locked HOST_KEY_LOCK ?s))) = []" unfolding run by (simp add: sample_disk_def)
  have r: "host_key sample_local Inr [False] (replicate 32 1) ?s = (Inr (replicate 32 5), locked HOST_KEY_LOCK ?s)"
    unfolding host_key_def by (rule trans [OF locked_quiet(3) [where m = ?m, OF u ssh_names(5) quiet] run])
  have "k = replicate 32 5" if "host_key sample_local Inr [True, False] (replicate 32 1) (locked HOST_KEY_LOCK ?s) = (Inr k, u)" for k u
    using host_key_persists [OF sample_local_ok _ r] that by (metis length_replicate)
  then show ?thesis unfolding r prod.case by blast
qed

end
