(* ===== verification/Attached_Version.thy ===== *)
theory Attached_Version
  imports Tunnel Ssh_State
begin

text \<open>
  \<open>cli/src/attached_version.rs\<close> and the display of versions in \<open>tunnel-protocol/src/lib.rs\<close>: the version of
  this executable, and the version that another executable prints. Running the executable is an input.
\<close>

text \<open>Arithmetic is evaluated at compile time, where an overflow stops the compilation: \<open>None\<close>.\<close>

fun parse_component :: "nat \<Rightarrow> bytes \<Rightarrow> nat option" where
  "parse_component parsed [] = Some parsed"
| "parse_component parsed (b # bs) =
     (if b < 48 then None
      else let digit = unat b - 48 in
        if parsed * 10 + digit > U32_MAX then None else parse_component (parsed * 10 + digit) bs)"

definition parse_compile_time_component :: "bytes \<Rightarrow> nat option" where
  "parse_compile_time_component value = parse_component 0 value"

definition version_display :: "UpdateVersion \<Rightarrow> bytes" where
  "version_display v = dec_text (unat (uv_major v)) @ [46] @ dec_text (unat (uv_minor v)) @ [46] @ dec_text (unat (uv_patch v))"

definition version_component :: "bytes \<Rightarrow> failure + u32" where
  "version_component bs =
     bind_result (ensure (bs \<noteq> []) InvalidVersion) (\<lambda>_.
     bind_result (ensure (utf8_valid bs) InvalidVersion) (\<lambda>_.
     bind_result (ensure (list_all is_ascii_digit bs) InvalidVersion) (\<lambda>_.
     bind_result (ok_or (parse_uint U32_MAX bs) InvalidVersion) (\<lambda>n. Inr (word_of_nat n)))))"

definition parse_version_output :: "bytes \<Rightarrow> failure + UpdateVersion" where
  "parse_version_output output =
     bind_result (ok_or (strip_prefix (ascii ''attached '') (strip_newline output)) InvalidVersion) (\<lambda>version.
     case split_byte 46 version of
       a # r \<Rightarrow> bind_result (version_component a) (\<lambda>x. case r of
         [] \<Rightarrow> Inl InvalidVersion
       | b # r \<Rightarrow> bind_result (version_component b) (\<lambda>y. case r of
           [] \<Rightarrow> Inl InvalidVersion
         | c # r \<Rightarrow> bind_result (version_component c) (\<lambda>z.
             bind_result (ensure (r = []) InvalidVersion) (\<lambda>_.
               Inr \<lparr>uv_major = x, uv_minor = y, uv_patch = z\<rparr>))))
     | [] \<Rightarrow> Inl InvalidVersion)"

text \<open>\<open>query\<close>: the outcome of running \<open>--version\<close>, as success and standard output.\<close>

definition query :: "failure + bool \<times> bytes \<Rightarrow> failure + UpdateVersion" where
  "query run = bind_result run (\<lambda>(succeeded, out).
     bind_result (ensure succeeded InvalidVersion) (\<lambda>_. parse_version_output out))"

section \<open>What is printed is read back\<close>

lemma dec_text_no_dot: "46 \<notin> set (dec_text n)" "10 \<notin> set (dec_text n)"
  using dec_text_digits [of 46 n] dec_text_digits [of 10 n] by (auto simp: is_ascii_digit_def)

lemma split_byte_last: "c \<notin> set a \<Longrightarrow> split_byte c a = [a]"
  by (induction a) auto

lemma split_byte_append: "c \<notin> set a \<Longrightarrow> split_byte c (a @ c # r) = a # split_byte c r"
  by (induction a) auto

lemma version_component_text: "version_component (dec_text (unat w)) = Inr w"
proof -
  have d: "list_all is_ascii_digit (dec_text (unat w))" using dec_text_digits by (auto simp: list_all_iff)
  then have "is_ascii (dec_text (unat w))"
    by (auto simp: is_ascii_def list_all_iff is_ascii_digit_def word_le_nat_alt word_less_nat_alt)
  then have "utf8_valid (dec_text (unat w))" by (rule ascii_utf8_valid)
  moreover have "unat w < 4294967296" using unsigned_less [of w, where ?'a = nat] by simp
  then have "parse_uint U32_MAX (dec_text (unat w)) = Some (unat w)"
    by (intro parse_uint_dec_text) (simp add: limit_defs)
  moreover have "dec_text (unat w) \<noteq> []" by (cases "dec_text (unat w)") auto
  ultimately show ?thesis using d by (simp add: version_component_def)
qed

lemma version_output_roundtrip:
  "parse_version_output (ascii ''attached '' @ version_display v @ [10]) = Inr v"
proof -
  let ?a = "dec_text (unat (uv_major v))" and ?b = "dec_text (unat (uv_minor v))" and ?c = "dec_text (unat (uv_patch v))"
  have s: "strip_newline (ascii ''attached '' @ version_display v @ [10]) = ascii ''attached '' @ version_display v"
    by (simp add: strip_newline_def butlast_append)
  have "split_byte 46 (version_display v) = [?a, ?b, ?c]"
    using dec_text_no_dot by (simp add: version_display_def split_byte_append split_byte_last)
  then have "parse_version_output (ascii ''attached '' @ version_display v @ [10])
      = Inr \<lparr>uv_major = uv_major v, uv_minor = uv_minor v, uv_patch = uv_patch v\<rparr>"
    unfolding parse_version_output_def s by (simp add: version_component_text)
  then show ?thesis by simp
qed

end
