(* ===== verification/Publisher.thy ===== *)
theory Publisher
  imports Service Attached_Version
begin

text \<open>
  \<open>cli/src/sync/publisher.rs\<close>: a machine publishes a sealed descriptor of itself, again when its inputs
  change and at the latest every 30 seconds, so that a stopped machine disappears within its lifetime of
  90 seconds. Readings of the monotonic clock, in nanoseconds, are the list \<open>instants\<close>. The endpoint's ticket text is
  the platform's, and the version of the executable is a parameter. Together with \<open>Service\<close> this
  closes the circle: what was published is what a consumer's broker attaches to.
\<close>

record 'n station = "'n world" +
  instants :: "nat list"

definition instant_now :: "(('n, 'z) station_scheme, nat) io" where
  "instant_now s = (case instants s of [] \<Rightarrow> (Inl HostPanic, s) | t # r \<Rightarrow> (Inr t, s\<lparr>instants := r\<rparr>))"

definition RECORD_ID_DOMAIN :: bytes where "RECORD_ID_DOMAIN = ascii ''herdr/session-record/v1''"
definition DESCRIPTOR_LIFETIME :: int where [limit_defs]: "DESCRIPTOR_LIFETIME = 90"
definition REPUBLISH_INTERVAL :: nat where [limit_defs]: "REPUBLISH_INTERVAL = 30 * 1000000000"

datatype PublishOutcome = Unchanged | Published (published_revision: nat)

record Publisher =
  pb_account :: AccountCredentials
  pb_record_id :: bytes
  pb_last_input_digest :: "bytes option"
  pb_next_refresh_at :: "nat option"

definition derive_record_id :: "crates \<Rightarrow> bytes \<Rightarrow> bytes \<Rightarrow> bytes" where
  "derive_record_id K aid identity = take 16 (sha256 K (RECORD_ID_DOMAIN @ aid @ identity))"

definition publisher_load :: "crates \<Rightarrow> local_crypto \<Rightarrow> json_lib \<Rightarrow> bytes \<Rightarrow> ('z session_scheme, Publisher) io" where
  "publisher_load K L J identity =
     bind_io (load_account_credentials K L J Publish) (\<lambda>account.
       return_io \<lparr>pb_account = account, pb_record_id = derive_record_id K (ac_account_id account) identity,
         pb_last_input_digest = None, pb_next_refresh_at = None\<rparr>)"

text \<open>The version of this executable, as three 32-bit components, must fit the descriptor's 16-bit ones.\<close>

definition version_part :: "u32 \<Rightarrow> failure + u16" where
  "version_part w = (if unat w < 65536 then Inr (word_of_nat (unat w)) else Inl InvalidVersion)"

definition current_attached_version :: "UpdateVersion \<Rightarrow> failure + AttachedVersion" where
  "current_attached_version current =
     bind_result (version_part (uv_major current)) (\<lambda>a.
     bind_result (version_part (uv_minor current)) (\<lambda>b.
     bind_result (version_part (uv_patch current)) (\<lambda>c. Inr \<lparr>major = a, minor = b, patch = c\<rparr>)))"

definition default_host_label :: "endpoint_ids \<Rightarrow> bytes \<Rightarrow> bytes option" where
  "default_host_label I identity = map_option (\<lambda>text. ascii ''host-'' @ take 12 text) (id_to_string I identity)"

definition length_prefixed :: "bytes \<Rightarrow> bytes" where
  "length_prefixed f = to_be_bytes (word_of_nat (length f) :: u32) @ f"

definition snapshot_input :: "bytes \<Rightarrow> bytes \<Rightarrow> bytes \<Rightarrow> AttachedVersion \<Rightarrow> bool \<Rightarrow> bytes" where
  "snapshot_input label ticket capability version ssh =
     ascii ''attached/host-sync/publisher-input/v1'' @ [0] @ length_prefixed label @ length_prefixed ticket @ capability
     @ to_be_bytes (major version) @ to_be_bytes (minor version) @ to_be_bytes (patch version) @ [if ssh then 1 else 0]"

definition snapshot_digest :: "crates \<Rightarrow> bytes \<Rightarrow> bytes \<Rightarrow> bytes \<Rightarrow> AttachedVersion \<Rightarrow> bool \<Rightarrow> bytes" where
  "snapshot_digest K label ticket capability version ssh = sha256 K (snapshot_input label ticket capability version ssh)"

text \<open>The memoised publication is still current; the clock is read only when the digests agree.\<close>

definition still_current :: "Publisher \<Rightarrow> bytes \<Rightarrow> (('n, 'z) station_scheme, bool) io" where
  "still_current p digest =
     (if pb_last_input_digest p = Some digest then
        (case pb_next_refresh_at p of
           None \<Rightarrow> return_io False
         | Some deadline \<Rightarrow> bind_io instant_now (\<lambda>t. return_io (t < deadline)))
      else return_io False)"

text \<open>The publisher is changed only by a successful publication. The result carries the new publisher.\<close>

definition publish_snapshot ::
  "crates \<Rightarrow> local_crypto \<Rightarrow> json_lib \<Rightarrow> 'ticket platform \<Rightarrow> primitives \<Rightarrow> (nat \<Rightarrow> failure + bool \<times> bytes) \<Rightarrow> UpdateVersion
     \<Rightarrow> 'n transport \<Rightarrow> Publisher \<Rightarrow> bytes \<Rightarrow> 'ticket \<Rightarrow> bytes \<Rightarrow> (('n, 'z) station_scheme, PublishOutcome \<times> Publisher) io" where
  "publish_snapshot K L J P C getent current T p label endpoint capability =
     bind_io (ensure_io (validate_host_label label) InvalidLabel) (\<lambda>_.
     bind_io (of_result (ok_or (ac_authorized_consumer_identity (pb_account p)) InvalidAccount)) (\<lambda>consumer.
     bind_io (access_enabled K L J getent consumer) (\<lambda>ssh.
     bind_io utc_now_seconds (\<lambda>t.
     let ticket = ticket_to_string P endpoint in
     bind_io (of_result (current_attached_version current)) (\<lambda>version.
     let digest = snapshot_digest K label ticket capability version ssh in
     bind_io (still_current p digest) (\<lambda>unchanged.
     if unchanged then return_io (Unchanged, p)
     else
       bind_io instant_now (\<lambda>instant.
       let next_refresh_at = instant + REPUBLISH_INTERVAL; expires = t\<lparr>secs := secs t + DESCRIPTOR_LIFETIME\<rparr> in
       bind_io (ensure_io (representable P (secs expires)) HostPanic) (\<lambda>_.
       bind_io (of_result (map_err (\<lambda>_. InvalidDescriptor) (new_descriptor P label t expires ticket capability version ssh)))
         (\<lambda>descriptor.
       bind_io (try_io (random_bytes NONCE_LEN)) (\<lambda>generated.
       bind_io (of_result (map_err (\<lambda>_. InvalidDescriptor) (seal_host_access_descriptor P C (result_ok generated) descriptor
           (ac_account_root_key (pb_account p)) (ac_account_id (pb_account p)) (pb_record_id p)))) (\<lambda>sealed.
       bind_io (of_result (map_err (\<lambda>_. InvalidDescriptor) (new_api_envelope (nonce sealed) (ciphertext sealed)))) (\<lambda>envelope.
       bind_io (in_network (http_put_record K J T (pb_account p) (pb_record_id p) envelope)) (\<lambda>r.
         return_io (Published r, p\<lparr>pb_last_input_digest := Some digest, pb_next_refresh_at := Some next_refresh_at\<rparr>))))))))))))))"

section \<open>What a publication does\<close>

text \<open>The descriptor a publication at second \<open>t\<close> seals.\<close>

definition snapshot_descriptor ::
  "'ticket platform \<Rightarrow> bytes \<Rightarrow> datetime \<Rightarrow> 'ticket \<Rightarrow> bytes \<Rightarrow> AttachedVersion \<Rightarrow> bool \<Rightarrow> HostAccessDescriptor" where
  "snapshot_descriptor P label t endpoint capability version ssh =
     \<lparr>host_label = label, issued_at = t\<lparr>nanos := 0\<rparr>, expires_at = \<lparr>secs = secs t + DESCRIPTOR_LIFETIME, nanos = 0\<rparr>,
      endpoint_ticket = ticket_to_string P endpoint, attach_capability = capability, attached_version = version, ssh_enabled = ssh\<rparr>"

lemma access_enabled_ready:
  assumes "local_aead L" "length mk = 32" "account_ready L mk encoded s" "parse_bundle K encoded = Inr (Scoped b)"
    and "sb_api_key_scope b = Publish" "ac_authorized_consumer_identity (from_bundle b) = Some consumer"
    and "lookup (getent (euid s)) (euid s) = Inr user"
  shows "access_enabled K L J getent consumer s = (Inr True, s)"
proof -
  have "load_account_optional K L J Publish s = (Inr (Some (from_bundle b)), s)"
    using load_ready [OF assms(1-4)] assms(5)
    by (simp add: load_account_optional_def bind_io_def of_result_def return_io_def into_operational_scope_def into_export_scope_def)
  then have "authorize K L J consumer s = (Inr (), s)"
    using assms(6) by (simp add: authorize_def authorize_consumer_def load_account_credentials_def bind_io_def of_result_def ensure_io_def)
  then show ?thesis
    using assms(7) by (simp add: access_enabled_def policy_def bind_io_def try_io_def of_result_def get_io_def return_io_def is_ok_def)
qed

lemma publish_runs:
  assumes label: "validate_host_label label" and consumer: "ac_authorized_consumer_identity (pb_account p) = Some consumer"
    and access: "access_enabled K L J getent consumer s = (Inr ssh, s)"
    and time: "clock s = t # ts" "instants s = i # is" "os_faults s = []" "24 \<le> length (entropy s)"
    and version: "current_attached_version current = Inr version"
    and new: "pb_last_input_digest p \<noteq> Some (snapshot_digest K label (ticket_to_string P endpoint) capability version ssh)"
    and d: "d = snapshot_descriptor P label t endpoint capability version ssh" "validate P d = Inr ()" "representable P (secs (expires_at d))"
    and env: "seal_host_access_descriptor_with_nonce P C d (ac_account_root_key (pb_account p)) (ac_account_id (pb_account p))
      (pb_record_id p) (take 24 (entropy s)) = Inr env" "new_api_envelope (nonce env) (ciphertext env) = Inr v"
    and put: "http_put_record K J T (pb_account p) (pb_record_id p) v (network s) = (Inr k, n')"
  shows "publish_snapshot K L J P C getent current T p label endpoint capability s =
    (Inr (Published k, p\<lparr>pb_last_input_digest := Some (snapshot_digest K label (ticket_to_string P endpoint) capability version ssh),
        pb_next_refresh_at := Some (i + REPUBLISH_INTERVAL)\<rparr>),
     s\<lparr>network := n', clock := ts, instants := is, entropy := drop 24 (entropy s)\<rparr>)"
proof -
  have nd: "new_descriptor P label (t\<lparr>nanos := 0\<rparr>) (t\<lparr>nanos := 0, secs := secs t + DESCRIPTOR_LIFETIME\<rparr>) (ticket_to_string P endpoint)
      capability version ssh = Inr d"
    using d(1,2) by (cases t) (simp add: new_descriptor_def snapshot_descriptor_def)
  have nl: "NONCE_LEN = 24" by (simp add: limit_defs)
  have sealed: "bind_result (ok_or (Some (take 24 (entropy s))) NonceReuse) (\<lambda>n.
      seal_host_access_descriptor_with_nonce P C d (ac_account_root_key (pb_account p)) (ac_account_id (pb_account p)) (pb_record_id p) n) = Inr env"
    using env(1) by simp
  show ?thesis
    using label consumer access time version new d(3) nd env(2) put sealed
    by (cases s) (simp add: publish_snapshot_def bind_io_def ensure_io_def of_result_def utc_now_seconds_def still_current_def
      instant_now_def return_io_def random_bytes_def syscall_def try_io_def seal_host_access_descriptor_def in_network_def
      Let_def nl d(1) snapshot_descriptor_def)
qed

text \<open>The digest that decides whether to publish again covers every input without ambiguity: two different
  inputs with the same digest are a collision of SHA-256.\<close>

lemma to_be_bytes_inject:
  assumes "8 dvd LENGTH('a)"
  shows "to_be_bytes (a :: 'a::len word) = to_be_bytes b \<longleftrightarrow> a = b"
  by (metis assms from_to_be_bytes)

lemma length_prefixed_inject:
  assumes "length a < 2 ^ 32" "length b < 2 ^ 32"
  shows "length_prefixed a @ x = length_prefixed b @ y \<longleftrightarrow> a = b \<and> x = y"
proof -
  have "(word_of_nat (length a) :: u32) = word_of_nat (length b) \<Longrightarrow> length a = length b"
    using assms by (simp add: word_of_nat_eq_iff take_bit_nat_eq_self)
  then show ?thesis by (auto simp: length_prefixed_def to_be_bytes_inject)
qed

lemma snapshot_input_inject:
  assumes "length l < 2 ^ 32" "length l' < 2 ^ 32" "length t < 2 ^ 32" "length t' < 2 ^ 32" "length c = length c'"
  shows "snapshot_input l t c v ssh = snapshot_input l' t' c' v' ssh' \<longleftrightarrow> l = l' \<and> t = t' \<and> c = c' \<and> v = v' \<and> ssh = ssh'"
proof -
  have "to_be_bytes (major v) @ to_be_bytes (minor v) @ to_be_bytes (patch v) @ [if ssh then 1 else 0]
      = to_be_bytes (major v') @ to_be_bytes (minor v') @ to_be_bytes (patch v') @ [if ssh' then 1 else 0 :: u8]
      \<longleftrightarrow> v = v' \<and> ssh = ssh'"
    by (cases v; cases v') (auto simp: to_be_bytes_inject)
  moreover have "length_prefixed l @ length_prefixed t @ c @ x = length_prefixed l' @ length_prefixed t' @ c' @ y
      \<longleftrightarrow> l = l' \<and> t = t' \<and> c = c' \<and> x = y" for x y
    using assms by (simp only: length_prefixed_inject append_eq_append_conv) simp
  ultimately show ?thesis by (auto simp: snapshot_input_def)
qed

section \<open>Properties\<close>

lemma sealed_for_api:
  assumes C: "kdf_total C" "aead_correct C" and d: "validate P d = Inr ()" "typed_descriptor P d" and n: "length n = 24"
  obtains env where "seal_host_access_descriptor_with_nonce P C d root aid rid n = Inr env" "wf_envelope (api_envelope (nonce env) (ciphertext env))"
    "new_api_envelope (nonce env) (ciphertext env) = Inr (api_envelope (nonce env) (ciphertext env))"
proof -
  have "length (attach_capability d) = 32" using d(2) by (simp add: typed_descriptor_def)
  then obtain env where env: "seal_host_access_descriptor_with_nonce P C d root aid rid n = Inr env"
    using seal_succeeds [OF C d(1) _ n] by blast
  then have "nonce env = n" "length (ciphertext env) \<le> MAX_CIPHERTEXT_BYTES" by (auto elim!: seal_Inr)
  then show thesis using env n by (intro that [of env]) (simp_all add: wf_envelope_def api_envelope_def new_api_envelope_def limit_defs)
qed

lemma live_index_cong: "live_index (m(r \<mapsto> (k, x))) = live_index (m(r \<mapsto> (k, y)))"
  by (auto simp: live_index_def)

text \<open>C4: the circle closes. On a machine whose account is installed and whose service has room, publishing a
  valid snapshot succeeds with the next revision, and from then on every consumer of the account whose
  clock is within the descriptor's time reattaches its broker to exactly what was published: the same
  ticket, capability, expiry and version, at that revision.\<close>

theorem publish_then_attach:
  assumes C: "kdf_total C" "aead_correct C"
    and service: "service_ready K Pub Obj (pb_account p) reader (network s)" "length (pb_record_id p) = 16"
      "m = contents (db (account_object K reader (network s)))" "has_room m (pb_record_id p)" "k = following_revision m (pb_record_id p)"
    and account: "local_aead L" "length mk = 32" "account_ready L mk encoded s" "parse_bundle K encoded = Inr (Scoped b)"
      "pb_account p = from_bundle b" "ac_authorized_consumer_identity (pb_account p) = Some consumer"
      "lookup (getent (euid s)) (euid s) = Inr user"
    and time: "clock s = t # ts" "instants s = i # is" "24 \<le> length (entropy s)"
    and version: "current_attached_version current = Inr version"
    and new: "pb_last_input_digest p \<noteq> Some (snapshot_digest K label (ticket_to_string P endpoint) capability version True)"
    and d: "d = snapshot_descriptor P label t endpoint capability version True" "validate P d = Inr ()" "typed_descriptor P d"
    and json: "\<And>env. seal_host_access_descriptor_with_nonce P C d (ac_account_root_key reader) (ac_account_id reader)
        (pb_record_id p) (take 24 (entropy s)) = Inr env \<Longrightarrow>
        json_faithful J (envelope_json (engine K) (api_envelope (nonce env) (ciphertext env)))"
      "json_faithful J (index_json (engine K) (live_index (m(pb_record_id p \<mapsto> (k, [], [])))))"
  shows "\<exists>p' s'. publish_snapshot K L J P C getent current (worker_http K J Pub Obj limiter ats (ac_service_origin reader)) p
        label endpoint capability s = (Inr (Published k, p'), s') \<and>
    (\<forall>(w :: (objects, 'z) world_scheme) previous c cs. network w = network s' \<and> clock w = c # cs \<and> fresh P d (c\<lparr>nanos := 0\<rparr>)
        \<and> hc_record_id previous = pb_record_id p \<and> endpoint_identity P d = Some (hc_endpoint_identity previous)
        \<and> hc_service_revision previous \<le> k \<longrightarrow>
      (\<exists>a w'. refresh_ssh_attachment K J P C (worker_http K J Pub Obj limiter ats (ac_service_origin reader)) reader previous w = (Inr a, w')
        \<and> connects_to P d a \<and> hc_service_revision a = k))"
proof -
  let ?T = "worker_http K J Pub Obj limiter ats (ac_service_origin reader)" and ?r = "pb_record_id p"
  have pair: "ac_api_key_scope (pb_account p) = Publish" "ac_account_root_key (pb_account p) = ac_account_root_key reader"
    "ac_account_id (pb_account p) = ac_account_id reader"
    using service(1) by (simp_all add: service_ready_def credentials_pair_def)
  have n: "length (take 24 (entropy s)) = 24" using time(3) by simp
  obtain env where env: "seal_host_access_descriptor_with_nonce P C d (ac_account_root_key reader) (ac_account_id reader) ?r (take 24 (entropy s)) = Inr env"
    and v: "wf_envelope (api_envelope (nonce env) (ciphertext env))"
      "new_api_envelope (nonce env) (ciphertext env) = Inr (api_envelope (nonce env) (ciphertext env))"
    by (rule sealed_for_api [OF C d(2,3) n])
  let ?v = "api_envelope (nonce env) (ciphertext env)"
  have e: "\<lparr>nonce = env_nonce ?v, ciphertext = env_ciphertext ?v\<rparr> = env" by (cases env) (simp add: api_envelope_def)
  obtain n' where put: "http_put_record K J ?T (pb_account p) ?r ?v (network s) = (Inr k, n')"
    using worker_service.puts [OF service(1,2) v(1) json(1) [OF env]] service(3-5) by blast
  have access: "access_enabled K L J getent consumer s = (Inr True, s)"
    by (rule access_enabled_ready [OF account(1-4)]) (use account(5-7) pair(1) in \<open>auto simp: from_bundle_def\<close>)
  have lab: "validate_host_label label" using validate_fields(1) [OF d(2)] by (simp add: d(1) snapshot_descriptor_def)
  have rep: "representable P (secs (expires_at d))" and quiet: "os_faults s = []"
    using d(3) account(3) by (simp_all add: typed_descriptor_def account_ready_def usable_def)
  note run = publish_runs [OF lab account(6) access time(1,2) quiet time(3) version new d(1,2) rep env [folded pair(2,3)] v(2) put]
  have "\<exists>a w'. refresh_ssh_attachment K J P C ?T reader previous w = (Inr a, w') \<and> connects_to P d a \<and> hc_service_revision a = k"
    if w: "network w = n'" "clock w = c # cs" and f: "fresh P d (c\<lparr>nanos := 0\<rparr>)"
      and prev: "hc_record_id previous = ?r" "hc_service_revision previous \<le> k" and i: "endpoint_identity P d = Some (hc_endpoint_identity previous)"
    for w :: "(objects, 'z) world_scheme" and previous c cs
  proof -
    have opened: "open_fetched P C reader ?r (c\<lparr>nanos := 0\<rparr>) \<lparr>nonce = env_nonce ?v, ciphertext = env_ciphertext ?v\<rparr> = Inr d"
      using seal_then_open [OF C(2,1) d(3) n env] f unfolding e by (simp add: open_fetched_def)
    obtain x where x: "from_opened P ?r k d = Some x" "ct_ssh_enabled x" "ct_endpoint_identity x = hc_endpoint_identity previous"
      using i d(1) by (auto simp: from_opened_def snapshot_descriptor_def)
    have J: "json_faithful J (index_json (engine K) (live_index (m(?r \<mapsto> (k, env_nonce ?v, env_ciphertext ?v)))))"
      using json(2) by (rule live_index_cong [THEN subst])
    from worker_service.put_then_attach [OF service(1,2) service(4) [unfolded service(3)] v(1) json(1) [OF env] put
        J [unfolded service(3)] w prev opened x] connects_from_opened [OF x(1)]
    show ?thesis by blast
  qed
  then have later: "\<forall>(w :: (objects, 'z) world_scheme) previous c cs. network w = n' \<and> clock w = c # cs \<and> fresh P d (c\<lparr>nanos := 0\<rparr>)
      \<and> hc_record_id previous = ?r \<and> endpoint_identity P d = Some (hc_endpoint_identity previous) \<and> hc_service_revision previous \<le> k \<longrightarrow>
      (\<exists>a w'. refresh_ssh_attachment K J P C ?T reader previous w = (Inr a, w') \<and> connects_to P d a \<and> hc_service_revision a = k)"
    by blast
  obtain p' s' where "publish_snapshot K L J P C getent current ?T p label endpoint capability s = (Inr (Published k, p'), s')" "network s' = n'"
    using run by (cases s) simp
  then show ?thesis using later by blast
qed

text \<open>A machine with the account installed, and a service that holds the record at revision 1.\<close>

definition sample_publisher :: Publisher where
  "sample_publisher = \<lparr>pb_account = from_bundle sample_scoped, pb_record_id = replicate 16 2,
     pb_last_input_digest = None, pb_next_refresh_at = None\<rparr>"

definition sample_records_router :: "http_method \<Rightarrow> bytes \<Rightarrow> route" where
  "sample_records_router m path =
     (let aid = ac_account_id sample_reader; records = records_path sample_account_crates aid; a = account_id_text rfc9562 aid in
      if path = records then RouteIndex a else RouteRecord a (drop (Suc (length records)) path))"

definition sample_objects :: objects where
  "sample_objects n = \<lparr>db = \<lparr>schema_ready = True, account_row = Some (ac_account_id sample_reader,
       service_hash (sha256 sample_account_crates) (ac_api_token (from_bundle sample_scoped)),
       service_hash (sha256 sample_account_crates) (ac_api_token sample_reader)),
     record_rows = [(replicate 16 2, 1, replicate 24 1, [])]\<rparr>, faults = []\<rparr>"

definition sample_station :: "objects station" where
  "sample_station = world.extend (machine.extend
     (session.extend (sample_machine\<lparr>entropy := replicate 24 9,
        dir := [ACCOUNT_LOCK \<mapsto> private_file 1000 [],
          ACCOUNT_FILE \<mapsto> private_file 1000 (LOCAL_MAGIC @ [LOCAL_VERSION] @ replicate 12 0 @ sample_bundle_text @ replicate 16 0)]\<rparr>)
       (machine.fields (disk.extend sample_disk (registry.fields sample_disk []))))
     (world.fields sample_objects [\<lparr>secs = 1700000000, nanos = 5\<rparr>])) (station.fields [7])"

definition sample_getent :: "nat \<Rightarrow> failure + bool \<times> bytes" where
  "sample_getent uid = Inr (True, ascii ''me:x:1000:1000::/home/me:/bin/sh'' @ [10])"

lemma sample_station_fields:
  "network sample_station = sample_objects" "clock sample_station = [\<lparr>secs = 1700000000, nanos = 5\<rparr>]" "instants sample_station = [7]"
  "entropy sample_station = replicate 24 9" "euid sample_station = 1000"
  by (simp_all add: sample_station_def sample_machine_def station.defs world.defs machine.defs session.defs sample_session_evals)

lemma sample_station_account: "account_ready sample_local (replicate 32 1) sample_bundle_text sample_station"
proof -
  have "sealed_as sample_local (replicate 32 1) SyncAccount sample_bundle_text
      (LOCAL_MAGIC @ [LOCAL_VERSION] @ replicate 12 0 @ sample_bundle_text @ replicate 16 0)"
    by (simp add: sealed_as_def sample_local_def exI [of _ "replicate 12 0"])
  moreover have "ACCOUNT_FILE \<noteq> ACCOUNT_LOCK" by (rule account_names)
  ultimately show ?thesis
    using parse_bundle_length [OF sample_bundle_parses(2)]
    by (simp add: account_ready_def usable_def key_ready_def locked_def sample_station_def sample_machine_def station.defs world.defs
        machine.defs sample_session_evals private_file_def acceptable_def)
qed

lemma sample_service_ready:
  "service_ready sample_account_crates sample_records_router sample_records_router (from_bundle sample_scoped) sample_reader sample_objects"
proof -
  have o: "length (ob_account_id sample_owner) = 16" "is_uuid_v7 (uuids sample_account_crates) (ob_account_id sample_owner)"
    "length (ob_publish_api_token sample_owner) = 32" "length (ob_download_api_token sample_owner) = 32"
    "service_hash (sha256 sample_account_crates) (ob_publish_api_token sample_owner) \<noteq> service_hash (sha256 sample_account_crates) (ob_download_api_token sample_owner)"
    using sample_owner_ok by (simp_all add: wf_owner_def sample_account_crates_def)
  have h: "length (service_hash (sha256 sample_account_crates) x) = 32" for x
    by (simp add: service_hash_def domain_hash_def sample_account_crates_def sample_crates_def min_def)
  have c: "credentials_pair sample_account_crates (from_bundle sample_scoped) sample_reader"
    using o by (simp add: credentials_pair_def sample_scoped_def sample_reader_def from_bundle_def scoped_def)
  moreover have "routes_records sample_account_crates (ac_account_id sample_reader) sample_records_router"
    by (simp add: routes_records_def sample_records_router_def Let_def sample_account_crates_def sample_crates_def byte_simps)
  moreover have "healthy sample_account_crates (from_bundle sample_scoped) sample_reader (account_object sample_account_crates sample_reader sample_objects)"
    using o h by (simp add: healthy_def account_object_def sample_objects_def ready_store_def wf_db_def account_of_def record_checks_def
        limit_defs sample_scoped_def sample_reader_def from_bundle_def scoped_def)
  ultimately show ?thesis using sample_bundle_parses(1) by (simp add: service_ready_def)
qed

abbreviation sample_http :: "objects transport" where
  "sample_http \<equiv> worker_http sample_account_crates sample_messages sample_records_router sample_records_router (\<lambda>_. Inr True) []
     (ac_service_origin sample_reader)"

lemma sample_stored:
  "contents (db (account_object sample_account_crates sample_reader (network sample_station))) = [replicate 16 2 \<mapsto> (1, replicate 24 1, [])]"
  by (simp add: sample_station_fields account_object_def sample_objects_def contents_def)

lemma sample_user: "\<exists>user. lookup (sample_getent (euid sample_station)) (euid sample_station) = Inr user"
  by (simp add: sample_station_fields lookup_def sample_getent_def parse_passwd_def strip_newline_def os_account_def byte_simps
      parse_uint_def is_absolute_def is_ascii_alphanumeric_def is_ascii_digit_def is_ascii_lowercase_def is_ascii_uppercase_def limit_defs)

lemma sample_snapshot:
  "current_attached_version \<lparr>uv_major = 0, uv_minor = 3, uv_patch = 9\<rparr> = Inr \<lparr>major = 0, minor = 3, patch = 9\<rparr>"
  "sample_descriptor = snapshot_descriptor sample_platform (ascii ''office'') \<lparr>secs = 1700000000, nanos = 5\<rparr> (ascii ''endpointa'')
      (replicate 32 7) \<lparr>major = 0, minor = 3, patch = 9\<rparr> True"
  by (simp_all add: current_attached_version_def version_part_def)
    (simp add: sample_descriptor_def snapshot_descriptor_def sample_platform_def limit_defs)

lemma sample_envelope_faithful:
  "seal_host_access_descriptor_with_nonce sample_platform sample_primitives sample_descriptor (ac_account_root_key sample_reader)
      (ac_account_id sample_reader) (pb_record_id sample_publisher) (take 24 (entropy sample_station)) = Inr env \<Longrightarrow>
   json_faithful sample_messages (envelope_json (engine sample_account_crates) (api_envelope (nonce env) (ciphertext env)))"
  using sample_messages_faithful(2)
  by (simp add: sample_sealed_def sample_publisher_def sample_station_fields api_envelope_def sample_account_crates_def sample_crates_def)

theorem publish_then_attach_witness:
  "\<exists>p' s' a w'. publish_snapshot sample_account_crates sample_local sample_messages sample_platform sample_primitives sample_getent
        \<lparr>uv_major = 0, uv_minor = 3, uv_patch = 9\<rparr>
        sample_http
        sample_publisher (ascii ''office'') (ascii ''endpointa'') (replicate 32 7) sample_station = (Inr (Published 2, p'), s')
    \<and> refresh_ssh_attachment sample_account_crates sample_messages sample_platform sample_primitives
        sample_http
        sample_reader sample_connection (s'\<lparr>clock := [\<lparr>secs = 1700000030, nanos = 5\<rparr>]\<rparr>) = (Inr a, w')
    \<and> connects_to sample_platform sample_descriptor a \<and> hc_service_revision a = 2"
proof -
  let ?m = "contents (db (account_object sample_account_crates sample_reader (network sample_station)))"
  have ready: "service_ready sample_account_crates sample_records_router sample_records_router (pb_account sample_publisher) sample_reader (network sample_station)"
    using sample_service_ready by (simp add: sample_publisher_def sample_station_fields)
  have room: "has_room ?m (pb_record_id sample_publisher)" "2 = following_revision ?m (pb_record_id sample_publisher)"
    unfolding sample_stored by (simp_all add: has_room_def following_revision_def sample_publisher_def limit_defs)
  obtain consumer where consumer: "ac_authorized_consumer_identity (pb_account sample_publisher) = Some consumer"
    by (simp add: sample_publisher_def from_bundle_def sample_scoped_def scoped_def)
  obtain user where user: "lookup (sample_getent (euid sample_station)) (euid sample_station) = Inr user" using sample_user ..
  have index: "json_faithful sample_messages (index_json (engine sample_account_crates)
      (live_index (?m(pb_record_id sample_publisher \<mapsto> (2, [], [])))))"
    using sample_messages_faithful(1) unfolding sample_stored
    by (simp add: live_index_def sample_publisher_def sample_listing_def sample_account_crates_def sample_crates_def)
  have new: "pb_last_input_digest sample_publisher \<noteq> Some (snapshot_digest sample_account_crates (ascii ''office'')
      (ticket_to_string sample_platform (ascii ''endpointa'')) (replicate 32 7) \<lparr>major = 0, minor = 3, patch = 9\<rparr> True)"
    by (simp add: sample_publisher_def)
  have account: "pb_account sample_publisher = from_bundle sample_scoped" "length (pb_record_id sample_publisher) = 16"
    by (simp_all add: sample_publisher_def)
  have l: "length (replicate 32 (1 :: u8)) = 32" "24 \<le> length (entropy sample_station)" by (simp_all add: sample_station_fields)
  from publish_then_attach [where getent = sample_getent and s = sample_station and limiter = "\<lambda>_. Inr True" and ats = "[]",
      OF sample_primitives_ok ready account(2) refl room sample_local_ok l(1) sample_station_account
      sample_bundle_parses(2) account(1) consumer user sample_station_fields(2,3) l(2) sample_snapshot(1) new sample_snapshot(2) sample_valid sample_envelope_faithful index]
  obtain p' s' where publish: "publish_snapshot sample_account_crates sample_local sample_messages sample_platform sample_primitives sample_getent
        \<lparr>uv_major = 0, uv_minor = 3, uv_patch = 9\<rparr> sample_http sample_publisher (ascii ''office'') (ascii ''endpointa'') (replicate 32 7) sample_station
      = (Inr (Published 2, p'), s')"
    and attach: "\<forall>(w :: objects station) previous c cs. network w = network s' \<and> clock w = c # cs
        \<and> fresh sample_platform sample_descriptor (c\<lparr>nanos := 0\<rparr>) \<and> hc_record_id previous = pb_record_id sample_publisher
        \<and> endpoint_identity sample_platform sample_descriptor = Some (hc_endpoint_identity previous) \<and> hc_service_revision previous \<le> 2 \<longrightarrow>
      (\<exists>a w'. refresh_ssh_attachment sample_account_crates sample_messages sample_platform sample_primitives sample_http sample_reader previous w = (Inr a, w')
        \<and> connects_to sample_platform sample_descriptor a \<and> hc_service_revision a = 2)" by blast
  let ?w = "s'\<lparr>clock := [\<lparr>secs = 1700000030, nanos = 5\<rparr>]\<rparr>"
  have "network ?w = network s'" "clock ?w = [\<lparr>secs = 1700000030, nanos = 5\<rparr>]" by (cases s', simp)+
  moreover have "fresh sample_platform sample_descriptor (\<lparr>secs = 1700000030, nanos = 5\<rparr>\<lparr>nanos := 0\<rparr>)"
    using sample_fresh by (simp add: sample_context_def)
  moreover have "hc_record_id sample_connection = pb_record_id sample_publisher" "hc_service_revision sample_connection \<le> 2"
      "endpoint_identity sample_platform sample_descriptor = Some (hc_endpoint_identity sample_connection)"
    using sample_record_ok(3,6) by (simp_all add: sample_connection_def ssh_attachment_def sample_publisher_def endpoint_identity_def sample_evals)
  ultimately show ?thesis using publish attach by blast
qed

end
