(* ===== verification/Publisher_Descriptor.thy ===== *)
theory Publisher_Descriptor
  imports Publisher
begin

text \<open>
  \<open>cli/src/publisher_descriptor.rs\<close>: the lease of one publisher, which every connection of the SSH broker asks
  for and which is renewed on demand. The mutex makes an operation a step on the lease, so concurrent callers are
  an arbitrary sequence of steps; a call that is cancelled keeps what it wrote. Renewal gets the world only, never the lease, and \<open>cancelled\<close>
  says whether the time limit of a renewal elapses, and in which world it is left then.
\<close>

definition REFRESH_RETRY_DELAY :: nat where [limit_defs]: "REFRESH_RETRY_DELAY = 2 * 1000000000"

record Lease =
  current_lease :: HostConnection
  last_attempt :: "nat option"

definition new_descriptors :: "HostConnection \<Rightarrow> Lease" where
  "new_descriptors h = \<lparr>current_lease = h, last_attempt = None\<rparr>"

text \<open>\<open>free\<close>: whether \<open>try_lock\<close> gets the mutex.\<close>

definition observe :: "bool \<Rightarrow> HostConnection \<Rightarrow> Lease \<Rightarrow> Lease" where
  "observe free h l =
     (if free \<and> hc_endpoint_identity h = hc_endpoint_identity (current_lease l)
         \<and> hc_record_id h = hc_record_id (current_lease l)
         \<and> hc_service_revision h \<ge> hc_service_revision (current_lease l) \<and> h \<noteq> current_lease l
      then l\<lparr>current_lease := h\<rparr> else l)"

section \<open>Renewal\<close>

definition in_world :: "('w, 'a) io \<Rightarrow> (Lease \<times> 'w, 'a) io" where
  "in_world m s = (case m (snd s) of (r, w) \<Rightarrow> (r, (fst s, w)))"

definition set_lease :: "(Lease \<Rightarrow> Lease) \<Rightarrow> (Lease \<times> 'w, unit) io" where
  "set_lease f s = (Inr (), (f (fst s), snd s))"

text \<open>A clock of whole seconds has not reached the end of a lease.\<close>

definition unexpired :: "datetime \<Rightarrow> HostConnection \<Rightarrow> bool" where
  "unexpired t h \<longleftrightarrow> nanos_of t < nanos_of (hc_expires_at h)"

definition cooling_down :: "nat option \<Rightarrow> (('n, 'z) station_scheme, bool) io" where
  "cooling_down attempt = (case attempt of
     None \<Rightarrow> return_io False
   | Some since \<Rightarrow> bind_io instant_now (\<lambda>t. return_io (t - since < REFRESH_RETRY_DELAY)))"

definition within_timeout :: "('w \<Rightarrow> 'w option) \<Rightarrow> ('w, 'a) io \<Rightarrow> ('w, 'a) io" where
  "within_timeout cancelled m w = (case cancelled w of Some w' \<Rightarrow> (Inl Io, w') | None \<Rightarrow> m w)"

definition get_with ::
  "'ticket platform \<Rightarrow> (('n, 'z) station_scheme \<Rightarrow> ('n, 'z) station_scheme option)
     \<Rightarrow> (HostConnection \<Rightarrow> (('n, 'z) station_scheme, HostConnection) io) \<Rightarrow> HostConnection option
     \<Rightarrow> (Lease \<times> ('n, 'z) station_scheme, HostConnection) io" where
  "get_with P cancelled fetch failed =
     bind_io (in_world utc_now_seconds) (\<lambda>t.
     bind_io (get_io (current_lease \<circ> fst)) (\<lambda>current.
     let live = unexpired t current in
     if live \<and> failed \<noteq> Some current then return_io current
     else
       bind_io (get_io (last_attempt \<circ> fst)) (\<lambda>attempt.
       bind_io (in_world (cooling_down attempt)) (\<lambda>cooling.
       if cooling then bind_io (ensure_io live DescriptorExpired) (\<lambda>_. return_io current)
       else
         bind_io (in_world instant_now) (\<lambda>i.
         bind_io (set_lease (\<lambda>l. l\<lparr>last_attempt := Some i\<rparr>)) (\<lambda>_.
         bind_io (in_world (try_io (within_timeout cancelled (fetch current)))) (\<lambda>result.
         bind_io (in_world instant_now) (\<lambda>j.
         bind_io (set_lease (\<lambda>l. l\<lparr>last_attempt := Some j\<rparr>)) (\<lambda>_.
         bind_io (of_result result) (\<lambda>renewed.
         bind_io (ensure_io (hc_endpoint_identity renewed = hc_endpoint_identity current
             \<and> hc_record_id renewed = hc_record_id current) IdentityChanged) (\<lambda>_.
         bind_io (ensure_io (hc_service_revision renewed \<ge> hc_service_revision current) RevisionRegressed) (\<lambda>_.
         bind_io (in_world utc_now_seconds) (\<lambda>t.
         bind_io (ensure_io (unexpired t renewed) DescriptorExpired) (\<lambda>_.
         bind_io (of_result (ok_or (ticket_from_str P (hc_endpoint_ticket renewed)) InvalidDescriptor)) (\<lambda>ticket.
         bind_io (ensure_io (ticket_id P ticket = hc_endpoint_identity renewed) IdentityChanged) (\<lambda>_.
         bind_io (set_lease (\<lambda>l. l\<lparr>current_lease := renewed\<rparr>)) (\<lambda>_. return_io renewed)))))))))))))))))"

definition descriptors_get ::
  "crates \<Rightarrow> json_lib \<Rightarrow> 'ticket platform \<Rightarrow> primitives \<Rightarrow> 'n transport
     \<Rightarrow> (('n, 'z) station_scheme \<Rightarrow> ('n, 'z) station_scheme option) \<Rightarrow> AccountCredentials \<Rightarrow> HostConnection option
     \<Rightarrow> (Lease \<times> ('n, 'z) station_scheme, HostConnection) io" where
  "descriptors_get K J P C T cancelled account failed = get_with P cancelled (refresh_ssh_attachment K J P C T account) failed"

section \<open>Every history of a lease\<close>

text \<open>Whatever callers do, and whatever else happens to the world in between. A call that is cancelled while it waits for its
  renewal has recorded the attempt and nothing else.\<close>

inductive lease_step :: "'ticket platform \<Rightarrow> Lease \<times> ('n, 'z) station_scheme \<Rightarrow> Lease \<times> ('n, 'z) station_scheme \<Rightarrow> bool" for P where
  observed: "lease_step P (l, w) (observe free h l, w)"
| asked: "get_with P cancelled fetch failed (l, w) = (r, s') \<Longrightarrow> lease_step P (l, w) s'"
| abandoned: "lease_step P (l, w) (l\<lparr>last_attempt := Some i\<rparr>, w')"
| elsewhere: "lease_step P (l, w) (l, w')"

inductive_cases lease_stepE: "lease_step P s t"

definition same_publisher :: "HostConnection \<Rightarrow> HostConnection \<Rightarrow> bool" where
  "same_publisher h h' \<longleftrightarrow> hc_endpoint_identity h' = hc_endpoint_identity h \<and> hc_record_id h' = hc_record_id h
     \<and> hc_service_revision h \<le> hc_service_revision h'"

lemma same_publisher_refl [simp]: "same_publisher h h"
  by (simp add: same_publisher_def)

lemma same_publisher_trans: "same_publisher a b \<Longrightarrow> same_publisher b c \<Longrightarrow> same_publisher a c"
  by (auto simp: same_publisher_def)

lemma wp_lease [wp_simps]:
  "wp (in_world m) Q E (l, w) = wp m (\<lambda>a w. Q a (l, w)) (\<lambda>w. E (l, w)) w"
  "wp (set_lease f) Q' E (l, w) = Q' () (f l, w)"
  by (simp_all add: wp_def in_world_def set_lease_def split: prod.split)

lemma wp_clock [wp_simps]:
  "wp utc_now_seconds Q E w = (case clock w of [] \<Rightarrow> E w | t # r \<Rightarrow> Q (t\<lparr>nanos := 0\<rparr>) (w\<lparr>clock := r\<rparr>))"
  "wp instant_now Q' F v = (case instants v of [] \<Rightarrow> F v | t # r \<Rightarrow> Q' t (v\<lparr>instants := r\<rparr>))"
  by (simp_all add: wp_def utc_now_seconds_def instant_now_def split: list.split)

lemma wp_try_run: "wp (try_io m) Q E w = (case m w of (r, w') \<Rightarrow> Q r w')"
  by (simp add: wp_def try_io_def split: prod.split)

text \<open>What a call does: a served lease is unexpired and is either the one held, unchanged, or the renewed one, whose ticket
  names the same endpoint. A failed call leaves the lease itself as it was.\<close>

definition renewed ::
  "'ticket platform \<Rightarrow> (HostConnection \<Rightarrow> (('n, 'z) station_scheme, HostConnection) io) \<Rightarrow> HostConnection \<Rightarrow> datetime list \<Rightarrow> HostConnection \<Rightarrow> bool" where
  "renewed P fetch previous cs a \<longleftrightarrow> same_publisher previous a
     \<and> map_option (ticket_id P) (ticket_from_str P (hc_endpoint_ticket a)) = Some (hc_endpoint_identity a)
     \<and> (\<exists>v v' c r. clock v = cs \<and> fetch previous v = (Inr a, v') \<and> clock v' = c # r \<and> unexpired (c\<lparr>nanos := 0\<rparr>) a)"

definition served ::
  "'ticket platform \<Rightarrow> (HostConnection \<Rightarrow> (('n, 'z) station_scheme, HostConnection) io) \<Rightarrow> Lease \<Rightarrow> datetime list \<Rightarrow> HostConnection \<Rightarrow> Lease \<Rightarrow> bool" where
  "served P fetch l cs a l' \<longleftrightarrow> a = current_lease l' \<and> cs \<noteq> [] \<and>
     (l' = l \<and> unexpired ((hd cs)\<lparr>nanos := 0\<rparr>) a \<or> renewed P fetch (current_lease l) (tl cs) a)"

lemma clock_instants [simp]: "clock (w\<lparr>clock := a, instants := b\<rparr>) = a" "instants (w\<lparr>clock := a\<rparr>) = instants w"
  "clock (w\<lparr>instants := b\<rparr>) = clock w"
  by (cases w, simp)+

lemma renewedI:
  "fetch previous (w\<lparr>clock := cs, instants := i\<rparr>) = (Inr a, v') \<Longrightarrow> clock v' = c # r \<Longrightarrow> unexpired (c\<lparr>nanos := 0\<rparr>) a \<Longrightarrow> same_publisher previous a \<Longrightarrow>
   ticket_from_str P (hc_endpoint_ticket a) = Some k \<Longrightarrow> ticket_id P k = hc_endpoint_identity a \<Longrightarrow> renewed P fetch previous cs a"
  by (simp add: renewed_def) (metis clock_instants(1))

lemma get_with_wp:
  "wp (get_with P cancelled fetch failed) (\<lambda>a (l', w'). served P fetch l (clock w) a l') (\<lambda>(l', w'). current_lease l' = current_lease l) (l, w)"
  by (auto simp: get_with_def wp_simps wp_try_run within_timeout_def cooling_down_def served_def Let_def
      intro!: renewedI simp: same_publisher_def split: list.splits option.splits prod.splits sum.splits)

lemma get_with_result:
  assumes "get_with P cancelled fetch failed (l, w) = (r, (l', w'))"
  shows "same_publisher (current_lease l) (current_lease l')" and "r = Inr a \<Longrightarrow> served P fetch l (clock w) a l'"
  using wp_Inr [OF get_with_wp, of P cancelled fetch failed l w _ "(l', w')"] wp_Inl [OF get_with_wp, of P cancelled fetch failed l w _ "(l', w')"] assms
  by (cases r; auto simp: served_def renewed_def)+

lemma lease_history:
  assumes "(lease_step P)\<^sup>*\<^sup>* s t"
  shows "same_publisher (current_lease (fst s)) (current_lease (fst t))"
  using assms
proof (induction rule: rtranclp_induct)
  case (step t u)
  from step(2) have "same_publisher (current_lease (fst t)) (current_lease (fst u))"
  proof cases
    case (asked cancelled fetch failed l w r)
    then show ?thesis using get_with_result(1) by (cases u) auto
  qed (auto simp: observe_def same_publisher_def)
  then show ?case using step(3) same_publisher_trans by blast
qed simp

text \<open>A caller that comes within two seconds of the last attempt makes no request at all: the outcome does not depend on the service.\<close>

lemma cooldown_makes_no_request:
  assumes "last_attempt l = Some since" and "instants w = t # ts" and "t - since < REFRESH_RETRY_DELAY"
  shows "get_with P cancelled fetch failed (l, w) = get_with P cancelled' fetch' failed (l, w)"
  using assms by (cases "clock w") (simp_all add: get_with_def bind_io_def in_world_def utc_now_seconds_def get_io_def cooling_down_def instant_now_def
      return_io_def Let_def)

text \<open>A caller whose connection failed, or whose lease expired, gets the renewed lease.\<close>

lemma get_with_renews:
  assumes "clock w = c # cs" "instants w = i # is" "failed = Some (current_lease l) \<or> \<not> unexpired (c\<lparr>nanos := 0\<rparr>) (current_lease l)"
    and "last_attempt l = None"
    and "fetch (current_lease l) (w\<lparr>clock := cs, instants := is\<rparr>) = (Inr a, v)" "clock v = c' # cs'" "instants v = j # js"
    and "same_publisher (current_lease l) a" "unexpired (c'\<lparr>nanos := 0\<rparr>) a"
    and "ticket_from_str P (hc_endpoint_ticket a) = Some ticket" "ticket_id P ticket = hc_endpoint_identity a"
  shows "get_with P (\<lambda>_. None) fetch failed (l, w)
    = (Inr a, (l\<lparr>last_attempt := Some j, current_lease := a\<rparr>, v\<lparr>instants := js, clock := cs'\<rparr>))"
  using assms
  by (auto simp: get_with_def bind_io_def in_world_def utc_now_seconds_def get_io_def cooling_down_def instant_now_def return_io_def
      Let_def set_lease_def try_io_def within_timeout_def of_result_def ensure_io_def same_publisher_def)

section \<open>Properties\<close>

text \<open>C15: a broker's lease stays with its publisher. After any sequence of observations, requests, cancelled
  requests and outside events, what a connection gets is the current lease: still the same endpoint and
  the same record as the lease it started with, at a revision that never went back, and unexpired at a
  reading of the clock during the call. Within two seconds of an attempt the service is not asked: the
  outcome is the same for every service.\<close>

theorem lease_stays_with_publisher:
  fixes w :: "('n, 'z) station_scheme"
  assumes "(lease_step P)\<^sup>*\<^sup>* (new_descriptors h, w0) (l, w)"
    and "descriptors_get K J P C T cancelled account failed (l, w) = (Inr a, (l', w'))"
  shows "same_publisher h a \<and> a = current_lease l' \<and> (\<exists>c \<in> set (clock w). unexpired (c\<lparr>nanos := 0\<rparr>) a)
    \<and> (\<forall>since t ts T'. last_attempt l = Some since \<and> instants w = t # ts \<and> t - since < REFRESH_RETRY_DELAY \<longrightarrow>
        descriptors_get K J P C T' cancelled account failed (l, w) = (Inr a, (l', w')))"
proof -
  let ?f = "refresh_ssh_attachment K J P C T account :: HostConnection \<Rightarrow> (('n, 'z) station_scheme, HostConnection) io"
  have run: "get_with P cancelled (refresh_ssh_attachment K J P C T account) failed (l, w) = (Inr a, (l', w'))"
    using assms(2) by (simp add: descriptors_get_def)
  have s: "served P ?f l (clock w) a l'" using get_with_result(2) [OF run] by simp
  have "same_publisher h (current_lease l)" using lease_history [OF assms(1)] by (simp add: new_descriptors_def)
  then have "same_publisher h a" using get_with_result(1) [OF run] s same_publisher_trans by (auto simp: served_def)
  moreover have "a = current_lease l'" using s by (simp add: served_def)
  moreover have "\<exists>c \<in> set (clock w). unexpired (c\<lparr>nanos := 0\<rparr>) a"
  proof (cases "clock w")
    case (Cons c0 cs)
    then consider "unexpired (c0\<lparr>nanos := 0\<rparr>) a" | "renewed P ?f (current_lease l) cs a"
      using s by (auto simp: served_def)
    then show ?thesis
    proof cases
      case 2
      then obtain v v' c r where v: "clock v = cs" "?f (current_lease l) v = (Inr a, v')"
        "clock v' = c # r" "unexpired (c\<lparr>nanos := 0\<rparr>) a" by (auto simp: renewed_def)
      obtain c1 r1 n where "clock v = c1 # r1" "v' = v\<lparr>network := n, clock := r1\<rparr>" using v(2) by (rule refresh_ssh_attachment_Inr)
      then have "c \<in> set cs" using v(1,3) by (cases v) auto
      then show ?thesis using Cons v(4) by auto
    qed (use Cons in auto)
  qed (use s in \<open>simp add: served_def\<close>)
  ultimately show ?thesis using assms(2) cooldown_makes_no_request by (metis descriptors_get_def)
qed

definition sample_broker :: "nat station" where
  "sample_broker = world.extend (sample_world\<lparr>clock := replicate 3 \<lparr>secs = 1700000030, nanos = 5\<rparr>\<rparr>) (station.fields [5, 6])"

theorem lease_stays_with_publisher_witness:
  "\<exists>l' w'. descriptors_get sample_crates sample_messages sample_platform sample_primitives sample_service (\<lambda>_. None) sample_reader
      (Some sample_connection) (new_descriptors sample_connection, sample_broker) = (Inr (sample_connection\<lparr>hc_service_revision := 2\<rparr>), (l', w'))
    \<and> same_publisher sample_connection (sample_connection\<lparr>hc_service_revision := 2\<rparr>)
    \<and> current_lease l' = sample_connection\<lparr>hc_service_revision := 2\<rparr> \<and> last_attempt l' = Some 6"
proof -
  let ?c = "\<lparr>secs = 1700000030, nanos = 5\<rparr> :: datetime" and ?a = "sample_connection\<lparr>hc_service_revision := 2\<rparr>"
  have f: "clock sample_broker = [?c, ?c, ?c]" "instants sample_broker = [5, 6]"
    by (simp_all add: sample_broker_def world.defs station.defs numeral_eq_Suc)
  have u: "unexpired (?c\<lparr>nanos := 0\<rparr>) ?a" "ticket_from_str sample_platform (hc_endpoint_ticket ?a) = Some (ascii ''endpointa'')"
    "ticket_id sample_platform (ascii ''endpointa'') = hc_endpoint_identity ?a"
    by (simp_all add: unexpired_def sample_connection_def ssh_attachment_def sample_record_def from_opened_def endpoint_identity_def sample_evals)
  let ?w = "sample_broker\<lparr>clock := [?c, ?c], instants := [6]\<rparr>" and ?l = "new_descriptors sample_connection"
  let ?v = "?w\<lparr>network := Suc (Suc (network ?w)), clock := [?c]\<rparr>"
  have v: "clock ?v = [?c]" "instants ?v = [6]" by (cases sample_broker, simp)+
  have same: "same_publisher sample_connection ?a" by (simp add: same_publisher_def sample_connection_def)
  note run = sample_renewal_runs [where s = ?w and r = "[?c]", OF clock_instants(1)]
  have get: "descriptors_get sample_crates sample_messages sample_platform sample_primitives sample_service (\<lambda>_. None) sample_reader
      (Some sample_connection) (?l, sample_broker) = (Inr ?a, (?l\<lparr>last_attempt := Some 6, current_lease := ?a\<rparr>, ?v\<lparr>instants := [], clock := []\<rparr>))"
    unfolding descriptors_get_def
    by (rule get_with_renews [OF f(1,2) _ _ _ v _ u(1) u(2,3)]) (simp_all add: new_descriptors_def run same)
  from lease_stays_with_publisher [OF rtranclp.rtrancl_refl get] have p: "same_publisher sample_connection ?a" by blast
  show ?thesis by (intro exI conjI, rule get, rule p) simp_all
qed

end
