(* ===== verification/Endpoint_Identity.thy ===== *)
theory Endpoint_Identity
  imports Ssh_State
begin

text \<open>
  \<open>cli/src/identity.rs\<close>: the identity of this machine's endpoint, a secret of 32 bytes that is generated once
  and sealed in a file. A file of exactly 32 bytes is a legacy identity in the clear, which is sealed when it is
  loaded. The main lemma says what happens to the file, whatever system calls fail.
\<close>

definition IDENTITY_FILE :: bytes where "IDENTITY_FILE = ascii ''admin-identity.key''"
definition IDENTITY_LOCK :: bytes where "IDENTITY_LOCK = IDENTITY_FILE @ ascii ''.lock''"
definition IDENTITY_BYTES :: nat where [limit_defs]: "IDENTITY_BYTES = 32"
definition MAX_STORED_IDENTITY_BYTES :: nat where [limit_defs]: "MAX_STORED_IDENTITY_BYTES = stored_limit IDENTITY_BYTES"
definition STATE_DIRECTORY :: bytes where "STATE_DIRECTORY = ascii ''attached''"

text \<open>\<open>Path::join\<close> with a relative component.\<close>

definition path_join :: "bytes \<Rightarrow> bytes \<Rightarrow> bytes" where
  "path_join p c = (if p = [] \<or> last p = 47 then p @ c else p @ [47] @ c)"

definition state_dir_for_home :: "bytes \<Rightarrow> failure + bytes" where
  "state_dir_for_home home =
     bind_result (ensure (home \<noteq> []) MissingState) (\<lambda>_. Inr (path_join (path_join home (ascii ''.config'')) STATE_DIRECTORY))"

definition default_state_dir :: "bytes option \<Rightarrow> failure + bytes" where
  "default_state_dir home = bind_result (ok_or home MissingState) state_dir_for_home"

definition load_identity_bytes :: "bytes \<Rightarrow> failure + bytes" where
  "load_identity_bytes bs = (if length bs = IDENTITY_BYTES then Inr bs else Inl SecretFormat)"

definition load_identity ::
  "local_crypto \<Rightarrow> json_lib \<Rightarrow> key_store \<Rightarrow> bytes \<Rightarrow> bool \<Rightarrow> ('z session_scheme, bytes) io" where
  "load_identity L J store bs migrate_legacy =
     (if length bs \<noteq> IDENTITY_BYTES \<and> is_envelope bs then
        bind_io (with_master_key_store L J store False (\<lambda>mk. of_result (open_secret L mk AdminIdentity bs IDENTITY_BYTES)))
          (\<lambda>plaintext. of_result (load_identity_bytes plaintext))
      else
        bind_io (of_result (load_identity_bytes bs)) (\<lambda>identity.
        bind_io (if migrate_legacy then with_master_key_store L J store True (\<lambda>mk.
            bind_io (seal L mk AdminIdentity bs IDENTITY_BYTES) (atomic_replace IDENTITY_FILE))
          else return_io ()) (\<lambda>_. return_io identity)))"

definition identity_load_or_create_with_store ::
  "local_crypto \<Rightarrow> json_lib \<Rightarrow> key_store \<Rightarrow> ('z session_scheme, bytes) io" where
  "identity_load_or_create_with_store L J store =
     bind_io prepare_private_dir (\<lambda>_.
     with_exclusive_lock IDENTITY_LOCK (
       bind_io (read_secret_optional_bounded IDENTITY_FILE MAX_STORED_IDENTITY_BYTES) (\<lambda>r. case r of
         Some bs \<Rightarrow> load_identity L J store bs True
       | None \<Rightarrow>
           bind_io (map_error (\<lambda>_. HostPanic) (random_bytes IDENTITY_BYTES)) (\<lambda>secret.
           bind_io (with_master_key_store L J store True (\<lambda>mk.
             bind_io (seal L mk AdminIdentity secret IDENTITY_BYTES) (create_noclobber IDENTITY_FILE))) (\<lambda>installed.
           if installed then return_io secret
           else bind_io (read_secret_bounded IDENTITY_FILE MAX_STORED_IDENTITY_BYTES) (\<lambda>bs.
             load_identity L J store bs True))))))"

definition identity_load_or_create :: "local_crypto \<Rightarrow> json_lib \<Rightarrow> ('z session_scheme, bytes) io" where
  "identity_load_or_create L J = bind_io (get_io active_store) (identity_load_or_create_with_store L J)"

section \<open>What happens to the identity file\<close>

lemma identity_names:
  "validate_name IDENTITY_FILE = Inr ()" "IDENTITY_FILE \<noteq> IDENTITY_LOCK"
  "KDF_SALT_FILE \<noteq> IDENTITY_FILE" "ONE_PASSWORD_LOCATOR_FILE \<noteq> IDENTITY_FILE" "hd IDENTITY_FILE \<noteq> 46"
  by (simp_all add: validate_name_def IDENTITY_FILE_def IDENTITY_LOCK_def KDF_SALT_FILE_def
      ONE_PASSWORD_LOCATOR_FILE_def path_components_def segment_components_def byte_simps)

interpretation identity_entry: key_files "entry_is IDENTITY_FILE x u" for x u
  by unfold_locales (auto simp: entry_is_def identity_names intro!: keeps_entry_creating keeps_entry_replacing)

definition holds_identity :: "local_crypto \<Rightarrow> bytes \<Rightarrow> nat \<Rightarrow> 'z disk_scheme \<Rightarrow> bool" where
  "holds_identity L k u t \<longleftrightarrow> (\<exists>mk e. sealed_as L mk AdminIdentity k e \<and> dir t IDENTITY_FILE = Some (private_file u e))"

text \<open>An existing file stays as it is, unless it is a legacy identity, whose very bytes may be sealed.\<close>

definition identity_safe :: "local_crypto \<Rightarrow> state_file option \<Rightarrow> nat \<Rightarrow> 'z disk_scheme \<Rightarrow> bool" where
  "identity_safe L x u t = (case x of None \<Rightarrow> True
     | Some f \<Rightarrow> dir t IDENTITY_FILE = Some f \<or> length (f_data f) = 32 \<and> holds_identity L (f_data f) u t)"

definition identity_read :: "local_crypto \<Rightarrow> state_file option \<Rightarrow> nat \<Rightarrow> bytes \<Rightarrow> 'z disk_scheme \<Rightarrow> bool" where
  "identity_read L x u k t \<longleftrightarrow> length k = 32 \<and> (case x of
     None \<Rightarrow> holds_identity L k u t
   | Some f \<Rightarrow> if length (f_data f) = 32 then k = f_data f \<and> holds_identity L k u t
       else dir t IDENTITY_FILE = Some f \<and> (\<exists>mk. open_secret L mk AdminIdentity (f_data f) 32 = Inr k))"

lemma stable_identity [simp]: "stable (identity_safe L x u)" "stable (identity_read L x u k)"
  by (auto simp: stable_def identity_safe_def identity_read_def holds_identity_def split: option.split)

lemma load_identity_wp:
  assumes t: "entry_is IDENTITY_FILE (Some f) u t"
  shows "wp (load_identity L J store (f_data f) True) (identity_read L (Some f) u) (identity_safe L (Some f) u) t"
proof -
  have E: "identity_safe L (Some f) u v" if "entry_is IDENTITY_FILE (Some f) u v" for v
    using that by (simp add: identity_safe_def entry_is_def)
  let ?opened = "\<lambda>p (v :: 'a session_scheme). entry_is IDENTITY_FILE (Some f) u v \<and> (\<exists>mk. open_secret L mk AdminIdentity (f_data f) 32 = Inr p)"
  have sealed: "wp (with_master_key_store L J store False (\<lambda>mk. of_result (open_secret L mk AdminIdentity (f_data f) IDENTITY_BYTES)))
      ?opened (identity_safe L (Some f) u) t"
    by (rule identity_entry.with_key_wp(1) [OF t])
      (auto simp: wp_simps IDENTITY_BYTES_def stable_def entry_is_def identity_safe_def holds_identity_def split: sum.splits)
  have legacy: "wp (with_master_key_store L J store True (\<lambda>mk. bind_io (seal L mk AdminIdentity (f_data f) IDENTITY_BYTES) (atomic_replace IDENTITY_FILE)))
      (\<lambda>_. holds_identity L (f_data f) u) (identity_safe L (Some f) u) t" if "length (f_data f) = 32"
  proof (rule identity_entry.with_key_wp(1) [OF t])
    fix mk and v :: "'a session_scheme" assume v: "entry_is IDENTITY_FILE (Some f) u v"
    show "wp (bind_io (seal L mk AdminIdentity (f_data f) IDENTITY_BYTES) (atomic_replace IDENTITY_FILE))
        (\<lambda>_. holds_identity L (f_data f) u) (identity_safe L (Some f) u) v"
      unfolding wp_simps
      by (rule seal_wp [of v "dir v"], simp, rule atomic_replace_triple [THEN triple_wp], assumption)
        (use v in \<open>auto simp: entry_is_def at_def identity_safe_def holds_identity_def dest!: leftover_kept\<close>)
  qed (auto simp: stable_def holds_identity_def identity_safe_def entry_is_def)
  show ?thesis
  proof (cases "length (f_data f) = 32")
    case True
    have "wp (load_identity L J store (f_data f) True) (identity_read L (Some f) u) (identity_safe L (Some f) u) t
        \<longleftrightarrow> wp (with_master_key_store L J store True (\<lambda>mk. bind_io (seal L mk AdminIdentity (f_data f) IDENTITY_BYTES) (atomic_replace IDENTITY_FILE)))
          (\<lambda>_. identity_read L (Some f) u (f_data f)) (identity_safe L (Some f) u) t"
      using True by (simp add: load_identity_def load_identity_bytes_def IDENTITY_BYTES_def wp_simps(1,2) wp_of_result)
    then show ?thesis using wp_mono [OF legacy [OF True]] True by (simp add: identity_read_def)
  next
    case False
    then show ?thesis
      using wp_mono [OF sealed] E [OF t]
      by (auto simp: load_identity_def load_identity_bytes_def IDENTITY_BYTES_def wp_simps entry_is_def identity_safe_def identity_read_def)
  qed
qed

lemma create_identity_wp:
  assumes t: "entry_is IDENTITY_FILE None u t"
  shows "wp (with_master_key_store L J store True (\<lambda>mk. bind_io (seal L mk AdminIdentity secret IDENTITY_BYTES) (create_noclobber IDENTITY_FILE)))
    (\<lambda>installed v. installed \<and> holds_identity L secret u v) (\<lambda>_. True) t"
proof (rule identity_entry.with_key_wp(1) [OF t])
  fix mk and v :: "'a session_scheme" assume v: "entry_is IDENTITY_FILE None u v"
  show "wp (bind_io (seal L mk AdminIdentity secret IDENTITY_BYTES) (create_noclobber IDENTITY_FILE))
      (\<lambda>installed v. installed \<and> holds_identity L secret u v) (\<lambda>_. True) v"
    unfolding wp_simps
    by (rule seal_wp [of v "dir v"], simp, rule create_noclobber_triple [THEN triple_wp], assumption)
      (use v in \<open>auto simp: entry_is_def at_def holds_identity_def split: if_splits\<close>)
qed (auto simp: stable_def holds_identity_def)

lemma identity_wp:
  "wp (identity_load_or_create L J) (identity_read L (dir s IDENTITY_FILE) (euid s)) (identity_safe L (dir s IDENTITY_FILE) (euid s)) s"
proof -
  let ?x = "dir s IDENTITY_FILE" and ?u = "euid s"
  define found :: "key_store \<Rightarrow> bytes option \<Rightarrow> ('a session_scheme, bytes) io" where
    "found = (\<lambda>store r. case r of
         Some bs \<Rightarrow> load_identity L J store bs True
       | None \<Rightarrow>
           bind_io (map_error (\<lambda>_. HostPanic) (random_bytes IDENTITY_BYTES)) (\<lambda>secret.
           bind_io (with_master_key_store L J store True (\<lambda>mk.
             bind_io (seal L mk AdminIdentity secret IDENTITY_BYTES) (create_noclobber IDENTITY_FILE))) (\<lambda>installed.
           if installed then return_io secret
           else bind_io (read_secret_bounded IDENTITY_FILE MAX_STORED_IDENTITY_BYTES) (\<lambda>bs.
             load_identity L J store bs True))))"
  have E: "identity_safe L ?x ?u v" if "entry_is IDENTITY_FILE ?x ?u v" for v
    using that by (cases ?x) (simp_all add: identity_safe_def entry_is_def)
  have new: "wp (found store None) (identity_read L ?x ?u) (identity_safe L ?x ?u) v"
    if x: "?x = None" and v: "entry_is IDENTITY_FILE ?x ?u v" for v store
    unfolding found_def option.case wp_combinators(1,6)
  proof (rule random_triple [of v "dir v", THEN triple_wp])
    fix secret :: bytes and w :: "'a session_scheme" assume w: "at v (dir v) w \<and> length secret = IDENTITY_BYTES"
    then have "entry_is IDENTITY_FILE None ?u w" using x v by (simp add: entry_is_def at_def)
    from create_identity_wp [OF this, of L J store secret]
    show "wp (with_master_key_store L J store True (\<lambda>mk.
             bind_io (seal L mk AdminIdentity secret IDENTITY_BYTES) (create_noclobber IDENTITY_FILE)))
        (\<lambda>installed. wp (if installed then return_io secret else bind_io (read_secret_bounded IDENTITY_FILE MAX_STORED_IDENTITY_BYTES)
          (\<lambda>bs. load_identity L J store bs True)) (identity_read L ?x ?u) (identity_safe L ?x ?u)) (identity_safe L ?x ?u) w"
      by (rule wp_mono) (use w x in \<open>auto simp: wp_simps identity_read_def identity_safe_def IDENTITY_BYTES_def\<close>)
  qed (use x in \<open>simp_all add: identity_safe_def\<close>)
  have body: "wp (bind_io (read_secret_optional_bounded IDENTITY_FILE MAX_STORED_IDENTITY_BYTES) (found store))
      (identity_read L ?x ?u) (identity_safe L ?x ?u) v" if v: "entry_is IDENTITY_FILE ?x ?u v" for v store
    unfolding wp_combinators(1)
  proof (rule read_entry_wp [OF v])
    fix r and w :: "'a session_scheme" assume "entry_is IDENTITY_FILE ?x ?u w" "r = map_option f_data ?x"
    then show "wp (found store r) (identity_read L ?x ?u) (identity_safe L ?x ?u) w"
      using new [of w store] load_identity_wp [of _ ?u w L J store] by (cases ?x) (auto simp: found_def)
  qed (rule E)
  have e: "entry_is IDENTITY_FILE ?x ?u v" if "same_but IDENTITY_LOCK w v" "same_but IDENTITY_LOCK s w" for v w
    using that identity_names(2) by (simp add: same_but_def entry_is_def)
  have "wp (bind_io prepare_private_dir (\<lambda>_. with_exclusive_lock IDENTITY_LOCK
      (bind_io (read_secret_optional_bounded IDENTITY_FILE MAX_STORED_IDENTITY_BYTES) (found store))))
      (identity_read L ?x ?u) (identity_safe L ?x ?u) s" for store
    unfolding prepare_private_dir_def wp_combinators(1)
    by (rule wp_keeps [OF keeps_open_directory [of IDENTITY_LOCK s]], simp, rule locked_wp(1))
      (auto intro!: body E e simp del: wp_combinators)
  then show ?thesis
    unfolding identity_load_or_create_def identity_load_or_create_with_store_def found_def by (simp add: wp_combinators(1,5))
qed

section \<open>Properties\<close>

text \<open>C14: a machine never loses its identity. Whatever system calls fail, an identity file that exists keeps
  its contents, except that a legacy identity in the clear may become the same 32 bytes, sealed and
  owner-only; and an identity that is returned is the one the file holds: the very bytes of a legacy
  file, which is sealed then, what the master key opens in a sealed one, or the new secret, sealed.\<close>

theorem endpoint_identity_kept:
  "case identity_load_or_create L J s of
     (Inl _, t) \<Rightarrow> identity_safe L (dir s IDENTITY_FILE) (euid s) t
   | (Inr k, t) \<Rightarrow> identity_read L (dir s IDENTITY_FILE) (euid s) k t"
  using identity_wp [of L J s] by (simp add: wp_def split: prod.splits sum.splits)

end
