(* ===== verification/Account_Setup.thy ===== *)
theory Account_Setup
  imports Refresh
begin

text \<open>
  \<open>cli/src/sync/account.rs\<close>, \<open>cli/src/publish_account.rs\<close> and \<open>cli/src/download_account.rs\<close>: creating an account at the
  service, installing a bundle of the right scope, and where a bundle comes from (the environment, a file,
  standard input or a prompt). Files outside the state directory, the environment and the terminal are inputs:
  each is given as the outcome of reading it.
\<close>

section \<open>Creating and installing\<close>

definition ACCOUNT_MUTATION_LOCK :: bytes where "ACCOUNT_MUTATION_LOCK = ascii ''sync-account-mutation.lock''"

text \<open>The guard is released when the caller returns.\<close>

definition acquire_mutation_guard :: "('z disk_scheme, unit) io" where
  "acquire_mutation_guard =
     bind_io (open_state_directory True False) (\<lambda>_.
     bind_io (open_private_lock_file ACCOUNT_MUTATION_LOCK True) (\<lambda>r.
     bind_io (of_result (ok_or r MissingState)) (\<lambda>_.
     bind_io (syscall (return_io ())) (\<lambda>_. verify_locked_file ACCOUNT_MUTATION_LOCK))))"

definition prepare_encrypted_account_storage :: "local_crypto \<Rightarrow> json_lib \<Rightarrow> key_store \<Rightarrow> ('z session_scheme, unit) io" where
  "prepare_encrypted_account_storage L J store =
     bind_io (open_state_directory True False) (\<lambda>_. with_master_key_store L J store True (\<lambda>_. return_io ()))"

definition account_create_with_store ::
  "crates \<Rightarrow> local_crypto \<Rightarrow> json_lib \<Rightarrow> 'n transport \<Rightarrow> bytes \<Rightarrow> key_store \<Rightarrow> (('n, 'z) world_scheme, unit) io" where
  "account_create_with_store K L J T service_origin store =
     bind_io (of_result (map_err (\<lambda>_. InvalidAccount) (parse_origin (url_parse K) service_origin))) (\<lambda>origin.
     bind_io ensure_account_slot_available (\<lambda>_.
     bind_io (prepare_encrypted_account_storage L J store) (\<lambda>_.
     bind_io acquire_mutation_guard (\<lambda>_.
     bind_io ensure_account_slot_available (\<lambda>_.
     bind_io (map_error (\<lambda>_. HostPanic) (random_bytes 32)) (\<lambda>consumer_identity.
     bind_io (in_network (http_create_account K J T origin)) (\<lambda>response.
       install_created_account K L J origin response consumer_identity)))))))"

definition account_create ::
  "crates \<Rightarrow> local_crypto \<Rightarrow> json_lib \<Rightarrow> 'n transport \<Rightarrow> bytes \<Rightarrow> (('n, 'z) world_scheme, unit) io" where
  "account_create K L J T service_origin = bind_io (get_io active_store) (account_create_with_store K L J T service_origin)"

definition install_scoped ::
  "crates \<Rightarrow> local_crypto \<Rightarrow> json_lib \<Rightarrow> bytes \<Rightarrow> ApiKeyScope \<Rightarrow> ('z session_scheme, unit) io" where
  "install_scoped K L J encoded required_scope =
     bind_io (of_result (parse_bundle K encoded)) (\<lambda>bundle.
     bind_io (ensure_io (case bundle of Scoped b \<Rightarrow> sb_api_key_scope b = required_scope | _ \<Rightarrow> False) WrongScope) (\<lambda>_.
     bind_io acquire_mutation_guard (\<lambda>_. import_account K L J encoded)))"

definition install_publish :: "crates \<Rightarrow> local_crypto \<Rightarrow> json_lib \<Rightarrow> bytes \<Rightarrow> ('z session_scheme, unit) io" where
  "install_publish K L J encoded = install_scoped K L J encoded Publish"

definition install_download :: "crates \<Rightarrow> local_crypto \<Rightarrow> json_lib \<Rightarrow> bytes \<Rightarrow> ('z session_scheme, unit) io" where
  "install_download K L J encoded = install_scoped K L J encoded Download"

definition account_export :: "crates \<Rightarrow> local_crypto \<Rightarrow> json_lib \<Rightarrow> ApiKeyScope \<Rightarrow> ('z session_scheme, bytes) io" where
  "account_export K L J scope = export_account K L J scope"

section \<open>Bundles as they are given\<close>

definition MAX_BUNDLE_INPUT_BYTES :: nat where [limit_defs]: "MAX_BUNDLE_INPUT_BYTES = MAX_BUNDLE_ENCODED_BYTES + 2"

text \<open>\<open>str::trim\<close> removes Unicode white space at both ends; these are the encodings of those characters.\<close>

definition white_space :: "bytes list" where
  "white_space = [[9], [10], [11], [12], [13], [32], [0xC2, 0x85], [0xC2, 0xA0], [0xE1, 0x9A, 0x80],
     [0xE2, 0x80, 0x80], [0xE2, 0x80, 0x81], [0xE2, 0x80, 0x82], [0xE2, 0x80, 0x83], [0xE2, 0x80, 0x84], [0xE2, 0x80, 0x85],
     [0xE2, 0x80, 0x86], [0xE2, 0x80, 0x87], [0xE2, 0x80, 0x88], [0xE2, 0x80, 0x89], [0xE2, 0x80, 0x8A],
     [0xE2, 0x80, 0xA8], [0xE2, 0x80, 0xA9], [0xE2, 0x80, 0xAF], [0xE2, 0x81, 0x9F], [0xE3, 0x80, 0x80]]"

function trim_start :: "bytes list \<Rightarrow> bytes \<Rightarrow> bytes" where
  "trim_start ws s = (case find (\<lambda>w. w \<noteq> [] \<and> take (length w) s = w) ws of
     None \<Rightarrow> s | Some w \<Rightarrow> trim_start ws (drop (length w) s))"
  by pat_completeness auto

termination
proof (relation "measure (length \<circ> snd)")
  fix ws :: "bytes list" and s w :: bytes
  assume "find (\<lambda>w. w \<noteq> [] \<and> take (length w) s = w) ws = Some w"
  then have "w \<noteq> []" "take (length w) s = w" by (auto simp: find_Some_iff)
  then have "0 < length w" "s \<noteq> []" by auto
  then show "((ws, drop (length w) s), ws, s) \<in> measure (length \<circ> snd)" by simp
qed simp

declare trim_start.simps [simp del]

definition str_trim :: "bytes \<Rightarrow> bytes" where
  "str_trim s = rev (trim_start (map rev white_space) (rev (trim_start white_space s)))"

text \<open>\<open>read_to_string\<close> of at most one byte more than allowed, so a longer input is noticed without reading it all.\<close>

definition read_bounded_bundle :: "failure + bytes \<Rightarrow> failure + bytes" where
  "read_bounded_bundle source =
     bind_result source (\<lambda>all.
     let text = take (MAX_BUNDLE_INPUT_BYTES + 1) all in
     bind_result (ensure (utf8_valid text) InvalidAccount) (\<lambda>_.
     bind_result (ensure (length text \<le> MAX_BUNDLE_INPUT_BYTES) SecretTooLarge) (\<lambda>_. Inr text)))"

text \<open>A bundle file: the outcome of opening it, whether it is a regular file, and what it holds.\<close>

definition read_bundle_file :: "failure + bool \<times> bytes \<Rightarrow> failure + bytes" where
  "read_bundle_file opened =
     bind_result opened (\<lambda>(is_file, all).
     bind_result (ensure is_file UnsafeFile) (\<lambda>_. read_bounded_bundle (Inr all)))"

definition normalize_bundle :: "bytes \<Rightarrow> failure + bytes" where
  "normalize_bundle bundle =
     (if length bundle > MAX_BUNDLE_INPUT_BYTES then Inl SecretTooLarge
      else let trimmed = str_trim bundle in
        if length trimmed > MAX_BUNDLE_ENCODED_BYTES then Inl SecretTooLarge
        else if trimmed = [] then Inl InvalidAccount else Inr trimmed)"

definition install_publish_bundle :: "crates \<Rightarrow> local_crypto \<Rightarrow> json_lib \<Rightarrow> bytes \<Rightarrow> ('z session_scheme, unit) io" where
  "install_publish_bundle K L J bundle = bind_io (of_result (normalize_bundle bundle)) (install_publish K L J)"

definition install_download_bundle :: "crates \<Rightarrow> local_crypto \<Rightarrow> json_lib \<Rightarrow> bytes \<Rightarrow> ('z session_scheme, unit) io" where
  "install_download_bundle K L J bundle = bind_io (of_result (normalize_bundle bundle)) (install_download K L J)"

text \<open>The environment variable, as bytes; an empty one counts as absent.\<close>

definition read_environment_bundle :: "bytes option \<Rightarrow> failure + bytes option" where
  "read_environment_bundle v = (case v of
     None \<Rightarrow> Inr None
   | Some bs \<Rightarrow> if bs = [] then Inr None else if utf8_valid bs then Inr (Some bs) else Inl InvalidAccount)"

definition ensure_configured_with ::
  "crates \<Rightarrow> local_crypto \<Rightarrow> json_lib \<Rightarrow> bytes option \<Rightarrow> (failure + bool \<times> bytes) option \<Rightarrow> failure + bytes
     \<Rightarrow> ('z session_scheme, unit) io" where
  "ensure_configured_with K L J environment_bundle bundle_file prompt = (case environment_bundle of
     Some bundle \<Rightarrow> install_publish_bundle K L J bundle
   | None \<Rightarrow> (case bundle_file of
       Some opened \<Rightarrow> bind_io (of_result (read_bundle_file opened)) (install_publish_bundle K L J)
     | None \<Rightarrow> bind_io (load_account_optional K L J Publish) (\<lambda>r.
         if r \<noteq> None then return_io ()
         else bind_io (of_result prompt) (install_publish_bundle K L J))))"

definition ensure_configured ::
  "crates \<Rightarrow> local_crypto \<Rightarrow> json_lib \<Rightarrow> bytes option \<Rightarrow> (failure + bool \<times> bytes) option \<Rightarrow> failure + bytes
     \<Rightarrow> ('z session_scheme, unit) io" where
  "ensure_configured K L J variable bundle_file prompt =
     bind_io (of_result (read_environment_bundle variable)) (\<lambda>environment_bundle.
       ensure_configured_with K L J environment_bundle bundle_file prompt)"

definition install_with ::
  "crates \<Rightarrow> local_crypto \<Rightarrow> json_lib \<Rightarrow> (failure + bool \<times> bytes) option \<Rightarrow> bool \<Rightarrow> failure + bytes \<Rightarrow> failure + bytes
     \<Rightarrow> ('z session_scheme, unit) io" where
  "install_with K L J bundle_file bundle_stdin stdin prompt =
     bind_io (ensure_io (bundle_file = None \<or> \<not> bundle_stdin) InvalidAccount) (\<lambda>_. case bundle_file of
       Some opened \<Rightarrow> bind_io (of_result (read_bundle_file opened)) (install_download_bundle K L J)
     | None \<Rightarrow>
         if bundle_stdin then bind_io (of_result (read_bounded_bundle stdin)) (install_download_bundle K L J)
         else bind_io (of_result prompt) (install_download_bundle K L J))"

section \<open>What a creation does to the slot\<close>

lemma setup_names: "ACCOUNT_MUTATION_LOCK \<noteq> ACCOUNT_FILE" "ACCOUNT_LOCK \<noteq> ACCOUNT_FILE"
  by (simp_all add: ACCOUNT_MUTATION_LOCK_def ACCOUNT_FILE_def ACCOUNT_LOCK_def byte_simps)

lemma same_but_trans: "same_but l s t \<Longrightarrow> same_but l t v \<Longrightarrow> same_but l s v"
  by (simp add: same_but_def)

lemma same_but_entry: "same_but l s t \<Longrightarrow> l \<noteq> k \<Longrightarrow> entry_is k x u s \<Longrightarrow> entry_is k x u t"
  by (auto simp: same_but_def entry_is_def)

lemma slot_wp:
  "wp ensure_account_slot_available (\<lambda>_ t. dir s ACCOUNT_FILE = None \<and> same_but ACCOUNT_LOCK s t) (same_but ACCOUNT_LOCK s) s"
proof -
  have body: "wp (bind_io (read_secret_optional_bounded ACCOUNT_FILE MAX_STORED_ACCOUNT_BYTES) (\<lambda>r. ensure_io (r = None) AccountExists))
      (\<lambda>_ t. dir s ACCOUNT_FILE = None \<and> same_but ACCOUNT_LOCK s t) (same_but ACCOUNT_LOCK s) v"
    if v: "same_but ACCOUNT_LOCK s v" for v
    unfolding wp_simps
    by (rule read_secret_triple [of v "dir v", THEN triple_wp], simp)
      (use v setup_names(2) in \<open>auto simp: at_def same_but_def split: option.splits\<close>)
  show ?thesis
    unfolding ensure_account_slot_available_def prepare_private_dir_def wp_combinators(1)
    by (rule wp_keeps [OF keeps_open_directory [of ACCOUNT_LOCK s]], simp, rule locked_wp(1))
      (auto intro!: body intro: same_but_trans simp: stable_def stable_same_but [unfolded stable_def])
qed

lemma slot_same: "same_but ACCOUNT_LOCK s (snd (ensure_account_slot_available s))"
  using slot_wp [of s] by (simp add: wp_def split: prod.splits sum.splits)

lemma keeps_guard: "keeps (same_but ACCOUNT_MUTATION_LOCK s) acquire_mutation_guard"
  unfolding acquire_mutation_guard_def open_private_lock_file_def verify_locked_file_def validate_private_dir_def
    verify_path_identity_def Let_def
  by (intro keeps_rules)

lemma keeps_entry_lift:
  assumes "\<And>s. \<exists>l. l \<noteq> k \<and> same_but l s (snd (m s))"
  shows "keeps (entry_is k x u) m"
  unfolding keeps_def using assms same_but_entry by blast

lemma keeps_entry_same: "(\<And>s. keeps (same_but l s) m) \<Longrightarrow> l \<noteq> k \<Longrightarrow> keeps (entry_is k x u) m"
  by (rule keeps_entry_lift, rule exI [of _ l]) (simp add: keeps_def)

lemma keeps_slot_entry:
  "keeps (entry_is ACCOUNT_FILE x u) acquire_mutation_guard"
  "keeps (entry_is ACCOUNT_FILE x u) ensure_account_slot_available"
  "keeps (entry_is ACCOUNT_FILE x u) (prepare_encrypted_account_storage L J store)"
  "keeps (entry_is ACCOUNT_FILE x u) (in_network m)"
proof -
  show "keeps (entry_is ACCOUNT_FILE x u) acquire_mutation_guard"
    by (rule keeps_entry_same [OF keeps_guard setup_names(1)])
  show "keeps (entry_is ACCOUNT_FILE x u) ensure_account_slot_available"
    by (rule keeps_entry_lift, rule exI [of _ ACCOUNT_LOCK]) (simp add: setup_names(2) slot_same)
  have "keeps (entry_is ACCOUNT_FILE x u) (open_state_directory True False)"
    by (rule keeps_entry_same [OF keeps_open_directory setup_names(2)])
  then show "keeps (entry_is ACCOUNT_FILE x u) (prepare_encrypted_account_storage L J store)"
    unfolding prepare_encrypted_account_storage_def
    by (intro keeps_bind account_entry.keeps_with_master_key(1) keeps_pure)
  show "keeps (entry_is ACCOUNT_FILE x u) (in_network m)"
    by (auto simp: keeps_def in_network_def entry_is_def split: prod.split)
qed

text \<open>The owner bundle of an account that the service issued.\<close>

definition issued_owner :: "crates \<Rightarrow> json_lib \<Rightarrow> 'n transport \<Rightarrow> bytes \<Rightarrow> bytes \<Rightarrow> bool" where
  "issued_owner K J T service_origin encoded \<longleftrightarrow> (\<exists>origin n n' response root consumer owner.
     parse_origin (url_parse K) service_origin = Inr origin \<and> http_create_account K J T origin n = (Inr response, n')
     \<and> owner_from_parts K origin (car_account_id response) (car_publish_api_token response) (car_download_api_token response)
         root consumer = Inr owner
     \<and> bundle_encode K (Owner owner) = Some encoded)"

lemma issued_ownerI:
  "parse_origin (url_parse K) service_origin = Inr origin \<Longrightarrow> http_create_account K J T origin n = (Inr response, n') \<Longrightarrow>
   owner_from_parts K origin (car_account_id response) (car_publish_api_token response) (car_download_api_token response) root consumer = Inr owner \<Longrightarrow>
   bundle_encode K (Owner owner) = Some encoded \<Longrightarrow> issued_owner K J T service_origin encoded"
  unfolding issued_owner_def by blast

lemma install_created_wp:
  assumes o: "parse_origin (url_parse K) service_origin = Inr origin" "http_create_account K J T origin n = (Inr response, n')"
    and t: "entry_is ACCOUNT_FILE None u t"
  shows "wp (install_created_account K L J origin response consumer)
    (\<lambda>_ v. \<exists>encoded. issued_owner K J T service_origin encoded \<and> holds_account L encoded u v) (\<lambda>_. True) t"
proof -
  have fin: "wp (install_account K L J encoded False)
      (\<lambda>_ v. \<exists>encoded. issued_owner K J T service_origin encoded \<and> holds_account L encoded u v) (\<lambda>_. True) w"
    if "issued_owner K J T service_origin encoded" "entry_is ACCOUNT_FILE None u w" for encoded w
    by (rule wp_mono [OF install_account_wp]) (use that in \<open>auto simp: entry_is_def installed_def\<close>)
  have e: "entry_is ACCOUNT_FILE None u w" if "at t (dir t) w" for w using that t by (simp add: entry_is_def at_def)
  show ?thesis
    unfolding install_created_account_def wp_combinators(1)
    by (rule random_triple [of t "dir t", THEN triple_wp], simp)
      (use o in \<open>auto simp: wp_combinators wp_of_result map_err_def ok_or_def
        split: sum.splits option.splits intro!: fin e intro: issued_ownerI\<close>)
qed

lemma create_tail_wp:
  assumes o: "parse_origin (url_parse K) service_origin = Inr origin" and t: "entry_is ACCOUNT_FILE None u t"
  shows "wp (bind_io (map_error (\<lambda>_. HostPanic) (random_bytes 32)) (\<lambda>consumer_identity.
     bind_io (in_network (http_create_account K J T origin)) (\<lambda>response.
       install_created_account K L J origin response consumer_identity)))
    (\<lambda>_ v. \<exists>encoded. issued_owner K J T service_origin encoded \<and> holds_account L encoded u v) (\<lambda>_. True) t"
proof -
  have "wp (in_network (http_create_account K J T origin)) (\<lambda>response. wp (install_created_account K L J origin response consumer)
    (\<lambda>_ v. \<exists>encoded. issued_owner K J T service_origin encoded \<and> holds_account L encoded u v) (\<lambda>_. True)) (\<lambda>_. True) w"
    if "entry_is ACCOUNT_FILE None u w" for w consumer
    using that by (auto simp: wp_def [of "in_network _"] in_network_def entry_is_def split: prod.split sum.split
        intro!: install_created_wp [OF o])
  moreover have "entry_is ACCOUNT_FILE None u w" if "at t (dir t) w" for w using that t by (simp add: entry_is_def at_def)
  ultimately show ?thesis
    unfolding wp_combinators(1,6) by (intro random_triple [of t "dir t", THEN triple_wp]) auto
qed

lemma account_create_wp:
  "wp (account_create K L J T service_origin)
     (\<lambda>_ t. dir s ACCOUNT_FILE = None \<and> (\<exists>encoded. issued_owner K J T service_origin encoded \<and> holds_account L encoded (euid s) t))
     (\<lambda>t. dir s ACCOUNT_FILE = None \<or> dir t ACCOUNT_FILE = dir s ACCOUNT_FILE \<and> network t = network s) s"
  (is "wp _ ?Q ?E s")
proof -
  let ?u = "euid s" and ?I = "entry_is ACCOUNT_FILE None (euid s)"
  have same: "?E t" if "same_but ACCOUNT_LOCK s t" for t
    using that setup_names(2) by (cases s; cases t) (auto simp: same_but_def disk.defs)
  have tail: "wp (bind_io (prepare_encrypted_account_storage L J store) (\<lambda>_. bind_io acquire_mutation_guard (\<lambda>_.
      bind_io ensure_account_slot_available (\<lambda>_.
      bind_io (map_error (\<lambda>_. HostPanic) (random_bytes 32)) (\<lambda>consumer_identity.
      bind_io (in_network (http_create_account K J T origin)) (\<lambda>response.
        install_created_account K L J origin response consumer_identity)))))) ?Q ?E t"
    if o: "parse_origin (url_parse K) service_origin = Inr origin" and x: "dir s ACCOUNT_FILE = None" and t: "?I t" for origin store t
    unfolding wp_combinators(1)
    by (rule wp_keeps [OF keeps_slot_entry(3) t], rule wp_keeps [OF keeps_slot_entry(1)], assumption,
        rule wp_keeps [OF keeps_slot_entry(2)], assumption, fold wp_combinators(1))
      (rule wp_mono [OF create_tail_wp [OF o]], auto simp: x)
  have "wp (account_create_with_store K L J T service_origin store) ?Q ?E s" for store
    unfolding account_create_with_store_def wp_combinators(1) wp_of_result
    by (auto simp: map_err_def split: sum.splits intro!: wp_mono [OF slot_wp] tail [unfolded wp_combinators(1)] same)
      (use setup_names(2) in \<open>auto simp: same_but_def entry_is_def\<close>)
  then show ?thesis unfolding account_create_def by (simp add: wp_combinators(1,5))
qed

section \<open>A printed bundle is read back\<close>

definition visible :: "u8 \<Rightarrow> bool" where
  "visible b \<longleftrightarrow> 33 \<le> b \<and> b \<le> 126"

lemma trim_start_visible:
  assumes "\<forall>w \<in> set ws. w \<noteq> [] \<longrightarrow> \<not> visible (hd w)" and "s \<noteq> []" "visible (hd s)"
  shows "trim_start ws s = s"
proof -
  have "\<not> (w \<noteq> [] \<and> take (length w) s = w)" if "w \<in> set ws" for w
    using assms that by (metis hd_take length_greater_0_conv)
  then have "find (\<lambda>w. w \<noteq> [] \<and> take (length w) s = w) ws = None" by (auto simp: find_None_iff)
  then show ?thesis by (subst trim_start.simps) simp
qed

lemma white_space_visible:
  "\<forall>w \<in> set white_space. w \<noteq> [] \<longrightarrow> \<not> visible (hd w)" "\<forall>w \<in> set (map rev white_space). w \<noteq> [] \<longrightarrow> \<not> visible (hd w)"
  by (simp_all add: white_space_def visible_def)

lemma trim_newline: "trim_start (map rev white_space) (10 # s) = trim_start (map rev white_space) s"
  by (subst trim_start.simps) (simp add: white_space_def)

lemma printed_bundle_accepted:
  assumes "x \<noteq> []" and "\<forall>b \<in> set x. visible b" and "length x \<le> MAX_BUNDLE_ENCODED_BYTES"
  shows "normalize_bundle x = Inr x" and "normalize_bundle (x @ [10]) = Inr x"
proof -
  have v: "visible (hd x)" "visible (hd (rev x))" using assms(1,2) by (auto simp: hd_rev)
  then have "trim_start white_space x = x" "trim_start white_space (x @ [10]) = x @ [10]"
    "trim_start (map rev white_space) (rev x) = rev x"
    using assms(1) by (auto intro!: trim_start_visible white_space_visible simp del: set_map)
  then show "normalize_bundle x = Inr x" "normalize_bundle (x @ [10]) = Inr x"
    using assms(1,3) by (simp_all add: normalize_bundle_def str_trim_def trim_newline limit_defs)
qed

section \<open>Properties\<close>

text \<open>C9: creating an account never costs one. Whatever system calls fail, a creation that finds an account
  file fails without a request to the service and leaves the file as it was; a creation that succeeds
  found the slot free, and the file is then owner-only and holds, sealed, the owner bundle of exactly
  the account that the service issued at the given origin.\<close>

theorem account_created_into_free_slot:
  "case account_create K L J T service_origin s of
     (Inl _, t) \<Rightarrow> dir s ACCOUNT_FILE = None \<or> dir t ACCOUNT_FILE = dir s ACCOUNT_FILE \<and> network t = network s
   | (Inr _, t) \<Rightarrow> dir s ACCOUNT_FILE = None
       \<and> (\<exists>encoded. issued_owner K J T service_origin encoded \<and> holds_account L encoded (euid s) t)"
  using account_create_wp [of K L J T service_origin s] by (simp add: wp_def split: prod.splits sum.splits)

end
