(* ===== verification/Client_Transport.thy ===== *)
theory Client_Transport
  imports Prelude
begin

text \<open>
  The start of an endpoint in \<open>cli/src/client_transport.rs\<close>: a command gets a lease of the network broker of its identity,
  which it starts when there is none. The broker, its socket, its directory and its locks are the record \<open>broker\<close> of operations on the state \<open>'n\<close>
  outside the process. Times are nanoseconds of the monotonic clock and pass where the code waits: an exchange with the broker says how
  long it takes, and \<open>pipe_time\<close> is how long writing the key to a new broker takes. Proved: acquiring a lease ends, in bounded time.
\<close>

definition START_TIMEOUT :: nat where [limit_defs]: "START_TIMEOUT = 15 * 1000000000"
definition ATTACH_TIMEOUT :: nat where [limit_defs]: "ATTACH_TIMEOUT = 2 * 1000000000"
definition POLL_INTERVAL :: nat where [limit_defs]: "POLL_INTERVAL = 20 * 1000000"

datatype lock_outcome = Locked | WouldBlock | LockFailed

text \<open>\<open>bk_lease\<close> is the handshake on the broker's socket: the identity of the broker and the token of the lease. The next six are
  the calls of \<open>acquire\<close> in their order; \<open>bk_spawn\<close> says whether a new broker was started and got the key. The last two
  release what the process holds: the startup lock, and the lease that the endpoint has at its end.\<close>

record 'n broker =
  bk_lease :: "nat \<Rightarrow> 'n \<Rightarrow> (unit + bytes \<times> bytes) \<times> nat \<times> 'n"
  bk_directory :: "'n \<Rightarrow> bool \<times> 'n"
  bk_startup_lock :: "'n \<Rightarrow> lock_outcome \<times> 'n"
  bk_open_locks :: "'n \<Rightarrow> bool \<times> 'n"
  bk_owner_lock :: "'n \<Rightarrow> lock_outcome \<times> 'n"
  bk_owner_unlock :: "'n \<Rightarrow> bool \<times> 'n"
  bk_spawn :: "'n \<Rightarrow> bool \<times> 'n"
  bk_startup_unlock :: "'n \<Rightarrow> 'n"
  bk_release :: "'n \<Rightarrow> 'n"

definition attach :: "'n broker \<Rightarrow> bytes \<Rightarrow> nat \<Rightarrow> 'n \<Rightarrow> (unit + bytes) \<times> nat \<times> 'n" where
  "attach B identity t n = (case bk_lease B t n of (r, duration, n') \<Rightarrow>
     if duration > ATTACH_TIMEOUT then (Inl (), t + ATTACH_TIMEOUT, n')
     else (case r of
         Inl _ \<Rightarrow> Inl ()
       | Inr (actual, lease) \<Rightarrow> if identity = actual then Inr lease else Inl (), t + duration, n'))"

lemma attach_time: "attach B identity t n = (r, t', n') \<Longrightarrow> t \<le> t' \<and> t' \<le> t + ATTACH_TIMEOUT"
  by (auto simp: attach_def split: prod.splits if_splits)

lemma start_progress:
  assumes "(r, x) = attach B identity t n" "(t', n') = x" "\<not> deadline \<le> t'"
  shows "deadline - (t' + POLL_INTERVAL) < deadline - t" "deadline - (t' + (c + POLL_INTERVAL)) < deadline - t"
  using assms attach_time [of B identity t n r t' n'] by (auto simp: limit_defs)

section \<open>The two loops\<close>

function lock_loop :: "'n broker \<Rightarrow> nat \<Rightarrow> nat \<Rightarrow> 'n \<Rightarrow> (unit + unit) \<times> nat \<times> 'n" where
  "lock_loop B deadline t n = (case bk_startup_lock B n of
     (Locked, n') \<Rightarrow> (Inr (), t, n')
   | (LockFailed, n') \<Rightarrow> (Inl (), t, n')
   | (WouldBlock, n') \<Rightarrow> if t < deadline then lock_loop B deadline (t + POLL_INTERVAL) n' else (Inl (), t, n'))"
  by pat_completeness auto

termination
  by (relation "measure (\<lambda>(_, deadline, t, _). deadline - t)") (auto simp: limit_defs)

declare lock_loop.simps [simp del]

text \<open>After a failed handshake: start a broker once, when nobody owns it, and try again.\<close>

function start_loop :: "'n broker \<Rightarrow> bytes \<Rightarrow> nat \<Rightarrow> nat \<Rightarrow> bool \<Rightarrow> nat \<Rightarrow> 'n \<Rightarrow> (unit + bytes) \<times> nat \<times> 'n" where
  "start_loop B identity pipe_time deadline started t n = (case attach B identity t n of (r, t', n') \<Rightarrow>
     (case r of
        Inr lease \<Rightarrow> (Inr lease, t', n')
      | Inl _ \<Rightarrow>
          if deadline \<le> t' then (Inl (), t', n')
          else if started then start_loop B identity pipe_time deadline True (t' + POLL_INTERVAL) n'
          else case bk_owner_lock B n' of
            (WouldBlock, m) \<Rightarrow> start_loop B identity pipe_time deadline False (t' + POLL_INTERVAL) m
          | (LockFailed, m) \<Rightarrow> (Inl (), t', m)
          | (Locked, m) \<Rightarrow> (case bk_owner_unlock B m of
              (False, m') \<Rightarrow> (Inl (), t', m')
            | (True, m') \<Rightarrow> (case bk_spawn B m' of
                (False, m'') \<Rightarrow> (Inl (), t' + pipe_time, m'')
              | (True, m'') \<Rightarrow> start_loop B identity pipe_time deadline True (t' + pipe_time + POLL_INTERVAL) m''))))"
  by pat_completeness auto

termination
  by (relation "measure (\<lambda>(_, _, _, deadline, _, t, _). deadline - t)")
    (simp, (simp add: start_progress add.assoc del: diff_diff_left)+)

declare start_loop.simps [simp del]

section \<open>The lease\<close>

definition acquire :: "'n broker \<Rightarrow> bytes \<Rightarrow> nat \<Rightarrow> nat \<Rightarrow> 'n \<Rightarrow> (unit + bytes) \<times> nat \<times> 'n" where
  "acquire B identity pipe_time t n = (case bk_directory B n of
     (False, n1) \<Rightarrow> (Inl (), t, n1)
   | (True, n1) \<Rightarrow> (case attach B identity t n1 of
       (Inr lease, t2, n2) \<Rightarrow> (Inr lease, t2, n2)
     | (Inl _, t2, n2) \<Rightarrow>
         let deadline = t2 + START_TIMEOUT in
         (case lock_loop B deadline t2 n2 of
            (Inl _, t3, n3) \<Rightarrow> (Inl (), t3, n3)
          | (Inr _, t3, n3) \<Rightarrow> (case bk_open_locks B n3 of
              (False, n4) \<Rightarrow> (Inl (), t3, bk_startup_unlock B n4)
            | (True, n4) \<Rightarrow> (case start_loop B identity pipe_time deadline False t3 n4 of
                (r, t5, n5) \<Rightarrow> (r, t5, bk_startup_unlock B n5))))))"

lemma lock_loop_time:
  "lock_loop B deadline t n = (r, t', n') \<Longrightarrow> t \<le> deadline + POLL_INTERVAL \<Longrightarrow> t \<le> t' \<and> t' \<le> deadline + POLL_INTERVAL"
proof (induction B deadline t n rule: lock_loop.induct)
  case (1 B deadline t n)
  show ?case
  proof (cases "fst (bk_startup_lock B n) = WouldBlock \<and> t < deadline")
    case True
    then obtain m where b: "bk_startup_lock B n = (WouldBlock, m)" "t < deadline" by (cases "bk_startup_lock B n") auto
    then have "lock_loop B deadline (t + POLL_INTERVAL) m = (r, t', n')" using 1(2) by (simp add: lock_loop.simps [of B deadline t])
    then show ?thesis using 1(1) [OF b(1) [symmetric] refl b(2)] b(2) by simp
  next
    case False
    then show ?thesis
      using 1(2,3) by (cases "bk_startup_lock B n"; cases "fst (bk_startup_lock B n)") (auto simp: lock_loop.simps [of B deadline t] split: if_splits)
  qed
qed

lemma start_loop_time:
  "start_loop B identity pipe_time deadline started t n = (r, t', n') \<Longrightarrow>
   t \<le> deadline + POLL_INTERVAL + (if started then pipe_time else 0) \<Longrightarrow>
   t \<le> t' \<and> t' \<le> deadline + POLL_INTERVAL + pipe_time + ATTACH_TIMEOUT"
proof (induction B identity pipe_time deadline started t n rule: start_loop.induct)
  case (1 B identity pipe_time deadline started t n)
  obtain q u m where a: "attach B identity t n = (q, u, m)" by (cases "attach B identity t n")
  note u = attach_time [OF a]
  have stop: ?case if "t' = u \<or> t' = u + pipe_time \<and> u < deadline"
    using that u 1(5) by (auto split: if_splits)
  show ?case
  proof (cases "(\<exists>lease. q = Inr lease) \<or> deadline \<le> u")
    case True
    then show ?thesis using 1(4) a by (intro stop) (auto simp: start_loop.simps [of B] split: sum.splits if_splits)
  next
    case False
    then have q: "q = Inl ()" "u < deadline" by (cases q; simp)+
    show ?thesis
    proof (cases started)
      case True
      then have "start_loop B identity pipe_time deadline True (u + POLL_INTERVAL) m = (r, t', n')"
        using 1(4) a q by (simp add: start_loop.simps [of B identity pipe_time deadline _ t])
      then show ?thesis using 1(1) [OF a [symmetric] refl q(1) _ True] q(2) True u by simp
    next
      case fresh: False
      obtain l k where l: "bk_owner_lock B m = (l, k)" by (cases "bk_owner_lock B m")
      show ?thesis
      proof (cases l)
        case WouldBlock
        then have "start_loop B identity pipe_time deadline False (u + POLL_INTERVAL) k = (r, t', n')"
          using 1(4) a q fresh l by (simp add: start_loop.simps [of B identity pipe_time deadline _ t])
        then show ?thesis using 1(3) [OF a [symmetric] refl q(1) _ fresh l [symmetric] WouldBlock] q(2) u by simp
      next
        case Locked
        obtain ok k' where ok: "bk_owner_unlock B k = (ok, k')" by (cases "bk_owner_unlock B k")
        obtain sp k'' where sp: "bk_spawn B k' = (sp, k'')" by (cases "bk_spawn B k'")
        show ?thesis
        proof (cases "ok \<and> sp")
          case True
          then have "start_loop B identity pipe_time deadline True (u + pipe_time + POLL_INTERVAL) k'' = (r, t', n')"
            using 1(4) a q fresh l Locked ok sp by (simp add: start_loop.simps [of B identity pipe_time deadline _ t])
          then show ?thesis using 1(2) [OF a [symmetric] refl q(1) _ fresh l [symmetric] Locked ok [symmetric] _ sp [symmetric]] True q(2) u by simp
        next
          case False
          then show ?thesis
            using 1(4) a q fresh l Locked ok sp
            by (intro stop; cases ok) (auto simp: start_loop.simps [of B identity pipe_time deadline _ t])
        qed
      next
        case LockFailed
        then show ?thesis using 1(4) a q fresh l by (intro stop) (simp add: start_loop.simps [of B identity pipe_time deadline _ t])
      qed
    qed
  qed
qed

text \<open>The longest that a command waits for its lease, apart from the pipe of a broker that it starts.\<close>

definition ACQUIRE_LIMIT :: nat where
  "ACQUIRE_LIMIT = ATTACH_TIMEOUT + START_TIMEOUT + POLL_INTERVAL + ATTACH_TIMEOUT"

lemma acquire_time:
  assumes "acquire B identity pipe_time t n = (r, t', n')"
  shows "t \<le> t' \<and> t' \<le> t + ACQUIRE_LIMIT + pipe_time"
proof -
  obtain ok n1 where ok: "bk_directory B n = (ok, n1)" by (cases "bk_directory B n")
  obtain q u m where a: "attach B identity t n1 = (q, u, m)" by (cases "attach B identity t n1")
  obtain l v k where l: "lock_loop B (u + START_TIMEOUT) u m = (l, v, k)" by (cases "lock_loop B (u + START_TIMEOUT) u m")
  note u = attach_time [OF a] and v = lock_loop_time [OF l]
  show ?thesis
  proof (cases "ok \<and> (\<exists>x. q = Inl x) \<and> (\<exists>x. l = Inr x) \<and> fst (bk_open_locks B k)")
    case True
    then obtain i where i: "bk_open_locks B k = (True, i)" by (cases "bk_open_locks B k") auto
    obtain p w j where w: "start_loop B identity pipe_time (u + START_TIMEOUT) False v i = (p, w, j)"
      by (cases "start_loop B identity pipe_time (u + START_TIMEOUT) False v i")
    have "t' = w" using assms True ok a l w i by (auto simp: acquire_def)
    then show ?thesis using start_loop_time [OF w] u v by (simp add: ACQUIRE_LIMIT_def)
  next
    case False
    then have "t' = t \<or> t' = u \<or> t' = v"
      using assms ok a l by (auto simp: acquire_def Let_def split: sum.splits prod.splits bool.splits)
    then show ?thesis using u v by (auto simp: ACQUIRE_LIMIT_def)
  qed
qed

end
