(* ===== verification/Remote_Update.thy ===== *)
theory Remote_Update
  imports Publisher Client_Transport
begin

text \<open>
  \<open>cli/src/remote_update.rs\<close> and \<open>cli/src/sync/attached_update.rs\<close>: asking a machine to update itself and waiting until its
  replacement confirms. A peer is a function: given a frame, the time and the state of the
  network, it says what the exchange gives (the bytes that are read until the peer closes its side, or no
  connection), how long it takes and the next state. Times are nanoseconds of the monotonic clock; a time limit that
  elapses ends the exchange at its deadline. Waiting is part of time, so the loop of the confirmation is a terminating function.
  The local endpoint is bound first, by the lease of \<open>Client_Transport\<close>, and closed last; \<open>closing\<close> is how long closing waits for it.
\<close>

definition ATTACHED_UPDATE_START_TIMEOUT :: nat where [limit_defs]: "ATTACHED_UPDATE_START_TIMEOUT = 150 * 1000000000"
definition ATTACHED_UPDATE_ATTEMPT_TIMEOUT :: nat where [limit_defs]: "ATTACHED_UPDATE_ATTEMPT_TIMEOUT = 5 * 1000000000"
definition MAX_ATTACHED_RECONNECT_TIMEOUT :: nat where [limit_defs]: "MAX_ATTACHED_RECONNECT_TIMEOUT = 60 * 1000000000"

type_synonym 'n peer = "bytes \<Rightarrow> nat \<Rightarrow> 'n \<Rightarrow> (unit + bytes) \<times> nat \<times> 'n"

datatype update_failure =
    NoEndpoint | NoConnection | BadReply FrameError | TimedOut | InvalidReconnect | RemoteFailed bytes | RemoteBusy | RemoteWaiting
  | WrongInstalled UpdateVersion | Unexpected AttachedUpdateResponse | NeverConfirmed "update_failure option"

definition exchange_attached_update ::
  "'n peer \<Rightarrow> bytes \<Rightarrow> nat \<Rightarrow> 'n \<Rightarrow> (update_failure + AttachedUpdateResponse) \<times> nat \<times> 'n" where
  "exchange_attached_update D frame t n = (case D frame t n of (r, duration, n') \<Rightarrow>
     ((case r of Inl _ \<Rightarrow> Inl NoConnection | Inr bs \<Rightarrow> map_err BadReply (run_reader read_attached_update_response bs)),
      t + duration, n'))"

definition exchange_attached_update_start where
  "exchange_attached_update_start D capability = exchange_attached_update D (write_attached_update_start_request capability)"

definition exchange_attached_update_confirm where
  "exchange_attached_update_confirm D capability oid v = exchange_attached_update D (write_attached_update_confirm_request capability oid v)"

text \<open>\<open>timeout_at\<close>.\<close>

definition by_deadline :: "nat \<Rightarrow> (update_failure + 'a) \<times> nat \<times> 'n \<Rightarrow> (update_failure + 'a) \<times> nat \<times> 'n" where
  "by_deadline deadline x = (case x of (r, t, n) \<Rightarrow> if t \<le> deadline then (r, t, n) else (Inl TimedOut, deadline, n))"

text \<open>The delay before attempt \<open>k + 1\<close>: it starts at 100 milliseconds and doubles up to one second.\<close>

fun delay_after :: "nat \<Rightarrow> nat" where
  "delay_after 0 = 100 * 1000000"
| "delay_after (Suc k) = min (delay_after k * 2) 1000000000"

lemma delay_positive: "0 < delay_after k"
  by (induction k) simp_all

text \<open>One turn of the loop: \<open>Inl\<close> is the result, \<open>Inr\<close> the last error to remember.\<close>

definition confirm_turn ::
  "UpdateVersion \<Rightarrow> update_failure option \<Rightarrow> update_failure + AttachedUpdateResponse
     \<Rightarrow> (update_failure + UpdateVersion) + update_failure option" where
  "confirm_turn version last_error r = (case r of
     Inr (Committed v) \<Rightarrow> Inl (if v = version then Inr v else Inl (WrongInstalled v))
   | Inr (Current v) \<Rightarrow>
       if v = version then Inl (Inr v) else Inr (Some (Unexpected (Current v)))
   | Inr (Failed message) \<Rightarrow> Inl (Inl (RemoteFailed message))
   | Inr Busy \<Rightarrow> Inr last_error
   | Inr Waiting \<Rightarrow> Inr last_error
   | Inr response \<Rightarrow> Inr (Some (Unexpected response))
   | Inl e \<Rightarrow> Inr (Some e))"

lemma by_deadline_time:
  "by_deadline (min (t + ATTACHED_UPDATE_ATTEMPT_TIMEOUT) deadline) (exchange_attached_update D frame t n) = (r, t', n') \<Longrightarrow> t < deadline \<Longrightarrow>
   t \<le> t' \<and> t' \<le> deadline"
  by (auto simp: by_deadline_def exchange_attached_update_def limit_defs split: prod.splits if_splits)

lemma turn_progress:
  assumes "\<not> deadline \<le> t"
    and "(r, y) = by_deadline (min (t + ATTACHED_UPDATE_ATTEMPT_TIMEOUT) deadline) (exchange_attached_update_confirm D capability oid v t n)" "(t', n') = y"
  shows "deadline - (t' + min (delay_after k) (deadline - t')) < deadline - t"
proof -
  have "t \<le> t'" "t' \<le> deadline" using by_deadline_time assms by (metis exchange_attached_update_confirm_def not_le)+
  then show ?thesis using assms(1) delay_positive [of k] by auto
qed

function confirm_loop ::
  "'n peer \<Rightarrow> bytes \<Rightarrow> bytes \<Rightarrow> UpdateVersion \<Rightarrow> nat \<Rightarrow> nat \<Rightarrow> update_failure option \<Rightarrow> nat \<Rightarrow> 'n
     \<Rightarrow> (update_failure + UpdateVersion) \<times> nat \<times> 'n" where
  "confirm_loop D capability oid version deadline k last_error t n =
     (if t \<ge> deadline then (Inl (NeverConfirmed last_error), t, n)
      else case by_deadline (min (t + ATTACHED_UPDATE_ATTEMPT_TIMEOUT) deadline)
          (exchange_attached_update_confirm D capability oid version t n) of (r, t', n') \<Rightarrow>
        (case confirm_turn version last_error r of
           Inl result \<Rightarrow> (result, t', n')
         | Inr last_error' \<Rightarrow>
             confirm_loop D capability oid version deadline (Suc k) last_error' (t' + min (delay_after k) (deadline - t')) n'))"
  by pat_completeness auto

termination
  by (relation "measure (\<lambda>(_, _, _, _, deadline, _, _, t, _). deadline - t)") (simp, use turn_progress in fastforce)

declare confirm_loop.simps [simp del]

definition confirm_attached_candidate ::
  "'n peer \<Rightarrow> bytes \<Rightarrow> bytes \<Rightarrow> UpdateVersion \<Rightarrow> nat \<Rightarrow> nat \<Rightarrow> 'n \<Rightarrow> (update_failure + UpdateVersion) \<times> nat \<times> 'n" where
  "confirm_attached_candidate D capability oid version reconnect_timeout t n =
     confirm_loop D capability oid version (t + reconnect_timeout) 0 None t n"

definition request_attached_update_on_endpoint ::
  "'n peer \<Rightarrow> bytes \<Rightarrow> nat \<Rightarrow> 'n \<Rightarrow> (update_failure + UpdateVersion) \<times> nat \<times> 'n" where
  "request_attached_update_on_endpoint D capability t n =
     (case by_deadline (t + ATTACHED_UPDATE_START_TIMEOUT) (exchange_attached_update_start D capability t n) of (r, t', n') \<Rightarrow>
      case r of
        Inl e \<Rightarrow> (Inl e, t', n')
      | Inr (Current version) \<Rightarrow> (Inr version, t', n')
      | Inr (Committed version) \<Rightarrow> (Inr version, t', n')
      | Inr (Restarting oid version seconds) \<Rightarrow>
          let reconnect_timeout = unat seconds * 1000000000 in
          if reconnect_timeout \<noteq> 0 \<and> reconnect_timeout \<le> MAX_ATTACHED_RECONNECT_TIMEOUT
          then confirm_attached_candidate D capability oid version reconnect_timeout t' n'
          else (Inl InvalidReconnect, t', n')
      | Inr (Failed message) \<Rightarrow> (Inl (RemoteFailed message), t', n')
      | Inr Busy \<Rightarrow> (Inl RemoteBusy, t', n')
      | Inr Waiting \<Rightarrow> (Inl RemoteWaiting, t', n'))"

definition request_attached_update ::
  "'n broker \<Rightarrow> bytes \<Rightarrow> nat \<Rightarrow> nat \<Rightarrow> 'n peer \<Rightarrow> bytes \<Rightarrow> nat \<Rightarrow> 'n \<Rightarrow> (update_failure + UpdateVersion) \<times> nat \<times> 'n" where
  "request_attached_update B identity pipe_time closing D capability t n =
     (case acquire B identity pipe_time t n of
        (Inl _, t', n') \<Rightarrow> (Inl NoEndpoint, t', n')
      | (Inr _, t', n') \<Rightarrow> (case request_attached_update_on_endpoint D capability t' n' of
          (result, t'', n'') \<Rightarrow> (result, t'' + closing, bk_release B n'')))"

section \<open>Updating a synchronised machine\<close>

text \<open>\<open>connect\<close> gives the peer at an address for a local identity, whose public key names its broker; \<open>pick\<close> is the outcome of the
  interactive host picker.\<close>

definition remote_update ::
  "crates \<Rightarrow> local_crypto \<Rightarrow> json_lib \<Rightarrow> 'ticket platform \<Rightarrow> primitives \<Rightarrow> endpoint_ids \<Rightarrow> 'n transport \<Rightarrow> failure + bytes
     \<Rightarrow> 'n broker \<Rightarrow> nat \<Rightarrow> nat \<Rightarrow> ('ticket \<Rightarrow> bytes \<Rightarrow> 'n peer) \<Rightarrow> (SyncedHost list \<Rightarrow> failure + bytes option) \<Rightarrow> bytes option
     \<Rightarrow> (('n, 'z) station_scheme, UpdateVersion option) io" where
  "remote_update K L J P C I T temp_root B pipe_time closing connect pick target =
     bind_io (load_account_credentials K L J Download) (\<lambda>account.
     bind_io (refresh_hosts K L J P C I T temp_root) (\<lambda>refreshed.
     bind_io (case target of Some name \<Rightarrow> return_io (Some name) | None \<Rightarrow> of_result (pick (rr_hosts refreshed))) (\<lambda>selected.
     case selected of
       None \<Rightarrow> return_io None
     | Some name \<Rightarrow>
         bind_io utc_now_seconds (\<lambda>t.
         bind_io (host K L J P I account name t) (\<lambda>h.
         bind_io (get_io euid) (\<lambda>uid.
         bind_io (case default_dir temp_root uid of
             Inl _ \<Rightarrow> return_io ()
           | Inr registry_dir \<Rightarrow> bind_io (in_registry (is_active registry_dir (hc_endpoint_identity h))) (\<lambda>active.
               ensure_io (\<not> active) HostAmbiguous)) (\<lambda>_.
         bind_io utc_now_seconds (\<lambda>t.
         bind_io (ensure_io (nanos_of t < nanos_of (hc_expires_at h)) DescriptorExpired) (\<lambda>_.
         bind_io (of_result (ok_or (ticket_from_str P (hc_endpoint_ticket h)) InvalidDescriptor)) (\<lambda>endpoint.
         bind_io (ensure_io (ticket_id P endpoint = hc_endpoint_identity h) IdentityChanged) (\<lambda>_.
         bind_io (of_result (ok_or (ac_consumer_identity_secret account) InvalidAccount)) (\<lambda>local_identity.
         bind_io instant_now (\<lambda>i.
         bind_io (in_network (\<lambda>n. case request_attached_update B (verifying_key K local_identity) pipe_time closing
               (connect endpoint local_identity) (hc_attach_capability h) i n of (r, _, n') \<Rightarrow>
             (map_err (\<lambda>_. Io) r, n'))) (\<lambda>version. return_io (Some version)))))))))))))))"

section \<open>What an answer means\<close>

definition answers :: "'n peer \<Rightarrow> bytes \<Rightarrow> AttachedUpdateResponse \<Rightarrow> bool" where
  "answers D frame r \<longleftrightarrow> (\<exists>t n. fst (exchange_attached_update D frame t n) = Inr r)"

text \<open>The peer said that it already runs this version, or it announced it and its replacement confirmed the same operation and version.\<close>

definition update_vouched :: "'n peer \<Rightarrow> bytes \<Rightarrow> UpdateVersion \<Rightarrow> bool" where
  "update_vouched D capability v \<longleftrightarrow>
     answers D (write_attached_update_start_request capability) (Current v)
     \<or> answers D (write_attached_update_start_request capability) (Committed v)
     \<or> (\<exists>oid seconds. answers D (write_attached_update_start_request capability) (Restarting oid v seconds)
          \<and> 0 < seconds \<and> unat seconds \<le> 60
          \<and> (answers D (write_attached_update_confirm_request capability oid v) (Committed v)
             \<or> answers D (write_attached_update_confirm_request capability oid v) (Current v)))"

lemma by_deadline_answers:
  "by_deadline deadline (exchange_attached_update D frame t n) = (Inr r, t', n') \<Longrightarrow> answers D frame r"
  by (auto simp: by_deadline_def answers_def split: prod.splits if_splits) (metis fst_conv)

lemma confirm_turn_Inl:
  "confirm_turn v last_error r = Inl (Inr w) \<Longrightarrow> w = v \<and> (r = Inr (Committed v) \<or> r = Inr (Current v))"
  by (auto simp: confirm_turn_def split: sum.splits AttachedUpdateResponse.splits if_splits)

lemma confirm_loop_result:
  "confirm_loop D capability oid v deadline k last_error t n = (r, t', n') \<Longrightarrow> t \<le> deadline \<Longrightarrow>
     t \<le> t' \<and> t' \<le> deadline \<and> (\<forall>w. r = Inr w \<longrightarrow> w = v
       \<and> (answers D (write_attached_update_confirm_request capability oid v) (Committed v)
          \<or> answers D (write_attached_update_confirm_request capability oid v) (Current v)))"
proof (induction D capability oid v deadline k last_error t n rule: confirm_loop.induct)
  case (1 D capability oid v deadline k last_error t n)
  show ?case
  proof (cases "t \<ge> deadline")
    case True
    then show ?thesis using 1(2,3) by (auto simp: confirm_loop.simps)
  next
    case False
    obtain q u m where x: "by_deadline (min (t + ATTACHED_UPDATE_ATTEMPT_TIMEOUT) deadline)
        (exchange_attached_update_confirm D capability oid v t n) = (q, u, m)" by (cases "by_deadline (min (t + ATTACHED_UPDATE_ATTEMPT_TIMEOUT) deadline)
        (exchange_attached_update_confirm D capability oid v t n)")
    have u: "t \<le> u" "u \<le> deadline"
      using by_deadline_time [OF x [unfolded exchange_attached_update_confirm_def]] False by auto
    show ?thesis
    proof (cases "confirm_turn v last_error q")
      case (Inl result)
      then have e: "result = r" "t' = u" using 1(2) False x by (simp_all add: confirm_loop.simps [of D])
      have "w = v \<and> (answers D (write_attached_update_confirm_request capability oid v) (Committed v)
          \<or> answers D (write_attached_update_confirm_request capability oid v) (Current v))" if "r = Inr w" for w
      proof -
        have q: "w = v" "q = Inr (Committed v) \<or> q = Inr (Current v)" using confirm_turn_Inl [of v last_error q w] Inl e(1) that by auto
        then show ?thesis using by_deadline_answers [OF x [unfolded exchange_attached_update_confirm_def, THEN trans]] by auto
      qed
      then show ?thesis using u e(2) by blast
    next
      case (Inr last_error')
      then have run: "confirm_loop D capability oid v deadline (Suc k) last_error' (u + min (delay_after k) (deadline - u)) m = (r, t', n')"
        using 1(2) False x by (simp add: confirm_loop.simps [of D _ _ _ _ k])
      have "u + min (delay_after k) (deadline - u) \<le> deadline" using u(2) by simp
      note ih = 1(1) [OF False x [symmetric] refl Inr run this]
      then have "t \<le> t'" using u(1) by linarith
      then show ?thesis using ih by blast
    qed
  qed
qed

lemma on_endpoint_result:
  assumes "request_attached_update_on_endpoint D capability t n = (r, t', n')"
  shows "t \<le> t' \<and> t' \<le> t + ATTACHED_UPDATE_START_TIMEOUT + MAX_ATTACHED_RECONNECT_TIMEOUT
    \<and> (\<forall>v. r = Inr v \<longrightarrow> update_vouched D capability v)"
proof -
  obtain q u m where x: "by_deadline (t + ATTACHED_UPDATE_START_TIMEOUT) (exchange_attached_update_start D capability t n) = (q, u, m)"
    by (cases "by_deadline (t + ATTACHED_UPDATE_START_TIMEOUT) (exchange_attached_update_start D capability t n)")
  then have u: "t \<le> u" "u \<le> t + ATTACHED_UPDATE_START_TIMEOUT"
    by (auto simp: by_deadline_def exchange_attached_update_start_def exchange_attached_update_def split: prod.splits if_splits)
  have a: "answers D (write_attached_update_start_request capability) y" if "q = Inr y" for y
    using x that by (simp add: exchange_attached_update_start_def by_deadline_answers)
  consider (restarting) oid v seconds where "q = Inr (Restarting oid v seconds)" "seconds \<noteq> 0"
      "unat seconds * 1000000000 \<le> MAX_ATTACHED_RECONNECT_TIMEOUT"
    | (other) "t' = u" "\<And>v. r = Inr v \<Longrightarrow> q = Inr (Current v) \<or> q = Inr (Committed v)"
    using assms x by (cases q; (cases "projr q")?) (auto simp: request_attached_update_on_endpoint_def Let_def unat_gt_0 split: if_splits)
  then show ?thesis
  proof cases
    case restarting
    then have run: "confirm_loop D capability oid v (u + unat seconds * 1000000000) 0 None u m = (r, t', n')"
      using assms x by (simp add: request_attached_update_on_endpoint_def confirm_attached_candidate_def unat_gt_0)
    have "unat seconds \<le> 60" "0 < seconds" using restarting(2,3) by (simp_all add: limit_defs word_neq_0_conv)
    then show ?thesis
      using confirm_loop_result [OF run] a [OF restarting(1)] u restarting(3) by (fastforce simp: update_vouched_def)
  next
    case other
    then show ?thesis using a u by (auto simp: update_vouched_def)
  qed
qed

section \<open>Properties\<close>

text \<open>C18: asking a machine to update ends, and success means what it says. Whatever the local broker and the peer answer and
  however long they take, the request returns: within the limit of binding the endpoint (two handshakes of two seconds, fifteen seconds
  for the start and one pause), 150 seconds for the start and 60 for the reconnection, and the two waits that the code does not
  limit, for the pipe of a new broker and for closing the endpoint. A version is reported only when the peer itself vouched for it: it
  said that it already runs this version, or it announced the version with an acceptable reconnection time and its
  replacement confirmed that very operation and version.\<close>

theorem remote_update_ends_vouched:
  "case request_attached_update B identity pipe_time closing D capability t n of (r, t', n') \<Rightarrow>
     t \<le> t' \<and> t' \<le> t + (ACQUIRE_LIMIT + pipe_time) + ATTACHED_UPDATE_START_TIMEOUT + MAX_ATTACHED_RECONNECT_TIMEOUT + closing
     \<and> (case r of Inl _ \<Rightarrow> True | Inr v \<Rightarrow> update_vouched D capability v)"
proof -
  obtain q u m where a: "acquire B identity pipe_time t n = (q, u, m)" by (cases "acquire B identity pipe_time t n")
  obtain r v k where r: "request_attached_update_on_endpoint D capability u m = (r, v, k)"
    by (cases "request_attached_update_on_endpoint D capability u m")
  show ?thesis
    using acquire_time [OF a] on_endpoint_result [OF r] a r
    by (cases q; cases r) (auto simp: request_attached_update_def)
qed

end
