(* ===== verification/Update_Handoff.thy ===== *)
theory Update_Handoff
  imports Attached_Version
begin

text \<open>
  The serving side of an update: the replacement of the executable and its rollback copy (\<open>cli/src/installation.rs\<close>), the
  candidate process and its control channel (\<open>cli/src/serve_handoff.rs\<close>), and the hand-over of the server (\<open>cli/src/server.rs\<close>).
  The state holds the executable, the rollback copy beside it, which system calls fail, the events that the candidate will send,
  which writes to it fail, and the commands it received. Running the updater and asking an executable for its version are
  parameters; a deadline that elapses while waiting for an event is an error in the list of events. The preparation runs in a
  thread of its own: when its deadline elapses, the request fails at once and the thread goes on, as a task in \<open>abandoned\<close>.
\<close>

datatype ParentCommand = Activate | CommitCandidate | AbortCandidate

datatype CandidateEvent =
    Prepared UpdateVersion | CandidateReady UpdateVersion | ConsumerConnected | ClientSucceeded | CandidateFailed bytes

datatype CandidateDisposition = DispositionPending | DispositionCommitted | DispositionAborted

text \<open>How far the thread of a preparation has come.\<close>

datatype update_task =
    TaskStarted | TaskRetained | TaskUpdated "failure + bool" | TaskFinished "failure + UpdateVersion"

record update_server =
  executable_file :: "bytes option"
  rollback_copy :: "bytes option"
  call_failures :: "bool list"
  cand_events :: "(failure + CandidateEvent) list"
  cand_writes :: "bool list"
  commands :: "ParentCommand list"
  candidate_running :: bool
  active_operation :: "bytes option"
  update_permits :: nat
  abandoned :: "update_task list"

definition fs_call :: "(update_server \<Rightarrow> update_server) \<Rightarrow> (update_server, unit) io" where
  "fs_call f s = (case call_failures s of
     True # r \<Rightarrow> (Inl Io, s\<lparr>call_failures := r\<rparr>)
   | False # r \<Rightarrow> (Inr (), f (s\<lparr>call_failures := r\<rparr>))
   | [] \<Rightarrow> (Inr (), f s))"

definition modify :: "(update_server \<Rightarrow> update_server) \<Rightarrow> (update_server, unit) io" where
  "modify f s = (Inr (), f s)"

text \<open>What a destructor does when the rest of a function fails.\<close>

definition or_else :: "('s, 'a) io \<Rightarrow> ('s, unit) io \<Rightarrow> ('s, 'a) io" where
  "or_else m cleanup = bind_io (try_io m) (\<lambda>r. case r of
     Inr a \<Rightarrow> return_io a
   | Inl e \<Rightarrow> bind_io (try_io cleanup) (\<lambda>_. fail_io e))"

section \<open>The executable and its rollback copy\<close>

definition sync_parent :: "(update_server, unit) io" where
  "sync_parent = bind_io (fs_call id) (\<lambda>_. fs_call id)"

text \<open>\<open>path_ok\<close>: the path is absolute and ends in the name of the program.\<close>

definition validate_executable_path :: "bool \<Rightarrow> (update_server, unit) io" where
  "validate_executable_path path_ok =
     bind_io (ensure_io path_ok InvalidName) (\<lambda>_.
     bind_io (fs_call id) (\<lambda>_.
     bind_io (get_io executable_file) (\<lambda>f. ensure_io (f \<noteq> None) UnsafeFile)))"

definition drop_rollback :: "(update_server, unit) io" where
  "drop_rollback = modify (\<lambda>s. s\<lparr>rollback_copy := None\<rparr>)"

definition restore_backup :: "(update_server, unit) io" where
  "restore_backup =
     bind_io (or_else (bind_io (fs_call id) (\<lambda>_.
         fs_call (\<lambda>s. s\<lparr>executable_file := rollback_copy s, rollback_copy := None\<rparr>))) drop_rollback) (\<lambda>_.
     sync_parent)"

definition commit_update :: "(update_server, unit) io" where
  "commit_update = bind_io (fs_call (\<lambda>s. s\<lparr>rollback_copy := None\<rparr>)) (\<lambda>_. sync_parent)"

definition version_le :: "UpdateVersion \<Rightarrow> UpdateVersion \<Rightarrow> bool" where
  "version_le a b \<longleftrightarrow> uv_major a < uv_major b \<or> uv_major a = uv_major b
     \<and> (uv_minor a < uv_minor b \<or> uv_minor a = uv_minor b \<and> uv_patch a \<le> uv_patch b)"

definition retain_current :: "(update_server, unit) io" where
  "retain_current =
     bind_io (fs_call (\<lambda>s. s\<lparr>rollback_copy := Some []\<rparr>)) (\<lambda>_.
     or_else (bind_io (get_io executable_file) (\<lambda>f.
       bind_io (of_result (ok_or f NotFound)) (\<lambda>current.
       bind_io (fs_call (\<lambda>s. s\<lparr>rollback_copy := Some current\<rparr>)) (\<lambda>_.
       bind_io (fs_call id) (\<lambda>_. bind_io (fs_call id) (\<lambda>_. fs_call id)))))) drop_rollback)"

text \<open>The updater changes the executable as it likes and reports whether it succeeded. \<open>version_output\<close> is what an executable prints.\<close>

definition run_updater ::
  "(bytes option \<Rightarrow> (failure + bool) \<times> bytes option) \<Rightarrow> (update_server, bool) io" where
  "run_updater updater s = (case updater (executable_file s) of (r, f) \<Rightarrow> (r, s\<lparr>executable_file := f\<rparr>))"

definition check_candidate ::
  "bool \<Rightarrow> (bytes \<Rightarrow> failure + bool \<times> bytes) \<Rightarrow> UpdateVersion \<Rightarrow> bool \<Rightarrow> (update_server, UpdateVersion) io" where
  "check_candidate path_ok version_output current succeeded =
     bind_io (ensure_io succeeded InvalidVersion) (\<lambda>_.
     bind_io (validate_executable_path path_ok) (\<lambda>_.
     bind_io (get_io executable_file) (\<lambda>f.
     bind_io (of_result (bind_result (ok_or f NotFound) (\<lambda>x. query (version_output x)))) (\<lambda>candidate_version.
     bind_io (ensure_io (version_le current candidate_version) InvalidVersion) (\<lambda>_.
     bind_io sync_parent (\<lambda>_. return_io candidate_version))))))"

definition install_candidate ::
  "bool \<Rightarrow> (bytes option \<Rightarrow> (failure + bool) \<times> bytes option) \<Rightarrow> (bytes \<Rightarrow> failure + bool \<times> bytes) \<Rightarrow> UpdateVersion
     \<Rightarrow> (update_server, UpdateVersion) io" where
  "install_candidate path_ok updater version_output current =
     bind_io (run_updater updater) (check_candidate path_ok version_output current)"

definition retain_checked :: "bool \<Rightarrow> (update_server, unit) io" where
  "retain_checked path_ok =
     bind_io (validate_executable_path path_ok) (\<lambda>_.
     bind_io (validate_executable_path path_ok) (\<lambda>_. retain_current))"

definition prepare_remote_update ::
  "bool \<Rightarrow> (bytes option \<Rightarrow> (failure + bool) \<times> bytes option) \<Rightarrow> (bytes \<Rightarrow> failure + bool \<times> bytes) \<Rightarrow> UpdateVersion
     \<Rightarrow> (update_server, UpdateVersion) io" where
  "prepare_remote_update path_ok updater version_output current =
     bind_io (retain_checked path_ok) (\<lambda>_.
       or_else (install_candidate path_ok updater version_output current) restore_backup)"

section \<open>The thread of a preparation\<close>

text \<open>\<open>prepare_remote_update\<close> in three steps, for a thread that its request stopped waiting for. The updater is one step: it
  is a process of its own that replaces the executable.\<close>

fun task_step ::
  "bool \<Rightarrow> (bytes option \<Rightarrow> (failure + bool) \<times> bytes option) \<Rightarrow> (bytes \<Rightarrow> failure + bool \<times> bytes) \<Rightarrow> UpdateVersion
     \<Rightarrow> update_task \<times> update_server \<Rightarrow> update_task \<times> update_server" where
  "task_step path_ok updater version_output current (TaskStarted, s) = (case retain_checked path_ok s of
     (Inl e, t) \<Rightarrow> (TaskFinished (Inl e), t) | (Inr _, t) \<Rightarrow> (TaskRetained, t))"
| "task_step path_ok updater version_output current (TaskRetained, s) = (case run_updater updater s of
     (r, t) \<Rightarrow> (TaskUpdated r, t))"
| "task_step path_ok updater version_output current (TaskUpdated r, s) =
     (case or_else (bind_io (of_result r) (check_candidate path_ok version_output current)) restore_backup s of
        (q, t) \<Rightarrow> (TaskFinished q, t))"
| "task_step path_ok updater version_output current (TaskFinished q, s) = (TaskFinished q, s)"

text \<open>The end of an abandoned task: nobody takes its result, and dropping a prepared update restores the executable.\<close>

definition finish_task ::
  "bool \<Rightarrow> (bytes option \<Rightarrow> (failure + bool) \<times> bytes option) \<Rightarrow> (bytes \<Rightarrow> failure + bool \<times> bytes) \<Rightarrow> UpdateVersion
     \<Rightarrow> update_task \<Rightarrow> update_server \<Rightarrow> update_server" where
  "finish_task path_ok updater version_output current task s =
     (case (task_step path_ok updater version_output current ^^ 3) (task, s) of
        (TaskFinished (Inr _), t) \<Rightarrow> snd (restore_backup t) | (_, t) \<Rightarrow> t)"

definition finish_abandoned ::
  "bool \<Rightarrow> (bytes option \<Rightarrow> (failure + bool) \<times> bytes option) \<Rightarrow> (bytes \<Rightarrow> failure + bool \<times> bytes) \<Rightarrow> UpdateVersion
     \<Rightarrow> update_server \<Rightarrow> update_server" where
  "finish_abandoned path_ok updater version_output current s =
     fold (finish_task path_ok updater version_output current) (abandoned s) (s\<lparr>abandoned := []\<rparr>)"

section \<open>The candidate process\<close>

definition candidate_send :: "ParentCommand \<Rightarrow> (update_server, unit) io" where
  "candidate_send c s = (case cand_writes s of
     False # r \<Rightarrow> (Inl Io, s\<lparr>cand_writes := r\<rparr>)
   | True # r \<Rightarrow> (Inr (), s\<lparr>cand_writes := r, commands := commands s @ [c]\<rparr>)
   | [] \<Rightarrow> (Inr (), s\<lparr>commands := commands s @ [c]\<rparr>))"

definition next_event :: "(update_server, CandidateEvent) io" where
  "next_event s = (case cand_events s of [] \<Rightarrow> (Inl Io, s) | e # r \<Rightarrow> (e, s\<lparr>cand_events := r\<rparr>))"

definition candidate_abort :: "(update_server, unit) io" where
  "candidate_abort =
     bind_io (try_io (candidate_send AbortCandidate)) (\<lambda>_. modify (\<lambda>s. s\<lparr>candidate_running := False\<rparr>))"

text \<open>\<open>started\<close>: whether the process starts; \<open>configured\<close>: whether the configuration could be written to it.\<close>

definition candidate_spawn :: "bool \<Rightarrow> bool \<Rightarrow> UpdateVersion \<Rightarrow> (update_server, unit) io" where
  "candidate_spawn started configured expected =
     bind_io (ensure_io started Io) (\<lambda>_.
     bind_io (modify (\<lambda>s. s\<lparr>candidate_running := True\<rparr>)) (\<lambda>_.
     or_else (bind_io (ensure_io configured Io) (\<lambda>_.
       bind_io next_event (\<lambda>event. case event of
         Prepared version \<Rightarrow> ensure_io (version = expected) InvalidVersion
       | _ \<Rightarrow> fail_io Io))) candidate_abort))"

definition confirm_candidate :: "UpdateVersion \<Rightarrow> (update_server, unit) io" where
  "confirm_candidate expected =
     bind_io (candidate_send Activate) (\<lambda>_.
     bind_io next_event (\<lambda>event.
     bind_io (ensure_io (event = CandidateReady expected) InvalidVersion) (\<lambda>_.
     bind_io next_event (\<lambda>event.
     bind_io (ensure_io (event = ConsumerConnected) Io) (\<lambda>_. candidate_send CommitCandidate)))))"

section \<open>The hand-over\<close>

datatype PreparedAttachedUpdate = CurrentVersion UpdateVersion | Handoff UpdateVersion

datatype HandoffResolution = Retired | RolledBack bytes

text \<open>\<open>overdue\<close>: the deadline elapses when the thread has made that many steps. The thread is not stopped: it goes on beside
  the server, while the request fails and its permit is dropped.\<close>

definition abandon_after ::
  "nat \<Rightarrow> bool \<Rightarrow> (bytes option \<Rightarrow> (failure + bool) \<times> bytes option) \<Rightarrow> (bytes \<Rightarrow> failure + bool \<times> bytes) \<Rightarrow> UpdateVersion
     \<Rightarrow> (update_server, 'a) io" where
  "abandon_after k path_ok updater version_output current s =
     (case (task_step path_ok updater version_output current ^^ k) (TaskStarted, s) of
        (task, t) \<Rightarrow> (Inl Io, t\<lparr>abandoned := task # abandoned t\<rparr>))"

definition prepare_attached_handoff ::
  "bool \<Rightarrow> (bytes option \<Rightarrow> (failure + bool) \<times> bytes option) \<Rightarrow> (bytes \<Rightarrow> failure + bool \<times> bytes) \<Rightarrow> UpdateVersion
     \<Rightarrow> nat option \<Rightarrow> bool \<Rightarrow> bool \<Rightarrow> (update_server, PreparedAttachedUpdate) io" where
  "prepare_attached_handoff path_ok updater version_output current overdue started configured =
     bind_io (case overdue of
         None \<Rightarrow> prepare_remote_update path_ok updater version_output current
       | Some k \<Rightarrow> abandon_after k path_ok updater version_output current) (\<lambda>version.
     if version = current then bind_io commit_update (\<lambda>_. return_io (CurrentVersion version))
     else or_else (bind_io (candidate_spawn started configured version) (\<lambda>_. return_io (Handoff version))) restore_backup)"

definition abort_prepared_handoff :: "(update_server, unit) io" where
  "abort_prepared_handoff = bind_io candidate_abort (\<lambda>_. restore_backup)"

text \<open>\<open>exit\<close>: how the candidate, now the server, ends.\<close>

definition coordinate_handoff :: "bytes \<Rightarrow> UpdateVersion \<Rightarrow> failure + bool \<Rightarrow> (update_server, HandoffResolution) io" where
  "coordinate_handoff oid version exit =
     bind_io (try_io (confirm_candidate version)) (\<lambda>precommit. case precommit of
       Inl _ \<Rightarrow> bind_io candidate_abort (\<lambda>_. bind_io restore_backup (\<lambda>_. return_io (RolledBack oid)))
     | Inr _ \<Rightarrow>
         bind_io (try_io next_event) (\<lambda>_.
         bind_io (try_io commit_update) (\<lambda>_.
         bind_io (of_result exit) (\<lambda>succeeded.
         bind_io (ensure_io succeeded Io) (\<lambda>_. return_io Retired)))))"

section \<open>Serving update requests\<close>

definition CLIENT_RECONNECT_TIMEOUT :: u16 where "CLIENT_RECONNECT_TIMEOUT = 30"

definition end_operation :: "(update_server, unit) io" where
  "end_operation = modify (\<lambda>s. s\<lparr>active_operation := None, update_permits := Suc (update_permits s)\<rparr>)"

text \<open>A start request: the reply, and the operation and version to hand over to, if any. \<open>pending\<close>: this server is itself a
  candidate that is not committed; \<open>draw\<close>: the random operation identifier; \<open>replied\<close> and \<open>listening\<close>: whether the announcement was
  acknowledged and the supervisor still takes the hand-over. The permit goes with the hand-over.\<close>

definition serve_start ::
  "bool \<Rightarrow> failure + bytes \<Rightarrow> (update_server, PreparedAttachedUpdate) io \<Rightarrow> bool \<Rightarrow> bool
     \<Rightarrow> (update_server, AttachedUpdateResponse \<times> (bytes \<times> UpdateVersion) option) io" where
  "serve_start pending draw prepare replied listening =
     (if pending then return_io (Busy, None)
      else bind_io (get_io update_permits) (\<lambda>permits.
        if permits = 0 then return_io (Busy, None)
        else
          bind_io (of_result draw) (\<lambda>oid.
          bind_io (modify (\<lambda>s. s\<lparr>update_permits := permits - 1, active_operation := Some oid\<rparr>)) (\<lambda>_.
          bind_io (try_io prepare) (\<lambda>prepared. case prepared of
            Inl _ \<Rightarrow> bind_io end_operation (\<lambda>_. return_io (Failed (ascii ''remote Attached update could not be prepared''), None))
          | Inr (CurrentVersion version) \<Rightarrow> bind_io end_operation (\<lambda>_. return_io (Current version, None))
          | Inr (Handoff version) \<Rightarrow>
              if replied \<and> listening then return_io (Restarting oid version CLIENT_RECONNECT_TIMEOUT, Some (oid, version))
              else bind_io end_operation (\<lambda>_. bind_io abort_prepared_handoff (\<lambda>_. fail_io Io)))))))"

record CandidateConfirmation =
  cc_operation_id :: bytes
  cc_version :: UpdateVersion
  cc_disposition :: CandidateDisposition
  cc_announced_consumer :: bool

text \<open>The values that the disposition takes from now on; the watchdog stops at the end of the list.\<close>

fun await_disposition :: "CandidateDisposition \<Rightarrow> CandidateDisposition list \<Rightarrow> CandidateDisposition option" where
  "await_disposition DispositionPending (d # ds) = await_disposition d ds"
| "await_disposition DispositionPending [] = None"
| "await_disposition d ds = Some d"

text \<open>The reply about an operation that is not this candidate's own.\<close>

definition other_operation_response :: "bytes option \<Rightarrow> (bytes \<times> bytes) option \<Rightarrow> bytes \<Rightarrow> AttachedUpdateResponse" where
  "other_operation_response active rollback oid =
     (if active = Some oid then Waiting
      else case rollback of
        Some (rolled_back, reason) \<Rightarrow> Failed (if rolled_back = oid then reason else ascii ''unknown Attached update operation'')
      | None \<Rightarrow> Failed (ascii ''unknown Attached update operation''))"

text \<open>The reply to a confirmation, the events that go to the watchdog before it, and whether success is reported after it.\<close>

definition candidate_confirmation_response ::
  "CandidateConfirmation option \<Rightarrow> CandidateDisposition list \<Rightarrow> bytes option \<Rightarrow> (bytes \<times> bytes) option \<Rightarrow> bytes \<Rightarrow> UpdateVersion
     \<Rightarrow> AttachedUpdateResponse \<times> CandidateEvent list \<times> bool" where
  "candidate_confirmation_response candidate later active rollback oid observed =
     (case candidate of
        None \<Rightarrow> (other_operation_response active rollback oid, [], False)
      | Some c \<Rightarrow>
          if cc_operation_id c \<noteq> oid then (other_operation_response active rollback oid, [], False)
          else if cc_version c \<noteq> observed
          then (Failed (ascii ''updated Attached version did not match the prepared candidate''), [], False)
          else
            let notify = cc_disposition c = DispositionPending \<and> \<not> cc_announced_consumer c;
                events = (if notify then [ConsumerConnected] else [])
            in (case await_disposition (cc_disposition c) later of
                  None \<Rightarrow> (Failed (ascii ''updated Attached watchdog stopped before commit''), events, False)
                | Some d \<Rightarrow> if d = DispositionCommitted then (Committed (cc_version c), events, notify)
                    else (Failed (ascii ''updated Attached candidate was rolled back''), events, False)))"

text \<open>The supervisor after a hand-over: a rolled-back one clears the operation and serves again, with the permit released.\<close>

definition supervise_handoff :: "bytes \<Rightarrow> UpdateVersion \<Rightarrow> failure + bool \<Rightarrow> (update_server, HandoffResolution) io" where
  "supervise_handoff oid version exit =
     bind_io (coordinate_handoff oid version exit) (\<lambda>resolution. case resolution of
       Retired \<Rightarrow> return_io Retired
     | RolledBack r \<Rightarrow> bind_io end_operation (\<lambda>_. return_io (RolledBack r)))"

text \<open>A whole update: the request and, when it hands over, the supervisor.\<close>

definition serve_update ::
  "bool \<Rightarrow> failure + bytes \<Rightarrow> (update_server, PreparedAttachedUpdate) io \<Rightarrow> bool \<Rightarrow> bool \<Rightarrow> failure + bool
     \<Rightarrow> (update_server, AttachedUpdateResponse \<times> HandoffResolution option) io" where
  "serve_update pending draw prepare replied listening exit =
     bind_io (serve_start pending draw prepare replied listening) (\<lambda>(response, handoff). case handoff of
       None \<Rightarrow> return_io (response, None)
     | Some (oid, version) \<Rightarrow> bind_io (supervise_handoff oid version exit) (\<lambda>r. return_io (response, Some r)))"

section \<open>The control channel\<close>

definition MAX_IPC_MESSAGE_BYTES :: nat where [limit_defs]: "MAX_IPC_MESSAGE_BYTES = 16 * 1024"

text \<open>One message is one line of JSON. The reader returns the rest of the input.\<close>

definition write_message :: "json_lib \<Rightarrow> json \<Rightarrow> failure + bytes" where
  "write_message J message =
     (let encoded = json_to_vec J message in
      bind_result (ensure (length encoded \<le> MAX_IPC_MESSAGE_BYTES) StateTooLarge) (\<lambda>_. Inr (encoded @ [10])))"

definition read_message :: "json_lib \<Rightarrow> bytes \<Rightarrow> failure + (json option \<times> bytes)" where
  "read_message J stream =
     (let line = takeWhile (\<lambda>b. b \<noteq> 10) stream; complete = length line < length stream;
          encoded = take (Suc (length line)) stream; unread = drop (Suc (length line)) stream in
      if encoded = [] then Inr (None, unread)
      else
        bind_result (ensure (length encoded \<le> MAX_IPC_MESSAGE_BYTES + 1) StateTooLarge) (\<lambda>_.
        bind_result (ensure complete InvalidDescriptor) (\<lambda>_.
        bind_result (ok_or (json_from_slice J line) InvalidDescriptor) (\<lambda>j. Inr (Some j, unread)))))"

text \<open>The candidate's side: the first command must activate it, and the next one decides.\<close>

definition candidate_activate :: "failure + ParentCommand option \<Rightarrow> failure + unit" where
  "candidate_activate received =
     bind_result received (\<lambda>c. bind_result (ok_or c MissingState) (\<lambda>c. case c of
       Activate \<Rightarrow> Inr () | AbortCandidate \<Rightarrow> Inl Io | CommitCandidate \<Rightarrow> Inl Io))"

text \<open>The disposition after the deciding command, and whether serving is cancelled.\<close>

definition watchdog_decision :: "failure + ParentCommand option \<Rightarrow> CandidateDisposition \<times> bool" where
  "watchdog_decision received =
     (if received = Inr (Some CommitCandidate) then (DispositionCommitted, False) else (DispositionAborted, True))"

definition authorize_consumer_identity :: "bytes \<Rightarrow> bytes \<Rightarrow> bool" where
  "authorize_consumer_identity authorized remote_identity \<longleftrightarrow> remote_identity = authorized"

lemma message_roundtrip:
  assumes "json_faithful J j" and "10 \<notin> set (json_to_vec J j)" and "write_message J j = Inr bs"
  shows "read_message J (bs @ later) = Inr (Some j, later)"
proof -
  have w: "bs = json_to_vec J j @ [10]" "length (json_to_vec J j) \<le> MAX_IPC_MESSAGE_BYTES"
    using assms(3) by (auto simp: write_message_def Let_def)
  have "takeWhile (\<lambda>b. b \<noteq> 10) (json_to_vec J j @ 10 # later) = json_to_vec J j"
    using assms(2) by (simp add: takeWhile_append)
  then show ?thesis using w assms(1) by (simp add: read_message_def Let_def json_faithful_def)
qed

lemma truncated_message_refused:
  "stream \<noteq> [] \<Longrightarrow> 10 \<notin> set stream \<Longrightarrow> \<exists>e. read_message J stream = Inl e"
proof -
  assume a: "stream \<noteq> []" "10 \<notin> set stream"
  then have "length (takeWhile (\<lambda>b. b \<noteq> 10) stream) = length stream"
    using takeWhile_eq_all_conv [of "\<lambda>b. b \<noteq> 10" stream] by (intro arg_cong [where f = length]) auto
  then show ?thesis using a(1) by (simp add: read_message_def Let_def ensure_def)
qed

text \<open>A client hears of a commit only when the watchdog decided it for that operation and version.\<close>

lemma await_committed: "await_disposition d ds = Some DispositionCommitted \<Longrightarrow> DispositionCommitted \<in> insert d (set ds)"
  by (induction d ds rule: await_disposition.induct) auto

lemma confirmed_after_commit:
  assumes "fst (candidate_confirmation_response candidate later active rollback oid v) = Committed w"
  obtains c where "candidate = Some c" "cc_operation_id c = oid" "cc_version c = v" "w = v"
    "DispositionCommitted \<in> insert (cc_disposition c) (set later)"
  using assms await_committed
  by (fastforce simp: candidate_confirmation_response_def other_operation_response_def Let_def split: option.splits if_splits)

section \<open>All or nothing\<close>

lemma quiet_call [simp]: "call_failures s = [] \<Longrightarrow> fs_call f s = (Inr (), f s)"
  by (simp add: fs_call_def)

lemmas update_runs = bind_io_def return_io_def fail_io_def ensure_io_def of_result_def get_io_def try_io_def or_else_def modify_def

lemma restore_quiet [simp]:
  "call_failures s = [] \<Longrightarrow> restore_backup s = (Inr (), s\<lparr>executable_file := rollback_copy s, rollback_copy := None\<rparr>)"
  by (simp add: restore_backup_def sync_parent_def update_runs)

lemma commit_quiet [simp]: "call_failures s = [] \<Longrightarrow> commit_update s = (Inr (), s\<lparr>rollback_copy := None\<rparr>)"
  by (simp add: commit_update_def sync_parent_def update_runs)

lemma retain_quiet:
  "call_failures s = [] \<Longrightarrow> executable_file s = Some old \<Longrightarrow> retain_current s = (Inr (), s\<lparr>rollback_copy := Some old\<rparr>)"
  by (simp add: retain_current_def update_runs)

lemma prepare_update_quiet:
  assumes "call_failures s = []" "executable_file s = Some old" "rollback_copy s = None"
  obtains e where "prepare_remote_update path_ok updater version_output current s = (Inl e, s)"
  | v new where "prepare_remote_update path_ok updater version_output current s
        = (Inr v, s\<lparr>executable_file := Some new, rollback_copy := Some old\<rparr>)"
      "snd (updater (Some old)) = Some new" "query (version_output new) = Inr v" "version_le current v"
proof -
  let ?s = "s\<lparr>rollback_copy := Some old\<rparr>"
  obtain r f where u: "updater (Some old) = (r, f)" by (cases "updater (Some old)")
  have undo: "s\<lparr>executable_file := Some old, rollback_copy := None\<rparr> = s" using assms by (cases s) simp
  have "(\<exists>e. install_candidate path_ok updater version_output current ?s = (Inl e, ?s\<lparr>executable_file := f\<rparr>))
    \<or> (\<exists>v new. install_candidate path_ok updater version_output current ?s = (Inr v, ?s\<lparr>executable_file := f\<rparr>)
        \<and> f = Some new \<and> query (version_output new) = Inr v \<and> version_le current v)"
    using assms u
    by (cases r; cases f)
      (auto simp: install_candidate_def check_candidate_def run_updater_def validate_executable_path_def sync_parent_def update_runs split: sum.splits)
  moreover have run: "prepare_remote_update path_ok updater version_output current s =
      (if path_ok then or_else (install_candidate path_ok updater version_output current) restore_backup ?s else (Inl InvalidName, s))"
    using assms by (simp add: prepare_remote_update_def retain_checked_def validate_executable_path_def retain_quiet update_runs)
  ultimately consider "\<not> path_ok"
    | e where "path_ok" "install_candidate path_ok updater version_output current ?s = (Inl e, ?s\<lparr>executable_file := f\<rparr>)"
    | v new where "path_ok" "install_candidate path_ok updater version_output current ?s = (Inr v, ?s\<lparr>executable_file := f\<rparr>)"
        "f = Some new" "query (version_output new) = Inr v" "version_le current v" by blast
  then show thesis
  proof cases
    case 2
    then show thesis using that(1) [of e] assms(1) run undo by (simp add: or_else_def bind_io_def try_io_def fail_io_def)
  next
    case 3
    then show thesis using that(2) [of v new] u run by (simp add: or_else_def bind_io_def try_io_def return_io_def)
  qed (use that(1) run in simp)
qed

text \<open>The steps are the whole preparation.\<close>

lemma task_runs:
  "(task_step path_ok updater version_output current ^^ 3) (TaskStarted, s)
     = (case prepare_remote_update path_ok updater version_output current s of (q, t) \<Rightarrow> (TaskFinished q, t))"
proof (cases "retain_checked path_ok s")
  case (Pair r t)
  show ?thesis
    by (cases r; cases "run_updater updater t"; cases "fst (run_updater updater t)")
      (simp_all add: Pair numeral_eq_Suc prepare_remote_update_def install_candidate_def update_runs split: prod.split sum.split)
qed

text \<open>Where a task has left the files of a machine whose file system works.\<close>

definition task_at :: "bytes \<Rightarrow> update_server \<Rightarrow> update_task \<times> update_server \<Rightarrow> bool" where
  "task_at old s x \<longleftrightarrow> (case x of (task, t) \<Rightarrow> call_failures t = [] \<and> active_operation t = active_operation s
     \<and> update_permits t = update_permits s \<and> abandoned t = abandoned s
     \<and> (case task of
          TaskStarted \<Rightarrow> executable_file t = Some old \<and> rollback_copy t = None
        | TaskRetained \<Rightarrow> executable_file t = Some old \<and> rollback_copy t = Some old
        | TaskUpdated _ \<Rightarrow> rollback_copy t = Some old
        | TaskFinished (Inl _) \<Rightarrow> executable_file t = Some old \<and> rollback_copy t = None
        | TaskFinished (Inr _) \<Rightarrow> rollback_copy t = Some old))"

lemma check_quiet:
  "call_failures s = [] \<Longrightarrow> \<exists>q. bind_io (of_result r) (check_candidate path_ok version_output current) s = (q, s)"
  by (cases r) (auto simp: check_candidate_def validate_executable_path_def sync_parent_def update_runs split: sum.splits)

lemma task_step_at: "task_at old s x \<Longrightarrow> task_at old s (task_step path_ok updater version_output current x)"
proof (cases x)
  case (Pair task t)
  assume x: "task_at old s x"
  show ?thesis
  proof (cases task)
    case TaskStarted
    then show ?thesis
      using x Pair by (auto simp: task_at_def retain_checked_def validate_executable_path_def retain_quiet update_runs)
  next
    case TaskRetained
    then show ?thesis using x Pair by (auto simp: task_at_def run_updater_def split: prod.split)
  next
    case (TaskUpdated r)
    then have t: "call_failures t = []" using x Pair by (simp add: task_at_def)
    obtain q where "bind_io (of_result r) (check_candidate path_ok version_output current) t = (q, t)" using check_quiet [OF t] by blast
    then show ?thesis using x Pair TaskUpdated by (cases q) (auto simp: task_at_def or_else_def bind_io_def try_io_def fail_io_def return_io_def)
  qed (use x Pair in simp)
qed

lemma task_steps_at: "task_at old s x \<Longrightarrow> task_at old s ((task_step path_ok updater version_output current ^^ k) x)"
  by (induction k) (simp_all add: task_step_at)

lemma steps_finished: "\<exists>q t. (task_step path_ok updater version_output current ^^ 3) (task, s) = (TaskFinished q, t)"
proof -
  let ?f = "task_step path_ok updater version_output current"
  have last: "\<exists>q t. ?f (TaskUpdated r, s) = (TaskFinished q, t)" for r s by (simp split: prod.split)
  then have two: "\<exists>q t. ?f (?f (TaskRetained, s)) = (TaskFinished q, t)" for s by (simp split: prod.split)
  have fin: "?f (TaskFinished q, t) = (TaskFinished q, t)" for q t by simp
  show ?thesis
  proof (cases task)
    case TaskStarted
    then show ?thesis using two fin by (cases "retain_checked path_ok s"; cases "fst (retain_checked path_ok s)") (auto simp add: numeral_eq_Suc)
  next
    case TaskRetained
    obtain q t where "?f (?f (TaskRetained, s)) = (TaskFinished q, t)" using two by blast
    then show ?thesis using TaskRetained by (simp add: numeral_eq_Suc del: task_step.simps(2))
  next
    case (TaskUpdated r)
    obtain q t where "?f (TaskUpdated r, s) = (TaskFinished q, t)" using last by blast
    then show ?thesis using TaskUpdated by (simp add: numeral_eq_Suc del: task_step.simps(3))
  qed (simp add: numeral_eq_Suc)
qed

lemma finish_task_restores:
  assumes "task_at old s (task, t)"
  shows "executable_file (finish_task path_ok updater version_output current task t) = Some old
    \<and> rollback_copy (finish_task path_ok updater version_output current task t) = None
    \<and> active_operation (finish_task path_ok updater version_output current task t) = active_operation s
    \<and> update_permits (finish_task path_ok updater version_output current task t) = update_permits s
    \<and> abandoned (finish_task path_ok updater version_output current task t) = abandoned s"
proof -
  obtain q v where f: "(task_step path_ok updater version_output current ^^ 3) (task, t) = (TaskFinished q, v)"
    using steps_finished by blast
  then have "task_at old s (TaskFinished q, v)" using task_steps_at [OF assms, of 3 path_ok updater version_output current] by simp
  then show ?thesis using f by (cases q) (simp_all add: finish_task_def task_at_def)
qed

text \<open>Talking to the candidate changes neither the files nor the operation.\<close>

definition same_install :: "update_server \<Rightarrow> update_server \<Rightarrow> bool" where
  "same_install s t \<longleftrightarrow> executable_file t = executable_file s \<and> rollback_copy t = rollback_copy s \<and> call_failures t = call_failures s
     \<and> active_operation t = active_operation s \<and> update_permits t = update_permits s \<and> abandoned t = abandoned s"

lemma keeps_install [keeps_rules]:
  "keeps (same_install s) (candidate_send c)" "keeps (same_install s) next_event"
  "(\<And>t. same_install s t \<Longrightarrow> same_install s (f t)) \<Longrightarrow> keeps (same_install s) (modify f)"
  by (auto simp: keeps_def candidate_send_def next_event_def modify_def same_install_def split: list.splits bool.splits)

lemma keeps_candidate [keeps_rules]:
  "keeps (same_install s) candidate_abort" "keeps (same_install s) (confirm_candidate v)" "keeps (same_install s) (candidate_spawn a b v)"
proof -
  show a: "keeps (same_install s) candidate_abort"
    unfolding candidate_abort_def by (intro keeps_rules) (simp add: same_install_def)
  show "keeps (same_install s) (confirm_candidate v)" unfolding confirm_candidate_def by (intro keeps_rules)
  show "keeps (same_install s) (candidate_spawn a b v)"
    unfolding candidate_spawn_def or_else_def
    by (intro keeps_rules a) (auto simp: same_install_def split: CandidateEvent.split intro!: keeps_rules)
qed

lemma same_install_refl [simp]: "same_install s s"
  by (simp add: same_install_def)

lemma abort_total: "\<exists>t. candidate_abort s = (Inr (), t) \<and> same_install s t"
  using keepsD [OF keeps_candidate(1) same_install_refl] by (fastforce simp: candidate_abort_def update_runs split: prod.splits)

lemma or_else_Inr: "or_else m cleanup s = (Inr a, t) \<longleftrightarrow> m s = (Inr a, t)"
  by (cases "m s"; cases "fst (m s)") (auto simp: or_else_def bind_io_Inr try_io_Inr)

lemma next_event_Inr: "next_event s = (Inr e, t) \<longleftrightarrow> cand_events s = Inr e # cand_events t \<and> t = s\<lparr>cand_events := cand_events t\<rparr>"
  by (cases s; cases t) (auto simp: next_event_def split: list.splits)

lemma send_Inr: "candidate_send c s = (Inr u, t) \<Longrightarrow> commands t = commands s @ [c] \<and> cand_events t = cand_events s"
  by (auto simp: candidate_send_def split: list.splits bool.splits)

lemma confirm_Inr:
  assumes "confirm_candidate v s = (Inr u, t)"
  shows "CommitCandidate \<in> set (commands t) \<and> (\<exists>r. cand_events s = Inr (CandidateReady v) # Inr ConsumerConnected # r)"
proof -
  obtain a b c d where a: "candidate_send Activate s = (Inr (), a)" "next_event a = (Inr (CandidateReady v), b)"
    "next_event b = (Inr ConsumerConnected, c)" "candidate_send CommitCandidate c = (Inr d, t)"
    using assms by (auto simp: confirm_candidate_def bind_io_Inr)
  then show ?thesis using send_Inr by (fastforce simp: next_event_Inr)
qed

lemma spawn_Inr:
  assumes "candidate_spawn a b v s = (Inr u, t)"
  shows "cand_events s = Inr (Prepared v) # cand_events t"
proof -
  obtain e w where e: "next_event (s\<lparr>candidate_running := True\<rparr>) = (Inr e, w)"
    "(case e of Prepared version \<Rightarrow> ensure_io (version = v) InvalidVersion | _ \<Rightarrow> fail_io Io) w = (Inr u, t)"
    using assms by (auto simp: candidate_spawn_def bind_io_Inr or_else_Inr modify_def)
  then have "e = Prepared v \<and> w = t" by (cases e) auto
  then show ?thesis using e(1) by (simp add: next_event_Inr)
qed

text \<open>Where an update leaves the machine. \<open>kept\<close>: the old executable, no copy beside it, and no operation under way. \<open>replaced\<close>: the
  executable that the updater left, which reports a version that is not older.\<close>

definition kept :: "bytes \<Rightarrow> update_server \<Rightarrow> update_server \<Rightarrow> bool" where
  "kept old s t \<longleftrightarrow> executable_file t = Some old \<and> rollback_copy t = None \<and> active_operation t = active_operation s
     \<and> update_permits t = update_permits s"

definition replaced ::
  "(bytes option \<Rightarrow> (failure + bool) \<times> bytes option) \<Rightarrow> (bytes \<Rightarrow> failure + bool \<times> bytes) \<Rightarrow> UpdateVersion \<Rightarrow> bytes \<Rightarrow> UpdateVersion
     \<Rightarrow> update_server \<Rightarrow> bool" where
  "replaced updater version_output current old v t \<longleftrightarrow> (\<exists>new. snd (updater (Some old)) = Some new \<and> query (version_output new) = Inr v
     \<and> version_le current v \<and> executable_file t = Some new)"

lemma prepare_handoff_quiet:
  assumes s: "call_failures s = []" "executable_file s = Some old" "rollback_copy s = None"
    and run: "prepare_attached_handoff path_ok updater version_output current None started configured s = (r, t)"
  shows "call_failures t = [] \<and> abandoned t = abandoned s \<and> (case r of
      Inl _ \<Rightarrow> kept old s t
    | Inr (CurrentVersion v) \<Rightarrow> v = current \<and> replaced updater version_output current old v t \<and> rollback_copy t = None
        \<and> active_operation t = active_operation s \<and> update_permits t = update_permits s
    | Inr (Handoff v) \<Rightarrow> replaced updater version_output current old v t \<and> rollback_copy t = Some old
        \<and> active_operation t = active_operation s \<and> update_permits t = update_permits s
        \<and> cand_events s = Inr (Prepared v) # cand_events t)"
  using s
proof (rule prepare_update_quiet [where path_ok = path_ok and updater = updater and version_output = version_output and current = current])
  fix e assume "prepare_remote_update path_ok updater version_output current s = (Inl e, s)"
  then show ?thesis using run s by (auto simp: prepare_attached_handoff_def bind_io_def kept_def)
next
  fix v new
  let ?s = "s\<lparr>executable_file := Some new, rollback_copy := Some old\<rparr>"
  assume p: "prepare_remote_update path_ok updater version_output current s = (Inr v, ?s)" "snd (updater (Some old)) = Some new"
    "query (version_output new) = Inr v" "version_le current v"
  obtain q w where w: "candidate_spawn started configured v ?s = (q, w)" by (cases "candidate_spawn started configured v ?s")
  then have k: "same_install ?s w" using keepsD [OF keeps_candidate(3) same_install_refl] by blast
  have e: "cand_events s = Inr (Prepared v) # cand_events w" if "q = Inr ()" using spawn_Inr [of started configured v ?s] w that by simp
  show ?thesis
    using run p s k e w
    by (cases q)
      (auto simp: prepare_attached_handoff_def or_else_def bind_io_def try_io_def fail_io_def return_io_def kept_def replaced_def same_install_def
        split: if_splits)
qed

lemma abandoned_quiet:
  assumes "call_failures s = []" "executable_file s = Some old" "rollback_copy s = None" "abandoned s = []"
    and "prepare_attached_handoff path_ok updater version_output current (Some k) started configured s = (r, t)"
  shows "\<exists>e task u. r = Inl e \<and> t = u\<lparr>abandoned := [task]\<rparr> \<and> task_at old s (task, u)"
proof -
  obtain task u where x: "(task_step path_ok updater version_output current ^^ k) (TaskStarted, s) = (task, u)"
    by (cases "(task_step path_ok updater version_output current ^^ k) (TaskStarted, s)")
  have "task_at old s (TaskStarted, s)" using assms(1-3) by (simp add: task_at_def)
  then have "task_at old s (task, u)" using task_steps_at [of old s "(TaskStarted, s)" k path_ok updater version_output current] x by simp
  then show ?thesis using assms(4,5) x by (auto simp: prepare_attached_handoff_def abandon_after_def bind_io_def task_at_def)
qed

lemma supervise_quiet:
  assumes s: "call_failures s = []" "rollback_copy s = Some old" and run: "supervise_handoff oid v exit s = (r, t)"
  shows "rollback_copy t = None \<and> abandoned t = abandoned s \<and>
    (executable_file t = Some old \<and> active_operation t = None \<and> update_permits t = Suc (update_permits s) \<and> r = Inr (RolledBack oid)
     \<or> executable_file t = executable_file s \<and> CommitCandidate \<in> set (commands t)
       \<and> (\<exists>q. cand_events s = Inr (CandidateReady v) # Inr ConsumerConnected # q) \<and> (\<forall>x. r \<noteq> Inr (RolledBack x)))"
proof -
  obtain q w where w: "confirm_candidate v s = (q, w)" by (cases "confirm_candidate v s")
  then have k: "same_install s w" using keepsD [OF keeps_candidate(2) same_install_refl] by blast
  show ?thesis
  proof (cases q)
    case (Inl e)
    obtain x where "candidate_abort w = (Inr (), x)" "same_install w x" using abort_total by blast
    then show ?thesis
      using run w k Inl s by (auto simp: supervise_handoff_def coordinate_handoff_def update_runs end_operation_def same_install_def)
  next
    case (Inr u)
    obtain z x where x: "next_event w = (z, x)" by (cases "next_event w")
    then have "same_install w x" using keepsD [OF keeps_install(2) same_install_refl] by blast
    moreover have "commands x = commands w" using x by (auto simp: next_event_def split: list.splits)
    ultimately show ?thesis
      using run w k Inr s x confirm_Inr [of v s u w]
      by (cases exit) (auto simp: supervise_handoff_def coordinate_handoff_def update_runs same_install_def split: if_splits)
  qed
qed

lemma serve_start_drawn:
  assumes "\<not> pending" "0 < update_permits s" "draw = Inr oid"
    and "prepare (s\<lparr>update_permits := update_permits s - 1, active_operation := Some oid\<rparr>) = (p, w)"
  shows "serve_start pending draw prepare replied listening s = (case p of
      Inl _ \<Rightarrow> (Inr (Failed (ascii ''remote Attached update could not be prepared''), None), snd (end_operation w))
    | Inr (CurrentVersion v) \<Rightarrow> (Inr (Current v, None), snd (end_operation w))
    | Inr (Handoff v) \<Rightarrow> if replied \<and> listening then (Inr (Restarting oid v CLIENT_RECONNECT_TIMEOUT, Some (oid, v)), w)
        else bind_io abort_prepared_handoff (\<lambda>_. fail_io Io) (snd (end_operation w)))"
  using assms by (auto simp: serve_start_def update_runs end_operation_def split: sum.split PreparedAttachedUpdate.split)

section \<open>Properties\<close>

text \<open>C22: an update is all or nothing. On a machine whose file system works, whatever the updater does, whatever
  the new executable prints and whatever the candidate sends, a request that started with no operation under way and no abandoned task ends
  in one of three ways. The old executable is in place again with no rollback copy, the operation and its permit are free for the
  next request and the server did not retire. Or, again with no rollback copy, the executable is the one that the
  updater left, it reports a version that is not older than the running one, and either that version is
  the running one or the candidate prepared and became ready with it, a consumer reached it, and the
  commit was delivered. Or the preparation exceeded its deadline: then the request fails and frees the operation and its permit while the
  thread is still at work, and when the thread ends the old executable is in place and the copy is gone.\<close>

theorem update_all_or_nothing:
  assumes s: "call_failures s = []" "executable_file s = Some old" "rollback_copy s = None" "active_operation s = None" "abandoned s = []"
    and run: "serve_update pending draw (prepare_attached_handoff path_ok updater version_output current overdue started configured)
      replied listening exit s = (r, t)"
  shows "abandoned t = [] \<and> rollback_copy t = None \<and>
      (kept old s t \<and> (\<forall>x. r \<noteq> Inr (x, Some Retired))
       \<or> (\<exists>v. replaced updater version_output current old v t \<and> (v = current \<or> CommitCandidate \<in> set (commands t)
            \<and> (\<exists>q. cand_events s = Inr (Prepared v) # Inr (CandidateReady v) # Inr ConsumerConnected # q))))
    \<or> overdue \<noteq> None \<and> length (abandoned t) = 1 \<and> active_operation t = None \<and> update_permits t = update_permits s
      \<and> r = Inr (Failed (ascii ''remote Attached update could not be prepared''), None)
      \<and> kept old s (finish_abandoned path_ok updater version_output current t)
      \<and> abandoned (finish_abandoned path_ok updater version_output current t) = []"
proof -
  let ?prepare = "prepare_attached_handoff path_ok updater version_output current overdue started configured"
  consider (refused) e where "pending \<or> update_permits s = 0 \<or> draw = Inl e" | (drawn) oid where "\<not> pending" "0 < update_permits s" "draw = Inr oid"
    by (cases draw) auto
  then show ?thesis
  proof cases
    case refused
    then show ?thesis using run s by (auto simp: serve_update_def serve_start_def update_runs kept_def split: if_splits)
  next
    case drawn
    define u where "u = s\<lparr>update_permits := update_permits s - 1, active_operation := Some oid\<rparr>"
    obtain p w where p: "?prepare u = (p, w)" by (cases "?prepare u")
    have uu: "call_failures u = []" "executable_file u = Some old" "rollback_copy u = None" "cand_events u = cand_events s"
      "active_operation u = Some oid" "Suc (update_permits u) = update_permits s" "abandoned u = []" using s drawn by (simp_all add: u_def)
    note start = serve_start_drawn [where prepare = ?prepare and replied = replied and listening = listening, OF drawn p [unfolded u_def]]
    show ?thesis
    proof (cases overdue)
      case (Some k)
      then obtain e task v where x: "p = Inl e" "w = v\<lparr>abandoned := [task]\<rparr>" "task_at old u (task, v)"
        using abandoned_quiet [OF uu(1-3,7)] p by blast
      have t: "r = Inr (Failed (ascii ''remote Attached update could not be prepared''), None)"
        "t = v\<lparr>abandoned := [task], active_operation := None, update_permits := Suc (update_permits v)\<rparr>"
        using run start x by (auto simp: serve_update_def bind_io_def return_io_def end_operation_def modify_def)
      have "task_at old s (task, v\<lparr>active_operation := None, update_permits := Suc (update_permits v), abandoned := []\<rparr>)"
        using x(3) uu s by (auto simp: task_at_def split: update_task.splits sum.splits)
      note done_task = finish_task_restores [OF this, of path_ok updater version_output current]
      have "finish_abandoned path_ok updater version_output current t = finish_task path_ok updater version_output current task
          (v\<lparr>active_operation := None, update_permits := Suc (update_permits v), abandoned := []\<rparr>)"
        by (simp add: finish_abandoned_def t(2))
      then show ?thesis using done_task t x(3) uu s Some by (simp add: kept_def task_at_def)
    next
      case None
      note prepared = prepare_handoff_quiet [OF _ _ _ p [unfolded None]]
      show ?thesis
      proof (cases p)
        case (Inl e)
        then show ?thesis using prepared uu run start s
          by (auto simp: serve_update_def bind_io_def return_io_def end_operation_def modify_def kept_def)
      next
        case (Inr x)
        show ?thesis
        proof (cases x)
          case (CurrentVersion v)
          then show ?thesis using prepared uu run start Inr
            by (auto simp: serve_update_def bind_io_def return_io_def end_operation_def modify_def replaced_def)
        next
          case (Handoff v)
          note h = prepared [OF uu(1-3), unfolded Inr Handoff, simplified]
          show ?thesis
          proof (cases "replied \<and> listening")
            case False
            obtain y where "candidate_abort (snd (end_operation w)) = (Inr (), y)" "same_install (snd (end_operation w)) y"
              using abort_total by blast
            then show ?thesis using h uu run start Inr Handoff False s
              by (auto simp: serve_update_def abort_prepared_handoff_def update_runs end_operation_def same_install_def kept_def)
          next
            case True
            obtain q y where y: "supervise_handoff oid v exit w = (q, y)" by (cases "supervise_handoff oid v exit w")
            then have "t = y" "\<And>z. r = Inr (z, Some Retired) \<Longrightarrow> q = Inr Retired"
              using run start Inr Handoff True by (cases q; auto simp: serve_update_def bind_io_def return_io_def)+
            then show ?thesis using supervise_quiet [OF _ _ y, of old] h uu s by (auto simp: kept_def replaced_def)
          qed
        qed
      qed
    qed
  qed
qed

definition sample_update :: update_server where
  "sample_update = \<lparr>executable_file = Some [1], rollback_copy = None, call_failures = [],
     cand_events = [Inr (Prepared \<lparr>uv_major = 1, uv_minor = 2, uv_patch = 4\<rparr>), Inr (CandidateReady \<lparr>uv_major = 1, uv_minor = 2, uv_patch = 4\<rparr>),
       Inr ConsumerConnected, Inr ClientSucceeded],
     cand_writes = [], commands = [], candidate_running = False, active_operation = None, update_permits = 1, abandoned = []\<rparr>"

theorem update_all_or_nothing_witness:
  "\<exists>t. serve_update False (Inr (replicate 16 8)) (prepare_attached_handoff True (\<lambda>_. (Inr True, Some [2]))
      (\<lambda>_. Inr (True, ascii ''attached '' @ version_display \<lparr>uv_major = 1, uv_minor = 2, uv_patch = 4\<rparr> @ [10]))
      \<lparr>uv_major = 1, uv_minor = 2, uv_patch = 3\<rparr> None True True) True True (Inr True) sample_update
      = (Inr (Restarting (replicate 16 8) \<lparr>uv_major = 1, uv_minor = 2, uv_patch = 4\<rparr> 30, Some Retired), t)
    \<and> executable_file t = Some [2] \<and> rollback_copy t = None"
proof -
  let ?old = "\<lparr>uv_major = 1, uv_minor = 2, uv_patch = 3\<rparr> :: UpdateVersion" and ?new = "\<lparr>uv_major = 1, uv_minor = 2, uv_patch = 4\<rparr> :: UpdateVersion"
  let ?out = "\<lambda>_ :: bytes. Inr (True, ascii ''attached '' @ version_display ?new @ [10]) :: failure + bool \<times> bytes"
  let ?prepare = "prepare_attached_handoff True (\<lambda>_. (Inr True, Some [2])) ?out ?old None True True"
  have q: "query (?out x) = Inr ?new" for x by (simp add: query_def version_output_roundtrip)
  obtain t where run: "serve_update False (Inr (replicate 16 8)) ?prepare True True (Inr True) sample_update
      = (Inr (Restarting (replicate 16 8) ?new CLIENT_RECONNECT_TIMEOUT, Some Retired), t)"
    using q
    by (simp add: serve_update_def serve_start_def prepare_attached_handoff_def prepare_remote_update_def retain_checked_def validate_executable_path_def
        retain_quiet install_candidate_def check_candidate_def run_updater_def sync_parent_def candidate_spawn_def next_event_def supervise_handoff_def coordinate_handoff_def
        confirm_candidate_def candidate_send_def update_runs sample_update_def version_le_def)
  have s: "call_failures sample_update = []" "executable_file sample_update = Some [1]" "rollback_copy sample_update = None"
    "active_operation sample_update = None" "abandoned sample_update = []" by (simp_all add: sample_update_def)
  show ?thesis
    using update_all_or_nothing [OF s run] run by (auto simp: replaced_def CLIENT_RECONNECT_TIMEOUT_def)
qed

end
