(* ===== verification/Herdr_Source.thy ===== *)
theory Herdr_Source
  imports Refresh Ssh_State "HOL-Library.Option_ord"
begin

text \<open>
  \<open>herdr-plugin/src/attached.rs\<close> and \<open>herdr-plugin/src/state.rs\<close>: the snapshot of machines that the exporter
  writes for other programs, with every check of its reader, and the stored state of the plugin. A save writes
  a temporary file and renames it; \<open>Unsynced\<close> is the failure after the rename, \<open>Refused\<close> any failure before it.
\<close>

section \<open>The exported snapshot\<close>

record Host =
  hs_host :: bytes
  hs_endpoint_id :: bytes
  hs_ssh_target :: bytes

record Discovery =
  dv_version :: nat
  dv_generation :: bytes
  dv_checked_at :: nat
  dv_complete :: bool
  dv_hosts :: "Host list"

definition is_endpoint :: "bytes \<Rightarrow> bool" where
  "is_endpoint value \<longleftrightarrow> length value = 64 \<and> list_all (\<lambda>b. is_ascii_digit b \<or> 97 \<le> b \<and> b \<le> 102) value"

definition attached_alias :: "bytes \<Rightarrow> bytes" where
  "attached_alias endpoint = ascii ''attached-'' @ endpoint"

definition valid_host :: "Host \<Rightarrow> failure + unit" where
  "valid_host h =
     bind_result (ensure (is_endpoint (hs_endpoint_id h)) InvalidDescriptor) (\<lambda>_.
     bind_result (ensure (hs_host h \<noteq> [] \<and> length (hs_host h) \<le> 64 \<and> is_ascii_alphanumeric (hs_host h ! 0)
         \<and> list_all (\<lambda>b. is_ascii_alphanumeric b \<or> b = 46 \<or> b = 95 \<or> b = 45) (hs_host h)) InvalidLabel) (\<lambda>_.
       ensure (hs_ssh_target h = attached_alias (hs_endpoint_id h)) InvalidDescriptor))"

fun validate_each :: "(bytes \<times> Host) list \<Rightarrow> Host list \<Rightarrow> failure + (bytes \<times> Host) list" where
  "validate_each unique [] = Inr unique"
| "validate_each unique (h # hs) =
     bind_result (valid_host h) (\<lambda>_.
     bind_result (ensure (case map_of unique (hs_endpoint_id h) of None \<Rightarrow> True | Some previous \<Rightarrow> previous = h) CatalogConflict) (\<lambda>_.
       validate_each (btree_insert (hs_endpoint_id h) h unique) hs))"

definition validate_hosts :: "Host list \<Rightarrow> failure + Host list" where
  "validate_hosts hs = bind_result (validate_each [] hs) (\<lambda>unique. Inr (map snd unique))"

definition host_read :: "json \<Rightarrow> Host option" where
  "host_read j = Option.bind (lenient_struct [ascii ''host'', ascii ''endpoint_id'', ascii ''ssh_target''] j) (\<lambda>vs.
     Option.bind (json_string_owned (vs ! 0)) (\<lambda>label.
     Option.bind (json_string_owned (vs ! 1)) (\<lambda>endpoint.
     Option.bind (json_string_owned (vs ! 2)) (\<lambda>target.
       Some \<lparr>hs_host = label, hs_endpoint_id = endpoint, hs_ssh_target = target\<rparr>))))"

definition vec_read :: "(json \<Rightarrow> 'a option) \<Rightarrow> json \<Rightarrow> 'a list option" where
  "vec_read rd j = (case j of JArray js \<Rightarrow> those (map rd js) | _ \<Rightarrow> None)"

definition discovery_read :: "json \<Rightarrow> Discovery option" where
  "discovery_read j =
     Option.bind (lenient_struct [ascii ''version'', ascii ''generation'', ascii ''checked_at'', ascii ''complete'', ascii ''hosts''] j) (\<lambda>vs.
     Option.bind (json_uint U32_MAX (vs ! 0)) (\<lambda>version.
     Option.bind (json_string_owned (vs ! 1)) (\<lambda>generation.
     Option.bind (json_uint U64_MAX (vs ! 2)) (\<lambda>checked_at.
     Option.bind (json_bool (vs ! 3)) (\<lambda>complete.
     Option.bind (vec_read host_read (vs ! 4)) (\<lambda>hs.
       Some \<lparr>dv_version = version, dv_generation = generation, dv_checked_at = checked_at, dv_complete = complete,
         dv_hosts = hs\<rparr>))))))"

definition parse_discovery :: "json_lib \<Rightarrow> bytes \<Rightarrow> nat \<Rightarrow> failure + Discovery" where
  "parse_discovery J output t =
     bind_result (ok_or (Option.bind (json_from_slice J output) discovery_read) InvalidCatalog) (\<lambda>d.
     bind_result (ensure (dv_version d = 1) InvalidVersion) (\<lambda>_.
     bind_result (ensure (dv_generation d \<noteq> [] \<and> length (dv_generation d) \<le> 64) InvalidCatalog) (\<lambda>_.
     bind_result (ensure (dv_checked_at d \<le> t \<and> t - dv_checked_at d \<le> 90) DescriptorExpired) (\<lambda>_.
     bind_result (validate_hosts (dv_hosts d)) (\<lambda>hs. Inr (d\<lparr>dv_hosts := hs\<rparr>))))))"

text \<open>\<open>CliAttached::hosts\<close>: the opened file, or the error of opening it, is an argument.\<close>

definition MAX_DISCOVERY_BYTES :: nat where [limit_defs]: "MAX_DISCOVERY_BYTES = 4 * 1024 * 1024"

definition discovery_hosts :: "json_lib \<Rightarrow> failure + state_file \<Rightarrow> nat \<Rightarrow> nat \<Rightarrow> failure + Discovery" where
  "discovery_hosts J opened uid t =
     bind_result opened (\<lambda>f.
     bind_result (ensure (f_kind f = Regular \<and> f_links f = 1 \<and> f_owner f = uid \<and> f_mode f mod 64 = 0) UnsafeFile) (\<lambda>_.
     let output = take (MAX_DISCOVERY_BYTES + 1) (f_data f) in
     bind_result (ensure (utf8_valid output) InvalidCatalog) (\<lambda>_.
     bind_result (ensure (length output \<le> MAX_DISCOVERY_BYTES) StateTooLarge) (\<lambda>_.
       parse_discovery J output t))))"

text \<open>The settings that \<open>ssh -G\<close> prints for an alias: one per line, the last value of a key wins.\<close>

definition text_lines :: "bytes \<Rightarrow> bytes list" where
  "text_lines s =
     (let pieces = split_byte 10 s in
      map (\<lambda>l. if l \<noteq> [] \<and> last l = 13 then butlast l else l) (if last pieces = [] then butlast pieces else pieces))"

definition ssh_settings :: "bytes \<Rightarrow> (bytes \<times> bytes) list" where
  "ssh_settings output = btree_collect (List.map_filter (split_once 32) (text_lines output))"

definition contains_bytes :: "bytes \<Rightarrow> bytes \<Rightarrow> bool" where
  "contains_bytes pattern s = list_ex (\<lambda>n. take (length pattern) (drop n s) = pattern) [0..<Suc (length s)]"

definition tunnel_ready :: "bytes \<Rightarrow> bytes \<Rightarrow> bool" where
  "tunnel_ready output target =
     (let settings = map_of (ssh_settings output) in
      settings (ascii ''hostname'') = Some target
      \<and> (case settings (ascii ''proxycommand'') of None \<Rightarrow> False | Some proxy \<Rightarrow> contains_bytes (ascii '' __ssh-local-proxy '') proxy)
      \<and> settings (ascii ''batchmode'') = Some (ascii ''yes'')
      \<and> (settings (ascii ''stricthostkeychecking'') = Some (ascii ''yes'')
         \<or> settings (ascii ''stricthostkeychecking'') = Some (ascii ''true'')))"

section \<open>The stored state\<close>

record State =
  seen :: "(bytes \<times> unit) list"
  pending :: "(bytes \<times> bytes) list"
  managed :: "(bytes \<times> bytes) list"

definition default_state :: State where
  "default_state = \<lparr>seen = [], pending = [], managed = []\<rparr>"

text \<open>A string that the writer has to escape: quotes, backslashes and control characters.\<close>

definition json_text :: "bytes \<Rightarrow> json" where
  "json_text s = JString s (list_ex (\<lambda>b. b = 34 \<or> b = 92 \<or> b < 32) s)"

definition state_json :: "State \<Rightarrow> json" where
  "state_json st = JObject
     [(ascii ''seen'', JArray (map (\<lambda>(k, _). json_text k) (seen st))),
      (ascii ''pending'', JObject (map (\<lambda>(k, v). (k, json_text v)) (pending st))),
      (ascii ''managed'', JObject (map (\<lambda>(k, v). (k, json_text v)) (managed st)))]"

text \<open>A derived reader that ignores unknown fields and leaves absent fields to their defaults.\<close>

definition known_fields :: "bytes list \<Rightarrow> json \<Rightarrow> json option list option" where
  "known_fields names j = (case j of
     JObject kvs \<Rightarrow>
       if distinct (filter (\<lambda>k. k \<in> set names) (map fst kvs)) then Some (map (map_of kvs) names) else None
   | JArray vs \<Rightarrow>
       if length vs \<le> length names then Some (map Some vs @ replicate (length names - length vs) None) else None
   | _ \<Rightarrow> None)"

definition string_set_read :: "json \<Rightarrow> (bytes \<times> unit) list option" where
  "string_set_read j = map_option (\<lambda>ks. btree_collect (map (\<lambda>k. (k, ())) ks)) (vec_read json_string_owned j)"

definition string_map_read :: "json \<Rightarrow> (bytes \<times> bytes) list option" where
  "string_map_read j = (case j of
     JObject kvs \<Rightarrow> map_option btree_collect (those (map (\<lambda>(k, v). map_option (Pair k) (json_string_owned v)) kvs))
   | _ \<Rightarrow> None)"

definition state_read :: "json \<Rightarrow> State option" where
  "state_read j = Option.bind (known_fields [ascii ''seen'', ascii ''pending'', ascii ''managed''] j) (\<lambda>vs.
     Option.bind (Option.bind (vs ! 0) string_set_read) (\<lambda>ss.
     Option.bind (Option.bind (vs ! 1) string_map_read) (\<lambda>ps.
     Option.bind (case vs ! 2 of None \<Rightarrow> Some [] | Some v \<Rightarrow> string_map_read v) (\<lambda>ms.
       Some \<lparr>seen = ss, pending = ps, managed = ms\<rparr>))))"

datatype save_turn = Saved | Refused | Unsynced

record 'h desk =
  stored :: "bytes option"
  save_turns :: "save_turn list"
  moments :: "nat list"
  retry :: "(bytes \<times> nat \<times> u32) list"
  missing :: "(bytes \<times> u32) list"
  last_generation :: "bytes option"
  outside :: 'h

definition set_desk :: "('h desk \<Rightarrow> 'h desk) \<Rightarrow> ('h desk, unit) io" where
  "set_desk f s = (Inr (), f s)"

definition next_turn :: "('h desk, save_turn) io" where
  "next_turn s = (case save_turns s of [] \<Rightarrow> (Inr Saved, s) | t # r \<Rightarrow> (Inr t, s\<lparr>save_turns := r\<rparr>))"

definition state_load :: "json_lib \<Rightarrow> ('h desk, State) io" where
  "state_load J =
     bind_io next_turn (\<lambda>turn.
     bind_io (ensure_io (turn = Saved) Io) (\<lambda>_.
     bind_io (get_io stored) (\<lambda>contents. case contents of
       None \<Rightarrow> return_io default_state
     | Some bs \<Rightarrow> of_result (ok_or (Option.bind (json_from_slice J bs) state_read) InvalidCatalog))))"

definition state_save :: "json_lib \<Rightarrow> State \<Rightarrow> ('h desk, unit) io" where
  "state_save J st =
     bind_io next_turn (\<lambda>turn.
     bind_io (ensure_io (turn \<noteq> Refused) Io) (\<lambda>_.
     bind_io (set_desk (\<lambda>s. s\<lparr>stored := Some (json_to_vec J (state_json st))\<rparr>)) (\<lambda>_.
       ensure_io (turn = Saved) Io)))"

section \<open>The reader of the snapshot accepts exactly well-formed machines\<close>

definition well_formed_host :: "Host \<Rightarrow> bool" where
  "well_formed_host h \<longleftrightarrow> is_endpoint (hs_endpoint_id h) \<and> validate_host_label (hs_host h)
     \<and> hs_ssh_target h = attached_alias (hs_endpoint_id h)"

lemma valid_host_Inr: "valid_host h = Inr () \<longleftrightarrow> well_formed_host h"
  by (auto simp: valid_host_def well_formed_host_def validate_host_label_def bind_result_eq_Inr limit_defs)

lemma map_of_insert_known:
  "btree_ok m \<Longrightarrow> map_of m k = None \<or> map_of m k = Some v \<Longrightarrow> set (btree_insert k v m) = insert (k, v) (set m)"
  using btree_entries [OF btree_insert_ok, of m] btree_entries [of m] map_of_btree_insert [of m k v]
  by (auto simp del: split_paired_All) (metis fun_upd_apply option.discI option.inject)+

lemma validate_each_Inr:
  "btree_ok unique \<Longrightarrow> validate_each unique hs = Inr m \<Longrightarrow>
   btree_ok m \<and> set m = set unique \<union> (\<lambda>h. (hs_endpoint_id h, h)) ` set hs \<and> (\<forall>h\<in>set hs. well_formed_host h)"
proof (induction hs arbitrary: unique)
  case (Cons h hs)
  have ok: "well_formed_host h" "map_of unique (hs_endpoint_id h) = None \<or> map_of unique (hs_endpoint_id h) = Some h"
    and rest: "validate_each (btree_insert (hs_endpoint_id h) h unique) hs = Inr m"
    using Cons.prems(2) by (auto simp: bind_result_eq_Inr valid_host_Inr split: option.splits)
  show ?case
    using Cons.IH [OF btree_insert_ok [OF Cons.prems(1)] rest] ok map_of_insert_known [OF Cons.prems(1) ok(2)] by auto
qed simp

theorem validated_hosts:
  assumes "validate_hosts hs = Inr hs'"
  shows "set hs' = set hs \<and> sorted_wrt (<) (map hs_endpoint_id hs') \<and> (\<forall>h\<in>set hs'. well_formed_host h)"
proof -
  obtain m where m: "validate_each [] hs = Inr m" "hs' = map snd m"
    using assms by (auto simp: validate_hosts_def bind_result_eq_Inr)
  have e: "btree_ok m" "set m = (\<lambda>h. (hs_endpoint_id h, h)) ` set hs" "\<forall>h\<in>set hs. well_formed_host h"
    using validate_each_Inr [OF _ m(1)] by (simp_all add: btree_ok_def)
  have "map fst m = map hs_endpoint_id hs'" using e(2) m(2) by auto
  then have "sorted_wrt (<) (map hs_endpoint_id hs')" using e(1) by (simp add: btree_ok_def)
  then show ?thesis using e m(2) by (auto simp: image_image)
qed

section \<open>The stored state reads back\<close>

definition wf_state :: "State \<Rightarrow> bool" where
  "wf_state st \<longleftrightarrow> btree_ok (seen st) \<and> btree_ok (pending st) \<and> btree_ok (managed st)"

lemma json_text_read [simp]: "json_string_owned (json_text s) = Some s"
  by (simp add: json_text_def json_string_owned_def)

lemma string_map_roundtrip:
  assumes "btree_ok m"
  shows "string_map_read (JObject (map (\<lambda>(k, v). (k, json_text v)) m)) = Some m"
proof -
  have "those (map (\<lambda>(k, v). map_option (Pair k) (json_string_owned v)) (map (\<lambda>(k, v). (k, json_text v)) m)) = Some m"
    by (induction m) (auto simp: split_beta)
  then show ?thesis using assms by (simp add: string_map_read_def btree_collect_id)
qed

lemma string_set_roundtrip:
  assumes "btree_ok m"
  shows "string_set_read (JArray (map (\<lambda>(k, _). json_text k) m)) = Some m"
proof -
  have "those (map json_string_owned (map (\<lambda>(k, _). json_text k) m)) = Some (map fst m)"
    by (induction m) (auto simp: split_beta)
  moreover have "map (\<lambda>k. (k, ())) (map fst m) = m" by (induction m) auto
  ultimately show ?thesis using assms by (simp add: string_set_read_def vec_read_def btree_collect_id del: map_map)
qed

lemma state_roundtrip: "wf_state st \<Longrightarrow> state_read (state_json st) = Some st"
  by (cases st) (simp add: state_read_def state_json_def known_fields_def ascii_def wf_state_def string_map_roundtrip
      string_set_roundtrip)

lemma string_read_ok: "string_set_read j = Some ks \<Longrightarrow> btree_ok ks" "string_map_read j = Some m \<Longrightarrow> btree_ok m"
  by (auto simp: string_set_read_def string_map_read_def split: json.splits)

lemma state_read_wf:
  assumes "state_read j = Some st"
  shows "wf_state st"
proof -
  obtain vs where "Option.bind (vs ! 0) string_set_read = Some (seen st)" "Option.bind (vs ! 1) string_map_read = Some (pending st)"
      "(case vs ! 2 of None \<Rightarrow> Some [] | Some v \<Rightarrow> string_map_read v) = Some (managed st)"
    using assms by (fastforce simp: state_read_def bind_eq_Some_conv)
  then show ?thesis
    by (auto simp: wf_state_def bind_eq_Some_conv string_read_ok btree_ok_def [of "[]"] split: option.splits)
qed

end
