(* ===== verification/Herdr_Discovery.thy ===== *)
theory Herdr_Discovery
  imports Herdr_Source
begin

text \<open>
  \<open>herdr-plugin/src/discovery.rs\<close>: the reconciler that registers discovered machines in a machine registry and
  removes the registrations it made when their machine stays away. The trait \<open>MachineRegistry\<close> is the record
  \<open>registry_ops\<close> of operations on the state \<open>'h\<close> of the other program, and \<open>DiscoverySource::ready\<close> a further
  operation on it. What the reconciler relies on and keeps is the locale \<open>machine_registry\<close>; it is
  interpreted on every registry whose calls are written to a log. Instants are nanoseconds. Log lines are left out.
\<close>

record Machine =
  mc_id :: bytes
  mc_target :: bytes

record 'h registry_ops =
  rg_machines :: "('h, Machine list) io"
  rg_add :: "bytes \<Rightarrow> bytes \<Rightarrow> ('h, bytes) io"
  rg_remove :: "bytes \<Rightarrow> ('h, unit) io"
  rg_notify :: "bytes \<Rightarrow> ('h, bool) io"

definition outside_call :: "('h, 'a) io \<Rightarrow> ('h desk, 'a) io" where
  "outside_call m s = (case m (outside s) of (r, w) \<Rightarrow> (r, s\<lparr>outside := w\<rparr>))"

definition moment_now :: "('h desk, nat) io" where
  "moment_now s = (case moments s of [] \<Rightarrow> (Inl HostPanic, s) | t # r \<Rightarrow> (Inr t, s\<lparr>moments := r\<rparr>))"

definition INTERVAL_SECONDS :: nat where [limit_defs]: "INTERVAL_SECONDS = 30"

definition saturating_succ :: "u32 \<Rightarrow> u32" where
  "saturating_succ n = (if n = - 1 then n else n + 1)"

definition lowercase :: "bytes \<Rightarrow> bytes" where
  "lowercase s = map to_ascii_lowercase s"

section \<open>Removing machines that stay away\<close>

definition registered_as :: "Machine list \<Rightarrow> bytes \<Rightarrow> bytes \<Rightarrow> bool" where
  "registered_as machines profile endpoint \<longleftrightarrow>
     list_ex (\<lambda>m. mc_id m = profile \<and> lowercase (mc_target m) = lowercase (attached_alias endpoint)) machines"

definition offered :: "Host list \<Rightarrow> bytes \<Rightarrow> bool" where
  "offered hs endpoint \<longleftrightarrow> list_ex (\<lambda>h. hs_endpoint_id h = endpoint) hs"

definition misses_of :: "bytes \<Rightarrow> 'h desk \<Rightarrow> u32" where
  "misses_of endpoint s = (case map_of (missing s) endpoint of None \<Rightarrow> 0 | Some n \<Rightarrow> n)"

definition disown :: "bytes \<Rightarrow> State \<Rightarrow> State" where
  "disown endpoint st = st\<lparr>managed := btree_remove endpoint (managed st), pending := btree_remove endpoint (pending st)\<rparr>"

definition forget :: "bytes \<Rightarrow> State \<Rightarrow> State" where
  "forget endpoint st = (disown endpoint st)\<lparr>seen := btree_remove endpoint (seen st)\<rparr>"

fun prune_each ::
  "json_lib \<Rightarrow> 'h registry_ops \<Rightarrow> Host list \<Rightarrow> Machine list \<Rightarrow> (bytes \<times> bytes) list \<Rightarrow> State \<Rightarrow> ('h desk, unit) io" where
  "prune_each J R hs machines [] st = return_io ()"
| "prune_each J R hs machines ((endpoint, profile) # r) st =
     (if \<not> registered_as machines profile endpoint then
        bind_io (set_desk (\<lambda>s. s\<lparr>missing := btree_remove endpoint (missing s)\<rparr>)) (\<lambda>_.
        bind_io (state_save J (disown endpoint st)) (\<lambda>_. prune_each J R hs machines r (disown endpoint st)))
      else if offered hs endpoint then
        bind_io (set_desk (\<lambda>s. s\<lparr>missing := btree_remove endpoint (missing s)\<rparr>)) (\<lambda>_. prune_each J R hs machines r st)
      else
        bind_io (get_io (misses_of endpoint)) (\<lambda>before.
        let misses = saturating_succ before in
        bind_io (set_desk (\<lambda>s. s\<lparr>missing := btree_insert endpoint misses (missing s)\<rparr>)) (\<lambda>_.
        if misses < 3 then prune_each J R hs machines r st
        else bind_io (try_io (outside_call (rg_remove R profile))) (\<lambda>removed. case removed of
          Inl _ \<Rightarrow> prune_each J R hs machines r st
        | Inr _ \<Rightarrow>
            bind_io (set_desk (\<lambda>s. s\<lparr>missing := btree_remove endpoint (missing s),
              retry := btree_remove endpoint (retry s)\<rparr>)) (\<lambda>_.
            bind_io (state_save J (forget endpoint st)) (\<lambda>_. prune_each J R hs machines r (forget endpoint st)))))))"

definition prune :: "json_lib \<Rightarrow> 'h registry_ops \<Rightarrow> Host list \<Rightarrow> ('h desk, unit) io" where
  "prune J R hs =
     bind_io (state_load J) (\<lambda>st.
     bind_io (outside_call (rg_machines R)) (\<lambda>machines.
     bind_io (set_desk (\<lambda>s. s\<lparr>missing := filter (\<lambda>(k, _). map_of (managed st) k \<noteq> None) (missing s)\<rparr>)) (\<lambda>_.
       prune_each J R hs machines (managed st) st)))"

section \<open>Registering discovered machines\<close>

definition label_count :: "Host list \<Rightarrow> bytes \<Rightarrow> nat" where
  "label_count hs label = length (filter (\<lambda>h. lowercase (hs_host h) = label) hs)"

definition display_label :: "Host list \<Rightarrow> Host \<Rightarrow> bytes" where
  "display_label hs h =
     (if label_count hs (lowercase (hs_host h)) = 1 then hs_host h
      else take (min (length (hs_host h)) 60) (hs_host h) @ ascii '' ('' @ take 8 (hs_endpoint_id h) @ ascii '')'')"

definition already_known :: "Host list \<Rightarrow> bytes list \<Rightarrow> Host \<Rightarrow> bool" where
  "already_known hs targets h =
     (let label = lowercase (hs_host h);
        equivalent_label = (label_count hs label = 1 \<and> \<not> is_endpoint label \<and> attached_alias label \<in> set targets)
      in hs_ssh_target h \<in> set targets \<or> equivalent_label)"

definition enrol :: "'h registry_ops \<Rightarrow> (Host \<Rightarrow> ('h, bool) io) \<Rightarrow> Host \<Rightarrow> bytes \<Rightarrow> ('h, bytes option) io" where
  "enrol R ready h display =
     bind_io (ready h) (\<lambda>up.
     if \<not> up then return_io None
     else bind_io (rg_add R (hs_ssh_target h) display) (\<lambda>profile. return_io (Some profile)))"

definition set_retry :: "bytes \<Rightarrow> nat \<Rightarrow> u32 \<Rightarrow> ('h desk, unit) io" where
  "set_retry endpoint seconds failures =
     bind_io moment_now (\<lambda>t. set_desk (\<lambda>s. s\<lparr>retry := btree_insert endpoint (t + seconds * 1000000000, failures) (retry s)\<rparr>))"

definition cooling :: "(nat \<times> u32) option \<Rightarrow> ('h desk, bool) io" where
  "cooling previous = (case previous of
     None \<Rightarrow> return_io False
   | Some (deadline, _) \<Rightarrow> bind_io moment_now (\<lambda>t. return_io (t < deadline)))"

definition adopt :: "bytes \<Rightarrow> bytes \<Rightarrow> bytes \<Rightarrow> State \<Rightarrow> State" where
  "adopt endpoint profile display st = st\<lparr>managed := btree_insert endpoint profile (managed st),
     seen := btree_insert endpoint () (seen st), pending := btree_insert endpoint display (pending st)\<rparr>"

fun poll_each ::
  "json_lib \<Rightarrow> 'h registry_ops \<Rightarrow> (Host \<Rightarrow> ('h, bool) io) \<Rightarrow> Host list \<Rightarrow> bytes list \<Rightarrow> Host list \<Rightarrow> State \<Rightarrow> nat
     \<Rightarrow> ('h desk, State) io" where
  "poll_each J R ready hs targets [] st attempts = return_io st"
| "poll_each J R ready hs targets (h # r) st attempts =
     (let endpoint = hs_endpoint_id h in
      if map_of (seen st) endpoint \<noteq> None then poll_each J R ready hs targets r st attempts
      else if already_known hs targets h then
        let st' = st\<lparr>seen := btree_insert endpoint () (seen st)\<rparr> in
        bind_io (state_save J st') (\<lambda>_. poll_each J R ready hs targets r st' attempts)
      else if attempts \<ge> 4 then poll_each J R ready hs targets r st attempts
      else
        bind_io (get_io (\<lambda>s. map_of (retry s) endpoint)) (\<lambda>previous.
        bind_io (cooling previous) (\<lambda>wait.
        if wait then poll_each J R ready hs targets r st attempts
        else
          let failures = (case previous of None \<Rightarrow> 0 | Some (_, n) \<Rightarrow> n); display = display_label hs h in
          bind_io (set_retry endpoint INTERVAL_SECONDS failures) (\<lambda>_.
          bind_io (try_io (outside_call (enrol R ready h display))) (\<lambda>result. case result of
            Inl _ \<Rightarrow>
              bind_io (set_retry endpoint (min (INTERVAL_SECONDS * 2 ^ min (unat failures) 4) 300) (saturating_succ failures)) (\<lambda>_.
                poll_each J R ready hs targets r st (attempts + 1))
          | Inr None \<Rightarrow> poll_each J R ready hs targets r st (attempts + 1)
          | Inr (Some profile) \<Rightarrow>
              bind_io (state_save J (adopt endpoint profile display st)) (\<lambda>_.
                poll_each J R ready hs targets r (adopt endpoint profile display st) (attempts + 1)))))))"

fun notify_each :: "json_lib \<Rightarrow> 'h registry_ops \<Rightarrow> (bytes \<times> bytes) list \<Rightarrow> State \<Rightarrow> ('h desk, unit) io" where
  "notify_each J R [] st = return_io ()"
| "notify_each J R ((endpoint, label) # r) st =
     bind_io (try_io (outside_call (rg_notify R label))) (\<lambda>shown. case shown of
       Inr True \<Rightarrow>
         let st' = st\<lparr>pending := btree_remove endpoint (pending st)\<rparr> in
         bind_io (state_save J st') (\<lambda>_. notify_each J R r st')
     | _ \<Rightarrow> notify_each J R r st)"

definition poll :: "json_lib \<Rightarrow> 'h registry_ops \<Rightarrow> (Host \<Rightarrow> ('h, bool) io) \<Rightarrow> Host list \<Rightarrow> ('h desk, unit) io" where
  "poll J R ready hs =
     bind_io (state_load J) (\<lambda>st.
     bind_io (outside_call (rg_machines R)) (\<lambda>machines.
     bind_io (set_desk (\<lambda>s. s\<lparr>retry := filter (\<lambda>(k, _). offered hs k) (retry s)\<rparr>)) (\<lambda>_.
     bind_io (get_io retry) (\<lambda>retries.
     let targets = map (\<lambda>m. lowercase (mc_target m)) machines;
       candidates = sort_key (\<lambda>h. map_of retries (hs_endpoint_id h)) hs in
     bind_io (poll_each J R ready hs targets candidates st 0) (\<lambda>st'. notify_each J R (pending st') st')))))"

section \<open>One check, and the rounds of the worker\<close>

definition reset_absences :: "'h desk \<Rightarrow> 'h desk" where
  "reset_absences s = s\<lparr>missing := []\<rparr>"

definition check :: "json_lib \<Rightarrow> 'h registry_ops \<Rightarrow> (Host \<Rightarrow> ('h, bool) io) \<Rightarrow> Discovery \<Rightarrow> ('h desk, unit) io" where
  "check J R ready d =
     bind_io (poll J R ready (dv_hosts d)) (\<lambda>_.
     bind_io (get_io last_generation) (\<lambda>previous.
     bind_io (if \<not> dv_complete d then set_desk reset_absences
         else if previous \<noteq> Some (dv_generation d) then prune J R (dv_hosts d) else return_io ()) (\<lambda>_.
       set_desk (\<lambda>s. s\<lparr>last_generation := Some (dv_generation d)\<rparr>))))"

text \<open>A round of \<open>app::worker\<close> and of the plugin's loop: any error, of the snapshot or of the check, starts the
  count of absences again. The returned list is the history of the rounds, newest first.\<close>

definition worker_round ::
  "json_lib \<Rightarrow> 'h registry_ops \<Rightarrow> (Host \<Rightarrow> ('h, bool) io) \<Rightarrow> failure + Discovery \<Rightarrow> 'h desk \<Rightarrow> (failure + Discovery) \<times> 'h desk" where
  "worker_round J R ready report s = (case report of
     Inl e \<Rightarrow> (Inl e, reset_absences s)
   | Inr d \<Rightarrow> (case check J R ready d s of
       (Inl e, t) \<Rightarrow> (Inl e, reset_absences t)
     | (Inr _, t) \<Rightarrow> (Inr d, t)))"

fun worker_rounds ::
  "json_lib \<Rightarrow> 'h registry_ops \<Rightarrow> (Host \<Rightarrow> ('h, bool) io) \<Rightarrow> (failure + Discovery) list \<Rightarrow> 'h desk
     \<Rightarrow> (failure + Discovery) list \<Rightarrow> 'h desk \<times> (failure + Discovery) list" where
  "worker_rounds J R ready [] s history = (s, history)"
| "worker_rounds J R ready (report # reports) s history =
     (case worker_round J R ready report s of (outcome, t) \<Rightarrow> worker_rounds J R ready reports t (outcome # history))"

definition new_reconciler :: "bytes option \<Rightarrow> save_turn list \<Rightarrow> nat list \<Rightarrow> 'h \<Rightarrow> 'h desk" where
  "new_reconciler data turns clocks w = \<lparr>stored = data, save_turns = turns, moments = clocks, retry = [], missing = [],
     last_generation = None, outside = w\<rparr>"

section \<open>What the reconciler keeps of the registry\<close>

definition grows :: "('h \<Rightarrow> bool) \<Rightarrow> (bytes \<Rightarrow> bytes \<Rightarrow> 'h \<Rightarrow> bool) \<Rightarrow> 'h \<Rightarrow> 'h \<Rightarrow> bool" where
  "grows sound owned w w' \<longleftrightarrow> sound w' \<and> (\<forall>e p. owned e p w \<longrightarrow> owned e p w')"

definition all_owned :: "(bytes \<Rightarrow> bytes \<Rightarrow> 'h \<Rightarrow> bool) \<Rightarrow> (bytes \<times> bytes) list \<Rightarrow> 'h \<Rightarrow> bool" where
  "all_owned owned m w \<longleftrightarrow> (\<forall>e p. (e, p) \<in> set m \<longrightarrow> owned e p w)"

definition state_of_file :: "json_lib \<Rightarrow> bytes option \<Rightarrow> State option" where
  "state_of_file J data = (case data of
     None \<Rightarrow> Some default_state | Some bs \<Rightarrow> Option.bind (json_from_slice J bs) state_read)"

definition writes_back :: "json_lib \<Rightarrow> bool" where
  "writes_back J \<longleftrightarrow> (\<forall>st. wf_state st \<longrightarrow> json_from_slice J (json_to_vec J (state_json st)) = Some (state_json st))"

definition desk_ok :: "json_lib \<Rightarrow> ('h \<Rightarrow> bool) \<Rightarrow> (bytes \<Rightarrow> bytes \<Rightarrow> 'h \<Rightarrow> bool) \<Rightarrow> 'h desk \<Rightarrow> bool" where
  "desk_ok J sound owned s \<longleftrightarrow> writes_back J \<and> sound (outside s) \<and> btree_ok (missing s)
     \<and> (\<forall>st. state_of_file J (stored s) = Some st \<longrightarrow> all_owned owned (managed st) (outside s))"

lemma desk_ok_fields [simp]:
  "desk_ok J sound owned (s\<lparr>save_turns := a\<rparr>) = desk_ok J sound owned s"
  "desk_ok J sound owned (s\<lparr>moments := b\<rparr>) = desk_ok J sound owned s"
  "desk_ok J sound owned (s\<lparr>retry := c\<rparr>) = desk_ok J sound owned s"
  "desk_ok J sound owned (s\<lparr>last_generation := d\<rparr>) = desk_ok J sound owned s"
  by (simp_all add: desk_ok_def)

lemma desk_ok_missing: "desk_ok J sound owned s \<Longrightarrow> btree_ok m \<Longrightarrow> desk_ok J sound owned (s\<lparr>missing := m\<rparr>)"
  by (simp add: desk_ok_def)

lemma all_owned_grows: "all_owned owned m w \<Longrightarrow> grows sound owned w w' \<Longrightarrow> all_owned owned m w'"
  by (auto simp: all_owned_def grows_def)

lemma desk_ok_outside: "desk_ok J sound owned s \<Longrightarrow> grows sound owned (outside s) w \<Longrightarrow> desk_ok J sound owned (s\<lparr>outside := w\<rparr>)"
  by (auto simp: desk_ok_def intro: all_owned_grows) (simp add: grows_def)

lemma btree_filter_ok: "btree_ok m \<Longrightarrow> btree_ok (filter f m)"
  by (induction m) (auto simp: btree_ok_def)

lemma map_of_filter_key: "map_of (filter (\<lambda>(k, _). p k) m) e = (if p e then map_of m e else None)"
  by (induction m) auto

lemma set_btree_insert: "set (btree_insert k v m) \<subseteq> insert (k, v) (set m)"
  by (induction k v m rule: btree_insert.induct) auto

lemma wp_outside_call [wp_simps]:
  "wp (outside_call m) Q E = (\<lambda>s. wp m (\<lambda>a w. Q a (s\<lparr>outside := w\<rparr>)) (\<lambda>w. E (s\<lparr>outside := w\<rparr>)) (outside s))"
  by (auto simp: fun_eq_iff wp_def outside_call_def split: prod.splits sum.splits)

lemma wp_set_desk [wp_simps]: "wp (set_desk f) Q E = (\<lambda>s. Q () (f s))"
  by (simp add: fun_eq_iff wp_def set_desk_def)

lemma wp_if: "(c \<Longrightarrow> wp a Q E s) \<Longrightarrow> (\<not> c \<Longrightarrow> wp b Q E s) \<Longrightarrow> wp (if c then a else b) Q E s"
  by simp

lemma wp_moment: "(\<And>t r. Q t (s\<lparr>moments := r\<rparr>)) \<Longrightarrow> E s \<Longrightarrow> wp moment_now Q E s"
  by (auto simp: wp_def moment_now_def split: list.splits)

lemma wp_set_retry: "(\<And>r c. Q () (s\<lparr>moments := r, retry := c\<rparr>)) \<Longrightarrow> E s \<Longrightarrow> wp (set_retry e n f) Q E s"
  unfolding set_retry_def wp_simps by (rule wp_moment) (simp_all add: wp_simps)

lemma wp_cooling:
  assumes "\<And>b r. Q b (s\<lparr>moments := r\<rparr>)" "E s"
  shows "wp (cooling previous) Q E s"
proof (cases previous)
  case None
  then show ?thesis using assms(1) [of _ "moments s"] by (simp add: cooling_def wp_simps)
next
  case (Some x)
  then show ?thesis using assms unfolding cooling_def by (cases x) (simp add: wp_simps wp_moment)
qed

lemma wp_call: "grows sound owned w (snd (m w)) \<Longrightarrow> (\<And>a w'. grows sound owned w w' \<Longrightarrow> Q a w') \<Longrightarrow>
  (\<And>w'. grows sound owned w w' \<Longrightarrow> E w') \<Longrightarrow> wp m Q E w"
  by (auto simp: wp_def split: prod.splits sum.splits)

text \<open>Polling does not touch the generation of the last check.\<close>

abbreviation at_generation :: "bytes option \<Rightarrow> 'h desk \<Rightarrow> bool" where
  "at_generation g \<equiv> \<lambda>s. last_generation s = g"

lemma keeps_generation [keeps_rules]:
  "keeps (at_generation g) (outside_call m)" "keeps (at_generation g) moment_now" "keeps (at_generation g) next_turn"
  "(\<And>s. last_generation (f s) = last_generation s) \<Longrightarrow> keeps (at_generation g) (set_desk f)"
  by (auto simp: keeps_def outside_call_def moment_now_def next_turn_def set_desk_def split: prod.splits list.splits)

lemma keeps_generation_file [keeps_rules]:
  "keeps (at_generation g) (state_load J)" "keeps (at_generation g) (state_save J st)"
  "keeps (at_generation g) (set_retry e n f)" "keeps (at_generation g) (cooling previous)"
proof -
  show "keeps (at_generation g) (state_load J)" unfolding state_load_def by (intro keeps_rules)
  show "keeps (at_generation g) (state_save J st)" unfolding state_save_def by (intro keeps_rules) simp
  show "keeps (at_generation g) (set_retry e n f)" unfolding set_retry_def by (intro keeps_rules) simp
  show "keeps (at_generation g) (cooling previous)"
    unfolding cooling_def by (cases previous) (auto simp only: option.case prod.case intro!: keeps_rules split: prod.splits)
qed

lemma keeps_generation_poll_each [keeps_rules]: "keeps (at_generation g) (poll_each J R ready hs targets todo st n)"
  by (induction todo arbitrary: st n) (auto intro!: keeps_rules simp: Let_def split: option.splits sum.splits)

lemma keeps_generation_notify_each [keeps_rules]: "keeps (at_generation g) (notify_each J R todo st)"
  by (induction todo arbitrary: st) (auto intro!: keeps_rules simp: Let_def split: sum.splits bool.splits)

lemma keeps_generation_poll: "keeps (at_generation g) (poll J R ready hs)"
  unfolding poll_def Let_def by (intro keeps_rules) simp

lemma keeps_generation_prune_each [keeps_rules]: "keeps (at_generation g) (prune_each J R hs machines todo st)"
  by (induction todo arbitrary: st) (auto intro!: keeps_rules simp: Let_def split: sum.splits)

lemma keeps_generation_prune: "keeps (at_generation g) (prune J R hs)"
  unfolding prune_def by (intro keeps_rules) simp

lemma failed_check_generation:
  assumes "check J R ready d s = (Inl e, t)"
  shows "last_generation t = last_generation s"
proof -
  obtain r u where p: "poll J R ready (dv_hosts d) s = (r, u)" by fastforce
  have u: "last_generation u = last_generation s" using keepsD [OF keeps_generation_poll refl p] .
  show ?thesis
  proof (cases r)
    case (Inl x)
    then show ?thesis using assms p u by (simp add: check_def bind_io_def)
  next
    case (Inr x)
    define m where "m = (if \<not> dv_complete d then set_desk reset_absences
      else if last_generation u \<noteq> Some (dv_generation d) then prune J R (dv_hosts d) else return_io ())"
    obtain r' v where v: "m u = (r', v)" by fastforce
    have "keeps (at_generation (last_generation s)) m"
      unfolding m_def by (intro keeps_rules keeps_generation_prune) (simp add: reset_absences_def)
    then have "last_generation v = last_generation s" using u v by (rule keepsD)
    moreover have "bind_io m (\<lambda>_. set_desk (\<lambda>s. s\<lparr>last_generation := Some (dv_generation d)\<rparr>)) u = (Inl e, t)"
      using assms p Inr by (simp add: check_def bind_io_def get_io_def m_def)
    then have "t = v" using v by (cases r') (simp_all add: bind_io_def set_desk_def)
    ultimately show ?thesis by simp
  qed
qed

lemma wp_and_keeps: "wp m Q E s \<Longrightarrow> keeps I m \<Longrightarrow> I s \<Longrightarrow> wp m (\<lambda>a t. Q a t \<and> I t) E s"
  by (auto simp: wp_def keeps_def split: prod.splits sum.splits)

lemma load_wp:
  assumes "desk_ok J sound owned s"
    and "\<And>st r. wf_state st \<Longrightarrow> all_owned owned (managed st) (outside s) \<Longrightarrow> Q st (s\<lparr>save_turns := r\<rparr>)" "\<And>r. E (s\<lparr>save_turns := r\<rparr>)"
  shows "wp (state_load J) Q E s"
proof -
  have keep: "E s" "\<And>st. wf_state st \<Longrightarrow> all_owned owned (managed st) (outside s) \<Longrightarrow> Q st s"
    using assms(2) [of _ "save_turns s"] assms(3) [of "save_turns s"] by simp_all
  have d: "wf_state default_state" by (simp add: wf_state_def default_state_def btree_ok_def)
  have loaded: "wf_state st \<and> all_owned owned (managed st) (outside s)" if "state_of_file J (stored s) = Some st" for st
    using that assms(1) d by (auto simp: desk_ok_def state_of_file_def bind_eq_Some_conv state_read_wf split: option.splits)
  show ?thesis
    using loaded keep assms(2,3) unfolding state_load_def
    by (auto simp: wp_simps wp_def next_turn_def state_of_file_def ok_or_def return_io_def of_result_def
        split: list.splits option.splits)
qed

lemma save_wp:
  assumes "desk_ok J sound owned s" "wf_state st" "all_owned owned (managed st) (outside s)"
    and "\<And>t. desk_ok J sound owned t \<Longrightarrow> outside t = outside s \<Longrightarrow> missing t = missing s \<Longrightarrow> Q () t"
    and "\<And>t. desk_ok J sound owned t \<Longrightarrow> E t"
  shows "wp (state_save J st) Q E s"
proof -
  have "state_of_file J (Some (json_to_vec J (state_json st))) = Some st"
    using assms(1,2) by (simp add: desk_ok_def state_of_file_def writes_back_def state_roundtrip)
  then have written: "desk_ok J sound owned (s\<lparr>stored := Some (json_to_vec J (state_json st)), save_turns := r\<rparr>)" for r
    using assms(1,3) by (simp add: desk_ok_def)
  have other: "s\<lparr>save_turns := r, stored := d\<rparr> = s\<lparr>stored := d, save_turns := r\<rparr>" for r d by simp
  show ?thesis
    using assms(1) written unfolding state_save_def
    by (auto simp: wp_simps wp_def next_turn_def ensure_io_def other intro!: assms(4,5) split: list.splits)
qed

lemma saturating_succ_le: "unat (saturating_succ n) \<le> Suc (unat n)"
proof -
  have "unat (n + 1) \<le> unat n + unat (1 :: u32)" by (simp add: unat_word_ariths mod_less_eq_dividend)
  then show ?thesis by (simp add: saturating_succ_def)
qed

text \<open>The counts while pruning: an endpoint still to come has at most its old count, any other one at most one
  more, and none when its machine is offered.\<close>

definition counted :: "Host list \<Rightarrow> (bytes \<Rightarrow> nat) \<Rightarrow> bytes set \<Rightarrow> 'h desk \<Rightarrow> bool" where
  "counted hs B todo s \<longleftrightarrow> (\<forall>e. unat (misses_of e s) \<le> (if e \<in> todo then B e else if offered hs e then 0 else Suc (B e)))"

lemma counted_cong: "missing t = missing s \<Longrightarrow> counted hs B X t = counted hs B X s"
  by (simp add: counted_def misses_of_def)

lemma counted_fields [simp]:
  "counted hs B X (s\<lparr>outside := w\<rparr>) = counted hs B X s"
  "counted hs B X (s\<lparr>retry := c\<rparr>) = counted hs B X s"
  by (simp_all add: counted_def misses_of_def)

lemma counted_at: "counted hs B X s \<Longrightarrow> unat (misses_of e s) \<le> (if e \<in> X then B e else if offered hs e then 0 else Suc (B e))"
  by (simp add: counted_def)

lemma counted_step:
  assumes "counted hs B (insert k X) s" "k \<notin> X" "\<And>e. e \<noteq> k \<Longrightarrow> misses_of e t = misses_of e s"
    and "unat (misses_of k t) \<le> (if offered hs k then 0 else Suc (B k))"
  shows "counted hs B X t"
  unfolding counted_def
proof
  fix e
  show "unat (misses_of e t) \<le> (if e \<in> X then B e else if offered hs e then 0 else Suc (B e))"
    using counted_at [OF assms(1), of e] assms(2-4) by (cases "e = k") (simp_all split: if_splits)
qed

lemma counted_remove:
  assumes "counted hs B (insert k X) s" "k \<notin> X" "missing t = btree_remove k (missing s)"
  shows "counted hs B X t"
  by (rule counted_step [OF assms(1,2)]) (simp_all add: misses_of_def assms(3) map_of_btree_remove)

lemma counted_removed:
  assumes "counted hs B X s" "k \<notin> X" "missing t = btree_remove k (missing s)"
  shows "counted hs B X t"
  unfolding counted_def
proof
  fix e
  show "unat (misses_of e t) \<le> (if e \<in> X then B e else if offered hs e then 0 else Suc (B e))"
    using counted_at [OF assms(1), of e] assms(2,3) by (cases "e = k") (simp_all add: misses_of_def map_of_btree_remove)
qed

lemma counted_insert:
  assumes "counted hs B (insert k X) s" "k \<notin> X" "btree_ok (missing s)" "\<not> offered hs k"
    and "missing t = btree_insert k (saturating_succ (misses_of k s)) (missing s)"
  shows "counted hs B X t"
proof -
  have "unat (misses_of k s) \<le> B k" using counted_at [OF assms(1), of k] by simp
  then have "unat (saturating_succ (misses_of k s)) \<le> Suc (B k)" using saturating_succ_le [of "misses_of k s"] by simp
  then show ?thesis
    using assms(3,4,5) by (intro counted_step [OF assms(1,2)]) (simp_all add: misses_of_def map_of_btree_insert)
qed

lemma managed_forget [simp]:
  "managed (disown e st) = btree_remove e (managed st)" "managed (forget e st) = btree_remove e (managed st)"
  by (simp_all add: disown_def forget_def)

lemma wf_forget [simp]: "wf_state st \<Longrightarrow> wf_state (disown e st)" "wf_state st \<Longrightarrow> wf_state (forget e st)"
  by (simp_all add: disown_def forget_def wf_state_def btree_remove_ok)

lemma managed_adopt [simp]: "managed (adopt e p d st) = btree_insert e p (managed st)"
  by (simp add: adopt_def)

lemma wf_adopt [simp]: "wf_state st \<Longrightarrow> wf_state (adopt e p d st)"
  by (simp add: adopt_def wf_state_def btree_insert_ok)

lemma all_owned_remove: "all_owned owned m w \<Longrightarrow> all_owned owned (btree_remove k m) w"
  by (auto simp: all_owned_def btree_remove_def)

lemma all_owned_insert: "all_owned owned m w \<Longrightarrow> owned k v w \<Longrightarrow> all_owned owned (btree_insert k v m) w"
  using set_btree_insert [of k v m] by (auto simp: all_owned_def)

lemmas owned_rules = all_owned_remove all_owned_insert all_owned_grows

lemmas desk_steps = desk_ok_missing desk_ok_outside btree_remove_ok btree_insert_ok

locale machine_registry =
  fixes R :: "'h registry_ops" and ready :: "Host \<Rightarrow> ('h, bool) io"
    and sound :: "'h \<Rightarrow> bool" and owned :: "bytes \<Rightarrow> bytes \<Rightarrow> 'h \<Rightarrow> bool" and lost :: "bytes \<Rightarrow> bool"
  assumes looking: "sound w \<Longrightarrow> grows sound owned w (snd (rg_machines R w))"
    and notifying: "sound w \<Longrightarrow> grows sound owned w (snd (rg_notify R l w))"
    and probing: "sound w \<Longrightarrow> grows sound owned w (snd (ready h w))"
    and adding: "sound w \<Longrightarrow> grows sound owned w (snd (rg_add R t l w))"
    and added: "sound w \<Longrightarrow> rg_add R (attached_alias e) l w = (Inr p, w') \<Longrightarrow> owned e p w'"
    and removing: "sound w \<Longrightarrow> owned e p w \<Longrightarrow> lost e \<Longrightarrow> grows sound owned w (snd (rg_remove R p w))"
begin

lemma save_then:
  assumes "desk_ok J sound owned s" "wf_state st" "all_owned owned (managed st) (outside s)"
    and "\<And>t. desk_ok J sound owned t \<Longrightarrow> outside t = outside s \<Longrightarrow> missing t = missing s \<Longrightarrow> wp m Q (desk_ok J sound owned) t"
  shows "wp (bind_io (state_save J st) (\<lambda>_. m)) Q (desk_ok J sound owned) s"
  unfolding wp_simps by (rule save_wp [OF assms(1-3)]) (auto intro: assms(4))

lemma removal_wp:
  fixes k :: "State \<Rightarrow> ('h desk, unit) io"
  assumes ok: "desk_ok J sound owned s" "counted hs B X s" "e \<notin> X" "wf_state st" "all_owned owned (managed st) (outside s)"
      "all_owned owned todo (outside s)" "owned e p (outside s)" "lost e"
    and k: "\<And>st t. desk_ok J sound owned t \<Longrightarrow> wf_state st \<Longrightarrow> all_owned owned (managed st) (outside t) \<Longrightarrow>
      all_owned owned todo (outside t) \<Longrightarrow> counted hs B X t \<Longrightarrow> wp (k st) Q (desk_ok J sound owned) t"
  shows "wp (try_io (outside_call (rg_remove R p))) (\<lambda>removed. wp (case removed of
      Inl _ \<Rightarrow> k st
    | Inr _ \<Rightarrow> bind_io (set_desk (\<lambda>s. s\<lparr>missing := btree_remove e (missing s), retry := btree_remove e (retry s)\<rparr>)) (\<lambda>_.
        bind_io (state_save J (forget e st)) (\<lambda>_. k (forget e st)))) Q (desk_ok J sound owned)) (desk_ok J sound owned) s"
proof -
  let ?gone = "\<lambda>w. s\<lparr>outside := w, missing := btree_remove e (missing s), retry := btree_remove e (retry s)\<rparr>"
  have g: "grows sound owned (outside s) (snd (rg_remove R p (outside s)))" using removing ok(1,7,8) by (simp add: desk_ok_def)
  have failed: "wp (k st) Q (desk_ok J sound owned) (s\<lparr>outside := w\<rparr>)" if "grows sound owned (outside s) w" for w
    using ok(2,4) desk_ok_outside [OF ok(1) that] all_owned_grows [OF ok(5) that] all_owned_grows [OF ok(6) that] by (intro k) simp_all
  have removed: "wp (bind_io (state_save J (forget e st)) (\<lambda>_. k (forget e st))) Q (desk_ok J sound owned) (?gone w)"
    if g: "grows sound owned (outside s) w" for w
  proof (rule save_then)
    show gone: "desk_ok J sound owned (?gone w)" using desk_ok_outside [OF ok(1) g] by (auto simp: desk_ok_def intro!: btree_remove_ok)
    show wf: "wf_state (forget e st)" using ok(4) by simp
    show own: "all_owned owned (managed (forget e st)) (outside (?gone w))"
      using all_owned_grows [OF ok(5) g] by (simp add: all_owned_remove)
    fix t :: "'h desk"
    assume "desk_ok J sound owned t" "outside t = outside (?gone w)" "missing t = missing (?gone w)"
    then show "wp (k (forget e st)) Q (desk_ok J sound owned) t"
      using wf own all_owned_grows [OF ok(6) g] by (intro k) (simp_all add: counted_removed [OF ok(2,3)])
  qed
  show ?thesis
    by (rule wp_try) (simp add: wp_outside_call; rule wp_call [where m = "rg_remove R p", OF g]; insert failed removed; simp add: wp_simps)
qed

lemma prune_each_wp:
  assumes "desk_ok J sound owned s" "wf_state st" "all_owned owned (managed st) (outside s)" "all_owned owned todo (outside s)"
    and "distinct (map fst todo)" "counted hs B (fst ` set todo) s" "\<And>e. \<not> offered hs e \<Longrightarrow> 2 \<le> B e \<Longrightarrow> lost e"
  shows "wp (prune_each J R hs machines todo st) (\<lambda>_ t. desk_ok J sound owned t \<and> counted hs B {} t) (desk_ok J sound owned) s"
  using assms(1-6)
proof (induction todo arbitrary: st s)
  case (Cons x todo)
  obtain e p where x: "x = (e, p)" by (cases x)
  let ?ok = "desk_ok J sound owned" and ?rest = "fst ` set todo"
  let ?away = "s\<lparr>missing := btree_remove e (missing s)\<rparr>"
    and ?more = "s\<lparr>missing := btree_insert e (saturating_succ (misses_of e s)) (missing s)\<rparr>"
  have e: "e \<notin> ?rest" "distinct (map fst todo)" "owned e p (outside s)" "all_owned owned todo (outside s)" "btree_ok (missing s)"
    using Cons.prems(1,4,5) by (auto simp: x all_owned_def desk_ok_def)
  have c: "counted hs B (insert e ?rest) s" using Cons.prems(6) by (simp add: x)
  note IH = Cons.IH [OF _ _ _ _ e(2)]
  have away: "?ok ?away" "counted hs B ?rest ?away"
    using Cons.prems(1) e c by (auto intro: desk_steps counted_remove)
  show ?case
  proof (cases "registered_as machines p e")
    case False
    let ?st = "disown e st"
    have own: "all_owned owned (managed ?st) (outside ?away)" using Cons.prems(3) by (simp add: all_owned_remove)
    have "wp (bind_io (state_save J ?st) (\<lambda>_. prune_each J R hs machines todo ?st))
        (\<lambda>_ t. ?ok t \<and> counted hs B {} t) ?ok ?away"
    proof (rule save_then [OF away(1) _ own])
      fix t assume "?ok t" "outside t = outside ?away" "missing t = missing ?away"
      then show "wp (prune_each J R hs machines todo ?st) (\<lambda>_ t. ?ok t \<and> counted hs B {} t) ?ok t"
        using Cons.prems(2) own e(4) away(2) counted_cong [of t ?away] by (intro IH) simp_all
    qed (simp add: Cons.prems(2))
    then show ?thesis using False by (simp add: x wp_simps Let_def)
  next
    case registered: True
    show ?thesis
    proof (cases "offered hs e")
      case True
      then show ?thesis
        using registered away e Cons.prems(2,3) by (auto simp: x wp_simps intro!: IH)
    next
      case False
      have more: "?ok ?more" "counted hs B ?rest ?more"
        using Cons.prems(1) e(5) by (auto intro: desk_steps) (rule counted_insert [OF c e(1,5) False], simp)
      have lost: "lost e" if "\<not> saturating_succ (misses_of e s) < 3"
      proof -
        have "3 \<le> unat (saturating_succ (misses_of e s))" using that by (simp add: word_less_nat_alt)
        then have "2 \<le> B e" using saturating_succ_le [of "misses_of e s"] counted_at [OF c, of e] by simp
        then show ?thesis using assms(7) False by blast
      qed
      show ?thesis
      proof (cases "saturating_succ (misses_of e s) < 3")
        case True
        then show ?thesis
          using registered False more e Cons.prems(2,3) by (auto simp: x wp_simps Let_def intro!: IH)
      next
        case over: False
        show ?thesis
          using registered False over removal_wp [OF more e(1) Cons.prems(2), of todo p "\<lambda>st. prune_each J R hs machines todo st"
              "\<lambda>_ t. ?ok t \<and> counted hs B {} t"] Cons.prems(3) e(3,4) lost [OF over] IH
          by (simp add: x wp_simps Let_def)
      qed
    qed
  qed
qed (simp add: wp_simps)

lemma prune_wp:
  assumes "desk_ok J sound owned s" "\<And>e. unat (misses_of e s) \<le> B e" "\<And>e. \<not> offered hs e \<Longrightarrow> 2 \<le> B e \<Longrightarrow> lost e"
  shows "wp (prune J R hs) (\<lambda>_ t. desk_ok J sound owned t \<and> counted hs B {} t) (desk_ok J sound owned) s"
  unfolding prune_def wp_combinators
proof (rule load_wp [OF assms(1)])
  fix st :: State and r :: "save_turn list"
  let ?s = "s\<lparr>save_turns := r\<rparr>" and ?keep = "\<lambda>s :: 'h desk. filter (\<lambda>(k, _). map_of (managed st) k \<noteq> None) (missing s)"
  assume st: "wf_state st" "all_owned owned (managed st) (outside s)"
  have g: "grows sound owned (outside ?s) (snd (rg_machines R (outside ?s)))" using assms(1) looking by (simp add: desk_ok_def)
  have onward: "wp (prune_each J R hs machines (managed st) st) (\<lambda>_ t. desk_ok J sound owned t \<and> counted hs B {} t) (desk_ok J sound owned)
      (?s\<lparr>outside := w, missing := ?keep s\<rparr>)" if "grows sound owned (outside s) w" for machines w
  proof (rule prune_each_wp [OF _ st(1)])
    let ?t = "?s\<lparr>outside := w, missing := ?keep s\<rparr>"
    show "desk_ok J sound owned ?t"
      using desk_ok_outside [of J sound owned s w] assms(1) that by (auto simp: desk_ok_def btree_filter_ok)
    show "all_owned owned (managed st) (outside ?t)" "all_owned owned (managed st) (outside ?t)" using all_owned_grows [OF st(2) that] by simp_all
    show "distinct (map fst (managed st))" using st(1) by (simp add: wf_state_def btree_distinct)
    have "misses_of e ?t = (if map_of (managed st) e = None then 0 else misses_of e s)" for e
      by (simp add: misses_of_def map_of_filter_key)
    then show "counted hs B (fst ` set (managed st)) ?t"
      using assms(2) by (auto simp: counted_def map_of_eq_None_iff image_iff)
  qed (rule assms(3))
  show "wp (outside_call (rg_machines R)) (\<lambda>machines. wp (set_desk (\<lambda>s. s\<lparr>missing := ?keep s\<rparr>)) (\<lambda>_. wp (prune_each J R hs machines (managed st) st)
      (\<lambda>_ t. desk_ok J sound owned t \<and> counted hs B {} t) (desk_ok J sound owned)) (desk_ok J sound owned)) (desk_ok J sound owned) ?s"
    unfolding wp_simps by (rule wp_call [where m = "rg_machines R", OF g]) (use onward assms(1) in \<open>simp_all add: desk_ok_outside\<close>)
qed (simp add: assms(1))

lemma notify_each_wp:
  "desk_ok J sound owned s \<Longrightarrow> wf_state st \<Longrightarrow> all_owned owned (managed st) (outside s) \<Longrightarrow> missing s = M \<Longrightarrow>
   wp (notify_each J R todo st) (\<lambda>_ t. desk_ok J sound owned t \<and> missing t = M) (desk_ok J sound owned) s"
proof (induction todo arbitrary: st s)
  case (Cons x todo)
  obtain e label where x: "x = (e, label)" by (cases x)
  let ?Q = "\<lambda>_ t. desk_ok J sound owned t \<and> missing t = M" and ?st = "st\<lparr>pending := btree_remove e (pending st)\<rparr>"
  have g: "grows sound owned (outside s) (snd (rg_notify R label (outside s)))" using Cons.prems(1) notifying by (simp add: desk_ok_def)
  have onward: "wp (notify_each J R todo st) ?Q (desk_ok J sound owned) (s\<lparr>outside := w\<rparr>)"
    "wp (bind_io (state_save J ?st) (\<lambda>_. notify_each J R todo ?st)) ?Q (desk_ok J sound owned) (s\<lparr>outside := w\<rparr>)"
    if "grows sound owned (outside s) w" for w
  proof -
    note ok = desk_ok_outside [OF Cons.prems(1) that] all_owned_grows [OF Cons.prems(3) that]
    have wf: "wf_state ?st" using Cons.prems(2) by (simp add: wf_state_def btree_remove_ok)
    show "wp (notify_each J R todo st) ?Q (desk_ok J sound owned) (s\<lparr>outside := w\<rparr>)"
      using ok Cons.prems(2,4) by (intro Cons.IH) simp_all
    show "wp (bind_io (state_save J ?st) (\<lambda>_. notify_each J R todo ?st)) ?Q (desk_ok J sound owned) (s\<lparr>outside := w\<rparr>)"
      using ok wf Cons.prems(4) by (intro save_then Cons.IH) simp_all
  qed
  have "wp (try_io (outside_call (rg_notify R label))) (\<lambda>shown. wp (case shown of
      Inr True \<Rightarrow> bind_io (state_save J ?st) (\<lambda>_. notify_each J R todo ?st)
    | _ \<Rightarrow> notify_each J R todo st) ?Q (desk_ok J sound owned)) (desk_ok J sound owned) s"
    by (rule wp_try) (simp add: wp_outside_call; rule wp_call [where m = "rg_notify R label", OF g];
      use onward in \<open>simp split: bool.splits\<close>)
  then show ?case by (simp add: x wp_simps Let_def)
qed (simp add: wp_simps)

lemma enrol_wp:
  assumes "sound w" "hs_ssh_target h = attached_alias (hs_endpoint_id h)"
  shows "wp (enrol R ready h display) (\<lambda>r w'. grows sound owned w w' \<and> (\<forall>p. r = Some p \<longrightarrow> owned (hs_endpoint_id h) p w'))
    (grows sound owned w) w"
proof -
  have trans: "grows sound owned w v" if "grows sound owned w u" "grows sound owned u v" for u v
    using that by (simp add: grows_def)
  have add: "wp (rg_add R (hs_ssh_target h) display) (\<lambda>p v. grows sound owned w v \<and> owned (hs_endpoint_id h) p v) (grows sound owned w) u"
    if "grows sound owned w u" for u
    using that adding [of u "hs_ssh_target h" display] added [of u "hs_endpoint_id h" display] trans [OF that] assms(2)
    by (auto simp: wp_def grows_def split: prod.splits sum.splits)
  show ?thesis
    unfolding enrol_def wp_simps
    by (rule wp_call [where m = "ready h", OF probing [OF assms(1)]]) (use add in \<open>auto simp: wp_simps\<close>)
qed

lemma attempt_wp:
  assumes ok: "desk_ok J sound owned s" "missing s = M" "wf_state st" "all_owned owned (managed st) (outside s)"
      "hs_ssh_target h = attached_alias (hs_endpoint_id h)"
    and k: "\<And>st t. desk_ok J sound owned t \<Longrightarrow> missing t = M \<Longrightarrow> wf_state st \<Longrightarrow> all_owned owned (managed st) (outside t) \<Longrightarrow>
      wp (k st) Q (desk_ok J sound owned) t"
  shows "wp (try_io (outside_call (enrol R ready h display))) (\<lambda>result. wp (case result of
      Inl _ \<Rightarrow> bind_io (set_retry (hs_endpoint_id h) n f) (\<lambda>_. k st)
    | Inr None \<Rightarrow> k st
    | Inr (Some profile) \<Rightarrow> bind_io (state_save J (adopt (hs_endpoint_id h) profile display st)) (\<lambda>_.
        k (adopt (hs_endpoint_id h) profile display st))) Q (desk_ok J sound owned)) (desk_ok J sound owned) s"
proof -
  have sound: "sound (outside s)" using ok(1) by (simp add: desk_ok_def)
  have moved: "desk_ok J sound owned (s\<lparr>outside := w\<rparr>)" "all_owned owned (managed st) w" if "grows sound owned (outside s) w" for w
    using desk_ok_outside [OF ok(1) that] all_owned_grows [OF ok(4) that] by simp_all
  have kept: "wp (k st) Q (desk_ok J sound owned) (s\<lparr>outside := w, moments := r, retry := c\<rparr>)"
    "wp (k st) Q (desk_ok J sound owned) (s\<lparr>outside := w\<rparr>)" if "grows sound owned (outside s) w" for w r c
    using moved [OF that] ok(2,3) by (intro k; simp)+
  have won: "wp (bind_io (state_save J (adopt (hs_endpoint_id h) p display st)) (\<lambda>_. k (adopt (hs_endpoint_id h) p display st)))
      Q (desk_ok J sound owned) (s\<lparr>outside := w\<rparr>)" if "grows sound owned (outside s) w" "owned (hs_endpoint_id h) p w" for p w
    using moved [OF that(1)] that(2) ok(2,3) by (intro save_then k) (simp_all add: all_owned_insert)
  show ?thesis
    by (rule wp_try) (simp add: wp_outside_call; rule wp_mono [OF enrol_wp [OF sound ok(5)]];
      use kept won moved in \<open>auto simp: wp_combinators intro!: wp_set_retry split: option.splits\<close>)
qed

lemma poll_each_wp:
  "desk_ok J sound owned s \<Longrightarrow> missing s = M \<Longrightarrow> wf_state st \<Longrightarrow> all_owned owned (managed st) (outside s) \<Longrightarrow>
   (\<And>h. h \<in> set todo \<Longrightarrow> hs_ssh_target h = attached_alias (hs_endpoint_id h)) \<Longrightarrow>
   wp (poll_each J R ready hs targets todo st n)
     (\<lambda>st' t. desk_ok J sound owned t \<and> missing t = M \<and> wf_state st' \<and> all_owned owned (managed st') (outside t)) (desk_ok J sound owned) s"
proof (induction todo arbitrary: st s n)
  case (Cons h todo)
  let ?ok = "desk_ok J sound owned" and ?e = "hs_endpoint_id h"
  let ?Q = "\<lambda>st' t. ?ok t \<and> missing t = M \<and> wf_state st' \<and> all_owned owned (managed st') (outside t)"
  let ?st = "st\<lparr>seen := btree_insert ?e () (seen st)\<rparr>"
  have k: "wp (poll_each J R ready hs targets todo st n) ?Q ?ok t"
    if "?ok t" "missing t = M" "wf_state st" "all_owned owned (managed st) (outside t)" for st t n
    using Cons.IH [OF that] Cons.prems(5) by simp
  have wf: "wf_state ?st" using Cons.prems(3) by (simp add: wf_state_def btree_insert_ok)
  have known: "wp (bind_io (state_save J ?st) (\<lambda>_. poll_each J R ready hs targets todo ?st n)) ?Q ?ok s"
    using Cons.prems wf by (intro save_then k) simp_all
  have aliased: "hs_ssh_target h = attached_alias ?e" using Cons.prems(5) by simp
  have waiting: "wp (poll_each J R ready hs targets todo st n) ?Q ?ok (s\<lparr>moments := r\<rparr>)" for r
    using Cons.prems by (intro k) simp_all
  have tried: "wp (bind_io (set_retry ?e i f) (\<lambda>_. bind_io (try_io (outside_call (enrol R ready h (display_label hs h)))) (\<lambda>result. case result of
        Inl _ \<Rightarrow> bind_io (set_retry ?e j f') (\<lambda>_. poll_each J R ready hs targets todo st (n + 1))
      | Inr None \<Rightarrow> poll_each J R ready hs targets todo st (n + 1)
      | Inr (Some profile) \<Rightarrow> bind_io (state_save J (adopt ?e profile (display_label hs h) st)) (\<lambda>_.
          poll_each J R ready hs targets todo (adopt ?e profile (display_label hs h) st) (n + 1))))) ?Q ?ok (s\<lparr>moments := r\<rparr>)" for i j f f' r
    unfolding wp_combinators using Cons.prems
    by (intro wp_set_retry attempt_wp [where M = M, OF _ _ Cons.prems(3) _ aliased] k) simp_all
  have "wp (cooling previous) (\<lambda>wait. wp (if wait then poll_each J R ready hs targets todo st n else m) ?Q ?ok) ?ok s"
    if "\<And>r. wp m ?Q ?ok (s\<lparr>moments := r\<rparr>)" for m previous
    using waiting that Cons.prems(1) by (intro wp_cooling) simp_all
  note cool = this [OF tried]
  show ?case
    unfolding poll_each.simps Let_def
    by (rule wp_if k [OF Cons.prems(1-4)] known)+ (unfold wp_combinators, rule cool)
qed (simp add: wp_simps)

lemma poll_wp:
  assumes "desk_ok J sound owned s" "\<And>h. h \<in> set hs \<Longrightarrow> hs_ssh_target h = attached_alias (hs_endpoint_id h)"
  shows "wp (poll J R ready hs) (\<lambda>_ t. desk_ok J sound owned t \<and> missing t = missing s) (desk_ok J sound owned) s"
  unfolding poll_def wp_combinators
proof (rule load_wp [OF assms(1)])
  fix st :: State and r :: "save_turn list"
  let ?ok = "desk_ok J sound owned" and ?Q = "\<lambda>_ t. desk_ok J sound owned t \<and> missing t = missing s"
  assume st: "wf_state st" "all_owned owned (managed st) (outside s)"
  have g: "grows sound owned (outside s) (snd (rg_machines R (outside s)))" using assms(1) looking by (simp add: desk_ok_def)
  have onward: "wp (poll_each J R ready hs targets (sort_key f hs) st 0) (\<lambda>st'. wp (notify_each J R (pending st') st') ?Q ?ok) ?ok
      (s\<lparr>save_turns := r, outside := w, retry := c\<rparr>)" if "grows sound owned (outside s) w" for targets w c and f :: "Host \<Rightarrow> (nat \<times> u32) option"
  proof -
    let ?t = "s\<lparr>save_turns := r, outside := w, retry := c\<rparr>"
    have "?ok ?t" using desk_ok_outside [OF assms(1) that] by (simp add: desk_ok_def)
    then show ?thesis
      using assms(2) all_owned_grows [OF st(2) that]
      by (intro wp_mono [OF poll_each_wp [where M = "missing s", OF _ _ st(1)]]) (auto intro: notify_each_wp)
  qed
  show "wp (outside_call (rg_machines R)) (\<lambda>machines. wp (set_desk (\<lambda>s. s\<lparr>retry := filter (\<lambda>(k, _). offered hs k) (retry s)\<rparr>)) (\<lambda>_.
      (\<lambda>u. wp (let targets = map (\<lambda>m. lowercase (mc_target m)) machines; candidates = sort_key (\<lambda>h. map_of (retry u) (hs_endpoint_id h)) hs
        in bind_io (poll_each J R ready hs targets candidates st 0) (\<lambda>st'. notify_each J R (pending st') st')) ?Q ?ok u)) ?ok) ?ok (s\<lparr>save_turns := r\<rparr>)"
    unfolding Let_def wp_simps
    by (rule wp_call [where m = "rg_machines R" and w = "outside (s\<lparr>save_turns := r\<rparr>)" and sound = sound and owned = owned])
      (use g onward desk_ok_outside [OF assms(1)] in \<open>simp_all add: desk_ok_def\<close>)
qed (simp add: assms(1))

lemma check_wp:
  assumes "desk_ok J sound owned s" "\<And>h. h \<in> set (dv_hosts d) \<Longrightarrow> hs_ssh_target h = attached_alias (hs_endpoint_id h)"
    and "\<And>e. unat (misses_of e s) \<le> B e"
    and "\<And>e. dv_complete d \<Longrightarrow> last_generation s \<noteq> Some (dv_generation d) \<Longrightarrow> \<not> offered (dv_hosts d) e \<Longrightarrow> 2 \<le> B e \<Longrightarrow> lost e"
  shows "wp (check J R ready d) (\<lambda>_ t. desk_ok J sound owned t \<and> last_generation t = Some (dv_generation d)
      \<and> (\<forall>e. unat (misses_of e t) \<le> (if \<not> dv_complete d then 0 else if last_generation s = Some (dv_generation d) then B e
          else if offered (dv_hosts d) e then 0 else Suc (B e)))) (desk_ok J sound owned) s"
  unfolding check_def wp_combinators
proof (rule wp_mono [OF wp_and_keeps [OF poll_wp [OF assms(1,2)] keeps_generation_poll [of "last_generation s"]]])
  fix t assume "(desk_ok J sound owned t \<and> missing t = missing s) \<and> last_generation t = last_generation s"
  then have t: "desk_ok J sound owned t" "last_generation t = last_generation s" and B: "\<And>e. unat (misses_of e t) \<le> B e"
    using assms(3) by (simp_all add: misses_of_def)
  let ?E = "desk_ok J sound owned" and ?g = "dv_generation d"
  let ?Q = "\<lambda>_ u. desk_ok J sound owned u \<and> last_generation u = Some ?g \<and> (\<forall>e. unat (misses_of e u) \<le> (if \<not> dv_complete d then 0
      else if last_generation s = Some ?g then B e else if offered (dv_hosts d) e then 0 else Suc (B e)))"
  have "wp (prune J R (dv_hosts d)) (\<lambda>_. wp (set_desk (\<lambda>s. s\<lparr>last_generation := Some ?g\<rparr>)) ?Q ?E) ?E t"
    if "dv_complete d" "last_generation s \<noteq> Some ?g"
    by (rule wp_mono [OF prune_wp [OF t(1) B assms(4) [OF that]]])
      (use that in \<open>auto simp: wp_simps counted_def misses_of_def\<close>)
  moreover have "?Q () ((reset_absences t)\<lparr>last_generation := Some ?g\<rparr>)" if "\<not> dv_complete d"
    using t(1) that by (simp add: reset_absences_def misses_of_def desk_ok_def btree_ok_def)
  moreover have "?Q () (t\<lparr>last_generation := Some ?g\<rparr>)" if "dv_complete d" "last_generation s = Some ?g"
    using t(1) B that by (simp add: misses_of_def)
  ultimately show "wp (if \<not> dv_complete d then set_desk reset_absences
      else if last_generation t \<noteq> Some ?g then prune J R (dv_hosts d) else return_io ())
      (\<lambda>_. wp (set_desk (\<lambda>s. s\<lparr>last_generation := Some ?g\<rparr>)) ?Q ?E) ?E t"
    using t(2) by (auto simp: wp_simps)
qed simp_all

end

section \<open>Every registry, with its calls written down\<close>

datatype registry_call = Added bytes bytes | Removed bytes

definition on_world :: "('h, 'a) io \<Rightarrow> ('h \<times> registry_call list, 'a) io" where
  "on_world m = (\<lambda>(w, calls). case m w of (r, w') \<Rightarrow> (r, (w', calls)))"

definition logged :: "'h registry_ops \<Rightarrow> ('h \<times> registry_call list) registry_ops" where
  "logged R = \<lparr>rg_machines = on_world (rg_machines R),
     rg_add = (\<lambda>t l (w, calls). case rg_add R t l w of
       (Inl e, w') \<Rightarrow> (Inl e, (w', calls)) | (Inr p, w') \<Rightarrow> (Inr p, (w', calls @ [Added t p]))),
     rg_remove = (\<lambda>p (w, calls). case rg_remove R p w of (r, w') \<Rightarrow> (r, (w', calls @ [Removed p]))),
     rg_notify = (\<lambda>l. on_world (rg_notify R l))\<rparr>"

definition owned_in :: "(bytes \<times> bytes) list \<Rightarrow> bytes \<Rightarrow> bytes \<Rightarrow> 'h \<times> registry_call list \<Rightarrow> bool" where
  "owned_in initial e p w \<longleftrightarrow> (e, p) \<in> set initial \<or> Added (attached_alias e) p \<in> set (snd w)"

definition removals_ok ::
  "(bytes \<times> bytes) list \<Rightarrow> (bytes \<Rightarrow> bool) \<Rightarrow> registry_call list \<Rightarrow> 'h \<times> registry_call list \<Rightarrow> bool" where
  "removals_ok initial lost old w \<longleftrightarrow>
     (\<exists>new. snd w = old @ new \<and> (\<forall>p. Removed p \<in> set new \<longrightarrow> (\<exists>e. lost e \<and> owned_in initial e p w)))"

lemma removals_ok_more:
  assumes "removals_ok initial lost old w" "snd w' = snd w @ added"
    and "\<And>p. Removed p \<in> set added \<Longrightarrow> \<exists>e. lost e \<and> owned_in initial e p w"
  shows "grows (removals_ok initial lost old) (owned_in initial) w w'"
proof -
  obtain new where new: "snd w = old @ new" "\<And>p. Removed p \<in> set new \<Longrightarrow> \<exists>e. lost e \<and> owned_in initial e p w"
    using assms(1) by (auto simp: removals_ok_def)
  have own: "owned_in initial e p w'" if "owned_in initial e p w" for e p using that assms(2) by (auto simp: owned_in_def)
  have "removals_ok initial lost old w'"
    unfolding removals_ok_def using new assms(2,3) own by (intro exI [of _ "new @ added"]) (auto, blast+)
  then show ?thesis using own by (simp add: grows_def)
qed

lemma on_world_calls: "snd (snd (on_world m w)) = snd w"
  by (cases w) (simp add: on_world_def split: prod.splits)

interpretation logged: machine_registry "logged R" "\<lambda>h. on_world (ready h)" "removals_ok initial lost old" "owned_in initial" lost
  for R :: "'h registry_ops" and ready initial lost old
proof
  fix w :: "'h \<times> registry_call list" and l t e p h and w' :: "'h \<times> registry_call list"
  assume ok: "removals_ok initial lost old w"
  show "grows (removals_ok initial lost old) (owned_in initial) w (snd (rg_machines (logged R) w))"
    "grows (removals_ok initial lost old) (owned_in initial) w (snd (rg_notify (logged R) l w))"
    "grows (removals_ok initial lost old) (owned_in initial) w (snd (on_world (ready h) w))"
    by (rule removals_ok_more [OF ok, where added = "[]"]; simp add: logged_def on_world_calls)+
  show "grows (removals_ok initial lost old) (owned_in initial) w (snd (rg_add (logged R) t l w))"
    by (cases "fst (rg_add R t l (fst w))"; rule removals_ok_more [OF ok, where added = "case fst (rg_add R t l (fst w)) of Inl _ \<Rightarrow> [] | Inr p \<Rightarrow> [Added t p]"])
      (auto simp: logged_def split: prod.splits sum.splits)
  show "owned_in initial e p w'" if "rg_add (logged R) (attached_alias e) l w = (Inr p, w')"
    using that by (auto simp: logged_def owned_in_def split: prod.splits sum.splits)
  show "grows (removals_ok initial lost old) (owned_in initial) w (snd (rg_remove (logged R) p w))" if "owned_in initial e p w" "lost e"
    by (rule removals_ok_more [OF ok, where added = "[Removed p]"]) (use that in \<open>auto simp: logged_def split: prod.splits\<close>)
qed

section \<open>Only own machines are removed, and only after three absences\<close>

text \<open>How often in a row an endpoint was missing, from the history of rounds, newest first: complete snapshots of
  new generations count, a failed round or an incomplete snapshot starts again.\<close>

fun last_seen :: "(failure + Discovery) list \<Rightarrow> bytes option" where
  "last_seen [] = None"
| "last_seen (Inl _ # h) = last_seen h"
| "last_seen (Inr d # h) = Some (dv_generation d)"

fun absences :: "bytes \<Rightarrow> (failure + Discovery) list \<Rightarrow> nat" where
  "absences e [] = 0"
| "absences e (Inl _ # h) = 0"
| "absences e (Inr d # h) =
     (if \<not> dv_complete d then 0
      else if last_seen h = Some (dv_generation d) then absences e h
      else if offered (dv_hosts d) e then 0 else Suc (absences e h))"

definition in_step :: "json_lib \<Rightarrow> (bytes \<times> bytes) list \<Rightarrow> ('h \<times> registry_call list) desk \<Rightarrow> (failure + Discovery) list \<Rightarrow> bool" where
  "in_step J initial s history \<longleftrightarrow> desk_ok J (\<lambda>_. True) (owned_in initial) s \<and> last_generation s = last_seen history
     \<and> (\<forall>e. unat (misses_of e s) \<le> absences e history)"

lemma desk_ok_any: "desk_ok J sound owned s \<Longrightarrow> sound' (outside s) \<Longrightarrow> desk_ok J sound' owned s"
  by (simp add: desk_ok_def)

lemma discovery_well_formed: "discovery_hosts J f uid t = Inr d \<Longrightarrow> h \<in> set (dv_hosts d) \<Longrightarrow> well_formed_host h"
  using validated_hosts by (fastforce simp: discovery_hosts_def parse_discovery_def bind_result_eq_Inr Let_def)

lemma check_in_step:
  fixes s :: "('h \<times> registry_call list) desk"
  assumes "in_step J initial s history" "discovery_hosts J f uid t = Inr d"
  shows "wp (check J (logged R) (\<lambda>h. on_world (ready h)) d)
    (\<lambda>_ u. in_step J initial u (Inr d # history)
      \<and> removals_ok initial (\<lambda>e. 3 \<le> absences e (Inr d # history)) (snd (outside s)) (outside u))
    (\<lambda>u. desk_ok J (\<lambda>_. True) (owned_in initial) u
      \<and> removals_ok initial (\<lambda>e. 3 \<le> absences e (Inr d # history)) (snd (outside s)) (outside u)) s"
proof -
  let ?lost = "\<lambda>e. 3 \<le> absences e (Inr d # history)"
  let ?sound = "removals_ok initial ?lost (snd (outside s))"
  have s: "desk_ok J (\<lambda>_. True) (owned_in initial) s" "last_generation s = last_seen history" "\<And>e. unat (misses_of e s) \<le> absences e history"
    using assms(1) by (simp_all add: in_step_def)
  have "desk_ok J ?sound (owned_in initial) s" using s(1) by (auto simp: desk_ok_def removals_ok_def)
  note checked = logged.check_wp [OF this, of d "\<lambda>e. absences e history" R ready]
  have spec: "(if \<not> dv_complete d then 0 else if last_generation s = Some (dv_generation d) then absences e history
      else if offered (dv_hosts d) e then 0 else Suc (absences e history)) = absences e (Inr d # history)" for e
    by (simp add: s(2))
  have "wp (check J (logged R) (\<lambda>h. on_world (ready h)) d)
      (\<lambda>_ u. desk_ok J ?sound (owned_in initial) u \<and> last_generation u = Some (dv_generation d)
      \<and> (\<forall>e. unat (misses_of e u) \<le> absences e (Inr d # history))) (desk_ok J ?sound (owned_in initial)) s"
    using discovery_well_formed [OF assms(2)] s(2,3)
    by (intro checked [unfolded spec]) (simp_all add: well_formed_host_def)
  then show ?thesis
    by (rule wp_mono) (simp_all add: in_step_def desk_ok_def del: absences.simps)
qed

lemma round_in_step:
  fixes s :: "('h \<times> registry_call list) desk"
  assumes "in_step J initial s history" "worker_round J (logged R) (\<lambda>h. on_world (ready h)) (discovery_hosts J f uid t) s = (outcome, u)"
  shows "in_step J initial u (outcome # history)"
proof (cases "discovery_hosts J f uid t")
  case (Inl e)
  then have "outcome = Inl e" "u = reset_absences s" using assms(2) by (simp_all add: worker_round_def)
  then show ?thesis using assms(1) by (simp add: in_step_def reset_absences_def misses_of_def desk_ok_def btree_ok_def)
next
  case (Inr d)
  obtain r v where c: "check J (logged R) (\<lambda>h. on_world (ready h)) d s = (r, v)" by fastforce
  show ?thesis
  proof (cases r)
    case (Inl e)
    then have "last_generation v = last_seen history" "desk_ok J (\<lambda>_. True) (owned_in initial) v"
      using failed_check_generation c wp_Inl [OF check_in_step [OF assms(1) Inr]] assms(1) by (fastforce simp: in_step_def)+
    then show ?thesis
      using assms(2) c Inr Inl by (auto simp: worker_round_def in_step_def reset_absences_def misses_of_def desk_ok_def btree_ok_def)
  next
    case ok: (Inr x)
    then show ?thesis using assms(2) c Inr wp_Inr [OF check_in_step [OF assms(1) Inr]] by (auto simp: worker_round_def)
  qed
qed

lemma rounds_in_step:
  fixes s :: "('h \<times> registry_call list) desk"
  shows "in_step J initial s history \<Longrightarrow>
   worker_rounds J (logged R) (\<lambda>h. on_world (ready h)) (map (\<lambda>(f, t). discovery_hosts J f uid t) snapshots) s history = (u, history') \<Longrightarrow>
   in_step J initial u history'"
proof (induction snapshots arbitrary: s history)
  case (Cons x snapshots)
  obtain f t where x: "x = (f, t)" by (cases x)
  obtain outcome v where v: "worker_round J (logged R) (\<lambda>h. on_world (ready h)) (discovery_hosts J f uid t) s = (outcome, v)" by fastforce
  show ?case using Cons.IH [OF round_in_step [OF Cons.prems(1) v]] Cons.prems(2) v by (simp add: x)
qed simp

subsection \<open>A run with a machine that comes and goes\<close>

definition enc_bytes :: "bytes \<Rightarrow> bytes" where
  "enc_bytes s = concat (map (\<lambda>b. [1, b]) s) @ [0]"

fun dec_bytes :: "bytes \<Rightarrow> (bytes \<times> bytes) option" where
  "dec_bytes [] = None"
| "dec_bytes (x # r) = (if x = 0 then Some ([], r)
     else case r of [] \<Rightarrow> None | b # q \<Rightarrow> map_option (\<lambda>(s, z). (b # s, z)) (dec_bytes q))"

definition enc_pair :: "bytes \<times> bytes \<Rightarrow> bytes" where
  "enc_pair kv = enc_bytes (fst kv) @ enc_bytes (snd kv)"

definition dec_pair :: "bytes \<Rightarrow> ((bytes \<times> bytes) \<times> bytes) option" where
  "dec_pair s = Option.bind (dec_bytes s) (\<lambda>(k, r). map_option (\<lambda>(v, z). ((k, v), z)) (dec_bytes r))"

definition enc_list :: "('a \<Rightarrow> bytes) \<Rightarrow> 'a list \<Rightarrow> bytes" where
  "enc_list f xs = concat (map (\<lambda>x. 1 # f x) xs) @ [0]"

fun dec_list :: "(bytes \<Rightarrow> ('a \<times> bytes) option) \<Rightarrow> nat \<Rightarrow> bytes \<Rightarrow> ('a list \<times> bytes) option" where
  "dec_list d 0 s = None"
| "dec_list d (Suc n) s = (case s of [] \<Rightarrow> None | x # r \<Rightarrow> if x = 0 then Some ([], r)
     else Option.bind (d r) (\<lambda>(a, q). map_option (\<lambda>(as, z). (a # as, z)) (dec_list d n q)))"

definition enc_state :: "State \<Rightarrow> bytes" where
  "enc_state st = enc_list enc_bytes (map fst (seen st)) @ enc_list enc_pair (pending st) @ enc_list enc_pair (managed st)"

definition dec_state :: "bytes \<Rightarrow> State option" where
  "dec_state s = Option.bind (dec_list dec_bytes (length s) s) (\<lambda>(ss, q).
     Option.bind (dec_list dec_pair (length q) q) (\<lambda>(ps, r).
     map_option (\<lambda>(ms, _). \<lparr>seen = map (\<lambda>k. (k, ())) ss, pending = ps, managed = ms\<rparr>) (dec_list dec_pair (length r) r)))"

definition sample_endpoint :: bytes where
  "sample_endpoint = replicate 64 97"

definition sample_host :: Host where
  "sample_host = \<lparr>hs_host = ascii ''office'', hs_endpoint_id = sample_endpoint, hs_ssh_target = attached_alias sample_endpoint\<rparr>"

definition sample_report :: "u8 \<Rightarrow> json" where
  "sample_report n = JObject [(ascii ''version'', JNumber 1), (ascii ''generation'', JString [n] False), (ascii ''checked_at'', JNumber 0),
     (ascii ''complete'', JBool True), (ascii ''hosts'', JArray (if n = 1 then
       [JObject [(ascii ''host'', JString (hs_host sample_host) False), (ascii ''endpoint_id'', JString (hs_endpoint_id sample_host) False),
         (ascii ''ssh_target'', JString (hs_ssh_target sample_host) False)]] else []))]"

definition sample_states :: json_lib where
  "sample_states = \<lparr>
     json_from_slice = (\<lambda>s. case s of [] \<Rightarrow> None | n # r \<Rightarrow> if n = 0 then map_option state_json (dec_state r) else Some (sample_report n)),
     json_to_vec = (\<lambda>j. case state_read j of None \<Rightarrow> [] | Some st \<Rightarrow> 0 # enc_state st)\<rparr>"

definition sample_registry :: "Machine list registry_ops" where
  "sample_registry = \<lparr>rg_machines = (\<lambda>w. (Inr w, w)), rg_add = (\<lambda>t l w. (Inr [7], w @ [\<lparr>mc_id = [7], mc_target = t\<rparr>])),
     rg_remove = (\<lambda>p w. (Inr (), filter (\<lambda>m. mc_id m \<noteq> p) w)), rg_notify = (\<lambda>l w. (Inr True, w))\<rparr>"

definition sample_file :: "u8 \<Rightarrow> failure + state_file" where
  "sample_file n = Inr \<lparr>f_kind = Regular, f_owner = 0, f_mode = 0x180, f_links = 1, f_data = [n]\<rparr>"

definition sample_ready :: "Host \<Rightarrow> (Machine list, bool) io" where
  "sample_ready h w = (Inr True, w)"

definition sample_rounds :: "(Machine list \<times> registry_call list) desk \<times> (failure + Discovery) list" where
  "sample_rounds = worker_rounds sample_states (logged sample_registry) (\<lambda>h. on_world (sample_ready h))
     (map (\<lambda>(f, t). discovery_hosts sample_states f 0 t) [(sample_file 1, 0), (sample_file 2, 0), (sample_file 3, 0)])
     (new_reconciler None [] [0] ([], [])) []"

definition sample_discovery :: "u8 \<Rightarrow> Discovery" where
  "sample_discovery n = \<lparr>dv_version = 1, dv_generation = [n], dv_checked_at = 0, dv_complete = True,
     dv_hosts = (if n = 1 then [sample_host] else [])\<rparr>"

definition sample_check :: "(failure + unit) \<times> (Machine list \<times> registry_call list) desk" where
  "sample_check = check sample_states (logged sample_registry) (\<lambda>h. on_world (sample_ready h)) (sample_discovery 4) (fst sample_rounds)"

definition sample_state :: State where
  "sample_state = \<lparr>seen = [(sample_endpoint, ())], pending = [], managed = [(sample_endpoint, [7])]\<rparr>"

definition sample_desk :: "(bytes \<times> u32) list \<Rightarrow> (bytes \<times> nat \<times> u32) list \<Rightarrow> u8 \<Rightarrow> (Machine list \<times> registry_call list) desk" where
  "sample_desk counts retries n = \<lparr>stored = Some (json_to_vec sample_states (state_json sample_state)), save_turns = [], moments = [],
     retry = retries, missing = counts, last_generation = Some [n],
     outside = ([\<lparr>mc_id = [7], mc_target = attached_alias sample_endpoint\<rparr>], [Added (attached_alias sample_endpoint) [7]])\<rparr>"

lemma dec_bytes_enc [simp]: "dec_bytes (enc_bytes s @ r) = Some (s, r)"
  by (induction s) (simp_all add: enc_bytes_def)

lemma dec_pair_enc [simp]: "dec_pair (enc_pair kv @ r) = Some (kv, r)"
  by (simp add: dec_pair_def enc_pair_def)

lemma dec_list_enc:
  "(\<And>x r. d (f x @ r) = Some (x, r)) \<Longrightarrow> length xs < n \<Longrightarrow> dec_list d n (enc_list f xs @ r) = Some (xs, r)"
proof (induction xs arbitrary: n)
  case Nil
  then show ?case by (cases n) (simp_all add: enc_list_def)
next
  case (Cons x xs)
  then show ?case by (cases n) (simp_all add: enc_list_def)
qed

lemma length_enc_list: "length xs < length (enc_list f xs @ r)"
  by (induction xs) (simp_all add: enc_list_def)

lemma dec_state_enc: "dec_state (enc_state st) = Some st"
proof -
  have *: "dec_list d (length (enc_list f xs @ r)) (enc_list f xs @ r) = Some (xs, r)" if "\<And>x r. d (f x @ r) = Some (x, r)" for d f xs r
    using that by (rule dec_list_enc) (rule length_enc_list)
  have "map (\<lambda>k. (k, ())) (map fst m) = m" for m :: "(bytes \<times> unit) list" by (induction m) auto
  then show ?thesis
    using * [of dec_bytes enc_bytes] * [of dec_pair enc_pair] * [of dec_pair enc_pair _ "[]"]
    by (simp add: dec_state_def enc_state_def del: map_map length_append)
qed

lemma sample_states_back: "writes_back sample_states"
  by (simp add: writes_back_def sample_states_def state_roundtrip dec_state_enc)

lemmas sample_report_evals = discovery_hosts_def sample_file_def limit_defs sample_states_def parse_discovery_def sample_report_def
  discovery_read_def lenient_struct_def ascii_def json_uint_def json_string_owned_def json_bool_def vec_read_def validate_hosts_def
  sample_discovery_def ok_or_def

lemma sample_reports: "n \<noteq> 1 \<Longrightarrow> n \<noteq> 0 \<Longrightarrow> n < 128 \<Longrightarrow> discovery_hosts sample_states (sample_file n) 0 0 = Inr (sample_discovery n)"
  by (simp add: sample_report_evals)

lemma sample_first_snapshot: "discovery_hosts sample_states (sample_file 1) 0 0 = Inr (sample_discovery 1)"
  by (simp add: sample_report_evals sample_host_def host_read_def
   valid_host_def is_endpoint_def sample_endpoint_def is_ascii_alphanumeric_def is_ascii_lowercase_def list_all_iff)

lemma load_quiet:
  "save_turns s = [] \<Longrightarrow> stored s = None \<Longrightarrow> state_load J s = (Inr default_state, s)"
  "writes_back J \<Longrightarrow> wf_state st \<Longrightarrow> save_turns s = [] \<Longrightarrow> stored s = Some (json_to_vec J (state_json st)) \<Longrightarrow> state_load J s = (Inr st, s)"
  by (simp_all add: state_load_def next_turn_def bind_io_def ensure_io_def get_io_def return_io_def of_result_def ok_or_def writes_back_def
    state_roundtrip)

lemma save_quiet: "save_turns s = [] \<Longrightarrow> state_save J st s = (Inr (), s\<lparr>stored := Some (json_to_vec J (state_json st))\<rparr>)"
  by (simp add: state_save_def next_turn_def bind_io_def ensure_io_def set_desk_def)

lemma sample_state_wf: "wf_state sample_state"
  by (simp add: sample_state_def wf_state_def btree_ok_def)

lemma sample_load:
  "save_turns s = [] \<Longrightarrow> stored s = Some (json_to_vec sample_states (state_json sample_state)) \<Longrightarrow> state_load sample_states s = (Inr sample_state, s)"
  by (rule load_quiet(2) [OF sample_states_back sample_state_wf])

lemmas sample_check_evals = check_def poll_def prune_def bind_io_def get_io_def set_desk_def return_io_def try_io_def outside_call_def
  on_world_def logged_def sample_registry_def sample_ready_def enrol_def set_retry_def cooling_def moment_now_def save_quiet
  registered_as_def offered_def misses_of_def btree_remove_def saturating_succ_def sample_discovery_def Let_def

lemma sample_first_check:
  "check sample_states (logged sample_registry) (\<lambda>h. on_world (sample_ready h)) (sample_discovery 1) (new_reconciler None [] [0] ([], []))
   = (Inr (), sample_desk [] [(sample_endpoint, 30000000000, 0)] 1)"
  by (simp add: sample_check_evals new_reconciler_def load_quiet(1) default_state_def sample_host_def already_known_def label_count_def
     display_label_def adopt_def sample_desk_def limit_defs sample_load [unfolded sample_state_def] sample_state_def)

lemma sample_later_check:
  "n \<noteq> 1 \<Longrightarrow> n \<noteq> m \<Longrightarrow> check sample_states (logged sample_registry) (\<lambda>h. on_world (sample_ready h)) (sample_discovery n) (sample_desk [] r m)
   = (Inr (), sample_desk [(sample_endpoint, 1)] [] n)"
  "n \<noteq> 1 \<Longrightarrow> n \<noteq> m \<Longrightarrow> check sample_states (logged sample_registry) (\<lambda>h. on_world (sample_ready h)) (sample_discovery n) (sample_desk [(sample_endpoint, 1)] r m)
   = (Inr (), sample_desk [(sample_endpoint, 2)] [] n)"
  "n \<noteq> 1 \<Longrightarrow> n \<noteq> m \<Longrightarrow> snd (outside (snd (check sample_states (logged sample_registry) (\<lambda>h. on_world (sample_ready h)) (sample_discovery n) (sample_desk [(sample_endpoint, 2)] r m))))
   = [Added (attached_alias sample_endpoint) [7], Removed [7]]"
  by (simp_all add: sample_check_evals sample_desk_def sample_load [unfolded sample_state_def] sample_state_def forget_def disown_def)

text \<open>C8: the plugin unregisters only machines that it registered itself, and only after three complete snapshots of
  different generations in a row, with no failed round between them, lacked the machine. For every registry,
  every sequence of snapshots read by the worker from a stored state, and every failing save or call, a profile
  that the next check asks the registry to remove was returned by an earlier successful registration of an
  endpoint, or stands in the stored state the worker started with, and that endpoint has now been absent three times.\<close>

theorem only_lost_own_machines_removed:
  fixes R :: "'h registry_ops"
  assumes "writes_back J"
    and "worker_rounds J (logged R) (\<lambda>h. on_world (ready h)) (map (\<lambda>(f, t). discovery_hosts J f uid t) snapshots)
      (new_reconciler data turns clocks (w, [])) [] = (s, history)"
    and "discovery_hosts J f uid t = Inr d" "check J (logged R) (\<lambda>h. on_world (ready h)) d s = (r, s')"
    and "Removed p \<in> set (drop (length (snd (outside s))) (snd (outside s')))"
  shows "\<exists>e. 3 \<le> absences e (Inr d # history) \<and> (Added (attached_alias e) p \<in> set (snd (outside s'))
    \<or> (\<exists>st. state_of_file J data = Some st \<and> map_of (managed st) e = Some p))"
proof -
  let ?initial = "case state_of_file J data of None \<Rightarrow> [] | Some st \<Rightarrow> managed st"
  have "in_step J ?initial (new_reconciler data turns clocks (w, [])) []"
    using assms(1) by (auto simp: in_step_def new_reconciler_def desk_ok_def btree_ok_def misses_of_def all_owned_def owned_in_def)
  then have "in_step J ?initial s history" using assms(2) by (rule rounds_in_step)
  then have "removals_ok ?initial (\<lambda>e. 3 \<le> absences e (Inr d # history)) (snd (outside s)) (outside s')"
    using assms(4) check_in_step [OF _ assms(3), of ?initial s history R ready] by (cases r) (simp_all add: wp_def del: absences.simps)
  then obtain e where e: "3 \<le> absences e (Inr d # history)" "owned_in ?initial e p (outside s')"
    using assms(5) by (auto simp: removals_ok_def)
  have "map_of (managed st) e = Some p" if "state_of_file J data = Some st" "(e, p) \<in> set (managed st)" for st
    using that by (auto simp: state_of_file_def default_state_def bind_eq_Some_conv wf_state_def btree_entries dest!: state_read_wf split: option.splits)
  moreover have "Added (attached_alias e) p \<in> set (snd (outside s')) \<or> (\<exists>st. state_of_file J data = Some st \<and> (e, p) \<in> set (managed st))"
    using e(2) by (auto simp: owned_in_def split: option.splits)
  ultimately show ?thesis using e(1) by blast
qed


theorem only_lost_own_machines_removed_witness:
  "Removed [7] \<in> set (drop (length (snd (outside (fst sample_rounds)))) (snd (outside (snd sample_check)))) \<and>
   (\<exists>e. 3 \<le> absences e (Inr (sample_discovery 4) # snd sample_rounds) \<and> (Added (attached_alias e) [7] \<in> set (snd (outside (snd sample_check)))
     \<or> (\<exists>st. state_of_file sample_states None = Some st \<and> map_of (managed st) e = Some [7])))"
proof -
  have rounds: "fst sample_rounds = sample_desk [(sample_endpoint, 2)] [] 3"
    by (simp add: sample_rounds_def worker_round_def sample_reports sample_first_snapshot sample_first_check sample_later_check)
  have removed: "Removed [7] \<in> set (drop (length (snd (outside (fst sample_rounds)))) (snd (outside (snd sample_check))))"
    by (simp add: sample_check_def rounds sample_later_check) (simp add: sample_desk_def)
  have run: "worker_rounds sample_states (logged sample_registry) (\<lambda>h. on_world (sample_ready h))
     (map (\<lambda>(f, t). discovery_hosts sample_states f 0 t) [(sample_file 1, 0), (sample_file 2, 0), (sample_file 3, 0)])
     (new_reconciler None [] [0] ([], [])) [] = (fst sample_rounds, snd sample_rounds)"
    by (simp add: sample_rounds_def)
  have c: "check sample_states (logged sample_registry) (\<lambda>h. on_world (sample_ready h)) (sample_discovery 4) (fst sample_rounds)
      = (fst sample_check, snd sample_check)" by (simp add: sample_check_def)
  have d: "discovery_hosts sample_states (sample_file 4) 0 0 = Inr (sample_discovery 4)" by (simp add: sample_reports)
  show ?thesis using removed only_lost_own_machines_removed [OF sample_states_back run d c removed] by simp
qed

end
