(* ===== verification/Herdr_Core.thy ===== *)
theory Herdr_Core
  imports Herdr_Discovery
begin

text \<open>
  \<open>herdr-plugin/src/core.rs\<close> and the registration message of \<open>herdr-plugin/src/herdr.rs\<close>: the registry of the
  desktop program, kept by its command \<open>hc\<close>. Running \<open>hc\<close> with its arguments is the parameter \<open>run\<close> on the state
  \<open>'h\<close>; its bounded, successful output is a text. Labels come from validated machines, so that their characters are bytes.
\<close>

record SavedMachine =
  sm_id :: bytes
  sm_name :: bytes
  sm_target :: bytes
  sm_via :: bool
  sm_temporary :: bool
  sm_session :: "bytes option"

record 'h core =
  notices :: "bytes list"
  core_error :: "bytes option"
  hc_world :: 'h

type_synonym 'h hc = "bytes list \<Rightarrow> ('h, bytes) io"

definition saved_fields :: "bytes list" where
  "saved_fields = [ascii ''id'', ascii ''name'', ascii ''target'', ascii ''via'', ascii ''temporary'', ascii ''session'']"

definition saved_json :: "SavedMachine \<Rightarrow> json" where
  "saved_json m = JObject (zip saved_fields [json_text (sm_id m), json_text (sm_name m), json_text (sm_target m), JBool (sm_via m),
     JBool (sm_temporary m), case sm_session m of None \<Rightarrow> JNull | Some v \<Rightarrow> json_text v])"

definition session_read :: "json \<Rightarrow> bytes option option" where
  "session_read j = (case j of JNull \<Rightarrow> Some None | _ \<Rightarrow> map_option Some (json_string_owned j))"

definition or_default :: "(json \<Rightarrow> 'a option) \<Rightarrow> 'a \<Rightarrow> json option \<Rightarrow> 'a option" where
  "or_default rd d v = (case v of None \<Rightarrow> Some d | Some j \<Rightarrow> rd j)"

definition saved_read :: "json \<Rightarrow> SavedMachine option" where
  "saved_read j = Option.bind (known_fields saved_fields j) (\<lambda>vs.
     Option.bind (Option.bind (vs ! 0) json_string_owned) (\<lambda>i.
     Option.bind (Option.bind (vs ! 1) json_string_owned) (\<lambda>name.
     Option.bind (Option.bind (vs ! 2) json_string_owned) (\<lambda>target.
     Option.bind (or_default json_bool False (vs ! 3)) (\<lambda>via.
     Option.bind (or_default json_bool False (vs ! 4)) (\<lambda>temporary.
     Option.bind (or_default session_read None (vs ! 5)) (\<lambda>session.
       Some \<lparr>sm_id = i, sm_name = name, sm_target = target, sm_via = via, sm_temporary = temporary, sm_session = session\<rparr>)))))))"

definition ownership :: "json_lib \<Rightarrow> SavedMachine \<Rightarrow> bytes" where
  "ownership J m = json_to_vec J (saved_json m)"

definition machine_name :: "bytes \<Rightarrow> bytes \<Rightarrow> bytes" where
  "machine_name label endpoint =
     (let host = takeWhile (\<lambda>c. c \<noteq> 32) label in
      map (\<lambda>c. if is_ascii_alphanumeric c \<or> c = 45 \<or> c = 95 \<or> c = 46 then to_ascii_lowercase c else 45) (take 14 host)
      @ [45] @ take 8 endpoint)"

definition hc_call :: "('h, 'a) io \<Rightarrow> ('h core, 'a) io" where
  "hc_call m s = (case m (hc_world s) of (r, w) \<Rightarrow> (r, s\<lparr>hc_world := w\<rparr>))"

definition core_saved :: "json_lib \<Rightarrow> 'h hc \<Rightarrow> ('h core, SavedMachine list) io" where
  "core_saved J run =
     bind_io (hc_call (run [ascii ''machine'', ascii ''ls'', ascii ''--json''])) (\<lambda>output.
       of_result (ok_or (Option.bind (json_from_slice J output) (\<lambda>j.
         Option.bind (lenient_struct [ascii ''machines''] j) (\<lambda>vs. vec_read saved_read (vs ! 0)))) InvalidCatalog))"

definition expected_registration :: "bytes \<Rightarrow> bytes \<Rightarrow> SavedMachine \<Rightarrow> bool" where
  "expected_registration name target m \<longleftrightarrow> sm_name m = name \<and> sm_target m = target \<and> sm_id m \<noteq> [] \<and> \<not> sm_via m
     \<and> \<not> sm_temporary m \<and> sm_session m = None"

definition core_enroll :: "json_lib \<Rightarrow> 'h hc \<Rightarrow> bool \<Rightarrow> bytes \<Rightarrow> bytes \<Rightarrow> ('h core, bytes) io" where
  "core_enroll J run install target label =
     bind_io (of_result (ok_or (strip_prefix (ascii ''attached-'') target) InvalidDescriptor)) (\<lambda>endpoint.
     bind_io (ensure_io (is_endpoint endpoint) InvalidDescriptor) (\<lambda>_.
     let name = machine_name label endpoint in
     bind_io (core_saved J run) (\<lambda>machines.
     bind_io (ensure_io (\<not> list_ex (\<lambda>m. lowercase (sm_name m) = lowercase name \<or> lowercase (sm_target m) = lowercase target) machines)
         CatalogConflict) (\<lambda>_.
     bind_io (hc_call (run ([ascii ''machine'', ascii ''add'', target, ascii ''--name'', name, ascii ''--json'']
         @ (if install then [ascii ''--install''] else [])))) (\<lambda>output.
     bind_io (of_result (ok_or (Option.bind (json_from_slice J output) saved_read) InvalidCatalog)) (\<lambda>saved.
     bind_io (ensure_io (expected_registration name target saved) CatalogConflict) (\<lambda>_.
       return_io (ownership J saved))))))))"

text \<open>The text of an error is the parameter \<open>message\<close>.\<close>

definition noting_error :: "(failure \<Rightarrow> bytes) \<Rightarrow> bytes \<Rightarrow> ('h core, 'a) io \<Rightarrow> ('h core, 'a) io" where
  "noting_error message label m s = (case m s of
     (Inl e, t) \<Rightarrow> (Inl e, t\<lparr>core_error := Some (label @ ascii '': '' @ message e)\<rparr>)
   | (Inr a, t) \<Rightarrow> (Inr a, t))"

definition core_add :: "json_lib \<Rightarrow> (failure \<Rightarrow> bytes) \<Rightarrow> 'h hc \<Rightarrow> bool \<Rightarrow> bytes \<Rightarrow> bytes \<Rightarrow> ('h core, bytes) io" where
  "core_add J message run install target label = noting_error message label (core_enroll J run install target label)"

definition core_machines :: "json_lib \<Rightarrow> 'h hc \<Rightarrow> ('h core, Machine list) io" where
  "core_machines J run = bind_io (core_saved J run) (\<lambda>machines.
     return_io (map (\<lambda>m. \<lparr>mc_id = ownership J m, mc_target = sm_target m\<rparr>) machines))"

definition core_remove :: "json_lib \<Rightarrow> (failure \<Rightarrow> bytes) \<Rightarrow> 'h hc \<Rightarrow> bytes \<Rightarrow> ('h core, unit) io" where
  "core_remove J message run profile =
     bind_io (of_result (ok_or (Option.bind (json_from_slice J profile) saved_read) InvalidCatalog)) (\<lambda>owned.
     bind_io (core_saved J run) (\<lambda>machines.
     bind_io (ensure_io (owned \<in> set machines) CatalogConflict) (\<lambda>_.
     bind_io (noting_error message (sm_name owned) (hc_call (run [ascii ''machine'', ascii ''rm'', sm_name owned, ascii ''--json'']))) (\<lambda>_.
       return_io ()))))"

definition core_notify :: "bytes \<Rightarrow> ('h core, bool) io" where
  "core_notify label s = (Inr True, s\<lparr>notices := notices s @ [label]\<rparr>)"

definition core_registry :: "json_lib \<Rightarrow> (failure \<Rightarrow> bytes) \<Rightarrow> 'h hc \<Rightarrow> bool \<Rightarrow> 'h core registry_ops" where
  "core_registry J message run install = \<lparr>rg_machines = core_machines J run, rg_add = core_add J message run install,
     rg_remove = core_remove J message run, rg_notify = core_notify\<rparr>"

text \<open>\<open>added_profile\<close> of \<open>herdr.rs\<close>: the identifier in the message of a registration.\<close>

definition strip_suffix :: "bytes \<Rightarrow> bytes \<Rightarrow> bytes option" where
  "strip_suffix p s = map_option rev (strip_prefix (rev p) (rev s))"

definition added_profile :: "bytes \<Rightarrow> failure + bytes" where
  "added_profile output =
     (let ids = filter (\<lambda>i. length i = 32 \<and> list_all (\<lambda>b. is_ascii_digit b \<or> 97 \<le> b \<and> b \<le> 102) i)
        (List.map_filter (strip_suffix (ascii ''. Remote server is ready.''))
          (List.map_filter (strip_prefix (ascii ''Saved SSH machine '')) (text_lines output))) in
      bind_result (ensure (length ids = 1) InvalidCatalog) (\<lambda>_. Inr (hd ids)))"

section \<open>Registrations and removals\<close>

lemma saved_roundtrip: "saved_read (saved_json m) = Some m"
proof -
  have "distinct saved_fields" by (simp add: saved_fields_def ascii_def)
  then have "known_fields saved_fields (saved_json m) = Some (map Some [json_text (sm_id m), json_text (sm_name m), json_text (sm_target m),
      JBool (sm_via m), JBool (sm_temporary m), case sm_session m of None \<Rightarrow> JNull | Some v \<Rightarrow> json_text v])"
    by (simp add: known_fields_def saved_json_def saved_fields_def ascii_def)
  then show ?thesis
    by (cases m) (simp add: saved_read_def or_default_def json_bool_def session_read_def json_text_def json_string_owned_def split: option.split)
qed

text \<open>The name of a registration is short and in the alphabet of machine names, and keeps a suffix of the endpoint.\<close>

theorem machine_name_safe:
  assumes "is_endpoint endpoint"
  shows "length (machine_name label endpoint) \<le> 23 \<and> (\<exists>host. machine_name label endpoint = host @ [45] @ take 8 endpoint)
    \<and> list_all (\<lambda>b. is_ascii_digit b \<or> is_ascii_lowercase b \<or> b = 45 \<or> b = 95 \<or> b = 46) (machine_name label endpoint)"
proof -
  have hex: "is_ascii_digit b \<or> is_ascii_lowercase b" if "b \<in> set (take 8 endpoint)" for b
    using assms in_set_takeD [OF that] by (auto simp: is_endpoint_def list_all_iff is_ascii_lowercase_def intro: order_trans)
  have lower: "is_ascii_digit (to_ascii_lowercase b) \<or> is_ascii_lowercase (to_ascii_lowercase b)" if "is_ascii_alphanumeric b" for b
  proof (cases "is_ascii_uppercase b")
    case True
    then have "unat (b + 32) = unat b + 32" by (simp add: is_ascii_uppercase_def word_le_nat_alt unat_word_ariths)
    then show ?thesis
      using True by (simp add: to_ascii_lowercase_def is_ascii_uppercase_def is_ascii_lowercase_def word_le_nat_alt)
  qed (use that in \<open>auto simp: to_ascii_lowercase_def is_ascii_alphanumeric_def\<close>)
  have other: "to_ascii_lowercase 45 = 45" "to_ascii_lowercase 95 = 95" "to_ascii_lowercase 46 = 46"
    by (simp_all add: to_ascii_lowercase_def is_ascii_uppercase_def)
  show ?thesis
    using hex lower other by (auto simp: machine_name_def Let_def list_all_iff)
qed

text \<open>A registration is made only under a name and a target that no saved machine has, and its ownership text is that
  of exactly the machine that \<open>hc\<close> reported.\<close>

theorem enroll_registers_unused:
  assumes "core_enroll J run install target label s = (Inr profile, t)"
  shows "\<exists>endpoint machines saved u. is_endpoint endpoint \<and> target = attached_alias endpoint \<and> core_saved J run s = (Inr machines, u)
    \<and> (\<forall>m\<in>set machines. lowercase (sm_name m) \<noteq> lowercase (machine_name label endpoint) \<and> lowercase (sm_target m) \<noteq> lowercase target)
    \<and> expected_registration (machine_name label endpoint) target saved \<and> profile = ownership J saved"
  using assms by (auto simp: core_enroll_def io_Inr Let_def ok_or_def attached_alias_def list_ex_iff split: option.splits)

text \<open>Removing runs \<open>hc machine rm\<close> only when the owned registration is still saved exactly as it was made.\<close>

theorem remove_needs_registration:
  assumes "json_from_slice J (ownership J m) = Some (saved_json m)" "core_saved J run s = (Inr machines, u)" "m \<notin> set machines"
  shows "core_remove J message run (ownership J m) s = (Inl CatalogConflict, u)"
  using assms by (simp add: core_remove_def saved_roundtrip ok_or_def bind_io_def of_result_def ensure_io_def)

end
