(* ===== verification/Managed_Config.thy ===== *)
theory Managed_Config
  imports Herdr_Source
begin

text \<open>
  \<open>cli/src/ssh/configuration.rs\<close> with the listing of \<open>cli/src/host_picker.rs\<close> it writes: the reversible entry in the
  user's OpenSSH configuration. The private directory \<open>~/.ssh/attached\<close> is the directory of \<open>Secure_State\<close>. The
  user's own files are a map from canonical paths to files with their identity, and where \<open>~/.ssh/config\<close> leads
  to; an editor may change both while a replacement is being prepared (\<open>editors\<close>, one per replacement). Finding
  \<open>~/.ssh\<close> is an argument, and a temporary file is no part of the user's files until it is renamed.
\<close>

record config_file =
  cf_kind :: file_kind
  cf_owner :: nat
  cf_mode :: nat
  cf_links :: nat
  cf_ident :: "nat \<times> nat"
  cf_data :: bytes

datatype config_source = Absent | Resolves bytes | Dangling

record user_config =
  uc_source :: config_source
  uc_files :: "bytes \<rightharpoonup> config_file"

record home = disk +
  user_config :: user_config
  editors :: "(user_config \<Rightarrow> user_config) list"
  idents :: "(nat \<times> nat) list"
  epoch_nanos :: "nat list"
  broker_locked :: bool

record ConfigFile =
  cg_bytes :: bytes
  cg_metadata :: "config_file option"

record ManagedConfig =
  mg_source :: bytes
  mg_target :: bytes
  mg_block :: bytes

definition BEGIN_MARK :: bytes where "BEGIN_MARK = ascii ''# BEGIN Attached managed SSH configuration'' @ [10]"
definition END_MARK :: bytes where "END_MARK = ascii ''# END Attached managed SSH configuration'' @ [10]"
definition CONFIG_HEADER :: bytes where "CONFIG_HEADER = ascii ''# Generated by attached export-ssh-config. Do not edit.'' @ [10]"
definition CONFIG_FALLBACK :: bytes where
  "CONFIG_FALLBACK = ascii ''Host attached-*'' @ [10] @ ascii ''    ProxyCommand false'' @ [10] @ ascii ''    CanonicalizeHostname no'' @ [10]
     @ ascii ''Host *'' @ [10]"
definition MAX_CONFIG_BYTES :: nat where [limit_defs]: "MAX_CONFIG_BYTES = 1024 * 1024"

text \<open>A control character of UTF-8 text: below 32, 127, or two bytes from \<open>C2 80\<close> to \<open>C2 9F\<close>.\<close>

fun has_control :: "bytes \<Rightarrow> bool" where
  "has_control [] = False"
| "has_control (b # r) = (b < 32 \<or> b = 127 \<or> b = 0xC2 \<and> r \<noteq> [] \<and> hd r \<le> 0x9F \<or> has_control r)"

definition config_path :: "bytes \<Rightarrow> failure + bytes" where
  "config_path path =
     bind_result (ensure (utf8_valid path) InvalidName) (\<lambda>_.
     bind_result (ensure (\<not> has_control path \<and> list_all (\<lambda>c. c \<notin> {34, 37, 36, 96, 92, 42, 63, 91}) path) InvalidName) (\<lambda>_.
       Inr ([34] @ path @ [34])))"

definition managed_block :: "bytes \<Rightarrow> failure + bytes" where
  "managed_block config = bind_result (config_path config) (\<lambda>quoted.
     Inr (BEGIN_MARK @ ascii ''Include '' @ quoted @ [10] @ ascii ''Host *'' @ [10] @ END_MARK))"

definition without_block :: "bytes \<Rightarrow> bytes \<Rightarrow> failure + bytes" where
  "without_block bytes block =
     (let remainder = (case strip_prefix block bytes of None \<Rightarrow> bytes | Some r \<Rightarrow> r) in
      bind_result (ensure (\<not> contains_bytes BEGIN_MARK remainder) CatalogConflict) (\<lambda>_.
      bind_result (ensure (\<not> contains_bytes END_MARK remainder) CatalogConflict) (\<lambda>_. Inr remainder)))"

section \<open>The user's files\<close>

definition resolve_config :: "bytes \<Rightarrow> (home, bytes) io" where
  "resolve_config source = syscall (\<lambda>s. case uc_source (user_config s) of
     Absent \<Rightarrow> (Inr source, s) | Resolves p \<Rightarrow> (Inr p, s) | Dangling \<Rightarrow> (Inl NotFound, s))"

definition validate_owner_permissions :: "config_file \<Rightarrow> (home, unit) io" where
  "validate_owner_permissions metadata =
     bind_io (get_io euid) (\<lambda>uid.
     bind_io (ensure_io (cf_owner metadata = uid) UnsafeFile) (\<lambda>_.
       ensure_io (cf_mode metadata div 2 mod 2 = 0 \<and> cf_mode metadata div 16 mod 2 = 0) UnsafeFile))"

definition read_config :: "bytes \<Rightarrow> (home, ConfigFile) io" where
  "read_config path =
     bind_io (syscall (get_io (\<lambda>s. uc_files (user_config s) path))) (\<lambda>opened. case opened of
       None \<Rightarrow> return_io \<lparr>cg_bytes = [], cg_metadata = None\<rparr>
     | Some f \<Rightarrow>
         bind_io (ensure_io (cf_kind f \<noteq> Symlink) Io) (\<lambda>_.
         bind_io (ensure_io (cf_kind f = Regular \<and> cf_links f = 1) UnsafeFile) (\<lambda>_.
         bind_io (validate_owner_permissions f) (\<lambda>_.
         bind_io (ensure_io (length (cf_data f) \<le> MAX_CONFIG_BYTES) StateTooLarge) (\<lambda>_.
         let bytes = take (MAX_CONFIG_BYTES + 1) (cf_data f) in
         bind_io (ensure_io (length bytes \<le> MAX_CONFIG_BYTES) StateTooLarge) (\<lambda>_.
           return_io \<lparr>cg_bytes = bytes, cg_metadata = Some f\<rparr>))))))"

definition editor_turn :: "(home, unit) io" where
  "editor_turn s = (case editors s of [] \<Rightarrow> (Inr (), s)
     | g # r \<Rightarrow> (Inr (), s\<lparr>user_config := g (user_config s), editors := r\<rparr>))"

definition file_identity :: "config_file option \<Rightarrow> ((nat \<times> nat) \<times> nat) option" where
  "file_identity metadata = map_option (\<lambda>m. (cf_ident m, cf_mode m)) metadata"

definition next_ident :: "(home, nat \<times> nat) io" where
  "next_ident s = (case idents s of [] \<Rightarrow> (Inl Io, s) | i # r \<Rightarrow> (Inr i, s\<lparr>idents := r\<rparr>))"

definition persist_config :: "bytes \<Rightarrow> bytes \<Rightarrow> config_file \<Rightarrow> home \<Rightarrow> home" where
  "persist_config source target f s = s\<lparr>user_config := (user_config s)\<lparr>
     uc_files := (uc_files (user_config s))(target \<mapsto> f),
     uc_source := (case uc_source (user_config s) of Absent \<Rightarrow> Resolves source | x \<Rightarrow> x)\<rparr>\<rparr>"

text \<open>\<open>replace_config\<close> up to the temporary file, and its last checks with the rename.\<close>

definition commit_config :: "bytes \<Rightarrow> bytes \<Rightarrow> ConfigFile \<Rightarrow> nat \<times> nat \<Rightarrow> nat \<Rightarrow> bytes \<Rightarrow> (home, unit) io" where
  "commit_config source target previous ident mode bytes =
     bind_io (resolve_config source) (\<lambda>resolved.
     bind_io (ensure_io (resolved = target) CatalogConflict) (\<lambda>_.
     bind_io (read_config target) (\<lambda>latest.
     bind_io (ensure_io (cg_bytes latest = cg_bytes previous
         \<and> file_identity (cg_metadata latest) = file_identity (cg_metadata previous)) CatalogConflict) (\<lambda>_.
     bind_io (get_io euid) (\<lambda>uid.
     let f = \<lparr>cf_kind = Regular, cf_owner = uid, cf_mode = mode, cf_links = 1, cf_ident = ident, cf_data = bytes\<rparr> in
     bind_io (syscall (\<lambda>s.
         if cg_metadata previous = None \<and> uc_files (user_config s) target \<noteq> None then (Inl failure.AlreadyExists, s)
         else (Inr (), persist_config source target f s))) (\<lambda>_.
     bind_io (try_io sync_all) (\<lambda>_. return_io ())))))))"

definition replace_config :: "bytes \<Rightarrow> bytes \<Rightarrow> ConfigFile \<Rightarrow> bytes \<Rightarrow> (home, unit) io" where
  "replace_config source target previous bytes =
     (if cg_bytes previous = bytes then return_io ()
      else
        bind_io (ensure_io (length bytes \<le> MAX_CONFIG_BYTES) StateTooLarge) (\<lambda>_.
        bind_io (ensure_io (has_parent target) InvalidName) (\<lambda>_.
        bind_io (syscall next_ident) (\<lambda>ident.
        let mode = (case cg_metadata previous of None \<Rightarrow> 0x180 | Some m \<Rightarrow> cf_mode m mod 512) in
        bind_io (syscall (return_io ())) (\<lambda>_.
        bind_io (syscall (return_io ())) (\<lambda>_.
        bind_io sync_all (\<lambda>_.
        bind_io editor_turn (\<lambda>_. commit_config source target previous ident mode bytes))))))))"

section \<open>The snapshot for other programs\<close>

definition value_object :: "(bytes \<times> json) list \<Rightarrow> json" where
  "value_object kvs = JObject (btree_collect kvs)"

definition version_text :: "u16 list \<Rightarrow> bytes" where
  "version_text v = dec_text (unat (v ! 0)) @ [46] @ dec_text (unat (v ! 1)) @ [46] @ dec_text (unat (v ! 2))"

text \<open>\<open>render_json\<close>, read back as a value whose objects are sorted by key; the text of a time is a parameter.\<close>

definition host_json :: "(datetime \<Rightarrow> bytes) \<Rightarrow> SyncedHost \<Rightarrow> json" where
  "host_json rfc3339 h = value_object [(ascii ''host'', json_text (sh_host h)), (ascii ''endpoint_id'', json_text (sh_target h)),
     (ascii ''ssh_target'', json_text (attached_alias (sh_target h))), (ascii ''attached_version'', json_text (version_text (sh_attached_version h))),
     (ascii ''published_at'', case sh_published_at h of None \<Rightarrow> JNull | Some t \<Rightarrow> json_text (rfc3339 t))]"

definition discovery_report :: "(datetime \<Rightarrow> bytes) \<Rightarrow> nat \<Rightarrow> SyncedHost list \<Rightarrow> bool \<Rightarrow> json" where
  "discovery_report rfc3339 t hs complete = value_object [(ascii ''version'', JNumber 1),
     (ascii ''generation'', json_text (dec_text t)), (ascii ''checked_at'', JNumber (t div 1000000000)),
     (ascii ''complete'', JBool complete), (ascii ''hosts'', JArray (map (host_json rfc3339) hs))]"

definition next_epoch :: "(home, nat) io" where
  "next_epoch s = (case epoch_nanos s of [] \<Rightarrow> (Inl HostPanic, s) | t # r \<Rightarrow> (Inr t, s\<lparr>epoch_nanos := r\<rparr>))"

definition publish_discovery :: "json_lib \<Rightarrow> (datetime \<Rightarrow> bytes) \<Rightarrow> SyncedHost list \<Rightarrow> bool \<Rightarrow> (home, unit) io" where
  "publish_discovery J rfc3339 hs complete =
     bind_io next_epoch (\<lambda>t. atomic_replace (ascii ''discovery.json'') (json_to_vec J (discovery_report rfc3339 t hs complete)))"

definition publish_hosts :: "bytes \<Rightarrow> (home, unit) io" where
  "publish_hosts hs =
     (let content = CONFIG_HEADER @ hs @ CONFIG_FALLBACK in
      bind_io (ensure_io (length content \<le> MAX_CONFIG_BYTES) StateTooLarge) (\<lambda>_. atomic_replace (ascii ''config'') content))"

section \<open>Installing and removing the entry\<close>

definition cleanup :: "json_lib \<Rightarrow> (datetime \<Rightarrow> bytes) \<Rightarrow> ManagedConfig \<Rightarrow> (home, unit) io" where
  "cleanup J rfc3339 m =
     bind_io (try_io (publish_discovery J rfc3339 [] False)) (\<lambda>discovery.
     bind_io (publish_hosts []) (\<lambda>_.
     bind_io (resolve_config (mg_source m)) (\<lambda>resolved.
     bind_io (ensure_io (resolved = mg_target m) CatalogConflict) (\<lambda>_.
     bind_io (read_config (mg_target m)) (\<lambda>current.
     bind_io (case strip_prefix (mg_block m) (cg_bytes current) of
         Some remainder \<Rightarrow> replace_config (mg_source m) (mg_target m) current remainder
       | None \<Rightarrow> ensure_io (\<not> contains_bytes BEGIN_MARK (cg_bytes current)) CatalogConflict) (\<lambda>_.
       of_result discovery))))))"

definition unlock_broker :: "(home, unit) io" where
  "unlock_broker s = (Inr (), s\<lparr>broker_locked := False\<rparr>)"

definition drop_config :: "json_lib \<Rightarrow> (datetime \<Rightarrow> bytes) \<Rightarrow> ManagedConfig \<Rightarrow> (home, unit) io" where
  "drop_config J rfc3339 m = bind_io (try_io (cleanup J rfc3339 m)) (\<lambda>_. unlock_broker)"

definition try_lock_broker :: "(home, unit) io" where
  "try_lock_broker = syscall (\<lambda>s. if broker_locked s then (Inl failure.AlreadyExists, s) else (Inr (), s\<lparr>broker_locked := True\<rparr>))"

text \<open>Leaving with an error closes and unlocks the lock file.\<close>

definition while_locked :: "(home, 'a) io \<Rightarrow> (home, 'a) io" where
  "while_locked m = bind_io (try_io m) (\<lambda>r. case r of
     Inr a \<Rightarrow> return_io a | Inl e \<Rightarrow> bind_io unlock_broker (\<lambda>_. fail_io e))"

definition path_starts_with :: "bytes \<Rightarrow> bytes \<Rightarrow> bool" where
  "path_starts_with p base \<longleftrightarrow> take (length (path_components base)) (path_components p) = path_components base"

definition prepare_entry :: "bytes \<Rightarrow> (home, ManagedConfig) io" where
  "prepare_entry ssh =
     (let managed = ssh @ ascii ''/attached''; source = ssh @ ascii ''/config'' in
      bind_io (verify_locked_file (ascii ''broker.lock'')) (\<lambda>_.
      bind_io (read_secret_optional_bounded (ascii ''config'') MAX_CONFIG_BYTES) (\<lambda>generated.
      bind_io (ensure_io (case generated of None \<Rightarrow> True | Some bytes \<Rightarrow> strip_prefix CONFIG_HEADER bytes \<noteq> None) CatalogConflict) (\<lambda>_.
      bind_io (resolve_config source) (\<lambda>target.
      bind_io (ensure_io (\<not> path_starts_with target managed) InvalidName) (\<lambda>_.
      bind_io (of_result (managed_block (managed @ ascii ''/config''))) (\<lambda>block.
      bind_io (read_config target) (\<lambda>current.
      bind_io (of_result (without_block (cg_bytes current) block)) (\<lambda>original.
      bind_io (atomic_replace (ascii ''config'') (CONFIG_HEADER @ CONFIG_FALLBACK)) (\<lambda>_.
      bind_io (replace_config source target current (block @ original)) (\<lambda>_.
        return_io \<lparr>mg_source = source, mg_target = target, mg_block = block\<rparr>)))))))))))"

definition install ::
  "json_lib \<Rightarrow> (datetime \<Rightarrow> bytes) \<Rightarrow> failure + bytes \<times> config_file \<Rightarrow> (home, ManagedConfig) io" where
  "install J rfc3339 found =
     bind_io (of_result found) (\<lambda>(ssh, metadata).
     bind_io (ensure_io (cf_kind metadata = Directory) UnsafeDirectory) (\<lambda>_.
     bind_io (validate_owner_permissions metadata) (\<lambda>_.
     bind_io (open_state_directory True False) (\<lambda>_.
     bind_io (open_private_lock_file (ascii ''broker.lock'') True) (\<lambda>lock.
     bind_io (of_result (ok_or lock MissingState)) (\<lambda>_.
     bind_io try_lock_broker (\<lambda>_.
     bind_io (while_locked (prepare_entry ssh)) (\<lambda>m.
     bind_io (try_io (publish_discovery J rfc3339 [] False)) (\<lambda>published. case published of
       Inr _ \<Rightarrow> return_io m
     | Inl e \<Rightarrow> bind_io (drop_config J rfc3339 m) (\<lambda>_. fail_io e))))))))))"

section \<open>What the operations leave of the user's files\<close>

text \<open>The user's files and the coming edits are as in \<open>s\<close>.\<close>

definition undisturbed :: "home \<Rightarrow> home \<Rightarrow> bool" where
  "undisturbed s t \<longleftrightarrow> user_config t = user_config s \<and> editors t = editors s \<and> euid t = euid s"

lemma undisturbed_refl [simp]: "undisturbed s s"
  by (simp add: undisturbed_def)

lemma undisturbed_more: "disk.more t = disk.more s \<Longrightarrow> euid t = euid s \<Longrightarrow> undisturbed u s \<Longrightarrow> undisturbed u t"
  by (cases s; cases t) (auto simp: undisturbed_def)

lemma keeps_undisturbed:
  assumes "\<And>s :: home. triple (at s (dir s)) m (\<lambda>_ t. disk.more t = disk.more s \<and> euid t = euid s) (\<lambda>t. disk.more t = disk.more s \<and> euid t = euid s)"
  shows "keeps (undisturbed u) m"
  unfolding keeps_def
proof (intro allI impI)
  fix s :: home assume "undisturbed u s"
  then show "undisturbed u (snd (m s))"
    by (rule_tac triple_exhaust [OF assms at_self [of s]]) (auto intro: undisturbed_more)
qed

lemma stable_undisturbed [simp]: "stable (undisturbed u)"
  by (simp add: stable_def undisturbed_def)

lemma keeps_undisturbed_files [keeps_rules]:
  "keeps (undisturbed u) (atomic_replace n b)" "keeps (undisturbed u) (read_secret_optional_bounded n limit)"
  by (rule keeps_undisturbed, rule triple_conseq [OF atomic_replace_triple] triple_conseq [OF read_secret_triple]; auto simp: at_def)+

lemma keeps_undisturbed_same_but: "(\<And>s. keeps (same_but l s) m) \<Longrightarrow> keeps (undisturbed u) m"
  unfolding keeps_def
proof (intro allI impI)
  fix s :: home assume m: "\<And>s. \<forall>t. same_but l s t \<longrightarrow> same_but l s (snd (m t))" and u: "undisturbed u s"
  have "same_but l s (snd (m s))" using m by simp
  then show "undisturbed u (snd (m s))" using u by (auto simp: same_but_def intro: undisturbed_more)
qed

lemma keeps_undisturbed_calls [keeps_rules]:
  "keeps (undisturbed u) (syscall (return_io v))" "keeps (undisturbed u) sync_all" "keeps (undisturbed u) (syscall (get_io g))"
  "keeps (undisturbed u) (syscall next_ident)" "keeps (undisturbed u) next_epoch" "keeps (undisturbed u) (resolve_config p)"
  "keeps (undisturbed u) try_lock_broker" "keeps (undisturbed u) unlock_broker"
  unfolding sync_all_def resolve_config_def try_lock_broker_def
  by (auto simp: keeps_def undisturbed_def syscall_def return_io_def get_io_def next_ident_def next_epoch_def unlock_broker_def
      split: list.split option.split config_source.split)

lemma keeps_undisturbed_reading [keeps_rules]: "keeps (undisturbed u) (validate_owner_permissions f)" "keeps (undisturbed u) (read_config p)"
  "keeps (undisturbed u) (publish_discovery J z hs c)" "keeps (undisturbed u) (publish_hosts b)"
proof -
  show v: "keeps (undisturbed u) (validate_owner_permissions f)" for f unfolding validate_owner_permissions_def by (intro keeps_rules)
  show "keeps (undisturbed u) (read_config p)" unfolding read_config_def Let_def by (intro keeps_rules v)
  show "keeps (undisturbed u) (publish_discovery J z hs c)" unfolding publish_discovery_def by (intro keeps_rules)
  show "keeps (undisturbed u) (publish_hosts b)" unfolding publish_hosts_def Let_def by (intro keeps_rules)
qed

lemma keeps_undisturbed_locks [keeps_rules]:
  "keeps (undisturbed u) (open_state_directory c r)" "keeps (undisturbed u) (open_private_lock_file l c)"
  "keeps (undisturbed u) (verify_locked_file l)"
proof -
  show "keeps (undisturbed u) (open_state_directory c r)" by (rule keeps_undisturbed_same_but) (rule keeps_open_directory)
  show "keeps (undisturbed u) (open_private_lock_file l c)"
    by (rule keeps_undisturbed_same_but [of l], unfold open_private_lock_file_def Let_def) (intro keeps_rules)
  show "keeps (undisturbed u) (verify_locked_file l)"
    by (rule keeps_undisturbed_same_but [of l], unfold verify_locked_file_def validate_private_dir_def verify_path_identity_def) (intro keeps_rules)
qed

text \<open>The user's files when a replacement looks at them again.\<close>

definition after_edit :: "home \<Rightarrow> user_config" where
  "after_edit s = (case editors s of [] \<Rightarrow> user_config s | g # _ \<Rightarrow> g (user_config s))"

definition source_leads_to :: "user_config \<Rightarrow> bytes \<Rightarrow> bytes \<Rightarrow> bool" where
  "source_leads_to uc source target \<longleftrightarrow> uc_source uc = Resolves target \<or> uc_source uc = Absent \<and> target = source"

definition config_data :: "user_config \<Rightarrow> bytes \<Rightarrow> bytes" where
  "config_data uc target = (case uc_files uc target of None \<Rightarrow> [] | Some f \<Rightarrow> cf_data f)"

text \<open>\<open>target\<close> holds \<open>bytes\<close> with the permissions it had, and no other file or link changed.\<close>

definition rewritten :: "bytes \<Rightarrow> bytes \<Rightarrow> bytes \<Rightarrow> user_config \<Rightarrow> user_config \<Rightarrow> bool" where
  "rewritten source target bytes uc uc' \<longleftrightarrow>
     uc_source uc' = (case uc_source uc of Absent \<Rightarrow> Resolves source | x \<Rightarrow> x)
     \<and> (\<forall>p. p \<noteq> target \<longrightarrow> uc_files uc' p = uc_files uc p)
     \<and> (\<exists>f. uc_files uc' target = Some f \<and> cf_data f = bytes \<and> cf_kind f = Regular \<and> cf_links f = 1
          \<and> cf_mode f = (case uc_files uc target of None \<Rightarrow> 0x180 | Some g \<Rightarrow> cf_mode g mod 512))"

lemma read_config_wp:
  assumes "\<And>cg t. undisturbed s t \<Longrightarrow> cg_metadata cg = uc_files (user_config s) p \<Longrightarrow> cg_bytes cg = config_data (user_config s) p \<Longrightarrow> Q cg t"
    and "\<And>t. undisturbed s t \<Longrightarrow> E t"
  shows "wp (read_config p) Q E s"
proof -
  have "wp (read_config p) (\<lambda>cg _. cg_metadata cg = uc_files (user_config s) p \<and> cg_bytes cg = config_data (user_config s) p) (\<lambda>_. True) s"
  proof -
    have "wp (syscall (get_io (\<lambda>s. uc_files (user_config s) p))) (\<lambda>r _. r = uc_files (user_config s) p) (\<lambda>_. True) s"
      by (auto simp: wp_def syscall_def get_io_def split: list.splits option.splits)
    then show ?thesis
      unfolding read_config_def wp_combinators
      by (rule wp_mono) (auto simp: wp_simps config_data_def Let_def validate_owner_permissions_def split: option.splits)
  qed
  then have "wp (read_config p) (\<lambda>cg t. (cg_metadata cg = uc_files (user_config s) p \<and> cg_bytes cg = config_data (user_config s) p) \<and> undisturbed s t)
      (undisturbed s) s"
    using keepsD [OF keeps_undisturbed_reading(2) undisturbed_refl, of p s] by (auto simp: wp_def split: prod.splits sum.splits)
  then show ?thesis using assms by (auto elim!: wp_mono)
qed

lemma undisturbed_trans: "undisturbed s t \<Longrightarrow> undisturbed t u \<Longrightarrow> undisturbed s u"
  by (simp add: undisturbed_def)

lemma keeps_by_undisturbed:
  assumes "\<And>u. keeps (undisturbed u) m" "\<And>s t. undisturbed s t \<Longrightarrow> I s \<Longrightarrow> I t"
  shows "keeps I m"
  unfolding keeps_def using keepsD [OF assms(1) undisturbed_refl] assms(2) by (metis prod.collapse)

lemma wp_undisturbed: "keeps (undisturbed s) m \<Longrightarrow> undisturbed s t \<Longrightarrow> (\<And>a u. undisturbed s u \<Longrightarrow> Q a u) \<Longrightarrow> (\<And>u. undisturbed s u \<Longrightarrow> E u) \<Longrightarrow> wp m Q E t"
  by (rule wp_keeps)

lemma resolve_wp:
  assumes "\<And>p t. undisturbed s t \<Longrightarrow> source_leads_to (user_config s) source p \<Longrightarrow> Q p t" "\<And>t. undisturbed s t \<Longrightarrow> E t"
  shows "wp (resolve_config source) Q E s"
  using assms by (auto simp: wp_def resolve_config_def syscall_def source_leads_to_def undisturbed_def split: list.splits option.splits config_source.splits)

lemma resolve_from_wp:
  assumes "undisturbed s t" "\<And>p u. undisturbed s u \<Longrightarrow> source_leads_to (user_config s) source p \<Longrightarrow> Q p u" "\<And>u. undisturbed s u \<Longrightarrow> E u"
  shows "wp (resolve_config source) Q E t"
  by (rule resolve_wp) (use assms in \<open>auto simp: undisturbed_def\<close>)

text \<open>A replacement either leaves the user's files as the last edit left them, or rewrites a file that still holds what was
  read before, at the path that the source still leads to.\<close>

lemma if_holds: "(c \<Longrightarrow> A) \<Longrightarrow> (\<not> c \<Longrightarrow> B) \<Longrightarrow> (if c then A else B)"
  by simp

lemma sum_holds: "(\<And>e. r = Inl e \<Longrightarrow> A e) \<Longrightarrow> (\<And>x. r = Inr x \<Longrightarrow> B x) \<Longrightarrow> (case r of Inl e \<Rightarrow> A e | Inr x \<Rightarrow> B x)"
  by (cases r) simp_all

lemma wp_syscall:
  assumes "\<And>r. wp m Q E (s\<lparr>os_faults := r\<rparr>)" "\<And>r. E (s\<lparr>os_faults := r\<rparr>)"
  shows "wp (syscall m) Q E s"
  using assms(1) [of "os_faults s"] assms by (auto simp: wp_def syscall_def split: list.splits option.splits)

lemma commit_wp:
  assumes "mode = (case cg_metadata previous of None \<Rightarrow> 0x180 | Some m \<Rightarrow> cf_mode m mod 512)"
  shows "wp (commit_config source target previous ident mode bytes)
    (\<lambda>_ t. rewritten source target bytes (user_config s) (user_config t) \<and> source_leads_to (user_config s) source target
      \<and> config_data (user_config s) target = cg_bytes previous \<and> editors t = editors s)
    (\<lambda>t. user_config t = user_config s) s"
proof -
  let ?Q = "\<lambda>_ t. rewritten source target bytes (user_config s) (user_config t) \<and> source_leads_to (user_config s) source target
      \<and> config_data (user_config s) target = cg_bytes previous \<and> editors t = editors s"
  have E: "user_config t = user_config s" if "undisturbed s t" for t using that by (simp add: undisturbed_def)
  have mode: "mode = (case uc_files (user_config s) target of None \<Rightarrow> 0x180 | Some g \<Rightarrow> cf_mode g mod 512)"
    if "file_identity (uc_files (user_config s) target) = file_identity (cg_metadata previous)"
    using that assms by (auto simp: file_identity_def split: option.splits)
  have synced: "wp (try_io sync_all) (\<lambda>_. ?Q ()) (\<lambda>t. user_config t = user_config s) t" if "?Q () t" for t
    using that by (auto simp: wp_def try_io_def sync_all_def syscall_def return_io_def split: list.splits option.splits prod.splits)
  have renamed: "wp (syscall (\<lambda>s. if cg_metadata previous = None \<and> uc_files (user_config s) target \<noteq> None then (Inl failure.AlreadyExists, s)
       else (Inr (), persist_config source target \<lparr>cf_kind = Regular, cf_owner = uid, cf_mode = mode, cf_links = 1, cf_ident = ident, cf_data = bytes\<rparr> s)))
     (\<lambda>_. wp (try_io sync_all) (\<lambda>_. ?Q ()) (\<lambda>t. user_config t = user_config s)) (\<lambda>t. user_config t = user_config s) t"
    if "undisturbed s t" "source_leads_to (user_config s) source target"
      "file_identity (uc_files (user_config s) target) = file_identity (cg_metadata previous)" "cg_bytes previous = config_data (user_config s) target" for t uid
  proof (rule wp_syscall)
    fix r
    let ?f = "\<lparr>cf_kind = Regular, cf_owner = uid, cf_mode = mode, cf_links = 1, cf_ident = ident, cf_data = bytes\<rparr>"
    have "?Q () (persist_config source target ?f (t\<lparr>os_faults := r\<rparr>))"
      using that mode [OF that(3)] by (auto simp: persist_config_def rewritten_def undisturbed_def split: config_source.splits)
    note done_sync = synced [OF this]
    show "wp (\<lambda>s. if cg_metadata previous = None \<and> uc_files (user_config s) target \<noteq> None then (Inl failure.AlreadyExists, s)
       else (Inr (), persist_config source target ?f s))
     (\<lambda>_. wp (try_io sync_all) (\<lambda>_. ?Q ()) (\<lambda>t. user_config t = user_config s)) (\<lambda>t. user_config t = user_config s) (t\<lparr>os_faults := r\<rparr>)"
      using E [OF that(1)] done_sync unfolding wp_def [of "\<lambda>s. if c s then x s else y s" for c x y] by (auto split: if_splits)
  qed (use E [OF that(1)] in simp)
  show ?thesis
    unfolding commit_config_def wp_combinators Let_def
  proof (rule resolve_wp, goal_cases)
    case (1 p t)
    have same: "user_config t = user_config s" using 1(1) by (rule E)
    show ?case
    proof (cases "p = target")
      case True
      then have lead: "source_leads_to (user_config s) source target" using 1(2) by simp
      have "wp (read_config target) (\<lambda>latest u. if cg_bytes latest = cg_bytes previous \<and> file_identity (cg_metadata latest) = file_identity (cg_metadata previous)
          then wp (syscall (\<lambda>s. if cg_metadata previous = None \<and> uc_files (user_config s) target \<noteq> None then (Inl failure.AlreadyExists, s)
            else (Inr (), persist_config source target \<lparr>cf_kind = Regular, cf_owner = euid u, cf_mode = mode, cf_links = 1, cf_ident = ident, cf_data = bytes\<rparr> s)))
            (\<lambda>_. wp (try_io sync_all) (\<lambda>_. ?Q ()) (\<lambda>t. user_config t = user_config s)) (\<lambda>t. user_config t = user_config s) u
          else user_config u = user_config s) (\<lambda>t. user_config t = user_config s) t"
      proof (rule read_config_wp, goal_cases)
        case (1 cg u)
        have u: "undisturbed s u" using \<open>undisturbed s t\<close> 1(1) by (rule undisturbed_trans)
        show ?case
        proof (cases "cg_bytes cg = cg_bytes previous \<and> file_identity (cg_metadata cg) = file_identity (cg_metadata previous)")
          case True
          then have "file_identity (uc_files (user_config s) target) = file_identity (cg_metadata previous)"
            "cg_bytes previous = config_data (user_config s) target" using 1(2,3) same by auto
          then show ?thesis unfolding if_P [OF True] by (rule renamed [OF u lead])
        qed (simp only: if_not_P E [OF u] not_False_eq_True simp_thms)
      qed (rule E, erule undisturbed_trans [OF \<open>undisturbed s t\<close>])
      then show ?thesis using True by simp
    qed (simp add: same)
  qed (rule E)
qed

lemma replace_config_wp:
  assumes "cg_metadata previous = uc_files uc target" "cg_bytes previous = config_data uc target"
  shows "wp (replace_config source target previous bytes)
    (\<lambda>_ t. (editors s = [] \<longrightarrow> editors t = []) \<and> (user_config t = user_config s \<and> config_data uc target = bytes
      \<or> rewritten source target bytes (after_edit s) (user_config t) \<and> source_leads_to (after_edit s) source target
        \<and> config_data (after_edit s) target = config_data uc target))
    (\<lambda>t. user_config t = user_config s \<or> user_config t = after_edit s) s"
proof (cases "cg_bytes previous = bytes")
  case True
  then show ?thesis using assms(2) by (simp add: replace_config_def wp_simps)
next
  case False
  let ?Q = "\<lambda>_ t. (editors s = [] \<longrightarrow> editors t = []) \<and> (user_config t = user_config s \<and> config_data uc target = bytes
      \<or> rewritten source target bytes (after_edit s) (user_config t) \<and> source_leads_to (after_edit s) source target
        \<and> config_data (after_edit s) target = config_data uc target)"
  let ?E = "\<lambda>t. user_config t = user_config s \<or> user_config t = after_edit s"
  let ?mode = "case cg_metadata previous of None \<Rightarrow> 0x180 | Some m \<Rightarrow> cf_mode m mod 512"
  have committed: "wp (commit_config source target previous ident ?mode bytes) ?Q ?E t" if "user_config t = after_edit s" "editors s = [] \<longrightarrow> editors t = []" for ident t
    by (rule wp_mono [OF commit_wp [OF refl]]) (simp_all add: that assms(2))
  have turn: "wp editor_turn (\<lambda>_. wp (commit_config source target previous ident ?mode bytes) ?Q ?E) ?E t" if t: "undisturbed s t" for ident t
  proof -
    obtain u where "editor_turn t = (Inr (), u)" "user_config u = after_edit s" "editors s = [] \<longrightarrow> editors u = []"
      using t by (cases "editors s") (auto simp: editor_turn_def after_edit_def undisturbed_def)
    then show ?thesis by (simp add: wp_def [of editor_turn] committed)
  qed
  have E: "?E t" if "undisturbed s t" for t using that by (simp add: undisturbed_def)
  have "wp (syscall next_ident) (\<lambda>ident. wp (syscall (return_io ())) (\<lambda>_. wp (syscall (return_io ())) (\<lambda>_. wp sync_all (\<lambda>_.
      wp editor_turn (\<lambda>_. wp (commit_config source target previous ident ?mode bytes) ?Q ?E) ?E) ?E) ?E) ?E) ?E s"
    by (rule wp_undisturbed [where s = s], rule keeps_rules, simp, rule wp_undisturbed [where s = s], rule keeps_rules, assumption,
        rule wp_undisturbed [where s = s], rule keeps_rules, assumption, rule wp_undisturbed [where s = s], rule keeps_rules, assumption)
      (rule turn E, assumption)+
  then show ?thesis using False by (simp add: replace_config_def wp_combinators Let_def)
qed

section \<open>The entry is reversible\<close>

text \<open>The part of a configuration that is the user's own, and a change of the text of one file only.\<close>

definition user_part :: "bytes \<Rightarrow> bytes \<Rightarrow> bytes" where
  "user_part block bytes = (case strip_prefix block bytes of None \<Rightarrow> bytes | Some r \<Rightarrow> r)"

definition text_becomes :: "bytes \<Rightarrow> bytes \<Rightarrow> bytes \<Rightarrow> user_config \<Rightarrow> user_config \<Rightarrow> bool" where
  "text_becomes source target new uc uc' \<longleftrightarrow> config_data uc' target = new \<and> (\<forall>p. p \<noteq> target \<longrightarrow> uc_files uc' p = uc_files uc p)
     \<and> (uc_source uc' = uc_source uc \<or> uc_source uc = Absent \<and> uc_source uc' = Resolves source)
     \<and> (\<forall>g. uc_files uc target = Some g \<longrightarrow> (\<exists>f. uc_files uc' target = Some f \<and> cf_mode f mod 512 = cf_mode g mod 512))"

lemma rewritten_text: "rewritten source target new uc uc' \<Longrightarrow> text_becomes source target new uc uc'"
  by (auto simp: rewritten_def text_becomes_def config_data_def split: config_source.splits)

lemma same_text: "config_data uc target = new \<Longrightarrow> text_becomes source target new uc uc"
  by (simp add: text_becomes_def)

lemma text_becomes_trans:
  "text_becomes source target a uc uc' \<Longrightarrow> text_becomes source target b uc' uc'' \<Longrightarrow> text_becomes source target b uc uc''"
  unfolding text_becomes_def by (metis config_source.distinct(1))

lemma replace_quiet_editor:
  assumes "editors s = []" "cg_metadata previous = uc_files (user_config s) target" "cg_bytes previous = config_data (user_config s) target"
  shows "wp (replace_config source target previous new) (\<lambda>_ t. editors t = [] \<and> text_becomes source target new (user_config s) (user_config t))
    (\<lambda>t. user_config t = user_config s) s"
  using assms(1) by (intro wp_mono [OF replace_config_wp [OF assms(2,3)]]) (auto simp: after_edit_def intro: rewritten_text same_text)

lemma cleanup_wp:
  assumes "editors s = []"
  shows "wp (cleanup J z m) (\<lambda>_ t. text_becomes (mg_source m) (mg_target m) (user_part (mg_block m) (config_data (user_config s) (mg_target m))) (user_config s) (user_config t))
    (\<lambda>t. user_config t = user_config s
      \<or> text_becomes (mg_source m) (mg_target m) (user_part (mg_block m) (config_data (user_config s) (mg_target m))) (user_config s) (user_config t)) s"
proof -
  let ?T = "\<lambda>t. text_becomes (mg_source m) (mg_target m) (user_part (mg_block m) (config_data (user_config s) (mg_target m))) (user_config s) (user_config t)"
  let ?E = "\<lambda>t. user_config t = user_config s \<or> ?T t"
  have E: "?E t" if "undisturbed s t" for t using that by (simp add: undisturbed_def)
  have changed: "wp (case strip_prefix (mg_block m) (cg_bytes cg) of
         Some remainder \<Rightarrow> replace_config (mg_source m) (mg_target m) cg remainder
       | None \<Rightarrow> ensure_io (\<not> contains_bytes BEGIN_MARK (cg_bytes cg)) CatalogConflict) (\<lambda>_. ?T) ?E t"
    if "undisturbed s t" "cg_metadata cg = uc_files (user_config s) (mg_target m)" "cg_bytes cg = config_data (user_config s) (mg_target m)" for cg t
  proof (cases "strip_prefix (mg_block m) (cg_bytes cg)")
    case None
    then show ?thesis using that by (auto simp: wp_simps user_part_def undisturbed_def intro!: same_text simp del: strip_prefix_Some)
  next
    case (Some remainder)
    have "wp (replace_config (mg_source m) (mg_target m) cg remainder) (\<lambda>_ u. editors u = [] \<and> text_becomes (mg_source m) (mg_target m) remainder (user_config t) (user_config u))
        (\<lambda>u. user_config u = user_config t) t"
      using that assms by (intro replace_quiet_editor) (simp_all add: undisturbed_def)
    moreover have "user_part (mg_block m) (config_data (user_config s) (mg_target m)) = remainder"
      using Some that(3) by (simp add: user_part_def del: strip_prefix_Some)
    ultimately show ?thesis
      using Some that(1) by (simp add: undisturbed_def del: strip_prefix_Some) (erule wp_mono; simp)
  qed
  have finish: "wp (of_result d) (\<lambda>_. ?T) ?E t" if "?T t" for d :: "failure + unit" and t
    using that by (cases d) (simp_all add: wp_simps)
  have tail: "wp (read_config (mg_target m)) (\<lambda>cg. wp (case strip_prefix (mg_block m) (cg_bytes cg) of
         Some remainder \<Rightarrow> replace_config (mg_source m) (mg_target m) cg remainder
       | None \<Rightarrow> ensure_io (\<not> contains_bytes BEGIN_MARK (cg_bytes cg)) CatalogConflict) (\<lambda>_. wp (of_result d) (\<lambda>_. ?T) ?E) ?E) ?E t"
    if t: "undisturbed s t" for t and d :: "failure + unit"
  proof (rule read_config_wp, goal_cases)
    case (1 cg u)
    have "undisturbed s u" using t 1(1) by (rule undisturbed_trans)
    then show ?case using 1(2,3) t by (intro wp_mono [OF changed]) (auto simp: undisturbed_def intro: finish)
  qed (rule E, erule undisturbed_trans [OF t])
  show ?thesis
    unfolding cleanup_def wp_combinators
    by (rule wp_undisturbed [where s = s], intro keeps_rules, simp, rule wp_undisturbed [where s = s], intro keeps_rules, assumption,
        rule wp_undisturbed [where s = s], intro keeps_rules, assumption)
      (use E tail in \<open>simp_all split: if_split\<close>)
qed

text \<open>What \<open>install\<close> leaves behind: on success the entry in front of the user's own text, and on an error the text
  as it was, or the user's own part of it with or without the entry.\<close>

lemma without_block_Inr: "without_block bytes block = Inr original \<Longrightarrow> original = user_part block bytes"
  by (auto simp: without_block_def user_part_def Let_def bind_result_eq_Inr simp del: strip_prefix_Some split: option.splits)

text \<open>The entry of a directory \<open>ssh\<close>: the block that includes \<open>attached/config\<close> in it, for the file that \<open>config\<close> in it leads to.\<close>

definition entry_of :: "bytes \<Rightarrow> user_config \<Rightarrow> ManagedConfig \<Rightarrow> bool" where
  "entry_of ssh uc m \<longleftrightarrow> mg_source m = ssh @ ascii ''/config''
     \<and> managed_block ((ssh @ ascii ''/attached'') @ ascii ''/config'') = Inr (mg_block m)
     \<and> source_leads_to uc (mg_source m) (mg_target m)"

definition entry_installed :: "bytes \<Rightarrow> user_config \<Rightarrow> ManagedConfig \<Rightarrow> home \<Rightarrow> bool" where
  "entry_installed ssh uc m t \<longleftrightarrow> entry_of ssh uc m \<and> editors t = [] \<and> text_becomes (mg_source m) (mg_target m)
     (mg_block m @ user_part (mg_block m) (config_data uc (mg_target m))) uc (user_config t)"

lemma prepare_entry_wp:
  assumes "editors s = []"
  shows "wp (prepare_entry ssh) (entry_installed ssh (user_config s)) (\<lambda>t. user_config t = user_config s) s"
proof -
  let ?source = "ssh @ ascii ''/config''" and ?E = "\<lambda>t. user_config t = user_config s"
  have E: "?E t" if "undisturbed s t" for t using that by (simp add: undisturbed_def)
  have tail: "wp (read_config target) (\<lambda>current. wp (of_result (without_block (cg_bytes current) block)) (\<lambda>original.
      wp (atomic_replace (ascii ''config'') (CONFIG_HEADER @ CONFIG_FALLBACK)) (\<lambda>_.
      wp (replace_config ?source target current (block @ original)) (\<lambda>_. entry_installed ssh (user_config s) \<lparr>mg_source = ?source, mg_target = target, mg_block = block\<rparr>) ?E) ?E) ?E) ?E t"
    if t: "undisturbed s t" and lead: "source_leads_to (user_config s) ?source target"
      and block: "managed_block ((ssh @ ascii ''/attached'') @ ascii ''/config'') = Inr block" for target block t
  proof (rule read_config_wp, goal_cases)
    case (1 cg u)
    have u: "undisturbed s u" using t 1(1) by (rule undisturbed_trans)
    have replaced: "wp (replace_config ?source target cg (block @ original)) (\<lambda>_. entry_installed ssh (user_config s) \<lparr>mg_source = ?source, mg_target = target, mg_block = block\<rparr>) ?E v"
      if "undisturbed s v" "without_block (cg_bytes cg) block = Inr original" for original v
      by (rule wp_mono [OF replace_quiet_editor])
        (use that 1(2,3) t assms lead block in \<open>auto simp: undisturbed_def entry_installed_def entry_of_def dest!: without_block_Inr\<close>)
    have "wp (atomic_replace (ascii ''config'') (CONFIG_HEADER @ CONFIG_FALLBACK)) (\<lambda>_.
      wp (replace_config ?source target cg (block @ original)) (\<lambda>_. entry_installed ssh (user_config s) \<lparr>mg_source = ?source, mg_target = target, mg_block = block\<rparr>) ?E) ?E u"
      if "without_block (cg_bytes cg) block = Inr original" for original
      by (rule wp_undisturbed [where s = s], intro keeps_rules, rule u) (rule replaced [OF _ that] E, assumption)+
    then show ?case using E [OF u] by (cases "without_block (cg_bytes cg) block") (simp_all add: wp_of_result)
  qed (rule E, erule undisturbed_trans [OF t])
  show ?thesis
    unfolding prepare_entry_def wp_combinators Let_def wp_of_result [of "managed_block b" for b]
    by (rule wp_undisturbed [where s = s], intro keeps_rules, simp, rule wp_undisturbed [where s = s], intro keeps_rules, assumption)
      (rule if_holds sum_holds tail E resolve_from_wp [where s = s] | assumption)+
qed

definition entry_left :: "bytes \<Rightarrow> user_config \<Rightarrow> home \<Rightarrow> bool" where
  "entry_left ssh uc t \<longleftrightarrow> user_config t = uc \<or> (\<exists>m :: ManagedConfig. entry_of ssh uc m \<and> (\<exists>new \<in> {user_part (mg_block m) (config_data uc (mg_target m)),
     mg_block m @ user_part (mg_block m) (config_data uc (mg_target m))}. text_becomes (mg_source m) (mg_target m) new uc (user_config t)))"

lemma entry_left_locked [simp]: "entry_left ssh uc (t\<lparr>broker_locked := b\<rparr>) = entry_left ssh uc t"
  by (simp add: entry_left_def)

lemma while_locked_wp: "wp m Q E s \<Longrightarrow> (\<And>t. E t \<Longrightarrow> E (t\<lparr>broker_locked := False\<rparr>)) \<Longrightarrow> wp (while_locked m) Q E s"
  by (auto simp: wp_def while_locked_def bind_io_def try_io_def return_io_def fail_io_def unlock_broker_def split: prod.splits sum.splits)

lemma dropped_entry:
  assumes "entry_installed ssh uc m t"
  shows "wp (drop_config J z m) (\<lambda>_. entry_left ssh uc) (entry_left ssh uc) t"
proof -
  let ?up = "user_part (mg_block m) (config_data uc (mg_target m))"
  have t: "editors t = []" "text_becomes (mg_source m) (mg_target m) (mg_block m @ ?up) uc (user_config t)" "entry_of ssh uc m"
    using assms by (simp_all add: entry_installed_def)
  have up: "user_part (mg_block m) (config_data (user_config t) (mg_target m)) = ?up"
    using t(2) by (simp add: text_becomes_def user_part_def)
  have "entry_left ssh uc u" if "user_config u = user_config t \<or> text_becomes (mg_source m) (mg_target m) ?up (user_config t) (user_config u)" for u
    using that t(2,3) text_becomes_trans [OF t(2)] unfolding entry_left_def by auto
  then have "wp (cleanup J z m) (\<lambda>_. entry_left ssh uc) (entry_left ssh uc) t"
    by (intro wp_mono [OF cleanup_wp [OF t(1), of J z m, unfolded up]]) blast+
  then show ?thesis
    unfolding drop_config_def wp_combinators
    by (intro wp_try) (auto simp: wp_def unlock_broker_def split: prod.splits sum.splits)
qed

lemma install_wp:
  assumes "editors s = []"
  shows "wp (install J z (Inr (ssh, metadata))) (entry_installed ssh (user_config s)) (entry_left ssh (user_config s)) s"
proof -
  let ?E = "entry_left ssh (user_config s)"
  have E: "?E t" if "undisturbed s t" for t using that by (simp add: undisturbed_def entry_left_def)
  have published: "wp (try_io (publish_discovery J z [] False)) (\<lambda>published. wp (case published of
       Inr _ \<Rightarrow> return_io m | Inl e \<Rightarrow> bind_io (drop_config J z m) (\<lambda>_. fail_io e)) (entry_installed ssh (user_config s)) ?E) ?E t"
    if t: "entry_installed ssh (user_config s) m t" for m t
  proof (rule wp_keeps [where I = "entry_installed ssh (user_config s) m", OF _ t])
    show "keeps (entry_installed ssh (user_config s) m) (try_io (publish_discovery J z [] False))"
      by (rule keeps_by_undisturbed, intro keeps_rules) (simp add: entry_installed_def undisturbed_def)
    fix r u assume u: "entry_installed ssh (user_config s) m u"
    show "wp (case r of Inr _ \<Rightarrow> return_io m | Inl e \<Rightarrow> bind_io (drop_config J z m) (\<lambda>_. fail_io e)) (entry_installed ssh (user_config s)) ?E u"
      using u dropped_entry [OF u, of J z] by (cases r) (auto simp: wp_combinators)
  qed (auto simp: entry_installed_def entry_left_def)
  have prepared: "wp (while_locked (prepare_entry ssh)) (\<lambda>m. wp (try_io (publish_discovery J z [] False)) (\<lambda>published. wp (case published of
       Inr _ \<Rightarrow> return_io m | Inl e \<Rightarrow> bind_io (drop_config J z m) (\<lambda>_. fail_io e)) (entry_installed ssh (user_config s)) ?E) ?E) ?E t"
    if t: "undisturbed s t" for t
  proof (rule while_locked_wp)
    have "editors t = []" "user_config t = user_config s" using t assms by (simp_all add: undisturbed_def)
    then show "wp (prepare_entry ssh) (\<lambda>m. wp (try_io (publish_discovery J z [] False)) (\<lambda>published. wp (case published of
       Inr _ \<Rightarrow> return_io m | Inl e \<Rightarrow> bind_io (drop_config J z m) (\<lambda>_. fail_io e)) (entry_installed ssh (user_config s)) ?E) ?E) ?E t"
      by (intro wp_mono [OF prepare_entry_wp]) (auto intro: published simp: entry_left_def)
  qed simp
  have "wp (open_state_directory True False) (\<lambda>_. wp (open_private_lock_file (ascii ''broker.lock'') True) (\<lambda>lock.
      wp (of_result (ok_or lock MissingState)) (\<lambda>_. wp try_lock_broker (\<lambda>_. wp (while_locked (prepare_entry ssh)) (\<lambda>m.
        wp (try_io (publish_discovery J z [] False)) (\<lambda>published. wp (case published of
          Inr _ \<Rightarrow> return_io m | Inl e \<Rightarrow> bind_io (drop_config J z m) (\<lambda>_. fail_io e)) (entry_installed ssh (user_config s)) ?E) ?E) ?E) ?E) ?E) ?E) ?E s"
    unfolding wp_of_result
    by (rule wp_undisturbed [where s = s], intro keeps_rules, simp)
      (rule sum_holds prepared E wp_undisturbed [where s = s, OF keeps_undisturbed_calls(7)]
        wp_undisturbed [where s = s, OF keeps_undisturbed_locks(2)] | assumption)+
  then show ?thesis
    using E [OF undisturbed_refl] by (simp add: install_def wp_combinators wp_of_result validate_owner_permissions_def)
qed

section \<open>The snapshot is accepted by its reader\<close>

definition snapshot_host :: "SyncedHost \<Rightarrow> Host" where
  "snapshot_host h = \<lparr>hs_host = sh_host h, hs_endpoint_id = sh_target h, hs_ssh_target = attached_alias (sh_target h)\<rparr>"

definition sample_synced :: "SyncedHost list" where
  "sample_synced = [\<lparr>sh_target = replicate 64 98, sh_host = ascii ''office'', sh_attached_version = [1, 2, 3], sh_published_at = None\<rparr>,
     \<lparr>sh_target = replicate 64 97, sh_host = ascii ''laptop'', sh_attached_version = [1, 2, 3], sh_published_at = None\<rparr>]"

lemma report_fields:
  "discovery_report rfc3339 t hs complete = JObject [(ascii ''checked_at'', JNumber (t div 1000000000)), (ascii ''complete'', JBool complete),
     (ascii ''generation'', json_text (dec_text t)), (ascii ''hosts'', JArray (map (host_json rfc3339) hs)), (ascii ''version'', JNumber 1)]"
  by (simp add: discovery_report_def value_object_def btree_collect_def ascii_def)

lemma host_read_json: "host_read (host_json rfc3339 h) = Some (snapshot_host h)"
  by (simp add: host_read_def host_json_def value_object_def btree_collect_def ascii_def lenient_struct_def snapshot_host_def json_string_owned_def json_text_def)

lemma hosts_read: "vec_read host_read (JArray (map (host_json rfc3339) hs)) = Some (map snapshot_host hs)"
  by (induction hs) (simp_all add: vec_read_def host_read_json)

lemma report_read:
  assumes "t div 1000000000 \<le> U64_MAX"
  shows "discovery_read (discovery_report rfc3339 t hs complete) = Some \<lparr>dv_version = 1, dv_generation = dec_text t,
     dv_checked_at = t div 1000000000, dv_complete = complete, dv_hosts = map snapshot_host hs\<rparr>"
  using assms hosts_read [of rfc3339 hs]
  by (simp add: discovery_read_def report_fields lenient_struct_def ascii_def json_bool_def json_uint_def limit_defs)

lemma dec_text_length: "n < 10 ^ k \<Longrightarrow> 0 < k \<Longrightarrow> length (dec_text n) \<le> k"
proof (induction n arbitrary: k rule: dec_text.induct)
  case (1 n)
  show ?case
  proof (cases "n < 10")
    case True
    then show ?thesis using 1(3) by (simp add: dec_text.simps [of n])
  next
    case False
    then obtain j where k: "k = Suc j" "0 < j" using 1(2,3) by (cases k; cases "k - 1") auto
    then have "n div 10 < 10 ^ j" using 1(2) by (simp add: less_mult_imp_div_less)
    then show ?thesis using 1(1) [OF False, of j] k False by (simp add: dec_text.simps [of n])
  qed
qed

lemma validate_each_consistent:
  assumes "btree_ok unique" "\<And>h. h \<in> set hs \<Longrightarrow> well_formed_host h"
    and "\<And>a b. a \<in> set hs \<union> snd ` set unique \<Longrightarrow> b \<in> set hs \<union> snd ` set unique \<Longrightarrow> hs_endpoint_id a = hs_endpoint_id b \<Longrightarrow> a = b"
    and "\<And>e h. (e, h) \<in> set unique \<Longrightarrow> hs_endpoint_id h = e"
  shows "\<exists>m. validate_each unique hs = Inr m"
  using assms
proof (induction hs arbitrary: unique)
  case (Cons h hs)
  have known: "map_of unique (hs_endpoint_id h) = None \<or> map_of unique (hs_endpoint_id h) = Some h"
  proof (cases "map_of unique (hs_endpoint_id h)")
    case (Some g)
    then have "(hs_endpoint_id h, g) \<in> set unique" by (rule map_of_SomeD)
    then have "hs_endpoint_id g = hs_endpoint_id h" "g \<in> snd ` set unique" using Cons.prems(4) by force+
    then show ?thesis using Some Cons.prems(3) [of g h] by auto
  qed simp
  let ?next = "btree_insert (hs_endpoint_id h) h unique"
  have s: "set ?next = insert (hs_endpoint_id h, h) (set unique)" by (rule map_of_insert_known [OF Cons.prems(1) known])
  then have sub: "set hs \<union> snd ` set ?next \<subseteq> set (h # hs) \<union> snd ` set unique" by auto
  have c3: "a = b" if "a \<in> set hs \<union> snd ` set ?next" "b \<in> set hs \<union> snd ` set ?next" "hs_endpoint_id a = hs_endpoint_id b" for a b
    using Cons.prems(3) [of a b] that subsetD [OF sub] by blast
  have c4: "hs_endpoint_id g = e" if "(e, g) \<in> set ?next" for e g
    using that Cons.prems(4) by (auto simp: s)
  have "\<exists>m. validate_each ?next hs = Inr m"
    by (rule Cons.IH [OF btree_insert_ok [OF Cons.prems(1)] _ c3 c4]) (simp_all add: Cons.prems(2))
  moreover have "valid_host h = Inr ()" using Cons.prems(2) by (simp add: valid_host_Inr)
  ultimately show ?case using known by auto
qed simp

text \<open>C33: the snapshot that the exporter writes is one that the plugin accepts. When the listed machines have valid
  endpoint identities and labels, one label per identity, the reader of another program takes the written text, within
  ninety seconds of its writing, for a complete or partial snapshot as it was meant, of a generation that is the
  writing time, with exactly the listed machines.\<close>

theorem published_snapshot_accepted:
  assumes "json_from_slice J (json_to_vec J (discovery_report rfc3339 t hs complete)) = Some (discovery_report rfc3339 t hs complete)"
    and "t div 1000000000 \<le> current" "current \<le> t div 1000000000 + 90" "current \<le> U64_MAX"
    and "\<And>h. h \<in> set hs \<Longrightarrow> is_endpoint (sh_target h) \<and> validate_host_label (sh_host h)"
    and "\<And>a b. a \<in> set hs \<Longrightarrow> b \<in> set hs \<Longrightarrow> sh_target a = sh_target b \<Longrightarrow> sh_host a = sh_host b"
  shows "\<exists>d. parse_discovery J (json_to_vec J (discovery_report rfc3339 t hs complete)) current = Inr d
    \<and> dv_complete d = complete \<and> dv_generation d = dec_text t \<and> set (dv_hosts d) = snapshot_host ` set hs"
proof -
  have range: "t div 1000000000 \<le> U64_MAX" using assms(2,4) by simp
  have "t < 10 ^ 64"
  proof -
    have "t div 1000000000 < U64_MAX + 1" using range by simp
    then have "t < (U64_MAX + 1) * 1000000000" by (simp only: div_less_iff_less_mult zero_less_numeral)
    also have "\<dots> \<le> 10 ^ 64" by (simp add: limit_defs)
    finally show ?thesis .
  qed
  then have "length (dec_text t) \<le> 64" by (intro dec_text_length) simp_all
  moreover have "dec_text t \<noteq> []" by (cases "dec_text t") auto
  moreover obtain m where m: "validate_each [] (map snapshot_host hs) = Inr m"
  proof -
    have wf: "well_formed_host h" if "h \<in> set (map snapshot_host hs)" for h
      using that assms(5) by (auto simp: snapshot_host_def well_formed_host_def)
    have same: "a = b" if ab: "a \<in> set (map snapshot_host hs) \<union> snd ` set ([] :: (bytes \<times> Host) list)"
      "b \<in> set (map snapshot_host hs) \<union> snd ` set ([] :: (bytes \<times> Host) list)" "hs_endpoint_id a = hs_endpoint_id b" for a b
    proof -
      obtain x y where xy: "x \<in> set hs" "y \<in> set hs" "a = snapshot_host x" "b = snapshot_host y" using ab by auto
      then show ?thesis using assms(6) [OF xy(1,2)] ab(3) by (simp add: snapshot_host_def)
    qed
    have "\<exists>m. validate_each [] (map snapshot_host hs) = Inr m"
      by (rule validate_each_consistent [OF _ wf same]) (simp_all add: btree_ok_def)
    then show ?thesis using that by blast
  qed
  ultimately have generation: "dec_text t \<noteq> []" "length (dec_text t) \<le> 64" and v: "validate_hosts (map snapshot_host hs) = Inr (map snd m)"
    by (simp_all add: validate_hosts_def)
  have "set (map snd m) = set (map snapshot_host hs)" using validated_hosts [OF v] by blast
  moreover have "current - t div 1000000000 \<le> 90" using assms(3) by (simp add: le_diff_conv add.commute)
  ultimately show ?thesis
    using assms(1-3) generation v by (simp add: parse_discovery_def ok_or_def report_read [OF range] del: map_map)
qed

theorem published_snapshot_accepted_witness:
  "\<exists>d. parse_discovery (sample_json (discovery_report (\<lambda>_. []) 5000000000 sample_synced True))
      (json_to_vec (sample_json (discovery_report (\<lambda>_. []) 5000000000 sample_synced True)) (discovery_report (\<lambda>_. []) 5000000000 sample_synced True)) 7 = Inr d
    \<and> dv_complete d = True \<and> dv_generation d = dec_text 5000000000 \<and> set (dv_hosts d) = snapshot_host ` set sample_synced"
proof (rule published_snapshot_accepted)
  fix h assume "h \<in> set sample_synced"
  then show "is_endpoint (sh_target h) \<and> validate_host_label (sh_host h)"
    by (auto simp: sample_synced_def is_endpoint_def list_all_iff validate_host_label_def is_ascii_alphanumeric_def is_ascii_lowercase_def
        ascii_def limit_defs)
next
  fix a b assume "a \<in> set sample_synced" "b \<in> set sample_synced" "sh_target a = sh_target b"
  moreover have "replicate 64 (97 :: u8) \<noteq> replicate 64 98" by (simp add: replicate_eq_replicate)
  ultimately show "sh_host a = sh_host b" by (auto simp: sample_synced_def)
qed (simp_all add: sample_json_def limit_defs)

section \<open>Installing and removing\<close>

text \<open>C13: the entry in the user's OpenSSH configuration is reversible, whatever system call fails. The block is the one that
  \<open>managed_block\<close> writes for \<open>~/.ssh/attached/config\<close>, and the user's own text is the configuration without that block in front.
  Installing either puts the block in front of the user's own text in the file that \<open>~/.ssh/config\<close> leads to, or ends with an error and
  leaves every file as it was, or that text there with or without the block. A later cleanup, from any state the user's edits have led to, either removes exactly the block and keeps the edited
  text behind it, or leaves every file as it is; when it succeeds the block is gone. Other files, the link and the
  permissions of the file never change. No edit happens inside one of the two operations; those that do are
  the subject of \<open>concurrent_edit_survives\<close>.\<close>

theorem ssh_config_reversible:
  "case install J rfc3339 (Inr (ssh, metadata)) (s\<lparr>editors := []\<rparr>) of
     (Inl _, t) \<Rightarrow> entry_left ssh (user_config s) t
   | (Inr m, t) \<Rightarrow> entry_installed ssh (user_config s) m t
       \<and> (case cleanup J rfc3339 m (u\<lparr>editors := []\<rparr>) of (r, v) \<Rightarrow>
            text_becomes (mg_source m) (mg_target m) (user_part (mg_block m) (config_data (user_config u) (mg_target m))) (user_config u) (user_config v)
            \<or> r \<noteq> Inr () \<and> user_config v = user_config u)"
proof -
  have cleaned: "case cleanup J rfc3339 m (u\<lparr>editors := []\<rparr>) of (r, v) \<Rightarrow>
      text_becomes (mg_source m) (mg_target m) (user_part (mg_block m) (config_data (user_config u) (mg_target m))) (user_config u) (user_config v)
      \<or> r \<noteq> Inr () \<and> user_config v = user_config u" for m :: ManagedConfig
    using cleanup_wp [of "u\<lparr>editors := []\<rparr>" J rfc3339 m]
    by (cases "cleanup J rfc3339 m (u\<lparr>editors := []\<rparr>)"; cases "fst (cleanup J rfc3339 m (u\<lparr>editors := []\<rparr>))") (auto simp: wp_def)
  show ?thesis
  proof (cases "install J rfc3339 (Inr (ssh, metadata)) (s\<lparr>editors := []\<rparr>)")
    case (Pair r t)
    then show ?thesis
      using install_wp [of "s\<lparr>editors := []\<rparr>" J rfc3339 ssh metadata] cleaned by (cases r) (simp_all add: wp_def)
  qed
qed

text \<open>An edit made while a replacement is being prepared is never lost: the replacement happens only when the file
  still holds the bytes that were read before, and otherwise everything stays as the edit left it.\<close>

theorem concurrent_edit_survives:
  assumes "cg_metadata previous = uc_files uc target" "cg_bytes previous = config_data uc target"
    and "replace_config source target previous bytes s = (r, t)" "config_data (after_edit s) target \<noteq> config_data uc target"
  shows "user_config t = user_config s \<or> user_config t = after_edit s"
  using replace_config_wp [OF assms(1,2), of source bytes s] assms(3,4) by (cases r) (auto simp: wp_def)

end
