(* ===== verification/Spec2Isabelle.thy ===== *)
theory Spec2Isabelle
  imports Crypto Worker_Public Publisher_Descriptor Endpoint_Identity Account_Setup Remote_Update Update_Handoff Herdr_Core Managed_Config
begin

text \<open>
  A verification library for \<open>attached\<close>. The machines of an account publish short-lived, encrypted descriptors of
  themselves to a synchronisation service; the account's consumers list, fetch and open them, keep a local
  catalog, and attach to the machines over SSH; a running machine can be asked to update itself; other programs
  read an exported snapshot of the machines. Source files are named below without their common prefix
  \<open>src/crates/\<close>. This theory imports every other one.

  \<^bold>\<open>Conventions.\<close> Bytes are 8-bit words and texts are byte strings. Rust's \<open>Result\<close> is a sum with the error
  on the left, \<open>Option\<close> is \<^typ>\<open>'a option\<close>, structures are records and enumerations datatypes with the
  constructors of the source. Code with effects is an action \<open>('s, 'a) io\<close>: a function from the state of its
  component to a result and the next state, on the error path too, so that what was done before a failure is
  visible. Integers keep their width where the source can overflow or saturate. Code outside the repository
  (ciphers, key derivation, JSON, base64, URLs, UUIDs, HTTP, tickets, platform routers) is a parameter, and what is
  relied on of it is a named predicate or locale. Failing system calls, clocks, entropy, prompts, other
  programs and peers are inputs: a theorem about all of them covers every failure and every crash point.

  \<^bold>\<open>Foundations.\<close>

  \<^item> \<open>Prelude\<close>: results, words, texts, UTF-8, decimal text, and the locale \<open>canonical_codec\<close>, a decoder that
    accepts exactly what its encoder writes.
  \<^item> \<open>Base64\<close>: the locale \<open>base64_engine\<close>, interpreted on the alphabet of RFC 4648.
  \<^item> \<open>Limits\<close>: \<open>session-sync-protocol/src/limits.rs\<close>.
  \<^item> \<open>Io\<close>: actions, the Hoare rules \<open>triple_rules\<close>, \<open>keeps_rules\<close> for invariants, and \<open>wp\<close>.
  \<^item> \<open>Btree\<close>: ordered maps as the client uses them.

  \<^bold>\<open>The protocol.\<close>

  \<^item> \<open>Canonical\<close> (\<open>session-sync-protocol/src/canonical.rs\<close>): the descriptor, its validation, and its CBOR codec with
    a cursor. The fields are instances of the locale \<open>field_codec\<close>; the whole is a \<open>canonical_codec\<close> whose
    encodings exist for every valid descriptor.
  \<^item> \<open>Crypto\<close> (\<open>session-sync-protocol/src/crypto.rs\<close>): sealing and opening, the time window, and authenticity.
  \<^item> \<open>Origin\<close>, \<open>Identity\<close>, \<open>Bundle\<close> (\<open>session-sync-protocol/src/account.rs\<close>): the grammar of service origins with the
    address texts of the standard library, identifiers and tokens (locale \<open>uuid_library\<close>), and the account bundles:
    round trips and strictness of the parsers.
  \<^item> \<open>Sync_Api\<close> (\<open>session-sync-protocol/src/api.rs\<close>): the JSON messages of the service and their strict readers.
  \<^item> \<open>Tunnel\<close> (\<open>tunnel-protocol/src/lib.rs\<close>, \<open>tcp_forward.rs\<close>): the frames of updates and of forwarding, each a
    \<open>canonical_codec\<close> under its capability.

  \<^bold>\<open>The service.\<close>

  \<^item> \<open>Worker_Model\<close> (\<open>session-sync-worker/src/model.rs\<close>): stored accounts and records, and the revision step.
  \<^item> \<open>Worker_Storage\<close> (\<open>session-sync-worker/src/storage.rs\<close>): every SQL statement as a step on the two tables with its
    constraints and failures. Publishing refines an abstract map of versions, which the locale
    \<open>versioned_store\<close> states; quota, monotone revisions and provenance of contents follow for every sequence of
    operations.
  \<^item> \<open>Worker_Api\<close>, \<open>Worker_Public\<close> (\<open>session-sync-worker/src/api.rs\<close>, \<open>issuance.rs\<close>, \<open>rate_limit.rs\<close>, \<open>lib.rs\<close>): the account
    object and the public Worker: authentication by scope, safe and charged creation, confined forwarding. A call from
    the Worker to an object may get lost, be answered, or be carried out with its answer lost (\<open>stub_call\<close>).

  \<^bold>\<open>The state of a machine.\<close>

  \<^item> \<open>Secure_State\<close> (\<open>cli/src/secure_state.rs\<close>): owner-only files under failing system calls; replacement is atomic and
    creation exclusive.
  \<^item> \<open>Local_Encryption\<close> (\<open>cli/src/local_encryption.rs\<close>): sealed files and the master key. The locale \<open>key_actions\<close> lists the
    actions that obtain a key and carries every property they keep; \<open>key_files\<close>, a \<open>sublocale\<close> of it, is its case for a file, interpreted for
    the account, catalog and identity files; \<open>inputs_kept\<close> is its interpretation for what selects the key store. \<open>holds_key\<close> says which key
    the store of a session produces, and the properties of sealed files name that key.
  \<^item> \<open>Account_State\<close> (\<open>cli/src/sync/state.rs\<close>), \<open>Account_Setup\<close> (\<open>cli/src/sync/account.rs\<close>, \<open>publish_account.rs\<close>,
    \<open>download_account.rs\<close>): installing, creating, loading and handing on an account; none is ever replaced, and what is
    handed on is one scope's credentials.
  \<^item> \<open>Endpoint_Registry\<close> (\<open>cli/src/endpoint_registry.rs\<close>), \<open>Endpoint_Identity\<close> (\<open>cli/src/identity.rs\<close>): markers of served
    endpoints, and the identity that is generated once and kept.
  \<^item> \<open>Catalog\<close> (\<open>cli/src/sync/state_catalog.rs\<close>): the stored catalog, the merge of a refresh with concurrent
    saves (equal to a reference merge), and the resolution of machines. What is read and what is saved is tied to
    the key of the session.
  \<^item> \<open>Ssh_State\<close> (\<open>cli/src/ssh/state.rs\<close>, \<open>account.rs\<close>): who may use SSH, the host key, and the pins.

  \<^bold>\<open>Discovery and publication.\<close>

  \<^item> \<open>Sync_Http\<close> (\<open>cli/src/sync/http.rs\<close>): the client over any transport.
  \<^item> \<open>Refresh\<close> (\<open>cli/src/sync/refresh.rs\<close>): listing, bounded fetching, opening and saving; renewal of one attachment. The file that a
    run leaves holds only records that the run can justify.
  \<^item> \<open>Service\<close>: the client and the Worker composed; the locale \<open>record_service\<close> is the contract between them.
  \<^item> \<open>Attached_Version\<close>, \<open>Publisher\<close> (\<open>cli/src/attached_version.rs\<close>, \<open>cli/src/sync/publisher.rs\<close>): publication; what is published on a
    healthy service is what a consumer attaches to.
  \<^item> \<open>Publisher_Descriptor\<close> (\<open>cli/src/publisher_descriptor.rs\<close>): the lease that connections share; its concurrent callers are
    the steps of an inductive relation, and its invariant is proved by rule induction.

  \<^bold>\<open>Updates.\<close>

  \<^item> \<open>Client_Transport\<close> (\<open>cli/src/client_transport.rs\<close>): the lease of the local network broker that an endpoint needs; acquiring it
    ends in bounded time.
  \<^item> \<open>Remote_Update\<close> (\<open>cli/src/remote_update.rs\<close>, \<open>cli/src/sync/attached_update.rs\<close>): the client. It binds its endpoint by a lease, ends
    within its deadlines and the two waits that the code does not limit, and believes only what the peer vouched for.
  \<^item> \<open>Update_Handoff\<close> (\<open>cli/src/installation.rs\<close>, \<open>serve_handoff.rs\<close>, \<open>server.rs\<close>): the executable, its rollback copy and
    the hand-over to a candidate process: all or nothing. A preparation that exceeds its deadline leaves its thread at work (\<open>abandoned\<close>); it
    is followed to its end by itself, not interleaved with the steps of a later request.

  \<^bold>\<open>Integration with other programs.\<close>

  \<^item> \<open>Herdr_Source\<close> (\<open>herdr-plugin/src/attached.rs\<close>, \<open>state.rs\<close>): the snapshot of machines and the plugin's stored state.
  \<^item> \<open>Herdr_Discovery\<close> (\<open>herdr-plugin/src/discovery.rs\<close> and the rounds of \<open>app.rs\<close>): the reconciler over any registry. The
    locale \<open>machine_registry\<close> is the contract with the registry; it is interpreted on every registry whose calls are
    logged, and shows what the reconciler may remove.
  \<^item> \<open>Herdr_Core\<close> (\<open>herdr-plugin/src/core.rs\<close>, the message of \<open>herdr.rs\<close>): the registry behind one command-line program.
  \<^item> \<open>Managed_Config\<close> (\<open>cli/src/ssh/configuration.rs\<close>, the listing of \<open>host_picker.rs\<close>): the reversible entry in the
    user's OpenSSH configuration, and the exported snapshot, which the reader of \<open>Herdr_Source\<close> accepts.

  \<^bold>\<open>Bounds and termination.\<close> No definition has fuel. Retries are recursions over their number
  (three attempts to fetch a record); loops over data are structural; the waiting loops of an update and of
  the broker's start terminate because every turn takes time and the deadline is fixed; the texts of numbers, the groups of an
  address and the trimming of white space have measures. Concurrency appears as arbitrary sequences of steps
  (leases, edits of the user during a replacement) or as a transport that may answer anything
  (the concurrent fetches of a refresh).

  \<^bold>\<open>Not modelled.\<close> Argument parsing and dispatch (\<open>cli.rs\<close>, \<open>main.rs\<close>, \<open>config.rs\<close>); SSH sessions, pseudo terminals and
  probes over \<open>russh\<close> (\<open>ssh/client.rs\<close>, \<open>ssh/exec.rs\<close>, \<open>ssh/probe.rs\<close>); the long-running export loop (\<open>ssh/export.rs\<close>); the
  asynchronous broker, its sockets and the connections made over it (\<open>client_broker.rs\<close>, \<open>client_ipc.rs\<close>, \<open>client_transport.rs\<close> after the lease); copying
  bytes between streams (\<open>forward.rs\<close>, \<open>proxy.rs\<close>); process control (\<open>bounded_process.rs\<close>, and \<open>lifecycle.rs\<close> and \<open>process.rs\<close> of
  the plugin); reports (\<open>diagnostics.rs\<close>, \<open>doctor.rs\<close>); the clipboard; and the end-to-end test driver. They are sockets,
  signals, threads and output around the modelled parts, and their outcomes are inputs of the models. Left
  out throughout are debug output, log lines, display texts of errors and the erasure of secrets from memory.
\<close>

end
